(* ===== verification/Prelude.thy ===== *)
theory Prelude
  imports Main "HOL-Library.Word" "HOL-Library.Monad_Syntax"
begin

unbundle bit_operations_syntax

text \<open>
  What every component of the development shares: bytes, C integers, the memory a
  pointer may reach, the assertion macro, and the simplification collections.

  A C operation is a function into \<open>option\<close>. \<open>None\<close> stands for a run that has no
  defined result: a failed \<open>ASSERT\<close> (\<open>fcgimisc.h\<close>: \<open>assert\<close>, which aborts), a read or a
  write outside the object a pointer points into, a signed overflow, a null dereference,
  a call of \<open>exit\<close>, or a loop or a system call that never ends. \<open>Some\<close> carries the value
  and the state after a normal return, whatever error code the code returns.

  A C \<open>int\<close> is an \<open>int\<close>; the few expressions that can leave 32 bits say so. A pointer into
  a buffer is an offset into the list of its bytes.
\<close>

type_synonym byte = "8 word"

named_theorems mem_simps \<open>reads and writes of memory blocks\<close>
named_theorems run_simps \<open>evaluation of straight-line code in the option monad\<close>
named_theorems inv_intros \<open>operations that keep a component's invariant\<close>

section \<open>C integers\<close>

text \<open>\<open>(unsigned char) i\<close>, and the range of a 32-bit \<open>int\<close>.\<close>

definition uchar :: "int \<Rightarrow> byte" where
  "uchar i = word_of_int i"

definition INT_MAX :: int where
  "INT_MAX = 2147483647"

definition EOF :: int where
  "EOF = -1"

definition fits_int :: "int \<Rightarrow> bool" where
  "fits_int i \<longleftrightarrow> - 2147483648 \<le> i \<and> i \<le> INT_MAX"

text \<open>Signed arithmetic that must stay in range: outside it the C is undefined.\<close>

definition int_checked :: "int \<Rightarrow> int option" where
  "int_checked i = (if fits_int i then Some i else None)"

text \<open>The \<open>ASSERT\<close> macro.\<close>

definition ASSERT :: "bool \<Rightarrow> unit option" where
  "ASSERT b = (if b then Some () else None)"

lemma ASSERT_simps [simp]:
  "ASSERT True = Some ()"
  "ASSERT False = None"
  by (simp_all add: ASSERT_def)

lemma ASSERT_eq_Some [simp]: "ASSERT b = Some u \<longleftrightarrow> b"
  by (simp add: ASSERT_def)

lemma bind_ASSERT [simp]: "b \<Longrightarrow> (do { ASSERT b; m }) = m"
  by (simp add: ASSERT_def)

lemmas bind_Some_iff = Option.bind_eq_Some_conv

lemma EOF_neq_uint [simp]:
  "uint (c :: byte) \<noteq> EOF"
  "EOF \<noteq> uint (c :: byte)"
  unfolding EOF_def using uint_ge_0 [of c] by linarith+

lemma uchar_uint [simp]: "uchar (uint c) = c"
  by (simp add: uchar_def)

lemma uint_uchar: "uint (uchar i) = i mod 256"
  by (simp add: uchar_def uint_word_of_int)

lemma uint_byte_bound: "uint (c :: byte) < 256"
  using uint_bounded [of c] by simp

lemma int_checked_eq_Some: "int_checked i = Some j \<longleftrightarrow> fits_int i \<and> j = i"
  by (auto simp: int_checked_def)

section \<open>Memory blocks\<close>

text \<open>
  \<open>deref m i\<close> is \<open>m[i]\<close>, \<open>memread off n m\<close> reads \<open>n\<close> bytes at \<open>m + off\<close> (the source of a
  \<open>memcpy\<close>), \<open>memwrite off bs m\<close> writes the bytes \<open>bs\<close> at \<open>m + off\<close> (its target). Each is
  \<open>None\<close> when it leaves the block.
\<close>

definition deref :: "'a list \<Rightarrow> nat \<Rightarrow> 'a option" where
  "deref m i = (if i < length m then Some (m ! i) else None)"

definition memread :: "nat \<Rightarrow> nat \<Rightarrow> 'a list \<Rightarrow> 'a list option" where
  "memread off n m = (if off + n \<le> length m then Some (take n (drop off m)) else None)"

definition memwrite :: "nat \<Rightarrow> 'a list \<Rightarrow> 'a list \<Rightarrow> 'a list option" where
  "memwrite off bs m =
     (if off + length bs \<le> length m
      then Some (take off m @ bs @ drop (off + length bs) m) else None)"

text \<open>The bytes of a block from one offset up to, not including, another.\<close>

definition seg :: "nat \<Rightarrow> nat \<Rightarrow> 'a list \<Rightarrow> 'a list" where
  "seg a b m = take (b - a) (drop a m)"

lemma deref_Some [simp]: "i < length m \<Longrightarrow> deref m i = Some (m ! i)"
  by (simp add: deref_def)

lemma deref_eq_Some: "deref m i = Some x \<longleftrightarrow> i < length m \<and> x = m ! i"
  by (auto simp: deref_def)

lemma memread_Some: "off + n \<le> length m \<Longrightarrow> memread off n m = Some (seg off (off + n) m)"
  by (simp add: memread_def seg_def)

lemma memread_eq_Some:
  "memread off n m = Some bs \<longleftrightarrow> off + n \<le> length m \<and> bs = seg off (off + n) m"
  by (auto simp: memread_def seg_def)

lemma memwrite_Some:
  "off + length bs \<le> length m \<Longrightarrow>
     memwrite off bs m = Some (take off m @ bs @ drop (off + length bs) m)"
  by (simp add: memwrite_def)

lemma memwrite_eq_Some:
  "memwrite off bs m = Some m' \<longleftrightarrow>
     off + length bs \<le> length m \<and> m' = take off m @ bs @ drop (off + length bs) m"
  by (auto simp: memwrite_def)

lemma length_seg [simp]: "b \<le> length m \<Longrightarrow> length (seg a b m) = b - a"
  by (simp add: seg_def)

lemma seg_empty [simp]: "b \<le> a \<Longrightarrow> seg a b m = []"
  by (simp add: seg_def)

lemma seg_append: "a \<le> b \<Longrightarrow> b \<le> c \<Longrightarrow> seg a b m @ seg b c m = seg a c m"
proof -
  assume ab: "a \<le> b" and bc: "b \<le> c"
  have "take (b - a + (c - b)) (drop a m) = take (b - a) (drop a m) @ take (c - b) (drop (b - a) (drop a m))"
    by (rule take_add)
  with ab bc show ?thesis by (simp add: seg_def)
qed

lemma seg_Cons: "a < b \<Longrightarrow> a < length m \<Longrightarrow> seg a b m = m ! a # seg (Suc a) b m"
  by (simp add: seg_def Cons_nth_drop_Suc [symmetric] take_Cons' Suc_diff_Suc)

lemma seg_eq_Nil: "b \<le> length m \<Longrightarrow> seg a b m = [] \<longleftrightarrow> b \<le> a"
  by (auto simp: seg_def)

lemma memwrite_length [mem_simps]: "memwrite off bs m = Some m' \<Longrightarrow> length m' = length m"
  by (auto simp: memwrite_eq_Some)

lemma seg_memwrite_before [mem_simps]:
  "memwrite off bs m = Some m' \<Longrightarrow> b \<le> off \<Longrightarrow> seg a b m' = seg a b m"
  by (auto simp: memwrite_eq_Some seg_def drop_take)

lemma seg_memwrite_at [mem_simps]:
  "memwrite off bs m = Some m' \<Longrightarrow> seg off (off + length bs) m' = bs"
  by (auto simp: memwrite_eq_Some seg_def)

text \<open>A write at the end of a range extends the range by what is written.\<close>

lemma seg_memwrite_extend [mem_simps]:
  "memwrite off bs m = Some m' \<Longrightarrow> a \<le> off \<Longrightarrow>
     seg a (off + length bs) m' = seg a off m @ bs"
  using seg_append [of a off "off + length bs" m']
  by (simp add: seg_memwrite_before seg_memwrite_at)

lemma memwrite_0 [simp]: "memwrite 0 bs m = Some m' \<Longrightarrow> take (length bs) m' = bs"
  by (auto simp: memwrite_eq_Some)

text \<open>A write right after a known front part of the block.\<close>

lemma memwrite_append:
  "length bs \<le> length post \<Longrightarrow> off = length pre \<Longrightarrow>
     memwrite off bs (pre @ post) = Some (pre @ bs @ drop (length bs) post)"
  by (simp add: memwrite_def)

section \<open>C strings\<close>

text \<open>The string a pointer to a block denotes: the bytes before the first zero.\<close>

definition c_str :: "byte list \<Rightarrow> byte list" where
  "c_str bs = takeWhile (\<lambda>b. b \<noteq> 0) bs"

text \<open>The bytes of a string literal.\<close>

definition bytes_of :: "string \<Rightarrow> byte list" where
  "bytes_of = map (\<lambda>c. of_nat (of_char c))"

lemma c_str_id [simp]: "0 \<notin> set bs \<Longrightarrow> c_str bs = bs"
  by (simp add: c_str_def takeWhile_eq_all_conv) (metis)

lemma length_bytes_of [simp]: "length (bytes_of s) = length s"
  by (simp add: bytes_of_def)

text \<open>
  \<open>strlen\<close> of a block and \<open>strncmp(a, b, n) == 0\<close> of two; both read past the block when it
  holds no terminating zero where they need one.
\<close>

fun strlen :: "byte list \<Rightarrow> nat option" where
  "strlen [] = None"
| "strlen (b # bs) = (if b = 0 then Some 0 else map_option Suc (strlen bs))"

fun strncmp_eq :: "byte list \<Rightarrow> byte list \<Rightarrow> nat \<Rightarrow> bool option" where
  "strncmp_eq a b 0 = Some True"
| "strncmp_eq (x # a) (y # b) (Suc n) =
     (if x \<noteq> y then Some False else if x = 0 then Some True else strncmp_eq a b n)"
| "strncmp_eq _ _ (Suc n) = None"

lemma strlen_terminated: "0 \<notin> set bs \<Longrightarrow> strlen (bs @ 0 # m) = Some (length bs)"
  by (induction bs) auto

lemma c_str_terminated [simp]: "0 \<notin> set bs \<Longrightarrow> c_str (bs @ 0 # m) = bs"
  by (induction bs) (auto simp: c_str_def)

lemma c_str_append_0: "c_str (bs @ [0]) = c_str bs"
  by (induction bs) (auto simp: c_str_def)

text \<open>A terminated block that begins with the zero-free string \<open>a\<close> is what \<open>strncmp\<close> finds equal.\<close>

lemma strncmp_eq_prefix:
  "0 \<notin> set a \<Longrightarrow> 0 \<in> set b \<Longrightarrow>
     strncmp_eq (a @ m) b (length a) = Some (take (length a) b = a)"
proof (induction a arbitrary: b)
  case (Cons x a)
  then show ?case by (cases b) auto
qed simp

end
