(* ===== verification/StrTran.thy ===== *)
theory StrTran
  imports Prelude
begin

text \<open>
  \<open>EL_STRTRAN\<close> of \<open>hb_fcgi/el_strtran.c\<close>: replace occurrences of a string in a text, from the
  \<open>nStart\<close>-th on, at most \<open>nCount\<close> of them, with or without regard to case.

  The code scans the text twice: \<open>Tran_search\<close> counts the occurrences and fixes the size of the
  result, \<open>Tran_build\<close> writes it into a buffer of that size. \<open>str_tran\<close> is the specification, one
  recursion over the next occurrence; \<open>EL_STRTRAN_spec\<close> shows that both scans end, that the buffer
  is filled exactly and never overrun, and that the result is \<open>str_tran\<close>, except that an occurrence
  which is skipped is written as the string sought (\<open>tran_seek\<close>, \<open>EL_STRTRAN_changes_case\<close>).

  A Harbour string parameter that is missing or of another type is \<open>None\<close>. Sizes are unbounded
  numbers: the text and the result fit in memory. \<open>toupper\<close> is that of the C
  locale; the source passes it a plain \<open>char\<close>, and the bytes above 127, which are negative there, are
  taken to stay as they are, as in glibc.
\<close>

section \<open>Code\<close>

definition toupper :: "byte \<Rightarrow> byte" where
  "toupper c = (if 97 \<le> c \<and> c \<le> 122 then c - 32 else c)"

text \<open>The comparison of two characters; \<open>cs\<close> is \<open>iCaseSensitiveTest\<close>.\<close>

definition same_char :: "bool \<Rightarrow> byte \<Rightarrow> byte \<Rightarrow> bool" where
  "same_char cs a b = (if cs then a = b else toupper a = toupper b)"

text \<open>The first scan: how many occurrences are found and how many of them are replaced.\<close>

partial_function (option) Tran_search ::
  "bool \<Rightarrow> byte list \<Rightarrow> byte list \<Rightarrow> int \<Rightarrow> nat \<Rightarrow> nat \<Rightarrow> nat \<Rightarrow> nat \<Rightarrow> int \<Rightarrow> (nat \<times> nat) option" where
  "Tran_search cs szText szSeek nStart nT nS nFound nReplaced nCount =
     (if nT < length szText \<and> length szText - nT \<ge> length szSeek - nS then
        do { t \<leftarrow> deref szText nT;
             c \<leftarrow> deref szSeek nS;
             if same_char cs t c then
               let nT = nT + 1; nS = nS + 1 in
               if nS = length szSeek then
                 let nFound = nFound + 1 in
                 if int nFound \<ge> nStart then
                   let nReplaced = nReplaced + 1; nCount = nCount - 1;
                       nT = (if nCount = 0 then length szText else nT) in
                   Tran_search cs szText szSeek nStart nT 0 nFound nReplaced nCount
                 else Tran_search cs szText szSeek nStart nT 0 nFound nReplaced nCount
               else Tran_search cs szText szSeek nStart nT nS nFound nReplaced nCount
             else if nS \<noteq> 0 then
               do { ASSERT (nS - 1 \<le> nT);
                    Tran_search cs szText szSeek nStart (nT - (nS - 1)) 0 nFound nReplaced nCount }
             else Tran_search cs szText szSeek nStart (nT + 1) nS nFound nReplaced nCount }
      else Some (nFound, nReplaced))"

declare Tran_search.simps [code]

text \<open>
  The second scan. \<open>out\<close> is what has been written to \<open>szResult\<close>, a block of \<open>nLength + 1\<close> bytes;
  \<open>Tran_put\<close> appends to it and fails when it would leave the block.
\<close>

definition Tran_put :: "nat \<Rightarrow> byte list \<Rightarrow> byte list \<Rightarrow> byte list option" where
  "Tran_put nLength out bs = (if length out + length bs \<le> nLength + 1 then Some (out @ bs) else None)"

partial_function (option) Tran_build ::
  "bool \<Rightarrow> byte list \<Rightarrow> byte list \<Rightarrow> byte list \<Rightarrow> nat \<Rightarrow> nat \<Rightarrow> nat \<Rightarrow> nat \<Rightarrow> nat \<Rightarrow> byte list
     \<Rightarrow> byte list option" where
  "Tran_build cs szText szSeek szReplace nLength nT nS nFound nReplaced out =
     do { t \<leftarrow> deref szText nT;
          same \<leftarrow> (if nReplaced \<noteq> 0 then do { c \<leftarrow> deref szSeek nS; Some (same_char cs t c) }
                  else Some False);
          (nT, nS, nFound, nReplaced, out) \<leftarrow>
            (if same then
               let nT = nT + 1; nS = nS + 1 in
               if nS = length szSeek then
                 (if nFound \<noteq> 0 then
                    do { out \<leftarrow> Tran_put nLength out szSeek; Some (nT, 0, nFound - 1, nReplaced, out) }
                  else
                    do { out \<leftarrow> Tran_put nLength out szReplace; Some (nT, 0, nFound, nReplaced - 1, out) })
               else Some (nT, nS, nFound, nReplaced, out)
             else
               do { ASSERT (nS \<le> nT);
                    let nT = nT - nS;
                    t \<leftarrow> deref szText nT;
                    out \<leftarrow> Tran_put nLength out [t];
                    Some (nT + 1, 0, nFound, nReplaced, out) });
          if nT < length szText
          then Tran_build cs szText szSeek szReplace nLength nT nS nFound nReplaced out
          else Some out }"

declare Tran_build.simps [code]

text \<open>
  The whole function on its parameters. \<open>Inl ()\<close> is the run-time error for missing strings. The
  result is the first \<open>nLength\<close> bytes of the buffer, which must all have been written.
\<close>

definition EL_STRTRAN ::
  "byte list option \<Rightarrow> byte list option \<Rightarrow> byte list option \<Rightarrow> int option \<Rightarrow> int option \<Rightarrow> int option
     \<Rightarrow> (unit + byte list) option" where
  "EL_STRTRAN pText pSeek pReplace pStart pCount pFlag =
     (case (pText, pSeek) of
        (Some szText, Some szSeek) \<Rightarrow>
          let nStart = (case pStart of None \<Rightarrow> 1 | Some n \<Rightarrow> n);
              nCount = (case pCount of None \<Rightarrow> -1 | Some n \<Rightarrow> n);
              nFlag = (case pFlag of None \<Rightarrow> 0 | Some n \<Rightarrow> n);
              nStart = (if nStart \<le> 0 then 1 else nStart);
              cs = (nFlag \<noteq> 1) in
          if nStart \<noteq> 0 \<and> nCount \<noteq> 0 then
            let nText = length szText; nSeek = length szSeek in
            if nSeek \<noteq> 0 \<and> nSeek \<le> nText \<and> nStart > 0 then
              let szReplace = (case pReplace of None \<Rightarrow> [] | Some s \<Rightarrow> s); nReplace = length szReplace in
              do { (nFound, nReplaced) \<leftarrow> Tran_search cs szText szSeek nStart 0 0 0 0 nCount;
                   if nReplaced \<noteq> 0 then
                     let nLength = (if nSeek > nReplace then nText - (nSeek - nReplace) * nReplaced
                                    else nText + (nReplace - nSeek) * nReplaced) in
                     if nLength \<noteq> 0 then
                       do { out \<leftarrow> Tran_build cs szText szSeek szReplace nLength 0 0 (nFound - nReplaced) nReplaced [];
                            bs \<leftarrow> memread 0 nLength out;
                            Some (Inr bs) }
                     else Some (Inr [])
                   else Some (Inr szText) }
            else Some (Inr szText)
          else Some (Inr [])
      | _ \<Rightarrow> Some (Inl ()))"

section \<open>Specification\<close>

text \<open>\<open>occurs\<close>: the text begins with the string; \<open>next_occ\<close>: the least offset where it does.\<close>

definition occurs :: "bool \<Rightarrow> byte list \<Rightarrow> byte list \<Rightarrow> bool" where
  "occurs cs seek str \<longleftrightarrow> length seek \<le> length str \<and> list_all2 (same_char cs) (take (length seek) str) seek"

fun next_occ :: "bool \<Rightarrow> byte list \<Rightarrow> byte list \<Rightarrow> nat option" where
  "next_occ cs seek [] = None"
| "next_occ cs seek (x # xs) =
     (if occurs cs seek (x # xs) then Some 0 else map_option Suc (next_occ cs seek xs))"

lemma next_occ_bound:
  "next_occ cs seek str = Some i \<Longrightarrow> seek \<noteq> [] \<Longrightarrow>
     i < length str \<and> i + length seek \<le> length str \<and> length str - (i + length seek) < length str"
  by (induction str arbitrary: i) (fastforce simp: occurs_def split: if_splits)+

text \<open>
  \<open>str_tran\<close>: the first \<open>skip\<close> occurrences stay, the following ones, at most \<open>count\<close> (all of them when
  it is negative), are replaced.
\<close>

function str_tran ::
  "bool \<Rightarrow> byte list \<Rightarrow> byte list \<Rightarrow> nat \<Rightarrow> int \<Rightarrow> byte list \<Rightarrow> byte list" where
  "str_tran cs seek rep skip count str =
     (case if seek = [] \<or> count = 0 then None else next_occ cs seek str of
        None \<Rightarrow> str
      | Some i \<Rightarrow>
          let rest = drop (i + length seek) str in
          if skip \<noteq> 0 then take (i + length seek) str @ str_tran cs seek rep (skip - 1) count rest
          else take i str @ rep @ str_tran cs seek rep 0 (count - 1) rest)"
  by pat_completeness auto
termination
  by (relation "measure (\<lambda>(cs, seek, rep, skip, count, str). length str)")
    (auto split: if_splits dest!: next_occ_bound)

declare str_tran.simps [simp del]

lemma occurs_at:
  "st \<le> length str \<Longrightarrow> occurs cs seek (drop st str) \<longleftrightarrow>
     st + length seek \<le> length str \<and> (\<forall>j < length seek. same_char cs (str ! (st + j)) (seek ! j))"
  by (auto simp: occurs_def list_all2_conv_all_nth)

lemma next_occ_at:
  "next_occ cs seek (drop st str) =
     (if st < length str then
        if occurs cs seek (drop st str) then Some 0 else map_option Suc (next_occ cs seek (drop (Suc st) str))
      else None)"
proof (cases "st < length str")
  case True
  then obtain x where "drop st str = x # drop (Suc st) str"
    by (metis Cons_nth_drop_Suc)
  with True show ?thesis by simp
qed simp

text \<open>\<open>nS\<close> characters of \<open>seek\<close> have been found at \<open>st\<close>.\<close>

definition matched :: "bool \<Rightarrow> byte list \<Rightarrow> byte list \<Rightarrow> nat \<Rightarrow> nat \<Rightarrow> bool" where
  "matched cs seek str st nS \<longleftrightarrow> nS < length seek \<and> st + nS \<le> length str
     \<and> (\<forall>j < nS. same_char cs (str ! (st + j)) (seek ! j))"

lemma matched_0 [simp]: "matched cs seek str st 0 \<longleftrightarrow> seek \<noteq> [] \<and> st \<le> length str"
  by (auto simp: matched_def)

lemma matched_Suc:
  "matched cs seek str st nS \<Longrightarrow> st + nS < length str \<Longrightarrow> same_char cs (str ! (st + nS)) (seek ! nS) \<Longrightarrow>
     Suc nS < length seek \<Longrightarrow> matched cs seek str st (Suc nS)"
  by (auto simp: matched_def less_Suc_eq)

lemma matched_occurs:
  "matched cs seek str st nS \<Longrightarrow> st + nS < length str \<Longrightarrow> same_char cs (str ! (st + nS)) (seek ! nS) \<Longrightarrow>
     Suc nS = length seek \<Longrightarrow> occurs cs seek (drop st str)"
  by (subst occurs_at) (auto simp: matched_def, metis less_SucE)

lemma matched_differs:
  "matched cs seek str st nS \<Longrightarrow> \<not> same_char cs (str ! (st + nS)) (seek ! nS) \<Longrightarrow>
     \<not> occurs cs seek (drop st str)"
  by (subst occurs_at) (auto simp: matched_def)

text \<open>One turn of the first scan.\<close>

lemma Tran_search_turn:
  assumes "matched cs seek str st nS" "st + length seek \<le> length str"
  shows "Tran_search cs str seek nStart (st + nS) nS nFound nReplaced nCount =
     (if \<not> same_char cs (str ! (st + nS)) (seek ! nS) then
        Tran_search cs str seek nStart (Suc st) 0 nFound nReplaced nCount
      else if Suc nS \<noteq> length seek then
        Tran_search cs str seek nStart (st + Suc nS) (Suc nS) nFound nReplaced nCount
      else if nStart \<le> int (Suc nFound) then
        Tran_search cs str seek nStart (if nCount = 1 then length str else st + Suc nS) 0
          (Suc nFound) (Suc nReplaced) (nCount - 1)
      else Tran_search cs str seek nStart (st + Suc nS) 0 (Suc nFound) nReplaced nCount)"
proof -
  have lt: "st + nS < length str" "nS < length seek" "length seek - nS \<le> length str - (st + nS)"
    using assms by (auto simp: matched_def)
  have d: "deref str (st + nS) = Some (str ! (st + nS))" "deref seek nS = Some (seek ! nS)"
    using lt by simp_all
  have b: "nS \<noteq> 0 \<Longrightarrow> st + nS - (nS - 1) = Suc st" by simp
  show ?thesis
  proof (cases "same_char cs (str ! (st + nS)) (seek ! nS)")
    case False
    then show ?thesis
      by (subst Tran_search.simps, cases "nS = 0"; use lt d b in \<open>simp add: Let_def\<close>)
  next
    case same: True
    show ?thesis
    proof (cases "Suc nS = length seek")
      case True
      then have "length seek = Suc nS" by simp
      with same lt d show ?thesis
        by (subst Tran_search.simps) (simp add: Let_def)
    next
      case False
      with same lt d show ?thesis
        by (subst Tran_search.simps) (simp add: Let_def)
    qed
  qed
qed

lemma Tran_search_stop:
  "length str < st + length seek \<Longrightarrow> nS \<le> length seek \<Longrightarrow>
     Tran_search cs str seek nStart (st + nS) nS nFound nReplaced nCount = Some (nFound, nReplaced)"
  by (subst Tran_search.simps) auto

lemma occurs_bound: "next_occ cs seek (drop st str) = Some i \<Longrightarrow> seek \<noteq> [] \<Longrightarrow> st + i + length seek \<le> length str"
  using next_occ_bound [of cs seek "drop st str" i] by auto

text \<open>The first scan, from a place where an occurrence may have begun, to the next occurrence.\<close>

lemma Tran_search_next:
  assumes "matched cs seek str st nS" "next_occ cs seek (drop st str) = Some i"
  shows "Tran_search cs str seek nStart (st + nS) nS nFound nReplaced nCount =
     (if nStart \<le> int (nFound + 1) then
        Tran_search cs str seek nStart (if nCount = 1 then length str else st + i + length seek) 0
          (nFound + 1) (nReplaced + 1) (nCount - 1)
      else Tran_search cs str seek nStart (st + i + length seek) 0 (nFound + 1) nReplaced nCount)"
  using assms
proof (induction "i * Suc (length seek) + (length seek - nS)" arbitrary: st nS i rule: less_induct)
  case less
  have ne: "seek \<noteq> []" using less.prems(1) by (auto simp: matched_def)
  note fit = occurs_bound [OF less.prems(2) ne]
  have sl: "st < length str" using fit ne by (cases seek) auto
  note turn = Tran_search_turn [OF less.prems(1)]
  show ?case
  proof (cases "same_char cs (str ! (st + nS)) (seek ! nS)")
    case False
    with less.prems(2) matched_differs [OF less.prems(1)] sl obtain i' where
      i': "i = Suc i'" "next_occ cs seek (drop (Suc st) str) = Some i'"
      by (auto simp: next_occ_at [of cs seek st])
    have "matched cs seek str (Suc st) 0" using sl ne by simp
    from less.hyps [OF _ this i'(2)] i'(1) turn False fit show ?thesis by simp
  next
    case same: True
    have in_text: "st + nS < length str" using less.prems(1) fit by (auto simp: matched_def)
    show ?thesis
    proof (cases "Suc nS = length seek")
      case True
      from matched_occurs [OF less.prems(1) in_text same True] sl less.prems(2) have "i = 0"
        by (simp add: next_occ_at [of cs seek st])
      with turn same True fit show ?thesis by simp
    next
      case False
      with less.prems(1) have "Suc nS < length seek" by (auto simp: matched_def)
      from matched_Suc [OF less.prems(1) in_text same this]
      have "matched cs seek str st (Suc nS)" .
      from less.hyps [OF _ this less.prems(2)] \<open>Suc nS < length seek\<close> turn same False fit
      show ?thesis by simp
    qed
  qed
qed

lemma Tran_search_none:
  assumes "matched cs seek str st nS" "next_occ cs seek (drop st str) = None"
  shows "Tran_search cs str seek nStart (st + nS) nS nFound nReplaced nCount = Some (nFound, nReplaced)"
  using assms
proof (induction "(length str - st) * Suc (length seek) + (length seek - nS)" arbitrary: st nS rule: less_induct)
  case less
  have ne: "seek \<noteq> []" "nS < length seek" "st + nS \<le> length str"
    using less.prems(1) by (auto simp: matched_def)
  show ?case
  proof (cases "st + length seek \<le> length str")
    case False
    with ne show ?thesis by (intro Tran_search_stop) auto
  next
    case fit: True
    with ne have sl: "st < length str" by (cases seek) auto
    then have no: "\<not> occurs cs seek (drop st str)" "next_occ cs seek (drop (Suc st) str) = None"
      using less.prems(2) by (auto simp: next_occ_at [of cs seek st] split: if_splits)
    note turn = Tran_search_turn [OF less.prems(1) fit]
    show ?thesis
    proof (cases "same_char cs (str ! (st + nS)) (seek ! nS)")
      case False
      have m: "matched cs seek str (Suc st) 0" using sl ne(1) by simp
      have "length str - st = Suc (length str - Suc st)" using sl by simp
      with less.hyps [OF _ m no(2)] turn False show ?thesis by simp
    next
      case same: True
      have in_text: "st + nS < length str" using ne fit by auto
      have "Suc nS \<noteq> length seek"
        using matched_occurs [OF less.prems(1) in_text same] no(1) by auto
      then have "Suc nS < length seek" using ne by simp
      from less.hyps [OF _ matched_Suc [OF less.prems(1) in_text same this] less.prems(2)] this turn same
      show ?thesis by simp
    qed
  qed
qed

text \<open>How many occurrences the first scan finds and replaces in \<open>str\<close>.\<close>

function counts :: "bool \<Rightarrow> byte list \<Rightarrow> nat \<Rightarrow> int \<Rightarrow> byte list \<Rightarrow> nat \<times> nat" where
  "counts cs seek skip count str =
     (case if seek = [] \<or> count = 0 then None else next_occ cs seek str of
        None \<Rightarrow> (0, 0)
      | Some i \<Rightarrow>
          let rest = drop (i + length seek) str in
          if skip \<noteq> 0 then apfst Suc (counts cs seek (skip - 1) count rest)
          else map_prod Suc Suc (counts cs seek 0 (count - 1) rest))"
  by pat_completeness auto
termination
  by (relation "measure (\<lambda>(cs, seek, skip, count, str). length str)")
    (auto split: if_splits dest!: next_occ_bound)

declare counts.simps [simp del]

lemma counts_0 [simp]: "counts cs seek skip 0 str = (0, 0)"
  by (simp add: counts.simps)

lemma Tran_search_counts:
  assumes "seek \<noteq> []" "count \<noteq> 0" "st \<le> length str"
  shows "Tran_search cs str seek nStart st 0 nFound nReplaced count =
    (case counts cs seek (nat (nStart - 1 - int nFound)) count (drop st str) of
       (f, r) \<Rightarrow> Some (nFound + f, nReplaced + r))"
  using assms
proof (induction "length str - st" arbitrary: st nFound nReplaced count rule: less_induct)
  case less
  have m: "matched cs seek str st 0" using less.prems by simp
  show ?case
  proof (cases "next_occ cs seek (drop st str)")
    case None
    with Tran_search_none [OF m None] less.prems show ?thesis
      by (simp add: counts.simps [of cs seek _ count])
  next
    case (Some i)
    let ?st = "st + i + length seek"
    have b: "?st \<le> length str" "length str - ?st < length str - st"
      using occurs_bound [OF Some less.prems(1)] less.prems(1) by (auto simp: neq_Nil_conv)
    have d: "i + length seek + st = ?st" by simp
    have stop: "Tran_search cs str seek nStart (length str) 0 f r c = Some (f, r)" for f r c
      by (subst Tran_search.simps) simp
    note step = Tran_search_next [OF m Some, of nStart nFound nReplaced count]
    note unf = counts.simps [of cs seek "nat (nStart - 1 - int nFound)" count "drop st str"]
    show ?thesis
    proof (cases "nStart \<le> int (nFound + 1)")
      case False
      have n: "nat (nStart - 1 - int nFound) - 1 = nat (nStart - 1 - int (nFound + 1))"
        "nat (nStart - 1 - int nFound) \<noteq> 0"
        using False by auto
      from less.hyps [OF b(2) less.prems(1,2) b(1), of "nFound + 1" nReplaced] step False n Some less.prems
      show ?thesis unfolding unf n by (simp add: Let_def d split: prod.split)
    next
      case True
      then have n: "nat (nStart - 1 - int nFound) = 0" "nat (nStart - 1 - int (nFound + 1)) = 0" by auto
      show ?thesis
      proof (cases "count = 1")
        case 1: True
        with step True n Some less.prems show ?thesis unfolding unf by (simp add: stop)
      next
        case False
        with less.hyps [OF b(2) less.prems(1) _ b(1), of "count - 1" "nFound + 1" "nReplaced + 1"]
          step True n Some less.prems
        show ?thesis unfolding unf by (simp add: Let_def d split: prod.split)
      qed
    qed
  qed
qed

section \<open>The second scan\<close>

lemma Tran_put_ok: "length out + length bs \<le> nLength + 1 \<Longrightarrow> Tran_put nLength out bs = Some (out @ bs)"
  by (simp add: Tran_put_def)

text \<open>The rest of the text, once all replacements have been made.\<close>

lemma Tran_build_rest:
  assumes "st < length str" "length out + (length str - st) \<le> nLength + 1"
  shows "Tran_build cs str seek rep nLength st 0 f 0 out = Some (out @ drop st str)"
  using assms
proof (induction "length str - st" arbitrary: st out)
  case (Suc n)
  have "drop st str = str ! st # drop (Suc st) str" using Suc.prems by (simp add: Cons_nth_drop_Suc)
  moreover have "Suc st < length str \<Longrightarrow> Tran_build cs str seek rep nLength (Suc st) 0 f 0 (out @ [str ! st])
      = Some ((out @ [str ! st]) @ drop (Suc st) str)"
    using Suc by (intro Suc.hyps(1)) auto
  moreover have "\<not> Suc st < length str \<Longrightarrow> drop (Suc st) str = []" by simp
  ultimately show ?case
    using Suc.prems by (subst Tran_build.simps) (auto simp: Tran_put_ok)
qed simp

text \<open>The second scan up to and including the next occurrence.\<close>

definition goes_on ::
  "bool \<Rightarrow> byte list \<Rightarrow> byte list \<Rightarrow> byte list \<Rightarrow> nat \<Rightarrow> nat \<Rightarrow> nat \<Rightarrow> nat \<Rightarrow> byte list \<Rightarrow> byte list option" where
  "goes_on cs str seek rep nLength nT f r out =
     (if nT < length str then Tran_build cs str seek rep nLength nT 0 f r out else Some out)"

lemma Tran_build_next:
  assumes "matched cs seek str st nS" "next_occ cs seek (drop st str) = Some i" "r \<noteq> 0"
    "length out + i + length (if f \<noteq> 0 then seek else rep) \<le> nLength + 1"
  shows "Tran_build cs str seek rep nLength (st + nS) nS f r out =
    (if f \<noteq> 0 then
       goes_on cs str seek rep nLength (st + i + length seek) (f - 1) r (out @ take i (drop st str) @ seek)
     else goes_on cs str seek rep nLength (st + i + length seek) 0 (r - 1) (out @ take i (drop st str) @ rep))"
  using assms
proof (induction "i * Suc (length seek) + (length seek - nS)" arbitrary: st nS i out rule: less_induct)
  case less
  have ne: "seek \<noteq> []" "nS < length seek" using less.prems(1) by (auto simp: matched_def)
  note fit = occurs_bound [OF less.prems(2) ne(1)]
  have sl: "st < length str" "st + nS < length str" using fit ne by (cases seek, auto)
  have d: "deref str (st + nS) = Some (str ! (st + nS))" "deref str st = Some (str ! st)"
    "deref seek nS = Some (seek ! nS)" using sl ne by simp_all
  show ?case
  proof (cases "same_char cs (str ! (st + nS)) (seek ! nS)")
    case False
    with less.prems(2) matched_differs [OF less.prems(1)] sl obtain i' where
      i': "i = Suc i'" "next_occ cs seek (drop (Suc st) str) = Some i'"
      by (auto simp: next_occ_at [of cs seek st])
    have m: "matched cs seek str (Suc st) 0" using sl ne by simp
    have "Suc st < length str" using fit i' ne by (cases seek) auto
    then have "Tran_build cs str seek rep nLength (st + nS) nS f r out
        = Tran_build cs str seek rep nLength (Suc st) 0 f r (out @ [str ! st])"
      using False d less.prems(3,4) i' by (subst Tran_build.simps) (simp add: Tran_put_ok)
    moreover have "take i (drop st str) = str ! st # take i' (drop (Suc st) str)"
      using sl by (simp add: i' Cons_nth_drop_Suc [symmetric])
    ultimately show ?thesis
      using less.hyps [OF _ m i'(2) less.prems(3), of "out @ [str ! st]"] less.prems(4) i'(1) by simp
  next
    case same: True
    show ?thesis
    proof (cases "Suc nS = length seek")
      case True
      from matched_occurs [OF less.prems(1) sl(2) same True] sl less.prems(2) have i: "i = 0"
        by (simp add: next_occ_at [of cs seek st])
      have l: "length seek = Suc nS" using True by simp
      show ?thesis
      proof (cases "f = 0")
        case True
        then have "Tran_put nLength out rep = Some (out @ rep)"
          using less.prems(4) i by (intro Tran_put_ok) simp
        then show ?thesis
          using same d less.prems(3) i l True by (subst Tran_build.simps) (simp add: goes_on_def)
      next
        case False
        then have "Tran_put nLength out seek = Some (out @ seek)"
          using less.prems(4) i by (intro Tran_put_ok) simp
        then show ?thesis
          using same d less.prems(3) i l False by (subst Tran_build.simps) (simp add: goes_on_def)
      qed
    next
      case False
      with ne have lt: "Suc nS < length seek" by simp
      have "st + Suc nS < length str" using lt fit by simp
      then have "Tran_build cs str seek rep nLength (st + nS) nS f r out
        = Tran_build cs str seek rep nLength (st + Suc nS) (Suc nS) f r out"
        using same d less.prems(3) False by (subst Tran_build.simps) simp
      with less.hyps [OF _ matched_Suc [OF less.prems(1) sl(2) same lt] less.prems(2-4)] lt show ?thesis
        by simp
    qed
  qed
qed

section \<open>The result\<close>

lemma same_char_exact [simp]: "same_char True = (=)"
  by (simp add: same_char_def fun_eq_iff)

lemma take_next_occ:
  "next_occ True seek str = Some i \<Longrightarrow> seek \<noteq> [] \<Longrightarrow> take (i + length seek) str = take i str @ seek"
  by (induction str arbitrary: i) (auto simp: occurs_def list_all2_eq [symmetric] split: if_splits)

text \<open>The next occurrence that is counted, and what \<open>counts\<close> and \<open>str_tran\<close> make of it.\<close>

definition hit :: "bool \<Rightarrow> byte list \<Rightarrow> int \<Rightarrow> byte list \<Rightarrow> nat option" where
  "hit cs seek count str = (if seek = [] \<or> count = 0 then None else next_occ cs seek str)"

lemma hit_Some: "hit cs seek count str = Some i \<longleftrightarrow> seek \<noteq> [] \<and> count \<noteq> 0 \<and> next_occ cs seek str = Some i"
  by (simp add: hit_def)

lemma on_none:
  assumes "hit cs seek count str = None"
  shows "counts cs seek skip count str = (0, 0)" "str_tran cs seek rep skip count str = str"
  using assms by (simp_all add: hit_def counts.simps [of cs seek skip count str]
      str_tran.simps [of cs seek rep skip count str])

lemma on_keep:
  assumes "hit cs seek count str = Some i"
  shows "counts cs seek (Suc skip) count str = apfst Suc (counts cs seek skip count (drop (i + length seek) str))"
    "str_tran cs seek rep (Suc skip) count str
       = take (i + length seek) str @ str_tran cs seek rep skip count (drop (i + length seek) str)"
  using assms by (simp_all add: hit_Some counts.simps [of cs seek "Suc skip" count str] Let_def
      str_tran.simps [of cs seek rep "Suc skip" count str])

lemma on_replace:
  assumes "hit cs seek count str = Some i"
  shows "counts cs seek 0 count str = map_prod Suc Suc (counts cs seek 0 (count - 1) (drop (i + length seek) str))"
    "str_tran cs seek rep 0 count str
       = take i str @ rep @ str_tran cs seek rep 0 (count - 1) (drop (i + length seek) str)"
  using assms by (simp_all add: hit_Some counts.simps [of cs seek 0 count str] Let_def
      str_tran.simps [of cs seek rep 0 count str])

lemma hit_induct [case_names none keep replace]:
  assumes "\<And>skip count str. hit cs seek count str = None \<Longrightarrow> P skip count str"
    and "\<And>skip count str i. hit cs seek count str = Some i \<Longrightarrow> P skip count (drop (i + length seek) str)
      \<Longrightarrow> P (Suc skip) count str"
    and "\<And>count str i. hit cs seek count str = Some i \<Longrightarrow> P 0 (count - 1) (drop (i + length seek) str)
      \<Longrightarrow> P 0 count str"
  shows "P skip count str"
proof (induction "length str" arbitrary: skip count str rule: less_induct)
  case less
  show ?case
  proof (cases "hit cs seek count str")
    case None
    then show ?thesis by (rule assms(1))
  next
    case (Some i)
    then have "length (drop (i + length seek) str) < length str"
      by (auto simp: hit_Some dest: next_occ_bound)
    note rest = less [OF this]
    show ?thesis
      by (cases skip) (auto intro: assms(2,3) [OF Some] rest)
  qed
qed

lemma str_tran_length:
  "length (str_tran cs seek rep skip count str) + snd (counts cs seek skip count str) * length seek
     = length str + snd (counts cs seek skip count str) * length rep"
proof (induction rule: hit_induct [of cs seek _ skip count str])
  case (keep skip count str i)
  then show ?case by (auto simp: on_keep hit_Some dest!: next_occ_bound)
next
  case (replace count str i)
  then show ?case by (auto simp: on_replace hit_Some dest!: next_occ_bound)
qed (simp add: on_none)

lemma counts_skip:
  "skip = 0 \<or> snd (counts cs seek skip count str) \<noteq> 0 \<Longrightarrow>
     fst (counts cs seek skip count str) = skip + snd (counts cs seek skip count str)"
  by (induction rule: hit_induct [of cs seek _ skip count str])
    (auto simp: on_none on_keep on_replace)

lemma none_replaced: "snd (counts cs seek skip count str) = 0 \<Longrightarrow> str_tran cs seek rep skip count str = str"
  by (induction rule: hit_induct [of cs seek _ skip count str])
    (simp_all add: on_none on_keep on_replace)

text \<open>
  What the second scan writes: an occurrence that is left as it is, is written as the string sought.
\<close>

function tran_seek ::
  "bool \<Rightarrow> byte list \<Rightarrow> byte list \<Rightarrow> nat \<Rightarrow> int \<Rightarrow> byte list \<Rightarrow> byte list" where
  "tran_seek cs seek rep skip count str =
     (case hit cs seek count str of
        None \<Rightarrow> str
      | Some i \<Rightarrow>
          let rest = drop (i + length seek) str in
          if skip \<noteq> 0 then take i str @ seek @ tran_seek cs seek rep (skip - 1) count rest
          else take i str @ rep @ tran_seek cs seek rep 0 (count - 1) rest)"
  by pat_completeness auto
termination
  by (relation "measure (\<lambda>(cs, seek, rep, skip, count, str). length str)")
    (auto simp: hit_Some dest!: next_occ_bound)

declare tran_seek.simps [simp del]

lemma seek_none: "hit cs seek count str = None \<Longrightarrow> tran_seek cs seek rep skip count str = str"
  by (simp add: tran_seek.simps)

lemma seek_hit:
  assumes "hit cs seek count str = Some i"
  shows "tran_seek cs seek rep (Suc skip) count str
      = take i str @ seek @ tran_seek cs seek rep skip count (drop (i + length seek) str)"
    "tran_seek cs seek rep 0 count str
      = take i str @ rep @ tran_seek cs seek rep 0 (count - 1) (drop (i + length seek) str)"
  using assms by (simp_all add: tran_seek.simps [of cs seek rep _ count str] Let_def)

text \<open>The occurrences that are skipped, as they stand in the text.\<close>

function skipped :: "bool \<Rightarrow> byte list \<Rightarrow> nat \<Rightarrow> int \<Rightarrow> byte list \<Rightarrow> byte list list" where
  "skipped cs seek skip count str =
     (case hit cs seek count str of
        None \<Rightarrow> []
      | Some i \<Rightarrow>
          if skip \<noteq> 0
          then take (length seek) (drop i str) # skipped cs seek (skip - 1) count (drop (i + length seek) str)
          else [])"
  by pat_completeness auto
termination
  by (relation "measure (\<lambda>(cs, seek, skip, count, str). length str)")
    (auto simp: hit_Some dest!: next_occ_bound)

declare skipped.simps [simp del]

lemma skipped_0 [simp]: "skipped cs seek 0 count str = []"
  by (simp add: skipped.simps [of cs seek 0 count str] split: option.split)

lemma tran_seek_eq:
  "tran_seek cs seek rep skip count str = str_tran cs seek rep skip count str
     \<longleftrightarrow> (\<forall>t \<in> set (skipped cs seek skip count str). t = seek)"
proof (induction rule: hit_induct [of cs seek _ skip count str])
  case (none skip count str)
  then show ?case by (simp add: seek_none on_none skipped.simps)
next
  case (keep skip count str i)
  have t: "take (i + length seek) str = take i str @ take (length seek) (drop i str)" by (rule take_add)
  have l: "length (take (length seek) (drop i str)) = length seek"
    using keep(1) by (auto simp: hit_Some dest!: next_occ_bound)
  show ?case
    using keep l by (simp add: seek_hit on_keep t skipped.simps [of cs seek "Suc skip"]) metis
next
  case (replace count str i)
  then show ?case by (simp add: seek_hit on_replace)
qed

lemma tran_seek_length:
  "length (tran_seek cs seek rep skip count str) = length (str_tran cs seek rep skip count str)"
proof (induction rule: hit_induct [of cs seek _ skip count str])
  case (keep skip count str i)
  then show ?case by (auto simp: seek_hit on_keep hit_Some dest!: next_occ_bound)
qed (simp_all add: seek_none on_none seek_hit on_replace)

lemma skipped_True: "skipped True seek skip count str = replicate (length (skipped True seek skip count str)) seek"
proof (induction rule: hit_induct [of True seek _ skip count str])
  case (keep skip count str i)
  then have "take (length seek) (drop i str) = seek"
    using take_next_occ [of seek str i] by (simp add: hit_Some take_add)
  with keep show ?case by (simp add: skipped.simps [of True seek "Suc skip"])
qed (simp_all add: skipped.simps)

lemma skipped_exact:
  assumes "cs \<or> skip = 0" "t \<in> set (skipped cs seek skip count str)"
  shows "t = seek"
proof (cases cs)
  case True
  with assms(2) skipped_True [of seek skip count str] show ?thesis
    by (metis in_set_replicate)
next
  case False
  with assms show ?thesis by simp
qed

lemma Tran_build_seek:
  assumes "seek \<noteq> []" "st < length str" "r = snd (counts cs seek skip count (drop st str))"
    "r \<noteq> 0 \<or> skip = 0" "r \<noteq> 0 \<longrightarrow> f = skip"
    "length out + length (tran_seek cs seek rep skip count (drop st str)) \<le> nLength + 1"
  shows "Tran_build cs str seek rep nLength st 0 f r out
    = Some (out @ tran_seek cs seek rep skip count (drop st str))"
  using assms
proof (induction "length str - st" arbitrary: st f r skip count out rule: less_induct)
  case less
  show ?case
  proof (cases "r = 0")
    case True
    with less.prems have "hit cs seek count (drop st str) = None"
      by (cases "hit cs seek count (drop st str)") (auto simp: on_replace)
    with True less.prems show ?thesis by (simp add: Tran_build_rest seek_none)
  next
    case r: False
    then obtain i where i: "hit cs seek count (drop st str) = Some i"
      using less.prems(3) by (cases "hit cs seek count (drop st str)") (auto simp: on_none)
    then have occ: "next_occ cs seek (drop st str) = Some i" by (simp add: hit_Some)
    let ?st = "i + length seek + st"
    have b: "?st \<le> length str" "length str - ?st < length str - st"
      using occurs_bound [OF occ less.prems(1)] less.prems(1) by (auto simp: neq_Nil_conv)
    have e: "st + i + length seek = ?st" by simp
    have m: "matched cs seek str st 0" using less.prems by simp
    have rest: "goes_on cs str seek rep nLength ?st f' r' out' = Some (out' @ tran_seek cs seek rep skip' count' (drop ?st str))"
      if "r' = snd (counts cs seek skip' count' (drop ?st str))" "r' \<noteq> 0 \<or> skip' = 0" "r' \<noteq> 0 \<longrightarrow> f' = skip'"
        "length out' + length (tran_seek cs seek rep skip' count' (drop ?st str)) \<le> nLength + 1"
      for f' r' skip' count' out'
      using that less.hyps [OF b(2) less.prems(1) _ that] b(1)
      by (cases "?st < length str") (auto simp: goes_on_def seek_none hit_def)
    show ?thesis
    proof (cases skip)
      case 0
      with i less.prems r have t: "tran_seek cs seek rep skip count (drop st str)
          = take i (drop st str) @ rep @ tran_seek cs seek rep 0 (count - 1) (drop ?st str)"
        "r = Suc (snd (counts cs seek 0 (count - 1) (drop ?st str)))" "f = 0"
        by (simp_all add: on_replace seek_hit)
      with less.prems(6) b have "length out + i + length rep \<le> nLength + 1" by simp
      with Tran_build_next [OF m occ r, of out f rep nLength, unfolded e] t less.prems(6) b show ?thesis
        by (simp add: rest [where skip' = 0 and count' = "count - 1"])
    next
      case (Suc sk)
      with i less.prems r have t: "tran_seek cs seek rep skip count (drop st str)
          = take i (drop st str) @ seek @ tran_seek cs seek rep sk count (drop ?st str)"
        "r = snd (counts cs seek sk count (drop ?st str))" "f = Suc sk"
        by (simp_all add: on_keep seek_hit)
      with less.prems(6) b have "length out + i + length seek \<le> nLength + 1" by simp
      with Tran_build_next [OF m occ r, of out f rep nLength, unfolded e] t less.prems(6) b r
        rest [of r sk count sk "out @ take i (drop st str) @ seek"] show ?thesis
        by simp
    qed
  qed
qed

section \<open>The function\<close>

text \<open>The branches of the parameters: missing strings, no replacement asked for, nothing to seek.\<close>

definition start_of :: "int option \<Rightarrow> int" where
  "start_of p = (case p of None \<Rightarrow> 1 | Some n \<Rightarrow> max 1 n)"

text \<open>The whole function, with the text itself when nothing is replaced.\<close>

definition tran_result ::
  "bool \<Rightarrow> byte list \<Rightarrow> byte list \<Rightarrow> nat \<Rightarrow> int \<Rightarrow> byte list \<Rightarrow> byte list" where
  "tran_result cs seek rep skip count str =
     (if snd (counts cs seek skip count str) = 0 then str else tran_seek cs seek rep skip count str)"

lemma EL_STRTRAN_result:
  fixes pStart pCount pFlag pReplace
  defines "cs \<equiv> pFlag \<noteq> Some 1"
    and "count \<equiv> (case pCount of None \<Rightarrow> -1 | Some n \<Rightarrow> n)"
    and "rep \<equiv> (case pReplace of None \<Rightarrow> [] | Some s \<Rightarrow> s)"
  shows "EL_STRTRAN (Some str) (Some seek) pReplace pStart pCount pFlag
    = Some (Inr (if count = 0 then [] else tran_result cs seek rep (nat (start_of pStart - 1)) count str))"
proof (cases "count = 0 \<or> seek = [] \<or> length str < length seek")
  case True
  have "length str < length seek \<Longrightarrow> next_occ cs seek str = None"
    by (induction str) (auto simp: occurs_def)
  with True have "count \<noteq> 0 \<Longrightarrow> hit cs seek count str = None" by (auto simp: hit_def)
  then have "count \<noteq> 0 \<Longrightarrow> tran_result cs seek rep sk count str = str" for sk
    by (simp add: tran_result_def on_none)
  with True show ?thesis
    by (auto simp: EL_STRTRAN_def Let_def cs_def count_def rep_def split: option.splits)
next
  case False
  then have ne: "str \<noteq> []" "count \<noteq> 0" "seek \<noteq> []" "length seek \<le> length str" by auto
  let ?sk = "nat (start_of pStart - 1)"
  let ?res = "tran_seek cs seek rep ?sk count str"
  obtain F r where c: "counts cs seek ?sk count str = (F, r)" by fastforce
  let ?n = "length str + r * length rep - r * length seek"
  have len: "length ?res + r * length seek = length str + r * length rep"
    using str_tran_length [of cs seek rep ?sk count str] c by (simp add: tran_seek_length)
  then have n: "length ?res = ?n" by simp
  have search: "Tran_search cs str seek (start_of pStart) 0 0 0 0 count = Some (F, r)"
    using Tran_search_counts [of seek count 0 str cs "start_of pStart" 0 0] False c by simp
  have "r \<noteq> 0 \<Longrightarrow> F = ?sk + r"
    using counts_skip [of ?sk cs seek count str] c by simp
  then have build: "r \<noteq> 0 \<Longrightarrow> Tran_build cs str seek rep ?n 0 0 (F - r) r [] = Some ?res"
    using Tran_build_seek [of seek 0 str r cs ?sk count "F - r" "[]" rep ?n] ne c n by auto
  have size: "(if length rep < length seek then length str - (length seek - length rep) * r
      else length str + (length rep - length seek) * r) = ?n"
  proof (cases "length rep < length seek")
    case True
    then have "r * length rep \<le> r * length seek" by simp
    with True show ?thesis by (simp add: diff_mult_distrib2 mult.commute [of _ r])
  next
    case False
    then have "r * length seek \<le> r * length rep" by simp
    with False show ?thesis by (simp add: diff_mult_distrib2 mult.commute [of _ r])
  qed
  have "tran_result cs seek rep ?sk count str = (if r = 0 then str else ?res)"
    using c by (simp add: tran_result_def)
  moreover have "(if (case pStart of None \<Rightarrow> 1 | Some n \<Rightarrow> n) \<le> 0 then 1 else (case pStart of None \<Rightarrow> 1 | Some n \<Rightarrow> n))
      = start_of pStart" "start_of pStart > 0" "((case pFlag of None \<Rightarrow> 0 | Some n \<Rightarrow> n) \<noteq> 1) = cs"
    by (auto simp: start_of_def cs_def split: option.split)
  moreover have "?res = []" if "length str + r * length rep \<le> r * length seek"
  proof -
    from len that have "length ?res = 0" by linarith
    then show ?thesis by simp
  qed
  ultimately show ?thesis
    using ne search build n
    by (simp add: EL_STRTRAN_def Let_def count_def [symmetric] rep_def [symmetric] size memread_def
        cong: if_cong)
qed

text \<open>
  C14: the whole function is the specification: both scans end, the buffer is filled exactly and never
  overrun, and the result is \<open>str_tran\<close>, with its first \<open>nStart - 1\<close> occurrences kept and at most
  \<open>nCount\<close> of the others replaced. This covers every call but those that compare without regard to
  case and start after the first occurrence.
\<close>
theorem EL_STRTRAN_spec:
  fixes pStart pCount pFlag pReplace
  defines "cs \<equiv> pFlag \<noteq> Some 1"
    and "count \<equiv> (case pCount of None \<Rightarrow> -1 | Some n \<Rightarrow> n)"
    and "rep \<equiv> (case pReplace of None \<Rightarrow> [] | Some s \<Rightarrow> s)"
  assumes "cs \<or> start_of pStart = 1"
  shows "EL_STRTRAN (Some str) (Some seek) pReplace pStart pCount pFlag
    = Some (Inr (if count = 0 then [] else str_tran cs seek rep (nat (start_of pStart - 1)) count str))"
proof -
  let ?sk = "nat (start_of pStart - 1)"
  have "tran_result cs seek rep ?sk count str = str_tran cs seek rep ?sk count str"
    using none_replaced [of cs seek ?sk count str rep] tran_seek_eq [of cs seek rep ?sk count str]
      skipped_exact [of cs ?sk _ seek count str] assms(4) by (auto simp: tran_result_def)
  then show ?thesis
    using EL_STRTRAN_result [of str seek pReplace pStart pCount pFlag] by (simp add: cs_def count_def rep_def)
qed

lemma EL_STRTRAN_spec_witness: "EL_STRTRAN (Some [97, 98, 97, 98, 97]) (Some [97]) (Some [120, 121]) (Some 2) None None
    = Some (Inr [97, 98, 120, 121, 98, 120, 121])"
  using EL_STRTRAN_spec [of None "Some 2" "[97, 98, 97, 98, 97]" "[97]" "Some [120, 121]" None]
  by (simp add: start_of_def str_tran.simps occurs_def)

text \<open>
  C35: an occurrence that is skipped, because it comes before the \<open>nStart\<close>-th, is written with the letters of the string
  sought. So when anything is replaced, the result is the specified one exactly if every skipped occurrence is
  the string sought literally; when one differs from it in case, which only the comparison without regard to case
  allows, text that should stay is changed. The length is right in any case.
\<close>

theorem EL_STRTRAN_changes_case:
  fixes pStart pCount pFlag pReplace
  defines "cs \<equiv> pFlag \<noteq> Some 1"
    and "count \<equiv> (case pCount of None \<Rightarrow> -1 | Some n \<Rightarrow> n)"
    and "rep \<equiv> (case pReplace of None \<Rightarrow> [] | Some s \<Rightarrow> s)"
    and "skip \<equiv> nat (start_of pStart - 1)"
  assumes "snd (counts cs seek skip count str) \<noteq> 0"
  shows "\<exists>out. EL_STRTRAN (Some str) (Some seek) pReplace pStart pCount pFlag = Some (Inr out)
    \<and> length out = length (str_tran cs seek rep skip count str)
    \<and> (out = str_tran cs seek rep skip count str \<longleftrightarrow> (\<forall>t \<in> set (skipped cs seek skip count str). t = seek))"
proof -
  have "count \<noteq> 0" using assms(5) by (auto simp: counts.simps [of cs seek skip count str])
  then show ?thesis
    using EL_STRTRAN_result [of str seek pReplace pStart pCount pFlag] assms(5)
      tran_seek_eq [of cs seek rep skip count str] tran_seek_length [of cs seek rep skip count str]
    by (simp add: tran_result_def cs_def count_def rep_def skip_def)
qed

lemma EL_STRTRAN_changes_case_witness: "\<exists>out. EL_STRTRAN (Some [97, 98, 120, 97, 98]) (Some [65, 66]) (Some [90]) (Some 2) None (Some 1)
      = Some (Inr out) \<and> out \<noteq> str_tran False [65, 66] [90] 1 (-1) [97, 98, 120, 97, 98]"
proof -
  have "skipped False [65, 66] 1 (-1) [97, 98, 120, 97, 98] = [[97, 98]]"
    by code_simp
  moreover have "snd (counts False [65, 66] 1 (-1) [97, 98, 120, 97, 98]) \<noteq> 0"
    by code_simp
  ultimately show ?thesis
    using EL_STRTRAN_changes_case [of "Some 1" "[65, 66]" "Some 2" None "[97, 98, 120, 97, 98]" "Some [90]"]
    by (auto simp: start_of_def)
qed

end
