(* ===== verification/StrReplace.thy ===== *)
theory StrReplace
  imports Prelude
begin

text \<open>
  \<open>EL_STRREPLACE\<close> of \<open>hb_fcgi/el_strreplace.c\<close>: replace every occurrence of the keys of a string
  (its characters), an array or a hash in one pass over a text, the first key that matches winning.

  The code runs the same loop twice, to find the size of the result and to write it, and for texts
  of more than 1024 bytes it first tabulates, for every byte, the first key that begins with it.
  \<open>str_replace\<close> is the specification, without the table and the sizes. \<open>Repl_loop_rewrite\<close> shows
  that both passes end, agree on the size and never write outside the result; \<open>Repl_turn_exact\<close>
  that the table does not change which key is found as long as the comparison is exact.

  A value of Harbour is an \<open>hb_item\<close>; the items of an array and the keys and values of a hash are
  their strings, \<open>[]\<close> for those that are none, which is how \<open>hb_itemGetCLen\<close> reads them. Sizes are
  unbounded numbers: the text and the result fit in memory.
\<close>

section \<open>Code\<close>

datatype hb_item = HbNil | HbString "byte list" | HbArray "byte list list"
  | HbHash "(byte list \<times> byte list) list" | HbOther

fun hb_itemSize :: "hb_item \<Rightarrow> nat" where
  "hb_itemSize (HbString s) = length s"
| "hb_itemSize (HbArray xs) = length xs"
| "hb_itemSize (HbHash kvs) = length kvs"
| "hb_itemSize _ = 0"

text \<open>The \<open>i\<close>-th key, from 0: the item of the array or the key of the hash.\<close>

fun item_key :: "hb_item \<Rightarrow> nat \<Rightarrow> byte list option" where
  "item_key (HbArray xs) i = deref xs i"
| "item_key (HbHash kvs) i = map_option fst (deref kvs i)"
| "item_key _ i = None"

fun is_string :: "hb_item \<Rightarrow> bool" where
  "is_string (HbString _) = True"
| "is_string _ = False"

text \<open>\<open>memcmp(a, b, n) == 0\<close> and \<open>strncasecmp(a, b, n) == 0\<close> on blocks of at least \<open>n\<close> bytes.\<close>

definition tolower :: "byte \<Rightarrow> byte" where
  "tolower c = (if 65 \<le> c \<and> c \<le> 90 then c + 32 else c)"

fun strncasecmp_eq :: "byte list \<Rightarrow> byte list \<Rightarrow> nat \<Rightarrow> bool" where
  "strncasecmp_eq (x # a) (y # b) (Suc n) =
     (tolower x = tolower y \<and> (tolower x = 0 \<or> strncasecmp_eq a b n))"
| "strncasecmp_eq _ _ _ = True"

definition mem_eq :: "bool \<Rightarrow> byte list \<Rightarrow> byte list \<Rightarrow> nat \<Rightarrow> bool" where
  "mem_eq nFlag a b n = (if nFlag then strncasecmp_eq a b n else take n a = take n b)"

fun memchr :: "byte list \<Rightarrow> byte \<Rightarrow> nat option" where
  "memchr [] c = None"
| "memchr (x # xs) c = (if x = c then Some 0 else map_option Suc (memchr xs c))"

text \<open>The table \<open>ptrOpt\<close> and \<open>fNext\<close>: the loop over \<open>nAt\<close>, with \<open>n\<close> keys still to come.\<close>

fun Repl_table ::
  "hb_item \<Rightarrow> nat \<Rightarrow> nat \<Rightarrow> (byte \<Rightarrow> nat) \<Rightarrow> bool \<Rightarrow> ((byte \<Rightarrow> nat) \<times> bool) option" where
  "Repl_table pSrc nAt 0 ptrOpt fNext = Some (ptrOpt, fNext)"
| "Repl_table pSrc nAt (Suc n) ptrOpt fNext =
     do { uc \<leftarrow> (case pSrc of
            HbString s \<Rightarrow> map_option Some (deref s nAt)
          | _ \<Rightarrow> map_option (\<lambda>key. if key = [] then None else Some (hd key)) (item_key pSrc nAt));
          case uc of
            None \<Rightarrow> Repl_table pSrc (nAt + 1) n ptrOpt fNext
          | Some c \<Rightarrow>
              if ptrOpt c = 0 then Repl_table pSrc (nAt + 1) n (ptrOpt(c := nAt + 1)) fNext
              else Repl_table pSrc (nAt + 1) n ptrOpt (if is_string pSrc then fNext else True) }"

text \<open>
  The loop that tries the keys from \<open>nAt\<close> on: in the table's branch only one when \<open>fNext\<close> is not set,
  in the other branch always all of them. The result is \<open>nAt\<close>, 0 for no key, and \<open>nSkip\<close>.
\<close>

function Repl_try ::
  "hb_item \<Rightarrow> bool \<Rightarrow> byte list \<Rightarrow> nat \<Rightarrow> bool \<Rightarrow> nat \<Rightarrow> (nat \<times> nat) option" where
  "Repl_try pSrc nFlag pszText nPos fNext nAt =
     (if nAt \<le> hb_itemSize pSrc then
        do { ptr \<leftarrow> item_key pSrc (nAt - 1);
             let nSkip = length ptr in
             if nSkip > 0 \<and> nSkip \<le> length pszText - nPos \<and> mem_eq nFlag (drop nPos pszText) ptr nSkip
             then Some (nAt, nSkip)
             else Repl_try pSrc nFlag pszText nPos fNext (if \<not> fNext then hb_itemSize pSrc + 1 else nAt + 1) }
      else Some (0, 1))"
  by pat_completeness auto
termination
  by (relation "measure (\<lambda>(pSrc, nFlag, pszText, nPos, fNext, nAt). hb_itemSize pSrc + 1 - nAt)") auto

declare Repl_try.simps [simp del]

definition Repl_select ::
  "hb_item \<Rightarrow> bool \<Rightarrow> ((byte \<Rightarrow> nat) \<times> bool) option \<Rightarrow> byte list \<Rightarrow> nat \<Rightarrow> (nat \<times> nat) option" where
  "Repl_select pSrc nFlag opt pszText nPos =
     do { c \<leftarrow> deref pszText nPos;
          case opt of
            Some (ptrOpt, fNext) \<Rightarrow>
              let nAt = ptrOpt c in
              if nAt = 0 \<or> is_string pSrc then Some (nAt, 1)
              else Repl_try pSrc nFlag pszText nPos fNext nAt
          | None \<Rightarrow>
              (case pSrc of
                 HbString s \<Rightarrow> Some (case memchr s c of None \<Rightarrow> 0 | Some i \<Rightarrow> i + 1, 1)
               | _ \<Rightarrow> Repl_try pSrc nFlag pszText nPos True 1) }"

text \<open>What replaces the key \<open>nAt\<close>: nothing when there are fewer replacements than that.\<close>

definition Repl_dest :: "hb_item \<Rightarrow> hb_item \<Rightarrow> nat \<Rightarrow> byte list option" where
  "Repl_dest pSrc pDst nAt =
     (let nDst = hb_itemSize (case pSrc of HbHash _ \<Rightarrow> pSrc | _ \<Rightarrow> pDst) in
      if nAt \<le> nDst then
        (case (pDst, pSrc) of
           (HbString d, _) \<Rightarrow> map_option (\<lambda>c. [c]) (deref d (nAt - 1))
         | (_, HbHash kvs) \<Rightarrow> map_option snd (deref kvs (nAt - 1))
         | (HbArray ds, _) \<Rightarrow> deref ds (nAt - 1)
         | _ \<Rightarrow> None)
      else Some [])"

text \<open>One turn of the main loop: how many bytes of the text it takes and what it puts for them.\<close>

definition Repl_turn ::
  "hb_item \<Rightarrow> hb_item \<Rightarrow> bool \<Rightarrow> ((byte \<Rightarrow> nat) \<times> bool) option \<Rightarrow> byte list \<Rightarrow> nat
     \<Rightarrow> (nat \<times> byte list) option" where
  "Repl_turn pSrc pDst nFlag opt pszText nPos =
     do { (nAt, nSkip) \<leftarrow> Repl_select pSrc nFlag opt pszText nPos;
          bs \<leftarrow> (if nAt \<noteq> 0 then Repl_dest pSrc pDst nAt else map_option (\<lambda>c. [c]) (deref pszText nPos));
          Some (nSkip, bs) }"

text \<open>
  The main loop. \<open>pszResult\<close> is \<open>None\<close> in the first pass; in the second it is the size of the block
  and what has been written to it.
\<close>

partial_function (option) Repl_loop ::
  "hb_item \<Rightarrow> hb_item \<Rightarrow> bool \<Rightarrow> ((byte \<Rightarrow> nat) \<times> bool) option \<Rightarrow> byte list \<Rightarrow> nat \<Rightarrow> nat
     \<Rightarrow> (nat \<times> byte list) option \<Rightarrow> (nat \<times> (nat \<times> byte list) option) option" where
  "Repl_loop pSrc pDst nFlag opt pszText nPos nSize pszResult =
     (if nPos < length pszText then
        do { (nSkip, bs) \<leftarrow> Repl_turn pSrc pDst nFlag opt pszText nPos;
             let nSize = nSize + length bs; nPos = nPos + nSkip in
             case pszResult of
               Some (cap, out) \<Rightarrow>
                 do { ASSERT (nSize \<le> cap);
                      Repl_loop pSrc pDst nFlag opt pszText nPos nSize (Some (cap, out @ bs)) }
             | None \<Rightarrow>
                 if nPos = length pszText
                 then Repl_loop pSrc pDst nFlag opt pszText 0 0 (Some (nSize + 1, []))
                 else Repl_loop pSrc pDst nFlag opt pszText nPos nSize None }
      else Some (nSize, pszResult))"

declare Repl_loop.simps [code]

text \<open>
  The whole function. The second parameter may be a hash only when the third is \<open>NIL\<close>; a third that
  is neither a string nor an array counts as missing. \<open>Inl ()\<close> is the run-time error.
\<close>

definition EL_STRREPLACE :: "hb_item \<Rightarrow> hb_item \<Rightarrow> hb_item \<Rightarrow> int option \<Rightarrow> (unit + byte list) option" where
  "EL_STRREPLACE pText pSrc par3 pFlag =
     (case pText of
        HbString pszText \<Rightarrow>
          if (case pSrc of HbString _ \<Rightarrow> True | HbArray _ \<Rightarrow> True | HbHash _ \<Rightarrow> par3 = HbNil | _ \<Rightarrow> False) then
            let nText = length pszText; nSrc = hb_itemSize pSrc in
            if nText > 0 \<and> nSrc > 0 then
              let pDst = (case par3 of HbString _ \<Rightarrow> par3 | HbArray _ \<Rightarrow> par3 | _ \<Rightarrow> HbNil);
                  nFlag = (case pFlag of None \<Rightarrow> False | Some n \<Rightarrow> n = 1) in
              do { opt \<leftarrow> (if nText > 1024 then map_option Some (Repl_table pSrc 0 nSrc (\<lambda>_. 0) False)
                          else Some None);
                   (nSize, pszResult) \<leftarrow> Repl_loop pSrc pDst nFlag opt pszText 0 0 None;
                   (cap, out) \<leftarrow> pszResult;
                   bs \<leftarrow> memread 0 nSize out;
                   Some (Inr bs) }
            else Some (Inr pszText)
          else Some (Inl ())
      | _ \<Rightarrow> Some (Inl ()))"

section \<open>Specification\<close>

fun keys :: "hb_item \<Rightarrow> byte list list" where
  "keys (HbString s) = map (\<lambda>c. [c]) s"
| "keys (HbArray ks) = ks"
| "keys (HbHash kvs) = map fst kvs"
| "keys _ = []"

definition key_match :: "bool \<Rightarrow> byte list \<Rightarrow> byte list \<Rightarrow> bool" where
  "key_match nFlag str key \<longleftrightarrow> key \<noteq> [] \<and> length key \<le> length str \<and> mem_eq nFlag str key (length key)"

text \<open>The first key a text begins with.\<close>

fun first_key :: "bool \<Rightarrow> byte list \<Rightarrow> byte list list \<Rightarrow> nat option" where
  "first_key nFlag str [] = None"
| "first_key nFlag str (k # ks) = (if key_match nFlag str k then Some 0 else map_option Suc (first_key nFlag str ks))"

text \<open>The replacement of the \<open>i\<close>-th key, from 0.\<close>

fun replacements :: "hb_item \<Rightarrow> hb_item \<Rightarrow> byte list list" where
  "replacements (HbHash kvs) pDst = map snd kvs"
| "replacements pSrc (HbString d) = map (\<lambda>c. [c]) d"
| "replacements pSrc (HbArray ds) = ds"
| "replacements pSrc pDst = []"

definition replacement :: "hb_item \<Rightarrow> hb_item \<Rightarrow> nat \<Rightarrow> byte list" where
  "replacement pSrc pDst i = (if i < length (replacements pSrc pDst) then replacements pSrc pDst ! i else [])"

text \<open>A text rewritten from left to right, \<open>sel\<close> giving how much of the rest is taken and what is put.\<close>

function rewrite :: "(byte list \<Rightarrow> nat \<times> byte list) \<Rightarrow> byte list \<Rightarrow> byte list" where
  "rewrite sel str =
     (if str = [] then [] else snd (sel str) @ rewrite sel (drop (max 1 (fst (sel str))) str))"
  by pat_completeness auto
termination
  by (relation "measure (\<lambda>(sel, str). length str)") (auto simp: neq_Nil_conv)

declare rewrite.simps [simp del]

definition pick :: "hb_item \<Rightarrow> hb_item \<Rightarrow> bool \<Rightarrow> byte list \<Rightarrow> nat \<times> byte list" where
  "pick pSrc pDst nFlag str =
     (case first_key nFlag str (keys pSrc) of
        None \<Rightarrow> (1, [hd str])
      | Some i \<Rightarrow> (length (keys pSrc ! i), replacement pSrc pDst i))"

definition str_replace :: "hb_item \<Rightarrow> hb_item \<Rightarrow> bool \<Rightarrow> byte list \<Rightarrow> byte list" where
  "str_replace pSrc pDst nFlag str = rewrite (pick pSrc pDst (nFlag \<and> \<not> is_string pSrc)) str"

section \<open>The two passes\<close>

lemma rewrite_Nil [simp]: "rewrite sel [] = []"
  by (simp add: rewrite.simps)

text \<open>What the passes need of one turn: it agrees with \<open>sel\<close> and takes at least one byte, none past the end.\<close>

definition turn_is ::
  "hb_item \<Rightarrow> hb_item \<Rightarrow> bool \<Rightarrow> ((byte \<Rightarrow> nat) \<times> bool) option \<Rightarrow> byte list
     \<Rightarrow> (byte list \<Rightarrow> nat \<times> byte list) \<Rightarrow> bool" where
  "turn_is pSrc pDst nFlag opt str sel \<longleftrightarrow>
     (\<forall>n < length str. Repl_turn pSrc pDst nFlag opt str n = Some (sel (drop n str))
        \<and> 1 \<le> fst (sel (drop n str)) \<and> n + fst (sel (drop n str)) \<le> length str)"

lemma turn_isD:
  assumes "turn_is pSrc pDst nFlag opt str sel" "n < length str"
  obtains k bs where "sel (drop n str) = (k, bs)" "Repl_turn pSrc pDst nFlag opt str n = Some (k, bs)"
    "1 \<le> k" "n + k \<le> length str" "rewrite sel (drop n str) = bs @ rewrite sel (drop (n + k) str)"
proof (cases "sel (drop n str)")
  case (Pair k bs)
  with assms show ?thesis
    by (intro that [OF Pair])
      (auto simp: turn_is_def rewrite.simps [of sel "drop n str"] max_absorb2 add.commute)
qed

lemma second_pass:
  assumes "turn_is pSrc pDst nFlag opt str sel" "n \<le> length str"
    "length out + length (rewrite sel (drop n str)) \<le> cap"
  shows "Repl_loop pSrc pDst nFlag opt str n (length out) (Some (cap, out))
    = Some (length (out @ rewrite sel (drop n str)), Some (cap, out @ rewrite sel (drop n str)))"
  using assms(2,3)
proof (induction "length str - n" arbitrary: n out rule: less_induct)
  case less
  show ?case
  proof (cases "n < length str")
    case True
    obtain k bs where k: "Repl_turn pSrc pDst nFlag opt str n = Some (k, bs)" "1 \<le> k" "n + k \<le> length str"
      "rewrite sel (drop n str) = bs @ rewrite sel (drop (n + k) str)"
      using turn_isD [OF assms(1) True] by metis
    with less.hyps [of "n + k" "out @ bs"] less.prems True show ?thesis
      by (subst Repl_loop.simps) simp
  next
    case False
    with less.prems show ?thesis by (subst Repl_loop.simps) simp
  qed
qed

lemma first_pass:
  assumes "turn_is pSrc pDst nFlag opt str sel" "n < length str"
  shows "Repl_loop pSrc pDst nFlag opt str n m None
    = Repl_loop pSrc pDst nFlag opt str 0 0 (Some (m + length (rewrite sel (drop n str)) + 1, []))"
  using assms(2)
proof (induction "length str - n" arbitrary: n m rule: less_induct)
  case less
  obtain k bs where k: "Repl_turn pSrc pDst nFlag opt str n = Some (k, bs)" "1 \<le> k" "n + k \<le> length str"
    "rewrite sel (drop n str) = bs @ rewrite sel (drop (n + k) str)"
    using turn_isD [OF assms(1) less.prems] by metis
  show ?case
  proof (cases "n + k = length str")
    case True
    with k less.prems show ?thesis
      by (subst Repl_loop.simps) (simp add: Let_def)
  next
    case False
    with k less.hyps [of "n + k" "m + length bs"] less.prems show ?thesis
      by (subst Repl_loop.simps) (simp add: Let_def add.assoc)
  qed
qed

lemma Repl_loop_rewrite:
  assumes "turn_is pSrc pDst nFlag opt str sel" "str \<noteq> []"
  shows "Repl_loop pSrc pDst nFlag opt str 0 0 None
    = Some (length (rewrite sel str), Some (length (rewrite sel str) + 1, rewrite sel str))"
  using first_pass [OF assms(1), of 0 0] second_pass [OF assms(1), of 0 "[]" "length (rewrite sel str) + 1"] assms(2)
  by simp

section \<open>The choice of the key\<close>

lemma length_keys [simp]: "length (keys pSrc) = hb_itemSize pSrc"
  by (cases pSrc) auto

lemma item_key_eq: "\<not> is_string pSrc \<Longrightarrow> i < hb_itemSize pSrc \<Longrightarrow> item_key pSrc i = Some (keys pSrc ! i)"
  by (cases pSrc) auto

lemma first_key_eq: "first_key f str ks = Some i \<longleftrightarrow>
  i < length ks \<and> key_match f str (ks ! i) \<and> (\<forall>j < i. \<not> key_match f str (ks ! j))"
proof (induction ks arbitrary: i)
  case (Cons k ks)
  show ?case by (cases i) (auto simp: Cons All_less_Suc2)
qed simp

lemma first_key_None: "first_key f str ks = None \<longleftrightarrow> (\<forall>k \<in> set ks. \<not> key_match f str k)"
  by (induction ks) auto

text \<open>The keys from one on that are tried when all may be.\<close>

lemma Repl_try_all:
  assumes "\<not> is_string pSrc" "1 \<le> i" "i \<le> hb_itemSize pSrc + 1" "n < length str"
    "\<forall>j < i - 1. \<not> key_match f (drop n str) (keys pSrc ! j)"
  shows "Repl_try pSrc f str n True i = Some (case first_key f (drop n str) (keys pSrc) of
      None \<Rightarrow> (0, 1) | Some j \<Rightarrow> (j + 1, length (keys pSrc ! j)))"
  using assms(2,3,5)
proof (induction "hb_itemSize pSrc + 1 - i" arbitrary: i rule: less_induct)
  case less
  show ?case
  proof (cases "i \<le> hb_itemSize pSrc")
    case False
    then have "first_key f (drop n str) (keys pSrc) = None"
      using less.prems by (auto simp: first_key_None in_set_conv_nth)
    with False show ?thesis by (simp add: Repl_try.simps [of _ _ _ _ _ i])
  next
    case True
    then have k: "item_key pSrc (i - 1) = Some (keys pSrc ! (i - 1))"
      using less.prems assms(1) by (intro item_key_eq) auto
    show ?thesis
    proof (cases "key_match f (drop n str) (keys pSrc ! (i - 1))")
      case m: True
      with less.prems True have "first_key f (drop n str) (keys pSrc) = Some (i - 1)"
        by (auto simp: first_key_eq)
      with m k True less.prems(1) show ?thesis
        by (simp add: Repl_try.simps [of _ _ _ _ _ i] key_match_def Let_def)
    next
      case False
      have "\<forall>j < i + 1 - 1. \<not> key_match f (drop n str) (keys pSrc ! j)"
      proof (intro allI impI)
        fix j assume "j < i + 1 - 1"
        then have "j < i - 1 \<or> j = i - 1" by auto
        with False less.prems(3) show "\<not> key_match f (drop n str) (keys pSrc ! j)" by auto
      qed
      with less.hyps [of "i + 1"] less.prems(1,2) True
      have "Repl_try pSrc f str n True (i + 1) = Some (case first_key f (drop n str) (keys pSrc) of
          None \<Rightarrow> (0, 1) | Some j \<Rightarrow> (j + 1, length (keys pSrc ! j)))" by simp
      with False k True show ?thesis
        by (auto simp: Repl_try.simps [of _ _ _ _ _ i] key_match_def Let_def)
    qed
  qed
qed

text \<open>One key only.\<close>

lemma Repl_try_one:
  assumes "\<not> is_string pSrc" "i < hb_itemSize pSrc"
  shows "Repl_try pSrc f str n False (i + 1) = Some (if key_match f (drop n str) (keys pSrc ! i)
    then (i + 1, length (keys pSrc ! i)) else (0, 1))"
proof -
  have "Repl_try pSrc f str n False (hb_itemSize pSrc + 1) = Some (0, 1)"
    by (simp add: Repl_try.simps)
  with assms item_key_eq [OF assms] show ?thesis
    by (auto simp: Repl_try.simps [of _ _ _ _ _ "Suc i"] key_match_def Let_def)
qed

lemma memchr_first: "s = map (\<lambda>c. [c]) cs \<Longrightarrow> str \<noteq> [] \<Longrightarrow> memchr cs (hd str) = first_key False str s"
  by (induction cs arbitrary: s) (auto simp: key_match_def mem_eq_def Suc_le_eq take_Suc)

section \<open>The table\<close>

text \<open>What the table says after \<open>n\<close> keys.\<close>

definition table_ok :: "hb_item \<Rightarrow> nat \<Rightarrow> (byte \<Rightarrow> nat) \<Rightarrow> bool \<Rightarrow> bool" where
  "table_ok pSrc n ptrOpt fNext \<longleftrightarrow>
     (\<forall>j < n. keys pSrc ! j \<noteq> [] \<longrightarrow> ptrOpt (hd (keys pSrc ! j)) \<noteq> 0 \<and> ptrOpt (hd (keys pSrc ! j)) \<le> j + 1
        \<and> (\<not> fNext \<longrightarrow> \<not> is_string pSrc \<longrightarrow> ptrOpt (hd (keys pSrc ! j)) = j + 1))
     \<and> (\<forall>c. ptrOpt c \<noteq> 0 \<longrightarrow> ptrOpt c \<le> n \<and> keys pSrc ! (ptrOpt c - 1) \<noteq> [] \<and> hd (keys pSrc ! (ptrOpt c - 1)) = c)"

lemma Repl_table_ok:
  assumes "table_ok pSrc i opt f" "i + n = hb_itemSize pSrc"
  shows "\<exists>opt' f'. Repl_table pSrc i n opt f = Some (opt', f') \<and> table_ok pSrc (hb_itemSize pSrc) opt' f'"
  using assms
proof (induction n arbitrary: i opt f)
  case (Suc n)
  let ?k = "keys pSrc ! i"
  have i: "i < hb_itemSize pSrc" using Suc.prems by simp
  have uc: "(case pSrc of HbString s \<Rightarrow> map_option Some (deref s i)
      | _ \<Rightarrow> map_option (\<lambda>key. if key = [] then None else Some (hd key)) (item_key pSrc i))
    = Some (if ?k = [] then None else Some (hd ?k))"
    using i by (cases pSrc) auto
  consider "?k = []" | "?k \<noteq> []" "opt (hd ?k) = 0" | "?k \<noteq> []" "opt (hd ?k) \<noteq> 0" by blast
  then show ?case
  proof cases
    case 1
    then have "table_ok pSrc (i + 1) opt f" using Suc.prems(1)
      by (auto simp: table_ok_def less_Suc_eq le_SucI)
    with 1 Suc show ?thesis by (simp add: uc)
  next
    case 2
    then have "table_ok pSrc (i + 1) (opt(hd ?k := i + 1)) f" using Suc.prems(1)
      by (auto simp: table_ok_def less_Suc_eq le_SucI)
    with 2 Suc.IH [OF this] Suc.prems(2) show ?thesis by (simp add: uc del: fun_upd_apply)
  next
    case 3
    then have "table_ok pSrc (i + 1) opt (if is_string pSrc then f else True)" using Suc.prems(1)
      by (auto simp: table_ok_def less_Suc_eq le_SucI)
    with 3 Suc.IH [OF this] Suc.prems(2) show ?thesis by (auto simp: uc)
  qed
qed auto


lemma table_okD:
  assumes "table_ok pSrc n opt f" "j < n" "keys pSrc ! j \<noteq> []" "hd (keys pSrc ! j) = c"
  shows "opt c \<noteq> 0" "opt c \<le> j + 1" "\<not> f \<Longrightarrow> \<not> is_string pSrc \<Longrightarrow> opt c = j + 1"
  using assms by (auto simp: table_ok_def)

lemma table_ok_entry:
  assumes "table_ok pSrc n opt f" "opt c = Suc i"
  shows "i < n" "keys pSrc ! i \<noteq> []" "hd (keys pSrc ! i) = c"
  using assms by (auto simp: table_ok_def dest!: spec [of _ c])

lemma Repl_table_all: "\<exists>opt f. Repl_table pSrc 0 (hb_itemSize pSrc) (\<lambda>_. 0) False = Some (opt, f)
    \<and> table_ok pSrc (hb_itemSize pSrc) opt f"
  by (rule Repl_table_ok) (simp_all add: table_ok_def)

lemma exact_head: "key_match False str k \<Longrightarrow> k \<noteq> [] \<and> str \<noteq> [] \<and> hd k = hd str"
  by (cases k; cases str) (auto simp: key_match_def mem_eq_def)

text \<open>With the exact comparison the table leads to the same key as trying all of them.\<close>

lemma select_table:
  assumes t: "table_ok pSrc (hb_itemSize pSrc) opt fN" and n: "n < length str" and s: "\<not> is_string pSrc"
  shows "Repl_select pSrc False (Some (opt, fN)) str n
    = Some (case first_key False (drop n str) (keys pSrc) of
        None \<Rightarrow> (0, 1) | Some j \<Rightarrow> (j + 1, length (keys pSrc ! j)))"
proof -
  let ?c = "str ! n"
  have hd: "hd (drop n str) = ?c" using n by (simp add: hd_drop_conv_nth)
  have head: "keys pSrc ! j \<noteq> [] \<and> hd (keys pSrc ! j) = ?c" if "key_match False (drop n str) (keys pSrc ! j)" for j
    using exact_head [OF that] hd by simp
  show ?thesis
  proof (cases "opt ?c = 0")
    case True
    with t head have "first_key False (drop n str) (keys pSrc) = None"
      by (fastforce simp: first_key_None in_set_conv_nth table_ok_def)
    with True n show ?thesis by (simp add: Repl_select_def)
  next
    case False
    then obtain i where i: "opt ?c = i + 1" by (cases "opt ?c") auto
    with t have b: "i < hb_itemSize pSrc" "hd (keys pSrc ! i) = ?c" "keys pSrc ! i \<noteq> []"
      by (auto simp: table_ok_def dest!: spec [of _ ?c])
    show ?thesis
    proof (cases fN)
      case True
      have "\<forall>j < i. \<not> key_match False (drop n str) (keys pSrc ! j)"
      proof (intro allI impI notI)
        fix j assume "j < i" "key_match False (drop n str) (keys pSrc ! j)"
        with table_okD(2) [OF t, of j ?c] head [of j] i b show False by auto
      qed
      with Repl_try_all [OF s _ _ n, of "i + 1" False] i b True s n show ?thesis
        by (simp add: Repl_select_def)
    next
      case False
      have unique: "\<forall>j < hb_itemSize pSrc. key_match False (drop n str) (keys pSrc ! j) \<longrightarrow> j = i"
      proof (intro allI impI)
        fix j assume "j < hb_itemSize pSrc" "key_match False (drop n str) (keys pSrc ! j)"
        with table_okD(3) [OF t, of j ?c] head [of j] i False s show "j = i" by auto
      qed
      have "first_key False (drop n str) (keys pSrc) =
          (if key_match False (drop n str) (keys pSrc ! i) then Some i else None)"
      proof (cases "key_match False (drop n str) (keys pSrc ! i)")
        case True
        have "\<not> key_match False (drop n str) (keys pSrc ! j)" if "j < i" for j
          using unique [rule_format, of j] that b(1) by linarith
        with True b(1) have "first_key False (drop n str) (keys pSrc) = Some i" by (simp add: first_key_eq)
        with True show ?thesis by simp
      next
        case False
        then have "first_key False (drop n str) (keys pSrc) = None"
          by (auto simp: first_key_None in_set_conv_nth dest: unique [rule_format])
        with False show ?thesis by simp
      qed
      with Repl_try_one [OF s b(1), of False str n] i b False s n show ?thesis
        by (simp add: Repl_select_def)
    qed
  qed
qed

text \<open>The table of the characters of a string is \<open>memchr\<close>.\<close>

lemma select_string_table:
  assumes t: "table_ok (HbString s) (length s) opt fN" and n: "n < length str"
  shows "Repl_select (HbString s) f (Some (opt, fN)) str n = Some (case first_key False (drop n str) (keys (HbString s)) of
        None \<Rightarrow> (0, 1) | Some j \<Rightarrow> (j + 1, length (keys (HbString s) ! j)))"
proof -
  have m: "key_match False (drop n str) [c] \<longleftrightarrow> c = str ! n" for c
    using n by (auto simp: key_match_def mem_eq_def take_Suc hd_drop_conv_nth)
  have "first_key False (drop n str) (keys (HbString s)) = (if opt (str ! n) = 0 then None else Some (opt (str ! n) - 1))"
  proof (cases "opt (str ! n) = 0")
    case True
    with table_okD(1) [OF t, of _ "str ! n"] show ?thesis
      by (auto simp: first_key_None m in_set_conv_nth)
  next
    case False
    then obtain i where i: "opt (str ! n) = Suc i" by (cases "opt (str ! n)") auto
    note e = table_ok_entry [OF t i]
    have "s ! j \<noteq> str ! n" if "j < i" for j
      using table_okD(2) [OF t, of j "str ! n"] that i e by auto
    with i e show ?thesis by (auto simp: first_key_eq m)
  qed
  with n table_ok_entry [OF t, of "str ! n" "opt (str ! n) - 1"] show ?thesis
    by (auto simp: Repl_select_def)
qed


section \<open>The function\<close>

text \<open>Which key is found, in all branches; with the table the comparison must be exact.\<close>

lemma select_first_key:
  assumes "opt = None \<or> (\<exists>t f. opt = Some (t, f) \<and> table_ok pSrc (hb_itemSize pSrc) t f \<and> (\<not> nFlag \<or> is_string pSrc))"
    "n < length str"
  shows "Repl_select pSrc nFlag opt str n = Some (case first_key (nFlag \<and> \<not> is_string pSrc) (drop n str) (keys pSrc) of
    None \<Rightarrow> (0, 1) | Some j \<Rightarrow> (j + 1, length (keys pSrc ! j)))"
proof (cases "is_string pSrc")
  case True
  then obtain s where s: "pSrc = HbString s" by (cases pSrc) auto
  show ?thesis
  proof (cases opt)
    case None
    have "memchr s (hd (drop n str)) = first_key False (drop n str) (keys pSrc)"
      using assms(2) s by (intro memchr_first) auto
    moreover have "j < length s \<Longrightarrow> length (keys pSrc ! j) = 1" for j
      using s by simp
    moreover have "first_key False (drop n str) (keys pSrc) = Some j \<Longrightarrow> j < length s" for j
      by (auto simp: first_key_eq s)
    ultimately show ?thesis
      using None s assms(2) by (auto simp: Repl_select_def hd_drop_conv_nth split: option.split)
  next
    case (Some t)
    with assms s show ?thesis by (auto simp: select_string_table)
  qed
next
  case False
  then have "opt = None \<Longrightarrow> Repl_select pSrc nFlag opt str n = Repl_try pSrc nFlag str n True 1"
    using assms(2) by (cases pSrc) (auto simp: Repl_select_def)
  with False assms show ?thesis
    by (auto simp: select_table Repl_try_all)
qed

lemma Repl_dest_eq:
  assumes "i < hb_itemSize pSrc" "\<And>kvs. pSrc = HbHash kvs \<Longrightarrow> pDst = HbNil"
    "\<And>kvs. pDst \<noteq> HbHash kvs"
  shows "Repl_dest pSrc pDst (i + 1) = Some (replacement pSrc pDst i)"
  using assms by (cases pSrc; cases pDst) (auto simp: Repl_dest_def replacement_def)

lemma pick_bound: "str \<noteq> [] \<Longrightarrow> 1 \<le> fst (pick pSrc pDst f str) \<and> fst (pick pSrc pDst f str) \<le> length str"
  by (auto simp: pick_def first_key_eq key_match_def Suc_le_eq split: option.split)

lemma turn_is_pick:
  assumes "opt = None \<or> (\<exists>t f. opt = Some (t, f) \<and> table_ok pSrc (hb_itemSize pSrc) t f \<and> (\<not> nFlag \<or> is_string pSrc))"
    "\<And>kvs. pSrc = HbHash kvs \<Longrightarrow> pDst = HbNil" "\<And>kvs. pDst \<noteq> HbHash kvs"
  shows "turn_is pSrc pDst nFlag opt str (pick pSrc pDst (nFlag \<and> \<not> is_string pSrc))"
  unfolding turn_is_def
proof (intro allI impI conjI)
  fix n assume n: "n < length str"
  show "Repl_turn pSrc pDst nFlag opt str n = Some (pick pSrc pDst (nFlag \<and> \<not> is_string pSrc) (drop n str))"
  proof (cases "first_key (nFlag \<and> \<not> is_string pSrc) (drop n str) (keys pSrc)")
    case None
    with n show ?thesis
      by (simp add: Repl_turn_def select_first_key [OF assms(1)] pick_def hd_drop_conv_nth)
  next
    case (Some i)
    then have "Repl_dest pSrc pDst (i + 1) = Some (replacement pSrc pDst i)"
      by (intro Repl_dest_eq assms(2,3)) (auto simp: first_key_eq)
    with Some n show ?thesis
      by (simp add: Repl_turn_def select_first_key [OF assms(1)] pick_def)
  qed
  show "1 \<le> fst (pick pSrc pDst (nFlag \<and> \<not> is_string pSrc) (drop n str))"
    "n + fst (pick pSrc pDst (nFlag \<and> \<not> is_string pSrc) (drop n str)) \<le> length str"
    using pick_bound [of "drop n str" pSrc pDst "nFlag \<and> \<not> is_string pSrc"] n by auto
qed

text \<open>
  C15: the function is its specification on every call with a text and keys, unless the text is longer
  than 1024 bytes and keys that are not single characters are to be found without regard to case.
\<close>
theorem EL_STRREPLACE_spec:
  assumes "(case pSrc of HbString _ \<Rightarrow> True | HbArray _ \<Rightarrow> True | HbHash _ \<Rightarrow> par3 = HbNil | _ \<Rightarrow> False)"
    "length str \<le> 1024 \<or> pFlag \<noteq> Some 1 \<or> is_string pSrc"
  shows "EL_STRREPLACE (HbString str) pSrc par3 pFlag
    = Some (Inr (str_replace pSrc par3 (pFlag = Some 1) str))"
proof (cases "str = [] \<or> keys pSrc = []")
  case True
  then have "str_replace pSrc par3 (pFlag = Some 1) str = str"
  proof
    assume "keys pSrc = []"
    then have "rewrite (pick pSrc par3 f) str = str" for f
      by (induction str) (auto simp: rewrite.simps [of _ "_ # _"] pick_def)
    then show ?thesis by (simp add: str_replace_def)
  qed (simp add: str_replace_def)
  with True assms(1) show ?thesis
    by (auto simp: EL_STRREPLACE_def length_keys [symmetric] simp del: length_keys)
next
  case False
  then have ne: "str \<noteq> []" "hb_itemSize pSrc \<noteq> 0" by (auto simp: length_keys [symmetric] simp del: length_keys)
  let ?d = "case par3 of HbString _ \<Rightarrow> par3 | HbArray _ \<Rightarrow> par3 | _ \<Rightarrow> HbNil"
  let ?f = "case pFlag of None \<Rightarrow> False | Some n \<Rightarrow> n = 1"
  have f: "?f \<longleftrightarrow> pFlag = Some 1" by (cases pFlag) auto
  obtain opt where opt: "(if length str > 1024 then map_option Some (Repl_table pSrc 0 (hb_itemSize pSrc) (\<lambda>_. 0) False)
      else Some None) = Some opt"
    "opt = None \<or> (\<exists>t f. opt = Some (t, f) \<and> table_ok pSrc (hb_itemSize pSrc) t f \<and> (\<not> ?f \<or> is_string pSrc))"
    using Repl_table_all [of pSrc] assms(2) f by (cases "length str > 1024") auto
  have "turn_is pSrc ?d ?f opt str (pick pSrc ?d (?f \<and> \<not> is_string pSrc))"
    using opt(2) assms(1) by (intro turn_is_pick) (auto split: hb_item.splits)
  moreover have "replacements pSrc ?d = replacements pSrc par3"
    by (cases pSrc; cases par3) auto
  then have r: "replacement pSrc ?d i = replacement pSrc par3 i" for i
    by (simp only: replacement_def)
  have "pick pSrc ?d g = pick pSrc par3 g" for g
    by (rule ext) (simp only: pick_def r)
  ultimately have "Repl_loop pSrc ?d ?f opt str 0 0 None
      = Some (length (str_replace pSrc par3 ?f str), Some (length (str_replace pSrc par3 ?f str) + 1, str_replace pSrc par3 ?f str))"
    using Repl_loop_rewrite [of pSrc ?d ?f opt str] ne(1) by (simp add: str_replace_def)
  with opt(1) assms(1) ne show ?thesis
    by (simp add: EL_STRREPLACE_def Let_def memread_def f)
qed


lemma EL_STRREPLACE_spec_witness:
  "EL_STRREPLACE (HbString [97, 38, 98, 60]) (HbArray [[38], [60, 98], [60]]) (HbArray [[65, 77], [], [76, 84]]) None
     = Some (Inr [97, 65, 77, 98, 76, 84])"
  using EL_STRREPLACE_spec [of "HbArray [[65, 77], [], [76, 84]]" "HbArray [[38], [60, 98], [60]]" "[97, 38, 98, 60]" None]
  by (simp add: str_replace_def rewrite.simps pick_def key_match_def mem_eq_def replacement_def)

text \<open>
  C36: on a text of more than 1024 bytes the table, which is filled with the first bytes of the keys as
  they are written, hides keys that only match without regard to case: looking for \<open>''A''\<close>, flag 1, in
  a text of \<open>n\<close> times \<open>''a''\<close> replaces all of it up to 1024 bytes and nothing of it beyond.
\<close>
theorem EL_STRREPLACE_table_case:
  "EL_STRREPLACE (HbString (replicate n 97)) (HbArray [[65]]) (HbString [98]) (Some 1)
     = Some (Inr (replicate n (if n > 1024 then 97 else 98)))"
proof (cases "n > 1024")
  case False
  have "rewrite (pick (HbArray [[65]]) (HbString [98]) True) (replicate n 97) = replicate n 98"
    by (induction n) (auto simp: rewrite.simps [of _ "_ # _"] pick_def key_match_def mem_eq_def tolower_def replacement_def)
  with False show ?thesis
    by (subst EL_STRREPLACE_spec) (auto simp: str_replace_def)
next
  case True
  let ?opt = "Some ((\<lambda>_. 0)(65 := 1), False) :: ((byte \<Rightarrow> nat) \<times> bool) option"
  have "rewrite (\<lambda>s. (1, [hd s])) str = str" for str
    by (induction str) (auto simp: rewrite.simps [of _ "_ # _"])
  moreover have "turn_is (HbArray [[65]]) (HbString [98]) True ?opt (replicate n 97) (\<lambda>s. (1, [hd s]))"
    by (auto simp: turn_is_def Repl_turn_def Repl_select_def)
  ultimately have "Repl_loop (HbArray [[65]]) (HbString [98]) True ?opt (replicate n 97) 0 0 None
      = Some (n, Some (n + 1, replicate n 97))"
    using Repl_loop_rewrite True by fastforce
  with True show ?thesis
    by (simp add: EL_STRREPLACE_def memread_def)
qed

end
