(* ===== verification/Kernel.thy ===== *)
theory Kernel
  imports Prelude
begin

text \<open>
  The operating system as \<open>fcgi-2.4.1/libfcgi/os_unix.c\<close> sees it, and that file's own static
  state. The kernel is the environment of the program, not part of it, so its answers are
  a parameter: scripts held in the record \<open>kernel\<close>, one list of answers per descriptor or
  call, in the order the calls will get them. Every theorem quantifies over the scripts.

  \<^item> \<open>rx k fd\<close>: what successive \<open>read\<close>s on \<open>fd\<close> deliver. \<open>Data bs\<close> is data that has arrived
    together (a shorter read takes a prefix of it, and \<open>Data []\<close> is an end of file),
    \<open>RxErr e\<close> is a failing call with \<open>errno = e\<close>. An exhausted script is the end of file.
  \<^item> \<open>wx k fd\<close>: what successive \<open>write\<close>s accept. \<open>TxLimit n\<close> accepts at most \<open>n\<close> bytes,
    \<open>TxErr e\<close> fails. An exhausted script accepts everything.
  \<^item> \<open>tx k fd\<close>: the bytes the kernel has accepted on \<open>fd\<close> so far: the wire.
  \<^item> \<open>accq\<close>, \<open>lockq\<close>, \<open>selq\<close>, \<open>shutq\<close>: the answers of \<open>accept\<close>, \<open>fcntl\<close>, \<open>select\<close> and \<open>shutdown\<close>;
    \<open>pollq\<close>: those of \<open>select\<close> on two sets;
    \<open>locks\<close>: the descriptors this process holds the record lock on.
  \<^item> \<open>peername fd\<close>: 0 or the \<open>errno\<close> of \<open>getpeername\<close>; \<open>inet_addr\<close>: the address a string denotes;
    \<open>environ\<close>: the environment \<open>getenv\<close> reads; \<open>sigact\<close>: the signal dispositions; \<open>umem\<close>: the
    application's memory that asynchronous operations read into and write from.
  \<^item> \<open>junk\<close>: the contents of uninitialised memory; \<open>malloc_at n\<close>: the address \<open>malloc(n)\<close> returns,
    0 when it fails. Only the alignment of a stream's buffer and the failure of the table's
    allocation matter; the other allocations succeed, as \<open>Malloc\<close> asserts.

  Calls return at once: blocking is not modelled, and a peer that stays silent for ever is
  a script that ends.
\<close>

section \<open>State\<close>

datatype rx_event = Data "byte list" | RxErr int
datatype tx_event = TxLimit nat | TxErr int

text \<open>
  One answer of \<open>accept\<close>: a connection (descriptor, address family and IPv4 address of the
  peer, and its read and write scripts), or an error and whether a handler for
  \<open>SIGUSR1\<close>/\<open>SIGTERM\<close> ran during the call.
\<close>

datatype sa_family = AF_INET | AF_UNIX

datatype acc_event =
    AccOk int sa_family "32 word" "rx_event list" "tx_event list"
  | AccErr int bool

text \<open>One answer of a record lock call: success, or an error and whether the handler ran.\<close>

datatype lock_event = LockOk | LockErr int bool

text \<open>The signals the library handles, and what a process can do with them.\<close>

datatype signal = SIGPIPE | SIGUSR1 | SIGTERM
datatype sighandler = SIG_DFL | SIG_IGN | OS_SigpipeHandler | OS_Sigusr1Handler | App_handler nat

text \<open>\<open>AioInfo\<close>: the entry of an outstanding asynchronous operation; pointers are numbers.\<close>

record AioInfo =
  procPtr :: "nat option"
  clientData :: nat
  aio_fd :: int
  aio_len :: int
  aio_offset :: int
  aio_buf :: nat
  inUse :: bool

record kernel =
  errno :: int
  open_fds :: "int set"
  rx :: "int \<Rightarrow> rx_event list"
  wx :: "int \<Rightarrow> tx_event list"
  tx :: "int \<Rightarrow> byte list"
  accq :: "acc_event list"
  lockq :: "lock_event list"
  selq :: "int list"
  shutq :: "int list"
  locks :: "int set"
  sigact :: "signal \<Rightarrow> sighandler"
  peername :: "int \<Rightarrow> int"
  inet_addr :: "byte list \<Rightarrow> 32 word"
  environ :: "byte list \<Rightarrow> byte list option"
  umem :: "nat \<Rightarrow> byte"
  pollq :: "(int \<times> int set \<times> int set) list"
  junk :: "nat \<Rightarrow> byte"
  malloc_at :: "int \<Rightarrow> 64 word"

text \<open>The static variables of \<open>os_unix.c\<close>.\<close>

record os = kernel +
  shutdownPending :: bool
  shutdownNow :: bool
  os_libInitialized :: bool
  asyncIoInUse :: bool
  asyncIoTableSize :: int
  asyncIoTable :: "AioInfo list option"
  readFdSet :: "int set"
  writeFdSet :: "int set"
  readFdSetPost :: "int set"
  writeFdSetPost :: "int set"
  numRdPosted :: int
  numWrPosted :: int
  maxFd :: int

abbreviation (input) EBADF :: int where "EBADF \<equiv> 9"
abbreviation (input) EINTR :: int where "EINTR \<equiv> 4"

section \<open>read and write\<close>

definition sys_read :: "int \<Rightarrow> nat \<Rightarrow> os \<Rightarrow> int \<times> byte list \<times> os" where
  "sys_read fd n k =
     (if fd \<notin> open_fds k then (-1, [], k\<lparr>errno := EBADF\<rparr>)
      else case rx k fd of
        [] \<Rightarrow> (0, [], k)
      | Data bs # es \<Rightarrow>
          if length bs \<le> n then (int (length bs), bs, k\<lparr>rx := (rx k)(fd := es)\<rparr>)
          else (int n, take n bs, k\<lparr>rx := (rx k)(fd := Data (drop n bs) # es)\<rparr>)
      | RxErr e # es \<Rightarrow> (-1, [], k\<lparr>rx := (rx k)(fd := es), errno := e\<rparr>))"

definition sys_write :: "int \<Rightarrow> byte list \<Rightarrow> os \<Rightarrow> int \<times> os" where
  "sys_write fd bs k =
     (if fd \<notin> open_fds k then (-1, k\<lparr>errno := EBADF\<rparr>)
      else case wx k fd of
        [] \<Rightarrow> (int (length bs), k\<lparr>tx := (tx k)(fd := tx k fd @ bs)\<rparr>)
      | TxLimit m # es \<Rightarrow>
          (int (min m (length bs)),
           k\<lparr>wx := (wx k)(fd := es), tx := (tx k)(fd := tx k fd @ take m bs)\<rparr>)
      | TxErr e # es \<Rightarrow> (-1, k\<lparr>wx := (wx k)(fd := es), errno := e\<rparr>))"

text \<open>\<open>OS_Read\<close> and \<open>OS_Write\<close> of \<open>os_unix.c\<close>: pass through unless \<open>shutdownNow\<close>.\<close>

definition OS_Read :: "int \<Rightarrow> nat \<Rightarrow> os \<Rightarrow> int \<times> byte list \<times> os" where
  "OS_Read fd len k = (if shutdownNow k then (-1, [], k) else sys_read fd len k)"

definition OS_Write :: "int \<Rightarrow> byte list \<Rightarrow> os \<Rightarrow> int \<times> os" where
  "OS_Write fd buf k = (if shutdownNow k then (-1, k) else sys_write fd buf k)"

text \<open>
  \<open>write_it_all\<close> of \<open>fcgiapp.c\<close>: writes until everything is accepted or a call fails. It ends
  because a call that does not accept everything takes an answer off the script.
\<close>

function write_it_all :: "int \<Rightarrow> byte list \<Rightarrow> os \<Rightarrow> int \<times> os" where
  "write_it_all fd buf k =
     (if buf = [] then (0, k)
      else let (wrote, k') = OS_Write fd buf k in
        if wrote < 0 then (wrote, k')
        else write_it_all fd (drop (nat wrote) buf) k')"
  by pat_completeness auto
termination
  by (relation "measures [\<lambda>(fd, buf, k). length (wx k fd), \<lambda>(fd, buf, k). length buf]")
    (auto simp: OS_Write_def sys_write_def split: if_splits list.splits tx_event.splits)

declare write_it_all.simps [simp del]

lemma write_it_all_Nil [simp]: "write_it_all fd [] k = (0, k)"
  by (simp add: write_it_all.simps)

section \<open>What a read delivers\<close>

text \<open>
  The bytes a script will deliver before its first failing call, and how it ends:
  \<open>rx_bytes\<close> is independent of how the bytes are cut into \<open>Data\<close> chunks.
\<close>

fun rx_bytes :: "rx_event list \<Rightarrow> byte list" where
  "rx_bytes [] = []"
| "rx_bytes (Data [] # es) = []"
| "rx_bytes (Data bs # es) = bs @ rx_bytes es"
| "rx_bytes (RxErr e # es) = []"

text \<open>The error code of the failing call, if the script ends in one rather than in an end of file.\<close>

fun rx_error :: "rx_event list \<Rightarrow> int option" where
  "rx_error [] = None"
| "rx_error (Data [] # es) = None"
| "rx_error (Data bs # es) = rx_error es"
| "rx_error (RxErr e # es) = Some e"

lemma rx_bytes_Data: "bs \<noteq> [] \<Longrightarrow> rx_bytes (Data bs # es) = bs @ rx_bytes es"
  by (cases bs) auto

lemma rx_error_Data: "bs \<noteq> [] \<Longrightarrow> rx_error (Data bs # es) = rx_error es"
  by (cases bs) auto

text \<open>The state a descriptor can be used in.\<close>

definition fd_ok :: "int \<Rightarrow> os \<Rightarrow> bool" where
  "fd_ok fd k \<longleftrightarrow> fd \<in> open_fds k \<and> \<not> shutdownNow k"

lemma fd_ok_updates [simp]:
  "fd_ok fd (k\<lparr>tx := a\<rparr>) = fd_ok fd k" "fd_ok fd (k\<lparr>rx := b\<rparr>) = fd_ok fd k"
  "fd_ok fd (k\<lparr>wx := c\<rparr>) = fd_ok fd k" "fd_ok fd (k\<lparr>errno := d\<rparr>) = fd_ok fd k"
  by (simp_all add: fd_ok_def)

text \<open>
  The two ways a call changes the kernel: bytes leave on a descriptor, or its read script
  moves on.
\<close>

definition sent_on :: "int \<Rightarrow> byte list \<Rightarrow> tx_event list \<Rightarrow> int \<Rightarrow> os \<Rightarrow> os" where
  "sent_on fd bs es e k =
     k\<lparr>wx := (wx k)(fd := es), errno := e, tx := (tx k)(fd := tx k fd @ bs)\<rparr>"

definition recvd_on :: "int \<Rightarrow> rx_event list \<Rightarrow> int \<Rightarrow> os \<Rightarrow> os" where
  "recvd_on fd es e k = k\<lparr>rx := (rx k)(fd := es), errno := e\<rparr>"

lemma sent_on_sel [simp]:
  "errno (sent_on fd bs es e k) = e" "rx (sent_on fd bs es e k) = rx k"
  "wx (sent_on fd bs es e k) = (wx k)(fd := es)"
  "tx (sent_on fd bs es e k) = (tx k)(fd := tx k fd @ bs)"
  "junk (sent_on fd bs es e k) = junk k" "malloc_at (sent_on fd bs es e k) = malloc_at k"
  "fd_ok fd' (sent_on fd bs es e k) = fd_ok fd' k"
  by (simp_all add: sent_on_def)

lemma recvd_on_sel [simp]:
  "errno (recvd_on fd es e k) = e" "rx (recvd_on fd es e k) = (rx k)(fd := es)"
  "wx (recvd_on fd es e k) = wx k" "tx (recvd_on fd es e k) = tx k"
  "junk (recvd_on fd es e k) = junk k" "malloc_at (recvd_on fd es e k) = malloc_at k"
  "fd_ok fd' (recvd_on fd es e k) = fd_ok fd' k"
  by (simp_all add: recvd_on_def)

lemma sent_on_sent_on [simp]:
  "sent_on fd cs es' e' (sent_on fd bs es e k) = sent_on fd (bs @ cs) es' e' k"
  by (simp add: sent_on_def)

lemma sent_on_nothing [simp]: "sent_on fd [] (wx k fd) (errno k) k = k"
  by (simp add: sent_on_def)

lemma recvd_on_nothing [simp]: "recvd_on fd (rx k fd) (errno k) k = k"
  by (simp add: recvd_on_def)

text \<open>A successful read delivers a non-empty prefix of what is left and nothing else changes.\<close>

lemma OS_Read_pos:
  assumes "fd_ok fd k" "OS_Read fd n k = (c, bs, k')" "0 < c" "0 < n"
  shows "c = int (length bs) \<and> bs \<noteq> [] \<and> length bs \<le> n \<and> (\<exists>es. k' = recvd_on fd es (errno k) k
    \<and> rx_bytes (rx k fd) = bs @ rx_bytes es \<and> rx_error es = rx_error (rx k fd))"
proof -
  have "length bs' > n \<Longrightarrow> rx_bytes (Data bs' # es) = bs' @ rx_bytes es
      \<and> rx_error (Data bs' # es) = rx_error es" for bs' es
    using rx_bytes_Data [of bs' es] rx_error_Data [of bs' es] by (cases bs') auto
  moreover have "k\<lparr>rx := f\<rparr> = k\<lparr>rx := f, errno := errno k\<rparr>" for f by simp
  ultimately show ?thesis
    using assms
    by (auto simp: OS_Read_def sys_read_def fd_ok_def rx_bytes_Data rx_error_Data recvd_on_def
        simp flip: append_assoc intro!: exI [of _ "rx k' fd"]
        split: if_splits list.splits rx_event.splits)
qed

text \<open>A read that delivers nothing means that nothing is left.\<close>

lemma OS_Read_nonpos:
  assumes "fd_ok fd k" "OS_Read fd n k = (c, bs, k')" "c \<le> 0" "0 < n"
  shows "rx_bytes (rx k fd) = [] \<and> bs = []
    \<and> (c = 0 \<longrightarrow> rx_error (rx k fd) = None)
    \<and> (c \<noteq> 0 \<longrightarrow> rx_error (rx k fd) = Some (errno k'))
    \<and> (\<exists>es e. k' = recvd_on fd es e k)"
proof (cases "rx k fd")
  case Nil
  with assms have "c = 0" "bs = []" "k' = recvd_on fd [] (errno k) k"
    by (auto simp: OS_Read_def sys_read_def fd_ok_def recvd_on_def fun_upd_idem)
  then show ?thesis using Nil by auto
next
  case (Cons ev es)
  with assms have "bs = []" "ev = Data [] \<and> c = 0 \<and> k' = recvd_on fd es (errno k) k
      \<or> (\<exists>e. ev = RxErr e \<and> c = -1 \<and> k' = recvd_on fd es e k)"
    by (auto simp: OS_Read_def sys_read_def fd_ok_def recvd_on_def split: if_splits rx_event.splits)
  then show ?thesis using Cons by auto
qed

section \<open>What write\_it\_all does\<close>

text \<open>No call of the script fails.\<close>

definition wx_clean :: "tx_event list \<Rightarrow> bool" where
  "wx_clean es \<longleftrightarrow> list_all (\<lambda>e. case e of TxErr _ \<Rightarrow> False | TxLimit _ \<Rightarrow> True) es"

lemma OS_Write_result:
  assumes "OS_Write fd buf k = (w, k')" "fd_ok fd k"
  shows "-1 \<le> w \<and> nat w \<le> length buf \<and>
    (\<exists>es e. k' = sent_on fd (take (nat w) buf) es e k \<and> (0 \<le> w \<longrightarrow> e = errno k)
      \<and> (wx_clean (wx k fd) \<longrightarrow> 0 \<le> w \<and> wx_clean es))"
proof (cases "wx k fd")
  case Nil
  with assms have "w = int (length buf)" "k' = sent_on fd buf (wx k fd) (errno k) k"
    by (auto simp: OS_Write_def sys_write_def fd_ok_def sent_on_def fun_upd_idem)
  then show ?thesis by auto
next
  case (Cons ev es)
  show ?thesis
  proof (cases ev)
    case (TxLimit m)
    with Cons assms have "w = int (min m (length buf))" "k' = sent_on fd (take m buf) es (errno k) k"
      by (auto simp: OS_Write_def sys_write_def fd_ok_def sent_on_def)
    then show ?thesis using Cons TxLimit by (auto simp: wx_clean_def min_def)
  next
    case (TxErr e)
    with Cons assms have "w = -1" "k' = sent_on fd [] es e k"
      by (auto simp: OS_Write_def sys_write_def fd_ok_def sent_on_def)
    then show ?thesis using Cons TxErr by (auto simp: wx_clean_def)
  qed
qed

text \<open>
  \<open>write_it_all\<close> appends a prefix of its buffer to the wire of its own descriptor and touches
  nothing else; the prefix is the whole buffer when it reports success, and it does on a
  script without failures.
\<close>

lemma write_it_all_result:
  assumes "write_it_all fd buf k = (w, k')" "fd_ok fd k"
  shows "\<exists>n es e. n \<le> length buf \<and> k' = sent_on fd (take n buf) es e k
    \<and> (0 \<le> w \<longrightarrow> w = 0 \<and> n = length buf \<and> e = errno k)
    \<and> (wx_clean (wx k fd) \<longrightarrow> 0 \<le> w \<and> wx_clean es)"
  using assms
proof (induction fd buf k arbitrary: w k' rule: write_it_all.induct)
  case (1 fd buf k)
  show ?case
  proof (cases "buf = []")
    case True
    with 1(2) have wk: "w = 0" "k' = k" by auto
    show ?thesis
      by (rule exI [of _ 0], rule exI [of _ "wx k fd"], rule exI [of _ "errno k"])
        (use wk True in simp)
  next
    case False
    obtain v k1 where ow: "OS_Write fd buf k = (v, k1)" by fastforce
    from OS_Write_result [OF ow 1(3)] obtain es e where v: "nat v \<le> length buf"
      and k1: "k1 = sent_on fd (take (nat v) buf) es e k" and e: "0 \<le> v \<longrightarrow> e = errno k"
      and c: "wx_clean (wx k fd) \<longrightarrow> 0 \<le> v \<and> wx_clean es"
      by blast
    show ?thesis
    proof (cases "v < 0")
      case True
      with 1(2) False ow have "w = v" "k' = k1"
        by (auto simp: write_it_all.simps [of fd buf k])
      with k1 v c True show ?thesis by (metis not_less)
    next
      case neg: False
      with False 1(2) ow have rec: "write_it_all fd (drop (nat v) buf) k1 = (w, k')"
        by (simp add: write_it_all.simps [of fd buf k])
      have "fd_ok fd k1" by (simp add: k1 1(3))
      from 1(1) [OF False ow [symmetric] refl neg rec this] obtain n es' e' where
        n: "n \<le> length (drop (nat v) buf)"
        and k': "k' = sent_on fd (take n (drop (nat v) buf)) es' e' k1"
        and w: "0 \<le> w \<longrightarrow> w = 0 \<and> n = length (drop (nat v) buf) \<and> e' = errno k1"
        and c': "wx_clean (wx k1 fd) \<longrightarrow> 0 \<le> w \<and> wx_clean es'"
        by blast
      have "k' = sent_on fd (take (nat v + n) buf) es' e' k"
        by (simp add: k' k1 take_add)
      then show ?thesis
        by (intro exI [of _ "nat v + n"] exI [of _ "es'"])
          (use n v w c c' e neg in \<open>auto simp: k1\<close>)
    qed
  qed
qed

text \<open>On a clean script the whole buffer reaches the wire.\<close>

lemma write_it_all_ok:
  assumes "wx_clean (wx k fd)" "fd_ok fd k"
  shows "\<exists>es. write_it_all fd buf k = (0, sent_on fd buf es (errno k) k) \<and> wx_clean es"
proof -
  obtain w k' where r: "write_it_all fd buf k = (w, k')" by fastforce
  from write_it_all_result [OF r assms(2)] r assms(1) show ?thesis by auto
qed

end
