(* ===== verification/Protocol.thy ===== *)
theory Protocol
  imports Prelude
begin

text \<open>
  The records of the FastCGI protocol: the structs and constants of
  \<open>fcgi-2.4.1/include/fastcgi.h\<close> and the functions of \<open>fcgi-2.4.1/libfcgi/fcgiapp.c\<close> that
  build them (\<open>MakeHeader\<close>, \<open>MakeEndRequestBody\<close>, \<open>MakeUnknownTypeBody\<close>, \<open>AlignInt8\<close>,
  \<open>AlignPtr8\<close>). A struct of \<open>unsigned char\<close>s is laid out without gaps, so the cast
  \<open>(char *) &header\<close> is \<open>header_bytes\<close>.

  The second half is the specification the rest of the development is measured against:
  \<open>enc_record\<close> is a well-formed record on the wire, \<open>parse_records\<close> splits a wire into
  records, and \<open>parse_records_enc\<close> is the round trip.
\<close>

section \<open>Constants and structs (fastcgi.h)\<close>

abbreviation (input) FCGI_MAX_LENGTH :: int where "FCGI_MAX_LENGTH \<equiv> 65535"
abbreviation (input) FCGI_HEADER_LEN :: nat where "FCGI_HEADER_LEN \<equiv> 8"
abbreviation (input) FCGI_VERSION_1 :: int where "FCGI_VERSION_1 \<equiv> 1"
abbreviation (input) FCGI_BEGIN_REQUEST :: int where "FCGI_BEGIN_REQUEST \<equiv> 1"
abbreviation (input) FCGI_ABORT_REQUEST :: int where "FCGI_ABORT_REQUEST \<equiv> 2"
abbreviation (input) FCGI_END_REQUEST :: int where "FCGI_END_REQUEST \<equiv> 3"
abbreviation (input) FCGI_PARAMS :: int where "FCGI_PARAMS \<equiv> 4"
abbreviation (input) FCGI_STDIN :: int where "FCGI_STDIN \<equiv> 5"
abbreviation (input) FCGI_STDOUT :: int where "FCGI_STDOUT \<equiv> 6"
abbreviation (input) FCGI_STDERR :: int where "FCGI_STDERR \<equiv> 7"
abbreviation (input) FCGI_DATA :: int where "FCGI_DATA \<equiv> 8"
abbreviation (input) FCGI_GET_VALUES :: int where "FCGI_GET_VALUES \<equiv> 9"
abbreviation (input) FCGI_GET_VALUES_RESULT :: int where "FCGI_GET_VALUES_RESULT \<equiv> 10"
abbreviation (input) FCGI_UNKNOWN_TYPE :: int where "FCGI_UNKNOWN_TYPE \<equiv> 11"
abbreviation (input) FCGI_NULL_REQUEST_ID :: int where "FCGI_NULL_REQUEST_ID \<equiv> 0"
abbreviation (input) FCGI_KEEP_CONN :: int where "FCGI_KEEP_CONN \<equiv> 1"
abbreviation (input) FCGI_RESPONDER :: int where "FCGI_RESPONDER \<equiv> 1"
abbreviation (input) FCGI_AUTHORIZER :: int where "FCGI_AUTHORIZER \<equiv> 2"
abbreviation (input) FCGI_FILTER :: int where "FCGI_FILTER \<equiv> 3"
abbreviation (input) FCGI_REQUEST_COMPLETE :: int where "FCGI_REQUEST_COMPLETE \<equiv> 0"
abbreviation (input) FCGI_CANT_MPX_CONN :: int where "FCGI_CANT_MPX_CONN \<equiv> 1"

record FCGI_Header =
  version :: byte
  rectype :: byte
  requestIdB1 :: byte
  requestIdB0 :: byte
  contentLengthB1 :: byte
  contentLengthB0 :: byte
  paddingLength :: byte
  reserved :: byte

record FCGI_BeginRequestBody =
  roleB1 :: byte
  roleB0 :: byte
  bflags :: byte
  breserved :: "byte list" \<comment> \<open>5 bytes\<close>

record FCGI_EndRequestBody =
  appStatusB3 :: byte
  appStatusB2 :: byte
  appStatusB1 :: byte
  appStatusB0 :: byte
  protocolStatus :: byte
  ereserved :: "byte list" \<comment> \<open>3 bytes\<close>

record FCGI_UnknownTypeBody =
  utype :: byte
  ureserved :: "byte list" \<comment> \<open>7 bytes\<close>

definition header_bytes :: "FCGI_Header \<Rightarrow> byte list" where
  "header_bytes h = [version h, rectype h, requestIdB1 h, requestIdB0 h,
     contentLengthB1 h, contentLengthB0 h, paddingLength h, reserved h]"

fun header_of :: "byte list \<Rightarrow> FCGI_Header option" where
  "header_of [v, t, i1, i0, c1, c0, p, r] =
     Some \<lparr>version = v, rectype = t, requestIdB1 = i1, requestIdB0 = i0,
       contentLengthB1 = c1, contentLengthB0 = c0, paddingLength = p, reserved = r\<rparr>"
| "header_of _ = None"

fun begin_body_of :: "byte list \<Rightarrow> FCGI_BeginRequestBody option" where
  "begin_body_of [r1, r0, f, a, b, c, d, e] =
     Some \<lparr>roleB1 = r1, roleB0 = r0, bflags = f, breserved = [a, b, c, d, e]\<rparr>"
| "begin_body_of _ = None"

definition end_body_bytes :: "FCGI_EndRequestBody \<Rightarrow> byte list" where
  "end_body_bytes b = [appStatusB3 b, appStatusB2 b, appStatusB1 b, appStatusB0 b,
     protocolStatus b] @ ereserved b"

definition unknown_body_bytes :: "FCGI_UnknownTypeBody \<Rightarrow> byte list" where
  "unknown_body_bytes b = utype b # ureserved b"

text \<open>How \<open>ProcessHeader\<close> and \<open>ProcessBeginRecord\<close> read two-byte fields back: \<open>(b1 << 8) + b0\<close>.\<close>

definition be16 :: "byte \<Rightarrow> byte \<Rightarrow> int" where
  "be16 b1 b0 = push_bit 8 (uint b1) + uint b0"

definition hdr_requestId :: "FCGI_Header \<Rightarrow> int" where
  "hdr_requestId h = be16 (requestIdB1 h) (requestIdB0 h)"

definition hdr_contentLen :: "FCGI_Header \<Rightarrow> int" where
  "hdr_contentLen h = be16 (contentLengthB1 h) (contentLengthB0 h)"

section \<open>Building records (fcgiapp.c)\<close>

definition MakeHeader :: "int \<Rightarrow> int \<Rightarrow> int \<Rightarrow> int \<Rightarrow> FCGI_Header option" where
  "MakeHeader type requestId contentLength paddingLen =
     do {
       ASSERT (0 \<le> contentLength \<and> contentLength \<le> FCGI_MAX_LENGTH);
       ASSERT (0 \<le> paddingLen \<and> paddingLen \<le> 0xff);
       Some \<lparr>version = uchar FCGI_VERSION_1,
             rectype = uchar type,
             requestIdB1 = uchar (drop_bit 8 requestId AND 0xff),
             requestIdB0 = uchar (requestId AND 0xff),
             contentLengthB1 = uchar (drop_bit 8 contentLength AND 0xff),
             contentLengthB0 = uchar (contentLength AND 0xff),
             paddingLength = uchar paddingLen,
             reserved = 0\<rparr>
     }"

definition MakeEndRequestBody :: "int \<Rightarrow> int \<Rightarrow> FCGI_EndRequestBody" where
  "MakeEndRequestBody appStatus protoStatus =
     \<lparr>appStatusB3 = uchar (drop_bit 24 appStatus AND 0xff),
      appStatusB2 = uchar (drop_bit 16 appStatus AND 0xff),
      appStatusB1 = uchar (drop_bit 8 appStatus AND 0xff),
      appStatusB0 = uchar (appStatus AND 0xff),
      protocolStatus = uchar protoStatus,
      ereserved = replicate 3 0\<rparr>"

definition MakeUnknownTypeBody :: "int \<Rightarrow> FCGI_UnknownTypeBody" where
  "MakeUnknownTypeBody type = \<lparr>utype = uchar type, ureserved = replicate 7 0\<rparr>"

definition AlignInt8 :: "int \<Rightarrow> int" where
  "AlignInt8 n = (n + 7) AND NOT 7"

text \<open>\<open>AlignPtr8\<close> works on the address, a 64-bit \<open>uintptr_t\<close>; \<open>~7\<close> is sign-extended.\<close>

definition AlignPtr8 :: "64 word \<Rightarrow> 64 word" where
  "AlignPtr8 p = (p + 7) AND NOT 7"

section \<open>What they build\<close>

lemma header_of_bytes [simp]: "header_of (header_bytes h) = Some h"
  by (simp add: header_bytes_def)

lemma length_header_bytes [simp]: "length (header_bytes h) = 8"
  by (simp add: header_bytes_def)

lemma header_of_Some: "length bs = 8 \<Longrightarrow> \<exists>h. header_of bs = Some h \<and> header_bytes h = bs"
  by (auto simp: length_Suc_conv numeral_eq_Suc header_bytes_def)

lemma header_of_eq_Some: "header_of bs = Some h \<longleftrightarrow> bs = header_bytes h"
proof
  assume "header_of bs = Some h"
  then show "bs = header_bytes h"
    by (cases bs rule: header_of.cases) (auto simp: header_bytes_def)
qed simp

lemma begin_body_of_Some: "length bs = 8 \<Longrightarrow> \<exists>b. begin_body_of bs = Some b"
  by (auto simp: length_Suc_conv numeral_eq_Suc)

lemma low_byte_int: "(i :: int) AND 0xff = i mod 256"
  using take_bit_eq_mask [of 8 i] by (simp add: mask_eq_exp_minus_1 take_bit_eq_mod)

lemma be16_uchar: "be16 (uchar (drop_bit 8 i AND 0xff)) (uchar (i AND 0xff)) = i mod 65536"
proof -
  have "i mod 65536 = 256 * (i div 256 mod 256) + i mod 256"
    using mod_mult2_eq' [of i 256 256] by simp
  then show ?thesis
    by (simp add: be16_def low_byte_int uint_uchar push_bit_eq_mult drop_bit_eq_div)
qed

lemma be16_range: "0 \<le> be16 a b \<and> be16 a b \<le> 65535"
  using uint_byte_bound [of a] uint_byte_bound [of b] uint_ge_0 [of a] uint_ge_0 [of b]
  unfolding be16_def push_bit_eq_mult by simp

lemma hdr_contentLen_range: "0 \<le> hdr_contentLen h \<and> hdr_contentLen h \<le> 65535"
  unfolding hdr_contentLen_def by (rule be16_range)

lemma hdr_requestId_range: "0 \<le> hdr_requestId h \<and> hdr_requestId h \<le> 65535"
  unfolding hdr_requestId_def by (rule be16_range)

lemma MakeHeader_fields:
  assumes "MakeHeader t i n p = Some h"
  shows "0 \<le> n \<and> n \<le> 65535 \<and> 0 \<le> p \<and> p \<le> 255"
    and "uint (version h) = 1" and "uint (rectype h) = t mod 256"
    and "hdr_requestId h = i mod 65536" and "hdr_contentLen h = n"
    and "uint (paddingLength h) = p" and "reserved h = 0"
  using assms
  by (auto simp: MakeHeader_def bind_Some_iff hdr_requestId_def hdr_contentLen_def
      be16_uchar uint_uchar)

lemma MakeHeader_Some:
  "0 \<le> n \<Longrightarrow> n \<le> 65535 \<Longrightarrow> 0 \<le> p \<Longrightarrow> p \<le> 255 \<Longrightarrow> \<exists>h. MakeHeader t i n p = Some h"
  by (simp add: MakeHeader_def)

lemma length_end_body [simp]: "length (end_body_bytes (MakeEndRequestBody a p)) = 8"
  by (simp add: end_body_bytes_def MakeEndRequestBody_def)

lemma length_unknown_body [simp]: "length (unknown_body_bytes (MakeUnknownTypeBody t)) = 8"
  by (simp add: unknown_body_bytes_def MakeUnknownTypeBody_def)

lemma int_and_not_mask: "(a :: int) AND NOT (mask n) = push_bit n (drop_bit n a)"
  by (rule bit_eqI) (auto simp: bit_simps)

lemma AlignInt8_div: "AlignInt8 n = 8 * ((n + 7) div 8)"
  using int_and_not_mask [of "n + 7" 3]
  by (simp add: AlignInt8_def mask_eq_exp_minus_1 push_bit_eq_mult drop_bit_eq_div)

lemma AlignInt8_bounds: "n \<le> AlignInt8 n \<and> AlignInt8 n < n + 8 \<and> AlignInt8 n mod 8 = 0"
  by (simp add: AlignInt8_div) presburger

lemma AlignInt8_least: "n \<le> m \<Longrightarrow> m mod 8 = 0 \<Longrightarrow> AlignInt8 n \<le> m"
  by (simp add: AlignInt8_div) presburger

lemma word_and_not_mask: "(a :: 64 word) AND NOT (mask n) = push_bit n (drop_bit n a)"
  by (rule bit_word_eqI) (auto simp: bit_simps)

lemma uint_word_align8: "uint ((q :: 64 word) AND NOT 7) = uint q div 8 * 8"
proof -
  have q: "(q AND NOT 7) = push_bit 3 (drop_bit 3 q)"
    using word_and_not_mask [of q 3] by (simp add: mask_eq_exp_minus_1)
  have "uint q div 8 * 8 < 2 ^ 64" "0 \<le> uint q div 8 * 8"
    using uint_bounded [of q] uint_ge_0 [of q] by (simp_all, presburger)
  moreover have "uint (push_bit 3 (drop_bit 3 q)) = take_bit 64 (push_bit 3 (uint (drop_bit 3 q)))"
    by (subst unsigned_push_bit_eq) simp
  moreover have "uint (drop_bit 3 q) = uint q div 8"
    using uint_bounded [of q]
    by (subst unsigned_drop_bit_eq) (simp add: drop_bit_eq_div take_bit_int_eq_self)
  ultimately show ?thesis
    unfolding q by (simp add: push_bit_eq_mult take_bit_eq_mod)
qed

lemma AlignPtr8_bounds:
  assumes "uint p + 7 < 2 ^ 64"
  shows "uint p \<le> uint (AlignPtr8 p) \<and> uint (AlignPtr8 p) < uint p + 8
    \<and> uint (AlignPtr8 p) mod 8 = 0"
proof -
  have "uint (p + 7) = uint p + 7"
    using assms by (simp add: uint_word_ariths)
  moreover have "uint (AlignPtr8 p) = uint (p + 7) div 8 * 8"
    unfolding AlignPtr8_def by (rule uint_word_align8)
  ultimately show ?thesis by presburger
qed

section \<open>The wire: specification\<close>

text \<open>
  A stream record with content \<open>cs\<close>, padded to a multiple of 8 bytes, as the protocol
  describes it, and a wire split into records. \<open>parse_records\<close> is \<open>None\<close> on a wire that is
  not a sequence of complete version-1 records.
\<close>

definition pad8 :: "nat \<Rightarrow> nat" where
  "pad8 n = (8 - n mod 8) mod 8"

definition enc_header :: "int \<Rightarrow> int \<Rightarrow> nat \<Rightarrow> nat \<Rightarrow> byte list" where
  "enc_header t i n p = [1, uchar t, uchar (i div 256), uchar i,
     uchar (int n div 256), uchar (int n), uchar (int p), 0]"

definition enc_record :: "int \<Rightarrow> int \<Rightarrow> byte list \<Rightarrow> byte list" where
  "enc_record t i cs =
     enc_header t i (length cs) (pad8 (length cs)) @ cs @ replicate (pad8 (length cs)) 0"

function parse_records :: "byte list \<Rightarrow> (int \<times> int \<times> byte list) list option" where
  "parse_records bs =
     (if bs = [] then Some []
      else case header_of (take 8 bs) of
        None \<Rightarrow> None
      | Some h \<Rightarrow>
          let n = nat (hdr_contentLen h); p = nat (uint (paddingLength h)) in
          if version h \<noteq> 1 \<or> length bs < 8 + n + p then None
          else map_option ((#) (uint (rectype h), hdr_requestId h, take n (drop 8 bs)))
                 (parse_records (drop (8 + n + p) bs)))"
  by pat_completeness auto
termination by (relation "measure length") auto

declare parse_records.simps [simp del]

lemma pad8_less: "pad8 n < 8"
  by (simp add: pad8_def)

lemma pad8_AlignInt8: "int (pad8 n) = AlignInt8 (int n) - int n"
proof -
  have "int (pad8 n) = (8 - int n mod 8) mod 8"
    by (simp add: pad8_def zmod_int of_nat_diff)
  also have "\<dots> = (if int n mod 8 = 0 then 0 else 8 - int n mod 8)"
    using pos_mod_bound [of 8 "int n"] pos_mod_sign [of 8 "int n"]
    by (cases "int n mod 8 = 0") (simp, subst mod_pos_pos_trivial, simp_all)
  also have "\<dots> = AlignInt8 (int n) - int n"
  proof -
    define q r where "q = int n div 8" and "r = int n mod 8"
    then have n: "int n = r + 8 * q" and r: "0 \<le> r" "r < 8" by simp_all
    have "(int n + 7) div 8 = (r + 7 + q * 8) div 8" by (simp add: n)
    also have "\<dots> = q + (r + 7) div 8" by (subst div_mult_self1) simp_all
    finally have "(int n + 7) div 8 = q + (r + 7) div 8" .
    moreover have "(r + 7) div 8 = (if r = 0 then 0 else 1)" using r by auto
    ultimately show ?thesis using r by (simp add: AlignInt8_div n)
  qed
  finally show ?thesis .
qed

lemma pad8_0 [simp]: "pad8 0 = 0"
  by (simp add: pad8_def)

lemma length_enc_header [simp]: "length (enc_header t i n p) = 8"
  by (simp add: enc_header_def)

lemma length_enc_record: "length (enc_record t i cs) = 8 + length cs + pad8 (length cs)"
  by (simp add: enc_record_def)

lemma uchar_and_255: "uchar (i AND 0xff) = uchar i"
  by (rule word_uint_eqI) (simp add: uint_uchar low_byte_int)

lemma MakeHeader_enc:
  "MakeHeader t i (int n) (int p) = Some h \<Longrightarrow> header_bytes h = enc_header t i n p"
  by (auto simp: MakeHeader_def bind_Some_iff header_bytes_def enc_header_def
      uchar_and_255 drop_bit_eq_div simp flip: uchar_def)
    (simp add: uchar_def)

lemma parse_records_Nil [simp]: "parse_records [] = Some []"
  by (simp add: parse_records.simps)

lemma parse_records_enc_append:
  assumes "0 \<le> t" "t < 256" "0 \<le> i" "i < 65536" "length cs \<le> 65535"
  shows "parse_records (enc_record t i cs @ bs) = map_option ((#) (t, i, cs)) (parse_records bs)"
proof -
  let ?p = "pad8 (length cs)"
  obtain h where mk: "MakeHeader t i (int (length cs)) (int ?p) = Some h"
    using MakeHeader_Some [of "int (length cs)" "int ?p" t i] assms pad8_less [of "length cs"]
    by auto
  note f = MakeHeader_fields [OF mk]
  have hd: "header_of (take 8 (enc_record t i cs @ bs)) = Some h"
    using MakeHeader_enc [OF mk] by (simp add: enc_record_def header_of_eq_Some)
  have ver: "version h = 1"
    using f(2) by (intro word_uint_eqI) simp
  have "enc_record t i cs @ bs \<noteq> []"
    by (simp add: enc_record_def enc_header_def)
  with f assms hd ver show ?thesis
    by (subst parse_records.simps) (simp add: enc_record_def)
qed

text \<open>Round trip: encoding records and splitting the wire gives the records back.\<close>

lemma parse_records_enc:
  assumes "0 \<le> i" "i < 65536"
    and "list_all (\<lambda>(t, cs). 0 \<le> t \<and> t < 256 \<and> length cs \<le> 65535) rs"
  shows "parse_records (concat (map (\<lambda>(t, cs). enc_record t i cs) rs)) =
    Some (map (\<lambda>(t, cs). (t, i, cs)) rs)"
  using assms(3)
  by (induction rs) (auto simp: parse_records_enc_append assms(1,2))

end
