(* ===== verification/Streams.thy ===== *)
theory Streams
  imports Kernel Protocol
begin

text \<open>
  Streams: the structs \<open>FCGX_Stream\<close> (\<open>fcgiapp.h\<close>) and \<open>FCGX_Stream_Data\<close>, \<open>FCGX_Request\<close>, and
  the operations of \<open>fcgiapp.c\<close> that work on a stream through its two function pointers:
  \<open>FCGX_GetChar\<close>, \<open>FCGX_GetStr\<close>, \<open>FCGX_GetLine\<close>, \<open>FCGX_UnGetChar\<close>, \<open>FCGX_PutChar\<close>,
  \<open>FCGX_PutStr\<close>, \<open>FCGX_PutS\<close>, \<open>FCGX_FFlush\<close>, \<open>FCGX_FClose\<close> and the error accessors.

  A stream and the private data behind its \<open>void *data\<close> are allocated and freed together
  (\<open>NewStream\<close>, \<open>FCGX_FreeStream\<close>), so \<open>FCGX_Stream_Data\<close> extends \<open>FCGX_Stream\<close>. The pointers
  \<open>rdNext\<close>, \<open>wrNext\<close>, \<open>stop\<close>, \<open>stopUnget\<close>, \<open>buffStop\<close> are offsets from \<open>data->buff\<close>. The function
  pointers \<open>fillBuffProc\<close> and \<open>emptyBuffProc\<close> are arguments of the operations that call them.
  The request a stream points to (\<open>reqDataPtr\<close>) is shared by its streams, so it is passed and
  returned beside the stream, and so is the operating system.

  The locales \<open>byte_source\<close> and \<open>byte_sink\<close> state what the operations need of the two
  pointers and prove what they then do; the components that provide \<open>FillBuffProc\<close> and
  \<open>EmptyBuffProc\<close> interpret them.
\<close>

section \<open>Structs\<close>

record FCGX_Stream =
  rdNext :: nat
  wrNext :: nat
  stop :: nat
  stopUnget :: "nat option"
  isReader :: bool
  isClosed :: bool
  wasFCloseCalled :: bool
  FCGI_errno :: int

record FCGX_Stream_Data = FCGX_Stream +
  buff :: "byte list"
  bufflen :: int
  mBuff :: "64 word"
  buffStop :: nat
  strtype :: int
  eorStop :: bool
  skip :: bool
  contentLen :: int
  paddingLen :: int
  isAnythingWritten :: bool
  rawWrite :: bool

type_synonym stream = FCGX_Stream_Data

text \<open>The part of \<open>FCGX_Request\<close> its streams use; \<open>Request\<close> adds the streams themselves.\<close>

record FCGX_Request =
  requestId :: int
  role :: int
  ipcFd :: int
  isBeginProcessed :: bool
  keepConnection :: int
  appStatus :: int
  nWriters :: int
  flags :: int
  listen_sock :: int
  detached :: bool

type_synonym filler =
  "stream \<Rightarrow> FCGX_Request \<Rightarrow> os \<Rightarrow> (stream \<times> FCGX_Request \<times> os) option"

abbreviation (input) FCGX_UNSUPPORTED_VERSION :: int where "FCGX_UNSUPPORTED_VERSION \<equiv> -2"
abbreviation (input) FCGX_PROTOCOL_ERROR :: int where "FCGX_PROTOCOL_ERROR \<equiv> -3"
abbreviation (input) FCGX_PARAMS_ERROR :: int where "FCGX_PARAMS_ERROR \<equiv> -4"
abbreviation (input) FCGX_CALL_SEQ_ERROR :: int where "FCGX_CALL_SEQ_ERROR \<equiv> -5"

section \<open>Errors\<close>

definition SetError :: "int \<Rightarrow> stream \<Rightarrow> stream" where
  "SetError e s =
     (if FCGI_errno s = 0 then s\<lparr>FCGI_errno := e\<rparr> else s)\<lparr>isClosed := True\<rparr>"

definition FCGX_GetError :: "stream \<Rightarrow> int" where
  "FCGX_GetError s = FCGI_errno s"

definition FCGX_ClearError :: "stream \<Rightarrow> stream" where
  "FCGX_ClearError s = s\<lparr>FCGI_errno := 0\<rparr>"

definition FCGX_HasSeenEOF :: "stream \<Rightarrow> int" where
  "FCGX_HasSeenEOF s = (if isClosed s then EOF else 0)"

section \<open>Reading\<close>

definition FCGX_GetChar ::
  "filler \<Rightarrow> stream \<Rightarrow> FCGX_Request \<Rightarrow> os \<Rightarrow> (int \<times> stream \<times> FCGX_Request \<times> os) option" where
  "FCGX_GetChar fillBuffProc s r k =
     (if isClosed s \<or> \<not> isReader s then Some (EOF, s, r, k)
      else if rdNext s \<noteq> stop s then
        do { c \<leftarrow> deref (buff s) (rdNext s);
             Some (uint c, s\<lparr>rdNext := rdNext s + 1\<rparr>, r, k) }
      else
        do { (s, r, k) \<leftarrow> fillBuffProc s r k;
             if isClosed s then Some (EOF, s, r, k)
             else
               let s = s\<lparr>stopUnget := Some (rdNext s)\<rparr> in
               if rdNext s \<noteq> stop s then
                 do { c \<leftarrow> deref (buff s) (rdNext s);
                      Some (uint c, s\<lparr>rdNext := rdNext s + 1\<rparr>, r, k) }
               else do { ASSERT (isClosed s); Some (EOF, s, r, k) } })"

text \<open>
  \<open>FCGX_GetStr\<close> returns the count and the bytes it has stored in the caller's array. One
  turn of its loop copies what is buffered (\<open>GetStr_copy\<close>) and then calls the fill procedure.
  The source compares \<open>bytesMoved == n\<close> only after a copy; without one \<open>bytesMoved < n\<close> holds
  anyway.
\<close>

definition GetStr_copy :: "int \<Rightarrow> byte list \<Rightarrow> stream \<Rightarrow> (byte list \<times> stream) option" where
  "GetStr_copy n moved s =
     (if rdNext s \<noteq> stop s then
        let m = min (n - int (length moved)) (int (stop s) - int (rdNext s)) in
        if m < 0 then None
        else do { bs \<leftarrow> memread (rdNext s) (nat m) (buff s);
                  Some (moved @ bs, s\<lparr>rdNext := rdNext s + nat m\<rparr>) }
      else Some (moved, s))"

partial_function (option) GetStr_loop ::
  "filler \<Rightarrow> int \<Rightarrow> byte list \<Rightarrow> stream \<Rightarrow> FCGX_Request \<Rightarrow> os
     \<Rightarrow> (int \<times> byte list \<times> stream \<times> FCGX_Request \<times> os) option" where
  "GetStr_loop fillBuffProc n moved s r k =
     do { (moved, s) \<leftarrow> GetStr_copy n moved s;
          if int (length moved) = n then Some (n, moved, s, r, k)
          else if isClosed s \<or> \<not> isReader s then Some (int (length moved), moved, s, r, k)
          else do { (s, r, k) \<leftarrow> fillBuffProc s r k;
                    if isClosed s then Some (int (length moved), moved, s, r, k)
                    else GetStr_loop fillBuffProc n moved (s\<lparr>stopUnget := Some (rdNext s)\<rparr>) r k } }"

definition FCGX_GetStr ::
  "filler \<Rightarrow> int \<Rightarrow> stream \<Rightarrow> FCGX_Request \<Rightarrow> os
     \<Rightarrow> (int \<times> byte list \<times> stream \<times> FCGX_Request \<times> os) option" where
  "FCGX_GetStr fillBuffProc n s r k =
     (if isClosed s \<or> \<not> isReader s \<or> n \<le> 0 then Some (0, [], s, r, k)
      else if n \<le> int (stop s) - int (rdNext s) then
        do { bs \<leftarrow> memread (rdNext s) (nat n) (buff s);
             Some (n, bs, s\<lparr>rdNext := rdNext s + nat n\<rparr>, r, k) }
      else GetStr_loop fillBuffProc n [] s r k)"

text \<open>
  \<open>FCGX_GetLine\<close> returns \<open>None\<close> for \<open>NULL\<close>, else the bytes it has stored before the
  terminating zero. \<open>GetLine_loop\<close> is its \<open>while (n > 0)\<close>; \<open>acc\<close> holds \<open>str[0] .. p[-1]\<close>.
\<close>

fun GetLine_loop ::
  "filler \<Rightarrow> nat \<Rightarrow> byte list \<Rightarrow> stream \<Rightarrow> FCGX_Request \<Rightarrow> os
     \<Rightarrow> (byte list option \<times> stream \<times> FCGX_Request \<times> os) option" where
  "GetLine_loop fillBuffProc 0 acc s r k = Some (Some acc, s, r, k)"
| "GetLine_loop fillBuffProc (Suc n) acc s r k =
     do { (c, s, r, k) \<leftarrow> FCGX_GetChar fillBuffProc s r k;
          if c = EOF then Some (if acc = [] then None else Some acc, s, r, k)
          else
            let acc = acc @ [uchar c] in
            if c = 10 then Some (Some acc, s, r, k)
            else GetLine_loop fillBuffProc n acc s r k }"

definition FCGX_GetLine ::
  "filler \<Rightarrow> int \<Rightarrow> stream \<Rightarrow> FCGX_Request \<Rightarrow> os
     \<Rightarrow> (byte list option \<times> stream \<times> FCGX_Request \<times> os) option" where
  "FCGX_GetLine fillBuffProc n s r k = GetLine_loop fillBuffProc (nat (n - 1)) [] s r k"

text \<open>\<open>rdNext\<close> is decremented first; at offset 0 that leaves the buffer.\<close>

definition FCGX_UnGetChar :: "int \<Rightarrow> stream \<Rightarrow> (int \<times> stream) option" where
  "FCGX_UnGetChar c s =
     (if c = EOF \<or> isClosed s \<or> \<not> isReader s \<or> Some (rdNext s) = stopUnget s
      then Some (EOF, s)
      else if rdNext s = 0 then None
      else do { b \<leftarrow> memwrite (rdNext s - 1) [uchar c] (buff s);
                Some (c, s\<lparr>rdNext := rdNext s - 1, buff := b\<rparr>) })"

section \<open>Writing\<close>

definition FCGX_PutChar ::
  "(bool \<Rightarrow> filler) \<Rightarrow> int \<Rightarrow> stream \<Rightarrow> FCGX_Request \<Rightarrow> os
     \<Rightarrow> (int \<times> stream \<times> FCGX_Request \<times> os) option" where
  "FCGX_PutChar emptyBuffProc c s r k =
     (if wrNext s \<noteq> stop s then
        do { b \<leftarrow> memwrite (wrNext s) [uchar c] (buff s);
             Some (uint (uchar c), s\<lparr>wrNext := wrNext s + 1, buff := b\<rparr>, r, k) }
      else if isClosed s \<or> isReader s then Some (EOF, s, r, k)
      else
        do { (s, r, k) \<leftarrow> emptyBuffProc False s r k;
             if wrNext s \<noteq> stop s then
               do { b \<leftarrow> memwrite (wrNext s) [uchar c] (buff s);
                    Some (uint (uchar c), s\<lparr>wrNext := wrNext s + 1, buff := b\<rparr>, r, k) }
             else do { ASSERT (isClosed s); Some (EOF, s, r, k) } })"

definition PutStr_copy :: "byte list \<Rightarrow> int \<Rightarrow> int \<Rightarrow> stream \<Rightarrow> (int \<times> stream) option" where
  "PutStr_copy str n moved s =
     (if wrNext s \<noteq> stop s then
        let m = min (n - moved) (int (stop s) - int (wrNext s)) in
        if m < 0 then None
        else do { bs \<leftarrow> memread (nat moved) (nat m) str;
                  b \<leftarrow> memwrite (wrNext s) bs (buff s);
                  Some (moved + m, s\<lparr>wrNext := wrNext s + nat m, buff := b\<rparr>) }
      else Some (moved, s))"

partial_function (option) PutStr_loop ::
  "(bool \<Rightarrow> filler) \<Rightarrow> byte list \<Rightarrow> int \<Rightarrow> int \<Rightarrow> stream \<Rightarrow> FCGX_Request \<Rightarrow> os
     \<Rightarrow> (int \<times> stream \<times> FCGX_Request \<times> os) option" where
  "PutStr_loop emptyBuffProc str n moved s r k =
     do { (moved, s) \<leftarrow> PutStr_copy str n moved s;
          if moved = n then Some (n, s, r, k)
          else if isClosed s \<or> isReader s then Some (-1, s, r, k)
          else do { (s, r, k) \<leftarrow> emptyBuffProc False s r k;
                    PutStr_loop emptyBuffProc str n moved s r k } }"

definition FCGX_PutStr ::
  "(bool \<Rightarrow> filler) \<Rightarrow> byte list \<Rightarrow> int \<Rightarrow> stream \<Rightarrow> FCGX_Request \<Rightarrow> os
     \<Rightarrow> (int \<times> stream \<times> FCGX_Request \<times> os) option" where
  "FCGX_PutStr emptyBuffProc str n s r k =
     (if n \<le> int (stop s) - int (wrNext s) then
        if n < 0 then None
        else do { bs \<leftarrow> memread 0 (nat n) str;
                  b \<leftarrow> memwrite (wrNext s) bs (buff s);
                  Some (n, s\<lparr>wrNext := wrNext s + nat n, buff := b\<rparr>, r, k) }
      else PutStr_loop emptyBuffProc str n 0 s r k)"

definition FCGX_PutS ::
  "(bool \<Rightarrow> filler) \<Rightarrow> byte list \<Rightarrow> stream \<Rightarrow> FCGX_Request \<Rightarrow> os
     \<Rightarrow> (int \<times> stream \<times> FCGX_Request \<times> os) option" where
  "FCGX_PutS emptyBuffProc str s r k =
     do { let sz = int (length (c_str str));
          ASSERT (sz \<le> INT_MAX);
          FCGX_PutStr emptyBuffProc str sz s r k }"

definition FCGX_FFlush ::
  "(bool \<Rightarrow> filler) \<Rightarrow> stream \<Rightarrow> FCGX_Request \<Rightarrow> os
     \<Rightarrow> (int \<times> stream \<times> FCGX_Request \<times> os) option" where
  "FCGX_FFlush emptyBuffProc s r k =
     (if isClosed s \<or> isReader s then Some (0, s, r, k)
      else do { (s, r, k) \<leftarrow> emptyBuffProc False s r k;
                Some (if isClosed s then -1 else 0, s, r, k) })"

text \<open>\<open>FCGX_FClose\<close> of a stream; the caller of a null pointer gets 0 (\<open>FClose_opt\<close> in \<open>Request\<close>).\<close>

definition FCGX_FClose ::
  "(bool \<Rightarrow> filler) \<Rightarrow> stream \<Rightarrow> FCGX_Request \<Rightarrow> os
     \<Rightarrow> (int \<times> stream \<times> FCGX_Request \<times> os) option" where
  "FCGX_FClose emptyBuffProc s r k =
     do { (s, r, k) \<leftarrow>
            (if \<not> wasFCloseCalled s then
               do { (s, r, k) \<leftarrow> (if \<not> isReader s then emptyBuffProc True s r k else Some (s, r, k));
                    let s = s\<lparr>wasFCloseCalled := True, isClosed := True\<rparr>;
                    let s = (if isReader s then s\<lparr>wrNext := rdNext s, stop := rdNext s\<rparr>
                             else s\<lparr>rdNext := wrNext s, stop := wrNext s\<rparr>);
                    Some (s, r, k) }
             else Some (s, r, k));
          Some (if FCGI_errno s = 0 then 0 else EOF, s, r, k) }"

lemma SetError_sel [simp]:
  "isClosed (SetError e s)" "FCGI_errno (SetError e s) = (if FCGI_errno s = 0 then e else FCGI_errno s)"
  "rdNext (SetError e s) = rdNext s" "wrNext (SetError e s) = wrNext s" "stop (SetError e s) = stop s"
  "stopUnget (SetError e s) = stopUnget s" "isReader (SetError e s) = isReader s"
  "buff (SetError e s) = buff s" "buffStop (SetError e s) = buffStop s"
  "bufflen (SetError e s) = bufflen s" "strtype (SetError e s) = strtype s"
  "eorStop (SetError e s) = eorStop s" "skip (SetError e s) = skip s"
  "contentLen (SetError e s) = contentLen s" "paddingLen (SetError e s) = paddingLen s"
  "rawWrite (SetError e s) = rawWrite s" "isAnythingWritten (SetError e s) = isAnythingWritten s"
  "wasFCloseCalled (SetError e s) = wasFCloseCalled s"
  by (simp_all add: SetError_def)

section \<open>The contract of a fill procedure\<close>

text \<open>What a line is: at most \<open>n\<close> bytes, up to and including the first newline.\<close>

fun line_of :: "nat \<Rightarrow> byte list \<Rightarrow> byte list" where
  "line_of 0 xs = []"
| "line_of (Suc n) [] = []"
| "line_of (Suc n) (x # xs) = x # (if x = 10 then [] else line_of n xs)"

text \<open>
  \<open>src xs s r k\<close> says that the bytes \<open>xs\<close> are what stream \<open>s\<close> still delivers before its end.
  The provider promises: the buffered bytes are a prefix of \<open>xs\<close> and consuming them is
  consuming \<open>xs\<close>; a closed stream delivers nothing more; and the fill procedure, called on
  an open stream whose buffer is empty, returns, keeps \<open>xs\<close>, and either buffers something or
  closes the stream.
\<close>

locale byte_source =
  fixes fill :: filler
    and src :: "byte list \<Rightarrow> stream \<Rightarrow> FCGX_Request \<Rightarrow> os \<Rightarrow> bool"
  assumes src_shape: "src xs s r k \<Longrightarrow>
      isReader s \<and>
      (if isClosed s then xs = [] else rdNext s \<le> stop s \<and> stop s \<le> length (buff s))"
    and src_consume: "src xs s r k \<Longrightarrow> \<not> isClosed s \<Longrightarrow> n \<le> stop s - rdNext s \<Longrightarrow>
      seg (rdNext s) (rdNext s + n) (buff s) = take n xs \<and> n \<le> length xs
        \<and> src (drop n xs) (s\<lparr>rdNext := rdNext s + n\<rparr>) r k"
    and src_mark: "src xs s r k \<Longrightarrow> src xs (s\<lparr>stopUnget := u\<rparr>) r k"
    and src_fill: "src xs s r k \<Longrightarrow> \<not> isClosed s \<Longrightarrow> rdNext s = stop s \<Longrightarrow>
      \<exists>s' r' k'. fill s r k = Some (s', r', k') \<and> src xs s' r' k'
        \<and> (isClosed s' \<or> rdNext s' < stop s')"
begin

lemma src_closed: "src xs s r k \<Longrightarrow> isClosed s \<Longrightarrow> xs = []"
  using src_shape [of xs s r k] by simp

lemma src_next:
  assumes "src xs s r k" "\<not> isClosed s" "rdNext s \<noteq> stop s"
  shows "\<exists>x ys. xs = x # ys \<and> deref (buff s) (rdNext s) = Some x
    \<and> src ys (s\<lparr>rdNext := rdNext s + 1\<rparr>) r k"
proof -
  have sh: "rdNext s < stop s" "stop s \<le> length (buff s)"
    using src_shape [OF assms(1)] assms(2,3) by auto
  with src_consume [OF assms(1,2), of 1] have
    "seg (rdNext s) (rdNext s + 1) (buff s) = take 1 xs" "1 \<le> length xs"
    "src (drop 1 xs) (s\<lparr>rdNext := rdNext s + 1\<rparr>) r k" by auto
  then show ?thesis using sh
    by (cases xs) (auto simp: seg_Cons)
qed

text \<open>\<open>FCGX_GetChar\<close> takes the first byte of what the stream delivers, or reports its end.\<close>

lemma GetChar_src:
  assumes "src xs s r k"
  shows "\<exists>s' r' k'. FCGX_GetChar fill s r k =
      Some (if xs = [] then EOF else uint (hd xs), s', r', k')
    \<and> src (tl xs) s' r' k' \<and> (xs = [] \<longrightarrow> isClosed s')"
proof (cases "isClosed s")
  case True
  with src_closed [OF assms] assms show ?thesis
    by (auto simp: FCGX_GetChar_def)
next
  case open1: False
  have rd: "isReader s" using src_shape [OF assms] by simp
  show ?thesis
  proof (cases "rdNext s = stop s")
    case False
    with src_next [OF assms open1] open1 rd show ?thesis
      by (auto simp: FCGX_GetChar_def)
  next
    case True
    from src_fill [OF assms open1 True] obtain s' r' k' where
      f: "fill s r k = Some (s', r', k')" and s': "src xs s' r' k'"
      and pr: "isClosed s' \<or> rdNext s' < stop s'" by blast
    show ?thesis
    proof (cases "isClosed s'")
      case True
      with src_closed [OF s'] s' f open1 rd \<open>rdNext s = stop s\<close> show ?thesis
        by (auto simp: FCGX_GetChar_def)
    next
      case False
      let ?s = "s'\<lparr>stopUnget := Some (rdNext s')\<rparr>"
      from False pr src_next [OF src_mark [OF s', of "Some (rdNext s')"]]
      obtain x ys where "xs = x # ys" "deref (buff s') (rdNext s') = Some x"
        "src ys (?s\<lparr>rdNext := rdNext s' + 1\<rparr>) r' k'" by auto
      with False pr f open1 rd \<open>rdNext s = stop s\<close> show ?thesis
        by (auto simp: FCGX_GetChar_def)
    qed
  qed
qed

lemma GetStr_copy_src:
  assumes "src xs s r k" "\<not> isClosed s" "int (length moved) \<le> n"
  shows "\<exists>m s'. GetStr_copy n moved s = Some (moved @ take m xs, s')
    \<and> m \<le> length xs \<and> src (drop m xs) s' r k \<and> \<not> isClosed s'
    \<and> m = min (nat n - length moved) (stop s - rdNext s)
    \<and> (int (length moved + m) < n \<longrightarrow> rdNext s' = stop s')"
proof (cases "rdNext s = stop s")
  case True
  with assms show ?thesis by (auto simp: GetStr_copy_def)
next
  case False
  let ?m = "min (nat n - length moved) (stop s - rdNext s)"
  have sh: "rdNext s \<le> stop s" "stop s \<le> length (buff s)"
    using src_shape [OF assms(1)] assms(2) by auto
  have m: "min (n - int (length moved)) (int (stop s) - int (rdNext s)) = int ?m"
    using sh assms(3) by (auto simp: min_def)
  have c: "seg (rdNext s) (rdNext s + ?m) (buff s) = take ?m xs" "?m \<le> length xs"
    "src (drop ?m xs) (s\<lparr>rdNext := rdNext s + ?m\<rparr>) r k"
    using src_consume [OF assms(1,2), of ?m] by auto
  have "memread (rdNext s) ?m (buff s) = Some (take ?m xs)"
    using sh c(1) by (subst memread_Some) auto
  with False m c assms(2) sh show ?thesis
    unfolding GetStr_copy_def Let_def m
    by (intro exI [of _ ?m] exI [of _ "s\<lparr>rdNext := rdNext s + ?m\<rparr>"])
      (auto simp: min_def split: if_splits)
qed

text \<open>The loop of \<open>FCGX_GetStr\<close> ends and delivers what is left, up to \<open>n\<close> bytes.\<close>

lemma GetStr_loop_src:
  assumes "src xs s r k" "\<not> isClosed s" "int (length moved) < n"
  shows "\<exists>s' r' k'. GetStr_loop fill n moved s r k =
      Some (int (length moved + length (take (nat n - length moved) xs)),
            moved @ take (nat n - length moved) xs, s', r', k')
    \<and> src (drop (nat n - length moved) xs) s' r' k'
    \<and> isClosed s' = (length xs < nat n - length moved)"
  using assms
proof (induction "(nat n - length moved) + of_bool (rdNext s = stop s)" arbitrary: moved xs s r k
    rule: less_induct)
  case less
  from GetStr_copy_src [OF less.prems(1,2), of moved n] less.prems(3) obtain m s1 where
    cp: "GetStr_copy n moved s = Some (moved @ take m xs, s1)" and m: "m \<le> length xs"
    and s1: "src (drop m xs) s1 r k" "\<not> isClosed s1"
    and mdef: "m = min (nat n - length moved) (stop s - rdNext s)"
    and full: "int (length moved + m) < n \<longrightarrow> rdNext s1 = stop s1" by auto
  have rd: "isReader s1" "rdNext s \<le> stop s"
    using src_shape [OF s1(1)] src_shape [OF less.prems(1)] less.prems(2) by auto
  show ?case
  proof (cases "int (length moved + m) = n")
    case True
    then have mn: "m = nat n - length moved" by auto
    with True cp m s1 show ?thesis
      by (subst GetStr_loop.simps) auto
  next
    case False
    with less.prems(3) mdef have lt: "int (length moved + m) < n" by auto
    with full have e: "rdNext s1 = stop s1" by simp
    from src_fill [OF s1 e] obtain s2 r2 k2 where f: "fill s1 r k = Some (s2, r2, k2)"
      and s2: "src (drop m xs) s2 r2 k2" and pr: "isClosed s2 \<or> rdNext s2 < stop s2" by blast
    show ?thesis
    proof (cases "isClosed s2")
      case True
      with src_closed [OF s2] have "drop m xs = []" by simp
      with m have mx: "m = length xs" by simp
      with lt have t: "take (nat n - length moved) xs = xs" "drop (nat n - length moved) xs = []"
        by auto
      from True lt cp f rd s1(2) mx s2 show ?thesis
        by (subst GetStr_loop.simps) (auto simp: t)
    next
      case False
      let ?s = "s2\<lparr>stopUnget := Some (rdNext s2)\<rparr>" and ?mv = "moved @ take m xs"
      have lm: "length ?mv = length moved + m" using m by simp
      have dec: "(nat n - length ?mv) + of_bool (rdNext ?s = stop ?s)
          < (nat n - length moved) + of_bool (rdNext s = stop s)"
      proof -
        have "of_bool (rdNext ?s = stop ?s) = (0 :: nat)" using pr False by simp
        moreover have "rdNext s \<noteq> stop s \<Longrightarrow> 1 \<le> m"
          using mdef rd(2) less.prems(3) by auto
        then have "nat n - length ?mv < nat n - length moved + of_bool (rdNext s = stop s)"
          using lt lm by (cases "rdNext s = stop s") auto
        ultimately show ?thesis by simp
      qed
      have lt': "int (length ?mv) < n" using lt lm by simp
      have oc: "\<not> isClosed ?s" using False by simp
      from less.hyps [OF dec src_mark [OF s2] oc lt'] obtain s3 r3 k3 where
        rec: "GetStr_loop fill n ?mv ?s r2 k2 =
          Some (int (length ?mv + length (take (nat n - length ?mv) (drop m xs))),
            ?mv @ take (nat n - length ?mv) (drop m xs), s3, r3, k3)"
        and s3: "src (drop (nat n - length ?mv) (drop m xs)) s3 r3 k3"
        and c3: "isClosed s3 = (length (drop m xs) < nat n - length ?mv)" by blast
      have tk: "take m xs @ take (nat n - length ?mv) (drop m xs) = take (nat n - length moved) xs"
        using lt lm take_add [of m "nat n - length ?mv" xs] by simp
      have dr: "drop (nat n - length ?mv) (drop m xs) = drop (nat n - length moved) xs"
        using lt lm by simp
      have ln: "length ?mv + length (take (nat n - length ?mv) (drop m xs))
          = length moved + length (take (nat n - length moved) xs)"
        using arg_cong [OF tk, of length] by simp
      have unf: "GetStr_loop fill n moved s r k = GetStr_loop fill n ?mv ?s r2 k2"
        by (subst GetStr_loop.simps) (use lt lm cp f rd s1(2) False in simp)
      have "GetStr_loop fill n ?mv ?s r2 k2 =
          Some (int (length moved + length (take (nat n - length moved) xs)),
            moved @ take (nat n - length moved) xs, s3, r3, k3)"
        unfolding rec ln append_assoc tk ..
      moreover have "isClosed s3 = (length xs < nat n - length moved)"
        using c3 lm m lt by auto
      ultimately show ?thesis using unf s3 unfolding dr by auto
    qed
  qed
qed

text \<open>\<open>FCGX_GetStr\<close> delivers the next \<open>n\<close> bytes, fewer exactly when the stream ends first.\<close>

lemma GetStr_src:
  assumes "src xs s r k"
  shows "\<exists>s' r' k'. FCGX_GetStr fill n s r k =
      Some (int (min (nat n) (length xs)), take (nat n) xs, s', r', k')
    \<and> src (drop (nat n) xs) s' r' k' \<and> isClosed s' = (isClosed s \<or> length xs < nat n)"
proof (cases "isClosed s \<or> n \<le> 0")
  case True
  with src_closed [OF assms] assms show ?thesis
    by (auto simp: FCGX_GetStr_def)
next
  case False
  then have op: "\<not> isClosed s" "0 < n" by auto
  have sh: "isReader s" "rdNext s \<le> stop s" "stop s \<le> length (buff s)"
    using src_shape [OF assms] op by auto
  show ?thesis
  proof (cases "n \<le> int (stop s) - int (rdNext s)")
    case True
    then have "nat n \<le> stop s - rdNext s" by auto
    from src_consume [OF assms op(1) this] sh op True show ?thesis
      by (auto simp: FCGX_GetStr_def memread_Some min_def)
  next
    case False
    from GetStr_loop_src [OF assms op(1), of "[]" n] op False sh show ?thesis
      by (auto simp: FCGX_GetStr_def min.commute)
  qed
qed

text \<open>\<open>FCGX_GetLine\<close> reads \<open>line_of\<close>: at most \<open>n\<close> bytes, up to and including the first newline.\<close>

lemma GetLine_loop_src:
  assumes "src xs s r k" "acc \<noteq> [] \<or> 0 < n"
  shows "\<exists>s' r' k'. GetLine_loop fill n acc s r k =
      Some (if acc @ line_of n xs = [] then None else Some (acc @ line_of n xs), s', r', k')
    \<and> src (drop (length (line_of n xs)) xs) s' r' k'"
  using assms
proof (induction n arbitrary: xs acc s r k)
  case 0
  then show ?case by auto
next
  case (Suc n)
  from GetChar_src [OF Suc.prems(1)] obtain s1 r1 k1 where
    g: "FCGX_GetChar fill s r k = Some (if xs = [] then EOF else uint (hd xs), s1, r1, k1)"
    and s1: "src (tl xs) s1 r1 k1" by blast
  show ?case
  proof (cases xs)
    case Nil
    with g s1 show ?thesis by auto
  next
    case (Cons x ys)
    have x10: "uint x = 10 \<longleftrightarrow> x = 10"
      by (simp add: word_uint_eq_iff)
    have ten: "EOF \<noteq> 10" "uchar 10 = 10" by (simp_all add: EOF_def uchar_def)
    from s1 Cons have s1': "src ys s1 r1 k1" by simp
    show ?thesis
    proof (cases "x = 10")
      case True
      with g Cons s1' x10 ten show ?thesis by (auto simp: Let_def)
    next
      case False
      from Suc.IH [OF s1', of "acc @ [x]"] g Cons False x10 show ?thesis
        by (auto simp: Let_def)
    qed
  qed
qed

lemma GetLine_src:
  assumes "src xs s r k" "1 < n"
  shows "\<exists>s' r' k'. FCGX_GetLine fill n s r k =
      Some (if xs = [] then None else Some (line_of (nat (n - 1)) xs), s', r', k')
    \<and> src (drop (length (line_of (nat (n - 1)) xs)) xs) s' r' k'"
proof -
  have "line_of (nat (n - 1)) xs = [] \<longleftrightarrow> xs = []"
    using assms(2) by (cases "nat (n - 1)"; cases xs) auto
  with GetLine_loop_src [OF assms(1), of "[]" "nat (n - 1)"] assms(2) show ?thesis
    by (cases "xs = []") (simp_all add: FCGX_GetLine_def)
qed

end

section \<open>The contract of an empty procedure\<close>

text \<open>
  A client of a writer, as a list of calls. \<open>run_writes\<close> makes them in order and stops at the
  first that reports a failure, as the result tells; \<open>written\<close> is what the calls mean to write.
\<close>

datatype write_call = WChar int | WStr "byte list" | WFlush

fun do_write ::
  "(bool \<Rightarrow> filler) \<Rightarrow> write_call \<Rightarrow> stream \<Rightarrow> FCGX_Request \<Rightarrow> os
     \<Rightarrow> (int \<times> stream \<times> FCGX_Request \<times> os) option" where
  "do_write emp (WChar c) s r k = FCGX_PutChar emp c s r k"
| "do_write emp (WStr str) s r k = FCGX_PutStr emp str (int (length str)) s r k"
| "do_write emp WFlush s r k = FCGX_FFlush emp s r k"

fun run_writes ::
  "(bool \<Rightarrow> filler) \<Rightarrow> write_call list \<Rightarrow> stream \<Rightarrow> FCGX_Request \<Rightarrow> os
     \<Rightarrow> (bool \<times> stream \<times> FCGX_Request \<times> os) option" where
  "run_writes emp [] s r k = Some (True, s, r, k)"
| "run_writes emp (c # cs) s r k =
     do { (v, s, r, k) \<leftarrow> do_write emp c s r k;
          if v < 0 then Some (False, s, r, k) else run_writes emp cs s r k }"

fun written_by :: "write_call \<Rightarrow> byte list" where
  "written_by (WChar c) = [uchar c]"
| "written_by (WStr str) = str"
| "written_by WFlush = []"

definition written :: "write_call list \<Rightarrow> byte list" where
  "written cs = concat (map written_by cs)"

lemma PutStr_copy_nothing: "wrNext s = stop s \<Longrightarrow> PutStr_copy str n moved s = Some (moved, s)"
  by (simp add: PutStr_copy_def)

text \<open>
  On a closed stream \<open>FCGX_PutStr\<close> still returns, and changes only the buffer and its fill
  level; with a full buffer it changes nothing.
\<close>

lemma PutStr_closed:
  assumes "isClosed s" "wrNext s \<le> stop s" "stop s \<le> length (buff s)"
  shows "\<exists>v w b. FCGX_PutStr emp str (int (length str)) s r k = Some (v, s\<lparr>wrNext := w, buff := b\<rparr>, r, k)
    \<and> wrNext s \<le> w \<and> w \<le> stop s \<and> length b = length (buff s)"
proof -
  define m where "m = min (length str) (stop s - wrNext s)"
  let ?b = "take (wrNext s) (buff s) @ take m str @ drop (wrNext s + m) (buff s)"
  have mw: "memwrite (wrNext s) (take m str) (buff s) = Some ?b"
    using assms(2,3) by (auto simp: memwrite_def m_def min_def)
  note lb = memwrite_length [OF mw]
  have mr: "memread 0 m str = Some (take m str)"
    by (simp add: memread_def m_def)
  have mi: "min (int (length str) - 0) (int (stop s) - int (wrNext s)) = int m"
    using assms(2) by (auto simp: m_def min_def)
  have put: "PutStr_copy str (int (length str)) 0 s = Some (int m, s\<lparr>wrNext := wrNext s + m, buff := ?b\<rparr>)"
    if "wrNext s \<noteq> stop s"
    using that mw mr unfolding PutStr_copy_def Let_def mi by simp
  have direct: "FCGX_PutStr emp str (int (length str)) s r k
        = Some (int (length str), s\<lparr>wrNext := wrNext s + m, buff := ?b\<rparr>, r, k)"
    if "int (length str) \<le> int (stop s) - int (wrNext s)"
  proof -
    from that have "m = length str" by (simp add: m_def)
    with that mw mr show ?thesis by (simp add: FCGX_PutStr_def)
  qed
  have m: "wrNext s \<le> wrNext s + m" "wrNext s + m \<le> stop s"
    using assms(2) by (auto simp: m_def)
  show ?thesis
  proof (cases "int (length str) \<le> int (stop s) - int (wrNext s)")
    case True
    with direct m lb show ?thesis by blast
  next
    case False
    then have l: "0 < length str" "m < length str" using assms(2) by (auto simp: m_def)
    show ?thesis
    proof (cases "wrNext s = stop s")
      case True
      have "FCGX_PutStr emp str (int (length str)) s r k = Some (-1, s\<lparr>wrNext := wrNext s, buff := buff s\<rparr>, r, k)"
        using False l True assms(1)
        by (simp add: FCGX_PutStr_def) (subst PutStr_loop.simps, simp add: PutStr_copy_def)
      then show ?thesis using assms(2) by blast
    next
      case neq: False
      have "FCGX_PutStr emp str (int (length str)) s r k
          = Some (-1, s\<lparr>wrNext := wrNext s + m, buff := ?b\<rparr>, r, k)"
        using False l put [OF neq] assms(1)
        by (simp add: FCGX_PutStr_def) (subst PutStr_loop.simps, simp)
      with m lb show ?thesis by blast
    qed
  qed
qed

text \<open>\<open>FCGX_PutStr\<close> of the first \<open>n\<close> bytes of an array.\<close>

lemma memread_prefix: "memread i c (take n str) = Some bs \<Longrightarrow> memread i c str = Some bs"
  by (auto simp: memread_def drop_take min_def split: if_splits)

lemma PutStr_copy_prefix:
  "PutStr_copy (take n str) m i s = Some y \<Longrightarrow> PutStr_copy str m i s = Some y"
  by (auto simp: PutStr_copy_def bind_eq_Some_conv Let_def dest: memread_prefix split: if_splits)

lemma PutStr_loop_prefix:
  "PutStr_loop emp (take n str) m i s r k = Some y \<Longrightarrow> PutStr_loop emp str m i s r k = Some y"
proof -
  have "\<forall>str n. t = take n str \<longrightarrow> PutStr_loop emp str m i s r k = Some y"
    if "PutStr_loop emp t m i s r k = Some y" for t
  proof (rule PutStr_loop.raw_induct [where P = "\<lambda>emp t m i s r k y. \<forall>str n. t = take n str
      \<longrightarrow> PutStr_loop emp str m i s r k = Some y", OF _ that], intro allI impI)
    fix loop emp t m i s r k y str n
    assume ih: "\<And>emp t m i s r k y. loop emp t m i s r k = Some y \<Longrightarrow>
        \<forall>str n. t = take n str \<longrightarrow> PutStr_loop emp str m i s r k = Some y"
      and e: "do { (i, s) \<leftarrow> PutStr_copy t m i s;
          if i = m then Some (m, s, r, k)
          else if isClosed s \<or> isReader s then Some (-1, s, r, k)
          else do { (s, r, k) \<leftarrow> emp False s r k; loop emp t m i s r k } } = Some y"
      and t: "t = take n str"
    from e obtain i1 s1 where c: "PutStr_copy t m i s = Some (i1, s1)"
      and r: "(if i1 = m then Some (m, s1, r, k)
          else if isClosed s1 \<or> isReader s1 then Some (-1, s1, r, k)
          else do { (s, r, k) \<leftarrow> emp False s1 r k; loop emp t m i1 s r k }) = Some y"
      by (auto simp: bind_eq_Some_conv)
    have "PutStr_copy str m i s = Some (i1, s1)" using c unfolding t by (rule PutStr_copy_prefix)
    moreover have "loop emp t m i1 s r k = Some y \<Longrightarrow> PutStr_loop emp str m i1 s r k = Some y" for s r k
      using ih t by blast
    ultimately show "PutStr_loop emp str m i s r k = Some y"
      using r by (subst PutStr_loop.simps) (auto simp: bind_eq_Some_conv split: if_splits)
  qed
  then show "PutStr_loop emp (take n str) m i s r k = Some y \<Longrightarrow> PutStr_loop emp str m i s r k = Some y" by blast
qed

text \<open>
  \<open>acc xs s r k\<close> says that the open stream \<open>s\<close> has accepted the bytes \<open>xs\<close>; \<open>failed\<close> is what
  holds of a stream whose output has failed. The provider promises: bytes put into the free
  part of the buffer are accepted, and the empty procedure returns, and either keeps what
  was accepted and leaves room, or closes the stream and leaves a full buffer full.
\<close>

locale byte_sink =
  fixes emp :: "bool \<Rightarrow> filler"
    and acc :: "byte list \<Rightarrow> stream \<Rightarrow> FCGX_Request \<Rightarrow> os \<Rightarrow> bool"
    and failed :: "stream \<Rightarrow> FCGX_Request \<Rightarrow> os \<Rightarrow> bool"
  assumes acc_shape: "acc xs s r k \<Longrightarrow>
      \<not> isReader s \<and> \<not> isClosed s \<and> wrNext s \<le> stop s \<and> stop s \<le> length (buff s)"
    and acc_put: "acc xs s r k \<Longrightarrow> length bs \<le> stop s - wrNext s \<Longrightarrow>
      memwrite (wrNext s) bs (buff s) = Some b \<Longrightarrow>
      acc (xs @ bs) (s\<lparr>wrNext := wrNext s + length bs, buff := b\<rparr>) r k"
    and acc_empty: "acc xs s r k \<Longrightarrow>
      \<exists>s' r' k'. emp False s r k = Some (s', r', k')
        \<and> (acc xs s' r' k' \<and> wrNext s' < stop s'
          \<or> failed s' r' k' \<and> isClosed s' \<and> (wrNext s = stop s \<longrightarrow> wrNext s' = stop s'))"
begin

text \<open>Putting bytes into the free part of the buffer.\<close>

lemma put_room:
  assumes "acc xs s r k" "length bs \<le> stop s - wrNext s"
  shows "\<exists>b. memwrite (wrNext s) bs (buff s) = Some b
    \<and> acc (xs @ bs) (s\<lparr>wrNext := wrNext s + length bs, buff := b\<rparr>) r k"
proof -
  have "wrNext s + length bs \<le> length (buff s)"
    using acc_shape [OF assms(1)] assms(2) by auto
  then obtain b where "memwrite (wrNext s) bs (buff s) = Some b"
    by (simp add: memwrite_def)
  with acc_put [OF assms] show ?thesis by blast
qed

lemma PutChar_acc:
  assumes "acc xs s r k"
  shows "\<exists>v s' r' k'. FCGX_PutChar emp c s r k = Some (v, s', r', k')
    \<and> (v = uint (uchar c) \<and> acc (xs @ [uchar c]) s' r' k'
      \<or> v = EOF \<and> failed s' r' k' \<and> isClosed s')"
proof (cases "wrNext s = stop s")
  case False
  with acc_shape [OF assms] have "length [uchar c] \<le> stop s - wrNext s" by auto
  from put_room [OF assms this] False show ?thesis
    by (auto simp: FCGX_PutChar_def)
next
  case True
  from acc_empty [OF assms] obtain s' r' k' where e: "emp False s r k = Some (s', r', k')"
    and out: "acc xs s' r' k' \<and> wrNext s' < stop s'
      \<or> failed s' r' k' \<and> isClosed s' \<and> wrNext s' = stop s'"
    using True by blast
  from out show ?thesis
  proof
    assume a: "acc xs s' r' k' \<and> wrNext s' < stop s'"
    then have ac: "acc xs s' r' k'" and room: "length [uchar c] \<le> stop s' - wrNext s'" by auto
    from put_room [OF ac room] a True e acc_shape [OF assms] show ?thesis
      by (auto simp: FCGX_PutChar_def)
  next
    assume "failed s' r' k' \<and> isClosed s' \<and> wrNext s' = stop s'"
    with True e acc_shape [OF assms] show ?thesis
      by (auto simp: FCGX_PutChar_def)
  qed
qed

lemma PutStr_copy_acc:
  assumes "acc xs s r k" "moved \<le> length str"
  shows "\<exists>m s'. PutStr_copy str (int (length str)) (int moved) s = Some (int (moved + m), s')
    \<and> acc (xs @ take m (drop moved str)) s' r k
    \<and> m = min (length str - moved) (stop s - wrNext s)
    \<and> (moved + m < length str \<longrightarrow> wrNext s' = stop s')"
proof (cases "wrNext s = stop s")
  case True
  with assms show ?thesis by (auto simp: PutStr_copy_def)
next
  case False
  let ?m = "min (length str - moved) (stop s - wrNext s)"
  have sh: "wrNext s \<le> stop s" using acc_shape [OF assms(1)] by auto
  have m: "min (int (length str) - int moved) (int (stop s) - int (wrNext s)) = int ?m"
    using sh assms(2) by (auto simp: min_def)
  have mr: "memread moved ?m str = Some (take ?m (drop moved str))"
    using assms(2) by (auto simp: memread_def)
  have "length (take ?m (drop moved str)) = ?m" using assms(2) by auto
  with put_room [OF assms(1), of "take ?m (drop moved str)"] obtain b where
    b: "memwrite (wrNext s) (take ?m (drop moved str)) (buff s) = Some b"
    and a: "acc (xs @ take ?m (drop moved str)) (s\<lparr>wrNext := wrNext s + ?m, buff := b\<rparr>) r k"
    by auto
  with False m mr sh show ?thesis
    unfolding PutStr_copy_def Let_def m
    by (intro exI [of _ ?m] exI [of _ "s\<lparr>wrNext := wrNext s + ?m, buff := b\<rparr>"])
      (auto simp: min_def split: if_splits)
qed

text \<open>The loop of \<open>FCGX_PutStr\<close> ends: either all of \<open>str\<close> is accepted or the output has failed.\<close>

lemma PutStr_loop_acc:
  assumes "acc xs s r k" "moved < length str"
  shows "\<exists>v s' r' k'. PutStr_loop emp str (int (length str)) (int moved) s r k = Some (v, s', r', k')
    \<and> (v = int (length str) \<and> acc (xs @ drop moved str) s' r' k'
      \<or> v = -1 \<and> failed s' r' k' \<and> isClosed s')"
  using assms
proof (induction "(length str - moved) + of_bool (wrNext s = stop s)" arbitrary: moved xs s r k
    rule: less_induct)
  case less
  from PutStr_copy_acc [OF less.prems(1), of moved str] less.prems(2) obtain m s1 where
    cp: "PutStr_copy str (int (length str)) (int moved) s = Some (int (moved + m), s1)"
    and s1: "acc (xs @ take m (drop moved str)) s1 r k"
    and mdef: "m = min (length str - moved) (stop s - wrNext s)"
    and full: "moved + m < length str \<longrightarrow> wrNext s1 = stop s1" by auto
  show ?case
  proof (cases "moved + m = length str")
    case True
    with s1 have "acc (xs @ drop moved str) s1 r k" by simp
    with True cp show ?thesis
      by (subst PutStr_loop.simps) auto
  next
    case False
    with mdef have lt: "moved + m < length str" using less.prems(2) by auto
    have sh1: "\<not> isClosed s1" "\<not> isReader s1" using acc_shape [OF s1] by auto
    from acc_empty [OF s1] full lt obtain s2 r2 k2 where
      e: "emp False s1 r k = Some (s2, r2, k2)"
      and out: "acc (xs @ take m (drop moved str)) s2 r2 k2 \<and> wrNext s2 < stop s2
        \<or> failed s2 r2 k2 \<and> isClosed s2 \<and> wrNext s2 = stop s2" by blast
    have unf: "PutStr_loop emp str (int (length str)) (int moved) s r k =
        PutStr_loop emp str (int (length str)) (int (moved + m)) s2 r2 k2"
      by (subst PutStr_loop.simps) (use cp e sh1 lt in simp)
    from out show ?thesis
    proof
      assume a: "acc (xs @ take m (drop moved str)) s2 r2 k2 \<and> wrNext s2 < stop s2"
      have "length str - (moved + m) + of_bool (wrNext s2 = stop s2)
          < length str - moved + of_bool (wrNext s = stop s)"
        using a lt mdef acc_shape [OF less.prems(1)] by (cases "wrNext s = stop s") auto
      from less.hyps [OF this, of "xs @ take m (drop moved str)" r2 k2] a lt
      obtain v s3 r3 k3 where
        "PutStr_loop emp str (int (length str)) (int (moved + m)) s2 r2 k2 = Some (v, s3, r3, k3)"
        "v = int (length str) \<and>
           acc ((xs @ take m (drop moved str)) @ drop (moved + m) str) s3 r3 k3
         \<or> v = -1 \<and> failed s3 r3 k3 \<and> isClosed s3" by blast
      moreover have "take m (drop moved str) @ drop (moved + m) str = drop moved str"
        by (metis append_take_drop_id drop_drop add.commute)
      ultimately show ?thesis using unf by auto
    next
      assume c: "failed s2 r2 k2 \<and> isClosed s2 \<and> wrNext s2 = stop s2"
      then have "PutStr_loop emp str (int (length str)) (int (moved + m)) s2 r2 k2
          = Some (-1, s2, r2, k2)"
        by (subst PutStr_loop.simps) (use lt in \<open>simp add: PutStr_copy_def\<close>)
      with unf c show ?thesis by auto
    qed
  qed
qed

text \<open>\<open>FCGX_PutStr\<close> on a whole array: all its bytes are accepted, in order, or -1 is returned.\<close>

lemma PutStr_acc:
  assumes "acc xs s r k"
  shows "\<exists>v s' r' k'. FCGX_PutStr emp str (int (length str)) s r k = Some (v, s', r', k')
    \<and> (v = int (length str) \<and> acc (xs @ str) s' r' k'
      \<or> v = -1 \<and> failed s' r' k' \<and> isClosed s')"
proof (cases "int (length str) \<le> int (stop s) - int (wrNext s)")
  case True
  then have "length str \<le> stop s - wrNext s" by auto
  from put_room [OF assms this] True show ?thesis
    by (auto simp: FCGX_PutStr_def memread_def)
next
  case False
  with acc_shape [OF assms] have "0 < length str" by (cases str) auto
  from PutStr_loop_acc [OF assms this] False show ?thesis
    by (auto simp: FCGX_PutStr_def)
qed

lemma FFlush_acc:
  assumes "acc xs s r k"
  shows "\<exists>v s' r' k'. FCGX_FFlush emp s r k = Some (v, s', r', k')
    \<and> (v = 0 \<and> acc xs s' r' k' \<or> v = -1 \<and> failed s' r' k' \<and> isClosed s')"
proof -
  from acc_empty [OF assms] obtain s' r' k' where "emp False s r k = Some (s', r', k')"
    and "acc xs s' r' k' \<or> failed s' r' k' \<and> isClosed s'" by blast
  then show ?thesis
    using acc_shape [OF assms] acc_shape [of xs s' r' k'] by (auto simp: FCGX_FFlush_def)
qed

text \<open>Any sequence of writes: what it means to write is accepted, in order, or it has failed.\<close>

lemma do_write_acc:
  assumes "acc xs s r k"
  shows "\<exists>v s' r' k'. do_write emp c s r k = Some (v, s', r', k')
    \<and> (0 \<le> v \<and> acc (xs @ written_by c) s' r' k' \<or> v < 0 \<and> failed s' r' k' \<and> isClosed s')"
proof (cases c)
  case (WChar x)
  have "EOF < 0" by (simp add: EOF_def)
  with PutChar_acc [OF assms, of x] WChar show ?thesis by fastforce
next
  case (WStr str)
  with PutStr_acc [OF assms, of str] show ?thesis by fastforce
next
  case WFlush
  with FFlush_acc [OF assms] show ?thesis by fastforce
qed

lemma run_writes_acc:
  assumes "acc xs s r k"
  shows "\<exists>v s' r' k'. run_writes emp cs s r k = Some (v, s', r', k')
    \<and> (v \<and> acc (xs @ written cs) s' r' k' \<or> \<not> v \<and> failed s' r' k' \<and> isClosed s')"
  using assms
proof (induction cs arbitrary: xs s r k)
  case Nil
  then show ?case by (auto simp: written_def)
next
  case (Cons c cs)
  from do_write_acc [OF Cons.prems, of c] obtain v s1 r1 k1 where
    d: "do_write emp c s r k = Some (v, s1, r1, k1)"
    and out: "0 \<le> v \<and> acc (xs @ written_by c) s1 r1 k1 \<or> v < 0 \<and> failed s1 r1 k1 \<and> isClosed s1"
    by blast
  from out show ?case
  proof
    assume a: "0 \<le> v \<and> acc (xs @ written_by c) s1 r1 k1"
    with Cons.IH [of "xs @ written_by c" s1 r1 k1] d show ?thesis by (auto simp: written_def)
  next
    assume "v < 0 \<and> failed s1 r1 k1 \<and> isClosed s1"
    with d show ?thesis by auto
  qed
qed

text \<open>The first bytes of an array.\<close>

lemma PutStr_prefix_acc:
  assumes "acc xs s r k" "n \<le> length str"
  shows "\<exists>v s' r' k'. FCGX_PutStr emp str (int n) s r k = Some (v, s', r', k')
    \<and> (v = int n \<and> acc (xs @ take n str) s' r' k' \<or> v = -1 \<and> failed s' r' k' \<and> isClosed s')"
proof -
  have "FCGX_PutStr emp (take n str) (int n) s r k = Some y \<Longrightarrow> FCGX_PutStr emp str (int n) s r k = Some y" for y
    using PutStr_loop_prefix [of emp n str] assms(2) by (auto simp: FCGX_PutStr_def memread_def bind_eq_Some_conv split: if_splits)
  with PutStr_acc [OF assms(1), of "take n str"] assms(2) show ?thesis by (auto simp: min_absorb2)
qed

end

end
