(* ===== verification/Alloc.thy ===== *)
theory Alloc
  imports Streams
begin

text \<open>
  Creating, re-initialising and freeing streams (\<open>fcgiapp.c\<close>: \<open>NewStream\<close>, \<open>NewReader\<close>,
  \<open>NewWriter\<close>, \<open>FCGX_CreateWriter\<close>, \<open>SetReaderType\<close>, \<open>FCGX_FreeStream\<close>), and the
  well-formedness of the streams they make.

  The buffer starts at the aligned address \<open>data->buff\<close>; the list \<open>buff\<close> holds every byte
  from there to the end of the allocated block, so a write that stays in the list stays in
  the block.
\<close>

definition NewStream :: "int \<Rightarrow> bool \<Rightarrow> int \<Rightarrow> os \<Rightarrow> stream option" where
  "NewStream len reader streamType k =
     do {
       let n = AlignInt8 (min (max len 32) (FCGI_MAX_LENGTH + 1));
       ASSERT (0 \<le> n \<and> n \<le> INT_MAX);
       let m = malloc_at k n;
       ASSERT (m \<noteq> 0);
       let b = AlignPtr8 m;
       let off = nat (uint b - uint m);
       let blen = (if b \<noteq> m then n - 8 else n);
       let bstop = (if reader then 0 else nat blen);
       Some \<lparr>rdNext = (if reader then 0 else bstop),
             wrNext = (if reader then 0 else 8),
             stop = (if reader then 0 else bstop),
             stopUnget = (if reader then Some 0 else None),
             isReader = reader,
             isClosed = False,
             wasFCloseCalled = False,
             FCGI_errno = 0,
             buff = map (junk k) [off ..< nat n],
             bufflen = blen,
             mBuff = m,
             buffStop = bstop,
             strtype = streamType,
             eorStop = False,
             skip = False,
             contentLen = 0,
             paddingLen = 0,
             isAnythingWritten = False,
             rawWrite = False\<rparr>
     }"

definition NewReader :: "int \<Rightarrow> int \<Rightarrow> os \<Rightarrow> stream option" where
  "NewReader len streamType k = NewStream len True streamType k"

definition NewWriter :: "int \<Rightarrow> int \<Rightarrow> os \<Rightarrow> stream option" where
  "NewWriter len streamType k = NewStream len False streamType k"

text \<open>\<open>FCGX_CreateWriter\<close>: \<open>u\<close> is the uninitialised request block \<open>Malloc\<close> returns.\<close>

definition FCGX_CreateWriter ::
  "int \<Rightarrow> int \<Rightarrow> int \<Rightarrow> int \<Rightarrow> FCGX_Request \<Rightarrow> os \<Rightarrow> (stream \<times> FCGX_Request) option" where
  "FCGX_CreateWriter fd reqId len streamType u k =
     do { let r = u\<lparr>ipcFd := fd, requestId := reqId, nWriters := 2\<rparr>;
          s \<leftarrow> NewWriter len streamType k;
          Some (s, r) }"

definition SetReaderType :: "int \<Rightarrow> stream \<Rightarrow> stream option" where
  "SetReaderType streamType s =
     do { ASSERT (isReader s);
          Some (s\<lparr>strtype := streamType, eorStop := False, skip := False, contentLen := 0,
                  paddingLen := 0, wrNext := rdNext s, stop := rdNext s, isClosed := False\<rparr>) }"

text \<open>\<open>FCGX_FreeStream\<close> frees the stream and nulls the pointer to it.\<close>

definition FCGX_FreeStream :: "stream option \<Rightarrow> stream option" where
  "FCGX_FreeStream p = (case p of None \<Rightarrow> None | Some s \<Rightarrow> None)"

section \<open>Well-formed buffers\<close>

text \<open>
  The buffer of every stream: \<open>bufflen\<close> is a positive multiple of 8, at most 65536, and lies
  in the allocated block. \<open>malloc_fits\<close> is what the C standard promises of a block, that it does not
  run past the end of the address space, and that the allocation succeeds.
\<close>

definition buff_ok :: "stream \<Rightarrow> bool" where
  "buff_ok s \<longleftrightarrow> 24 \<le> bufflen s \<and> bufflen s \<le> 65536 \<and> bufflen s mod 8 = 0
     \<and> nat (bufflen s) \<le> length (buff s)"

definition malloc_fits :: "os \<Rightarrow> bool" where
  "malloc_fits k \<longleftrightarrow> (\<forall>n. 0 \<le> n \<longrightarrow> n \<le> 65536 \<longrightarrow>
     malloc_at k n \<noteq> 0 \<and> uint (malloc_at k n) + n + 8 < 2 ^ 64)"

lemma AlignInt8_buff_range:
  "32 \<le> AlignInt8 (min (max len 32) 65536) \<and> AlignInt8 (min (max len 32) 65536) \<le> 65536"
proof -
  have "min (max len 32) 65536 \<le> AlignInt8 (min (max len 32) 65536)"
    using AlignInt8_bounds by blast
  moreover have "AlignInt8 (min (max len 32) 65536) \<le> 65536"
    by (rule AlignInt8_least) auto
  ultimately show ?thesis by auto
qed

lemma NewStream_ok:
  assumes "malloc_fits k"
  shows "\<exists>s. NewStream len reader t k = Some s \<and> buff_ok s"
proof -
  define n where "n = AlignInt8 (min (max len 32) 65536)"
  have n: "32 \<le> n" "n \<le> 65536" "n mod 8 = 0"
    unfolding n_def using AlignInt8_buff_range AlignInt8_bounds by blast+
  let ?m = "malloc_at k n" and ?b = "AlignPtr8 (malloc_at k n)"
  have m: "?m \<noteq> 0" "uint ?m + n + 8 < 2 ^ 64"
    using assms n(1,2) by (simp_all add: malloc_fits_def)
  then have "uint ?m + 7 < 2 ^ 64" using n(1) by linarith
  then have b: "uint ?m \<le> uint ?b" "uint ?b < uint ?m + 8"
    using AlignPtr8_bounds by blast+
  define off where "off = nat (uint ?b - uint ?m)"
  define blen where "blen = (if ?b \<noteq> ?m then n - 8 else n)"
  have off: "off < 8" "?b = ?m \<Longrightarrow> off = 0"
    using b by (auto simp: off_def)
  have "nat blen \<le> nat n - off" "24 \<le> blen" "blen \<le> 65536" "blen mod 8 = 0"
    using n off by (auto simp: blen_def mod_diff_eq)
  then show ?thesis
    using n m(1) by (auto simp: NewStream_def Let_def buff_ok_def INT_MAX_def
        simp flip: n_def off_def blen_def)
qed

text \<open>What a new stream starts with.\<close>

lemma NewStream_fields:
  assumes "NewStream len reader t k = Some s"
  shows "isReader s = reader" "isClosed s = False" "wasFCloseCalled s = False" "FCGI_errno s = 0"
    "strtype s = t" "rawWrite s = False" "isAnythingWritten s = False" "eorStop s = False"
    "skip s = False" "contentLen s = 0" "paddingLen s = 0"
    "stop s = (if reader then 0 else nat (bufflen s))" "buffStop s = stop s"
    "rdNext s = (if reader then 0 else stop s)" "wrNext s = (if reader then 0 else 8)"
    "stopUnget s = (if reader then Some 0 else None)"
  using assms
  by (unfold NewStream_def Let_def bind_Some_iff, (elim exE conjE, simp only: option.inject,
    hypsubst, simp (no_asm))+)

end
