(* ===== verification/Params.thy ===== *)
theory Params
  imports Alloc
begin

text \<open>
  Request parameters (\<open>fcgiapp.c\<close>): the growing vector \<open>Params\<close>, \<open>FCGX_GetParam\<close>, and
  \<open>ReadParams\<close>, which decodes the name-value pairs of the \<open>FCGI_PARAMS\<close> stream.

  \<open>decode_pairs\<close> is the specification of the encoding on plain bytes. \<open>ReadParams\<close> is a client
  of a \<open>byte_source\<close>, and what it does is proved for every such source.
\<close>

section \<open>The vector\<close>

text \<open>A slot of the vector: a string block, \<open>NULL\<close>, or what \<open>Malloc\<close> left there.\<close>

datatype slot = Str "byte list" | NULL | Uninit

record Params =
  vec :: "slot list"
  plength :: int
  cur :: nat

definition NewParams :: "int \<Rightarrow> Params option" where
  "NewParams len =
     do { ASSERT (0 \<le> len);
          v \<leftarrow> memwrite 0 [NULL] (replicate (nat len) Uninit);
          Some \<lparr>vec = v, plength = len, cur = 0\<rparr> }"

text \<open>\<open>FreeParams\<close> frees the strings before \<open>cur\<close> (a slot that holds none is an invalid free).\<close>

definition FreeParams :: "Params option \<Rightarrow> Params option option" where
  "FreeParams p =
     (case p of None \<Rightarrow> Some None
      | Some q \<Rightarrow>
          do { ss \<leftarrow> memread 0 (cur q) (vec q);
               ASSERT (list_all (\<lambda>x. x \<noteq> Uninit) ss);
               Some None })"

definition PutParam :: "byte list \<Rightarrow> Params \<Rightarrow> Params option" where
  "PutParam nameValue p =
     do { v \<leftarrow> memwrite (cur p) [Str nameValue] (vec p);
          let p = p\<lparr>vec := v, cur := cur p + 1\<rparr>;
          let sz = cur p;
          p \<leftarrow> (if int sz \<ge> plength p then
                  do { len \<leftarrow> int_checked (plength p * 2);
                       Some (p\<lparr>plength := len,
                               vec := take (nat len) (vec p) @ replicate (nat len - length (vec p)) Uninit,
                               cur := sz\<rparr>) }
                else Some p);
          v \<leftarrow> memwrite (cur p) [NULL] (vec p);
          Some (p\<lparr>vec := v\<rparr>) }"

text \<open>The result of \<open>FCGX_GetParam\<close> is \<open>NULL\<close> or the block the returned pointer points to.\<close>

fun GetParam_loop :: "byte list \<Rightarrow> nat \<Rightarrow> slot list \<Rightarrow> byte list option option" where
  "GetParam_loop name len [] = None"
| "GetParam_loop name len (NULL # envp) = Some None"
| "GetParam_loop name len (Uninit # envp) = None"
| "GetParam_loop name len (Str p # envp) =
     do { eq \<leftarrow> strncmp_eq name p len;
          found \<leftarrow> (if eq then do { c \<leftarrow> deref p len; Some (c = 61) } else Some False);
          if found then Some (Some (drop (len + 1) p)) else GetParam_loop name len envp }"

definition FCGX_GetParam :: "byte list option \<Rightarrow> slot list option \<Rightarrow> byte list option option" where
  "FCGX_GetParam name envp =
     (case (name, envp) of
        (Some name, Some envp) \<Rightarrow> do { len \<leftarrow> strlen name; GetParam_loop name len envp }
      | _ \<Rightarrow> Some None)"

section \<open>ReadParams\<close>

text \<open>
  A length whose first byte \<open>b\<close> has been read: \<open>b\<close> itself, or with its high bit set four bytes.
  The first component is \<open>None\<close> when the stream ends inside the length.
\<close>

definition ReadLen ::
  "filler \<Rightarrow> int \<Rightarrow> stream \<Rightarrow> FCGX_Request \<Rightarrow> os
     \<Rightarrow> (int option \<times> stream \<times> FCGX_Request \<times> os) option" where
  "ReadLen fillBuffProc b s r k =
     (if b AND 0x80 \<noteq> 0 then
        do { (c, lenBuff, s, r, k) \<leftarrow> FCGX_GetStr fillBuffProc 3 s r k;
             if c \<noteq> 3 then Some (None, s, r, k)
             else do { b2 \<leftarrow> deref lenBuff 0; b1 \<leftarrow> deref lenBuff 1; b0 \<leftarrow> deref lenBuff 2;
                       Some (Some (push_bit 24 (b AND 0x7f) + push_bit 16 (uint b2)
                                   + push_bit 8 (uint b1) + uint b0), s, r, k) } }
      else Some (Some b, s, r, k))"

text \<open>
  The name and the value: allocate, read both into the block, add \<open>=\<close> and the terminating
  zero. \<open>None\<close> in the first component is a stream that ends too early. The sum is a signed
  \<open>int\<close> addition; a negative size asks \<open>Malloc\<close> for more than can be allocated.
\<close>

definition ReadPair ::
  "filler \<Rightarrow> int \<Rightarrow> int \<Rightarrow> stream \<Rightarrow> FCGX_Request \<Rightarrow> os
     \<Rightarrow> (byte list option \<times> stream \<times> FCGX_Request \<times> os) option" where
  "ReadPair fillBuffProc nameLen valueLen s r k =
     do { sz \<leftarrow> int_checked (nameLen + valueLen + 2);
          ASSERT (0 \<le> sz);
          let nameValue = map (junk k) [0 ..< nat sz];
          (c, bs, s, r, k) \<leftarrow> FCGX_GetStr fillBuffProc nameLen s r k;
          nameValue \<leftarrow> memwrite 0 bs nameValue;
          if c \<noteq> nameLen then Some (None, s, r, k)
          else do {
            nameValue \<leftarrow> memwrite (nat nameLen) [61] nameValue;
            (c, bs, s, r, k) \<leftarrow> FCGX_GetStr fillBuffProc valueLen s r k;
            nameValue \<leftarrow> memwrite (nat (nameLen + 1)) bs nameValue;
            if c \<noteq> valueLen then Some (None, s, r, k)
            else do { nameValue \<leftarrow> memwrite (nat (nameLen + valueLen + 1)) [0] nameValue;
                      Some (Some nameValue, s, r, k) } } }"

partial_function (option) ReadParams ::
  "filler \<Rightarrow> Params \<Rightarrow> stream \<Rightarrow> FCGX_Request \<Rightarrow> os
     \<Rightarrow> (int \<times> Params \<times> stream \<times> FCGX_Request \<times> os) option" where
  "ReadParams fillBuffProc p s r k =
     do { (nameLen, s, r, k) \<leftarrow> FCGX_GetChar fillBuffProc s r k;
          if nameLen = EOF then Some (0, p, s, r, k)
          else do {
            (nameLen, s, r, k) \<leftarrow> ReadLen fillBuffProc nameLen s r k;
            case nameLen of None \<Rightarrow> Some (-1, p, SetError FCGX_PARAMS_ERROR s, r, k)
            | Some nameLen \<Rightarrow> do {
            (valueLen, s, r, k) \<leftarrow> FCGX_GetChar fillBuffProc s r k;
            if valueLen = EOF then Some (-1, p, SetError FCGX_PARAMS_ERROR s, r, k)
            else do {
            (valueLen, s, r, k) \<leftarrow> ReadLen fillBuffProc valueLen s r k;
            case valueLen of None \<Rightarrow> Some (-1, p, SetError FCGX_PARAMS_ERROR s, r, k)
            | Some valueLen \<Rightarrow> do {
            (nameValue, s, r, k) \<leftarrow> ReadPair fillBuffProc nameLen valueLen s r k;
            case nameValue of None \<Rightarrow> Some (-1, p, SetError FCGX_PARAMS_ERROR s, r, k)
            | Some nameValue \<Rightarrow> do {
            p \<leftarrow> PutParam nameValue p;
            ReadParams fillBuffProc p s r k } } } } } }"

section \<open>The vector keeps its terminator\<close>

text \<open>\<open>p\<close> holds the strings \<open>es\<close>, in order, and a \<open>NULL\<close> after them, inside the allocated vector.\<close>

definition params_ok :: "byte list list \<Rightarrow> Params \<Rightarrow> bool" where
  "params_ok es p \<longleftrightarrow> cur p = length es \<and> int (length es) < plength p
     \<and> int (length (vec p)) = plength p \<and> plength p \<le> max 30 (2 * int (length es))
     \<and> (\<exists>rest. vec p = map Str es @ NULL # rest)"

lemma NewParams_ok: "0 < n \<Longrightarrow> n \<le> 30 \<Longrightarrow> \<exists>p. NewParams n = Some p \<and> params_ok [] p"
  by (auto simp: NewParams_def memwrite_def params_ok_def)

lemma FreeParams_ok: "params_ok es p \<Longrightarrow> FreeParams (Some p) = Some None"
  by (auto simp: FreeParams_def params_ok_def memread_def list_all_iff)

lemma PutParam_ok [inv_intros]:
  assumes "params_ok es p" "length es < 2 ^ 29"
  shows "\<exists>p'. PutParam e p = Some p' \<and> params_ok (es @ [e]) p'"
proof -
  obtain rest where p: "cur p = length es" "int (length es) < plength p"
    "int (length (vec p)) = plength p" "plength p \<le> max 30 (2 * int (length es))"
    "vec p = map Str es @ NULL # rest" using assms(1) by (auto simp: params_ok_def)
  let ?v = "map Str (es @ [e]) @ rest"
  have w: "memwrite (cur p) [Str e] (vec p) = Some ?v"
    using p by (simp add: memwrite_def)
  have lv: "int (length ?v) = plength p" using p by simp
  show ?thesis
  proof (cases "int (length es) + 1 \<ge> plength p")
    case False
    then obtain y rest' where r: "rest = y # rest'" using p by (cases rest) auto
    have "memwrite (Suc (length es)) [NULL] ?v = Some (map Str (es @ [e]) @ NULL # rest')"
      by (simp add: memwrite_def r)
    then show ?thesis using False p w r
      by (auto simp: PutParam_def Let_def params_ok_def)
  next
    case True
    with p(2,3,5) have "length rest = 0" "plength p = int (length es) + 1"
      by (auto simp del: length_0_conv)
    then have n: "plength p = int (length es) + 1" "rest = []" by auto
    have fi: "fits_int (plength p * 2)"
      using n assms(2) by (simp add: fits_int_def INT_MAX_def)
    have len: "nat (plength p * 2) = 2 * length es + 2" using n by simp
    have "memwrite (Suc (length es)) [NULL] (?v @ replicate (Suc (length es)) Uninit)
        = Some (map Str (es @ [e]) @ NULL # replicate (length es) Uninit)"
      by (simp add: memwrite_def n)
    then have "PutParam e p = Some (p\<lparr>vec := map Str (es @ [e]) @ NULL # replicate (length es) Uninit,
        cur := Suc (length es), plength := plength p * 2\<rparr>)"
      using w p(1) n fi len by (simp add: PutParam_def Let_def int_checked_def)
    with n show ?thesis by (simp add: params_ok_def)
  qed
qed

section \<open>Lookup\<close>

text \<open>The first entry that begins with the name and an equals sign, and what follows it.\<close>

fun lookup_entry :: "byte list \<Rightarrow> byte list list \<Rightarrow> byte list option" where
  "lookup_entry name [] = None"
| "lookup_entry name (e # es) =
     (if take (length name + 1) e = name @ [61] then Some (drop (length name + 1) e)
      else lookup_entry name es)"

lemma GetParam_loop_entries:
  assumes "0 \<notin> set name" "\<forall>e \<in> set es. 0 \<in> set e"
  shows "GetParam_loop (name @ m) (length name) (map Str es @ NULL # rest)
    = Some (lookup_entry name es)"
  using assms(2)
proof (induction es)
  case (Cons e es)
  have eq: "strncmp_eq (name @ m) e (length name) = Some (take (length name) e = name)"
    using Cons.prems assms(1) by (intro strncmp_eq_prefix) auto
  show ?case
  proof (cases "take (length name) e = name")
    case True
    with assms(1) Cons.prems have "length name < length e"
      by (metis list.set_intros(1) not_less take_all)
    moreover from this have "take (length name + 1) e = name @ [e ! length name]"
      using True by (simp add: take_Suc_conv_app_nth)
    ultimately show ?thesis using Cons True eq by auto
  next
    case False
    then have "take (length name + 1) e \<noteq> name @ [61]"
      by (metis append_eq_conv_conj length_append_singleton take_all_iff take_take
          Suc_eq_plus1 le_add1 min.absorb1)
    with False Cons eq show ?thesis by simp
  qed
qed simp

lemma FCGX_GetParam_entries:
  assumes "params_ok es p" "\<forall>e \<in> set es. 0 \<in> set e" "0 \<notin> set name"
  shows "FCGX_GetParam (Some (name @ 0 # m)) (Some (vec p)) = Some (lookup_entry name es)"
proof -
  obtain rest where "vec p = map Str es @ NULL # rest"
    using assms(1) by (auto simp: params_ok_def)
  then show ?thesis
    using GetParam_loop_entries [OF assms(3,2), of "0 # m" rest]
    by (simp add: FCGX_GetParam_def strlen_terminated [OF assms(3)])
qed

text \<open>Entries made of pairs: the lookup of a name without \<open>=\<close> is the lookup in the pairs.\<close>

definition entry :: "byte list \<times> byte list \<Rightarrow> byte list" where
  "entry nv = fst nv @ [61] @ snd nv @ [0]"

lemma entry_has_zero [simp]: "0 \<in> set (entry nv)"
  by (simp add: entry_def)

lemma append_eq_at:
  "x \<notin> set a \<Longrightarrow> x \<notin> set b \<Longrightarrow> a @ x # c = b @ x # d \<longleftrightarrow> a = b \<and> c = d"
proof (induction a arbitrary: b)
  case Nil
  then show ?case by (cases b) auto
next
  case (Cons y a)
  then show ?case by (cases b) auto
qed

lemma lookup_entry_pairs:
  assumes "61 \<notin> set name" "\<forall>nv \<in> set ps. 61 \<notin> set (fst nv)"
  shows "lookup_entry name (map entry ps) = map_option (\<lambda>v. v @ [0]) (map_of ps name)"
  using assms(2)
proof (induction ps)
  case (Cons nv ps)
  obtain n v where nv: "nv = (n, v)" by fastforce
  have "take (length name + 1) (entry nv) = name @ [61] \<longleftrightarrow> n = name"
  proof
    assume t: "take (length name + 1) (entry nv) = name @ [61]"
    then have "entry nv = name @ 61 # drop (length name + 1) (entry nv)"
      by (metis append_Cons append_Nil append_assoc append_take_drop_id)
    then have "n @ 61 # (v @ [0]) = name @ 61 # drop (length name + 1) (entry nv)"
      by (simp add: entry_def nv)
    then show "n = name"
      using append_eq_at [of 61 n name] assms(1) Cons.prems by (simp add: nv)
  qed (simp add: entry_def nv)
  moreover have "n = name \<Longrightarrow> drop (length name + 1) (entry nv) = v @ [0]"
    by (simp add: entry_def nv)
  ultimately show ?case using Cons by (simp add: nv)
qed simp

section \<open>The encoding of name-value pairs\<close>

text \<open>A length, taken off the front of the bytes; and how a length is encoded.\<close>

fun take_len :: "byte list \<Rightarrow> (nat \<times> byte list) option" where
  "take_len [] = None"
| "take_len (b # xs) =
     (if uint b < 128 then Some (nat (uint b), xs)
      else case xs of
        b2 # b1 # b0 # ys \<Rightarrow>
          Some (nat ((uint b - 128) * 2 ^ 24 + uint b2 * 2 ^ 16 + uint b1 * 2 ^ 8 + uint b0), ys)
      | _ \<Rightarrow> None)"

definition enc_len :: "nat \<Rightarrow> byte list" where
  "enc_len n = (if n < 128 then [uchar (int n)]
     else [uchar (128 + int n div 2 ^ 24), uchar (int n div 2 ^ 16), uchar (int n div 2 ^ 8), uchar (int n)])"

definition enc_pair :: "byte list \<times> byte list \<Rightarrow> byte list" where
  "enc_pair nv = enc_len (length (fst nv)) @ enc_len (length (snd nv)) @ fst nv @ snd nv"

text \<open>How a sequence of pairs ends: at a pair boundary, inside a pair, or in a pair too long for an \<open>int\<close>.\<close>

datatype pairs_end = PEnd | PCut | PTooLong

lemma take_len_shorter: "take_len xs = Some (n, ys) \<Longrightarrow> length ys < length xs"
  by (cases xs) (auto split: if_splits list.splits)

function decode_pairs :: "byte list \<Rightarrow> (byte list \<times> byte list) list \<times> pairs_end" where
  "decode_pairs xs =
     (if xs = [] then ([], PEnd)
      else case take_len xs of None \<Rightarrow> ([], PCut)
      | Some (n, ys) \<Rightarrow>
        (case take_len ys of None \<Rightarrow> ([], PCut)
         | Some (v, zs) \<Rightarrow>
             if int n + int v + 2 > INT_MAX then ([], PTooLong)
             else if length zs < n + v then ([], PCut)
             else let (ps, e) = decode_pairs (drop (n + v) zs) in
               ((take n zs, take v (drop n zs)) # ps, e)))"
  by pat_completeness auto

termination
  by (relation "measure length") (auto dest!: take_len_shorter)

declare decode_pairs.simps [simp del]

lemma decode_pairs_Nil [simp]: "decode_pairs [] = ([], PEnd)"
  by (simp add: decode_pairs.simps)

lemma base256: "(i :: int) = i div 2 ^ 24 * 2 ^ 24 + i div 2 ^ 16 mod 256 * 2 ^ 16
    + i div 2 ^ 8 mod 256 * 2 ^ 8 + i mod 256"
proof -
  define a b c where "a = i div 256" and "b = a div 256" and "c = b div 256"
  have d: "i div 2 ^ 24 = c" "i div 2 ^ 16 = b" "i div 2 ^ 8 = a"
    by (simp_all add: a_def b_def c_def zdiv_zmult2_eq [symmetric])
  have "i = 256 * a + i mod 256" "a = 256 * b + a mod 256" "b = 256 * c + b mod 256"
    by (simp_all add: a_def b_def c_def)
  then have "i = c * 16777216 + b mod 256 * 65536 + a mod 256 * 256 + i mod 256" by linarith
  then show ?thesis unfolding d by simp
qed

lemma take_len_enc:
  assumes "n < 2 ^ 31"
  shows "take_len (enc_len n @ ys) = Some (n, ys)"
proof (cases "n < 128")
  case True
  then show ?thesis by (simp add: enc_len_def uint_uchar)
next
  case False
  let ?n = "int n"
  have hi: "0 \<le> ?n div 2 ^ 24" "?n div 2 ^ 24 < 128" using assms by auto
  define b3 b2 b1 b0 where "b3 = uchar (128 + ?n div 2 ^ 24)" and "b2 = uchar (?n div 2 ^ 16)"
    and "b1 = uchar (?n div 2 ^ 8)" and "b0 = uchar ?n"
  have u: "uint b3 = 128 + ?n div 2 ^ 24" "uint b2 = ?n div 2 ^ 16 mod 256"
    "uint b1 = ?n div 2 ^ 8 mod 256" "uint b0 = ?n mod 256"
    using hi by (simp_all add: b3_def b2_def b1_def b0_def uint_uchar)
  have "enc_len n = [b3, b2, b1, b0]"
    using False by (simp add: enc_len_def b3_def b2_def b1_def b0_def)
  moreover have "\<not> uint b3 < 128" using u(1) hi by simp
  then have "take_len (b3 # b2 # b1 # b0 # ys) = Some (nat ((uint b3 - 128) * 2 ^ 24
      + uint b2 * 2 ^ 16 + uint b1 * 2 ^ 8 + uint b0), ys)" by (simp del: power_numeral)
  moreover have "(uint b3 - 128) * 2 ^ 24 + uint b2 * 2 ^ 16 + uint b1 * 2 ^ 8 + uint b0 = ?n"
    unfolding u add_diff_cancel_left' by (rule base256 [symmetric])
  ultimately show ?thesis by simp
qed

lemma decode_pairs_enc:
  assumes "length n + length v + 2 < 2 ^ 31"
  shows "decode_pairs (enc_pair (n, v) @ ys) = (let (ps, e) = decode_pairs ys in ((n, v) # ps, e))"
proof -
  have "enc_len (length n) \<noteq> []" by (simp add: enc_len_def)
  with assms take_len_enc [of "length n" "enc_len (length v) @ n @ v @ ys"]
    take_len_enc [of "length v" "n @ v @ ys"] show ?thesis
    by (subst decode_pairs.simps) (simp add: enc_pair_def INT_MAX_def)
qed

text \<open>Round trip: the encoding of a list of pairs decodes to the list.\<close>

lemma decode_pairs_enc_list:
  assumes "list_all (\<lambda>(n, v). length n + length v + 2 < 2 ^ 31) ps"
  shows "decode_pairs (concat (map enc_pair ps)) = (ps, PEnd)"
  using assms
proof (induction ps)
  case (Cons nv ps)
  then show ?case by (cases nv) (simp add: decode_pairs_enc)
qed simp

lemma decode_pairs_short: "length (fst (decode_pairs xs)) \<le> length xs"
proof (induction xs rule: decode_pairs.induct)
  case (1 xs)
  show ?case
  proof (cases "xs = []")
    case False
    show ?thesis
    proof (cases "take_len xs")
      case (Some ny)
      then obtain n ys where ny: "take_len xs = Some (n, ys)" by (cases ny) auto
      show ?thesis
      proof (cases "take_len ys")
        case (Some vz)
        then obtain v zs where vz: "take_len ys = Some (v, zs)" by (cases vz) auto
        show ?thesis
          using 1 [OF False ny refl vz refl]
            take_len_shorter [OF ny] take_len_shorter [OF vz] False ny vz
          by (subst decode_pairs.simps)
            (auto simp: Let_def split: prod.splits)
      qed (subst decode_pairs.simps, use False ny in simp)
    qed (subst decode_pairs.simps, use False in simp)
  qed simp
qed

section \<open>ReadParams decodes the stream\<close>

lemma uint_AND_0x80: "uint (b :: byte) AND 0x80 \<noteq> 0 \<longleftrightarrow> 128 \<le> uint b"
proof -
  have "uint b AND 0x80 \<noteq> 0 \<longleftrightarrow> odd (uint b div 128)"
    using and_exp_eq_0_iff_not_bit [of "uint b" 7] by (simp add: bit_iff_odd)
  also have "\<dots> \<longleftrightarrow> 128 \<le> uint b"
    using uint_byte_bound [of b] uint_ge_0 [of b] by presburger
  finally show ?thesis .
qed

lemma uint_AND_0x7f: "128 \<le> uint (b :: byte) \<Longrightarrow> uint b AND 0x7f = uint b - 128"
proof -
  assume "128 \<le> uint b"
  moreover have "uint b AND 0x7f = uint b mod 128"
    using take_bit_eq_mask [of 7 "uint b"] by (simp add: mask_eq_exp_minus_1 take_bit_eq_mod)
  ultimately show ?thesis
    using uint_byte_bound [of b] by presburger
qed

text \<open>The last write into the block of a pair.\<close>

lemma pair_block_end:
  assumes "length m = length a + length b + 2"
  shows "memwrite (length a + length b + 1) [0] ((a @ [61]) @ b @ drop (length a + 1 + length b) m)
    = Some (entry (a, b))"
  using assms memwrite_append [of "[0]" "drop (length a + 1 + length b) m" "length a + length b + 1"
      "a @ [61] @ b"]
  by (simp add: entry_def)

context byte_source
begin

lemma ReadLen_src:
  assumes "src xs s r k"
  shows "\<exists>s' r' k'. ReadLen fill (uint b) s r k
      = Some (map_option (\<lambda>(n, ys). int n) (take_len (b # xs)), s', r', k')
    \<and> (\<forall>n ys. take_len (b # xs) = Some (n, ys) \<longrightarrow> src ys s' r' k')
    \<and> (take_len (b # xs) = None \<longrightarrow> src [] s' r' k' \<and> isClosed s')"
proof (cases "128 \<le> uint b")
  case False
  with assms uint_AND_0x80 [of b] show ?thesis by (simp add: ReadLen_def)
next
  case True
  from GetStr_src [OF assms, of 3] obtain s' r' k' where
    g: "FCGX_GetStr fill 3 s r k = Some (int (min 3 (length xs)), take 3 xs, s', r', k')"
    and s': "src (drop 3 xs) s' r' k'" "length xs < 3 \<longrightarrow> isClosed s'" by force
  show ?thesis
  proof (cases "length xs < 3")
    case short: True
    then have "take_len (b # xs) = None"
      using True by (auto split: list.splits)
    with True short g s' uint_AND_0x80 [of b] show ?thesis by (simp add: ReadLen_def)
  next
    case False
    then obtain b2 b1 b0 ys where xs: "xs = b2 # b1 # b0 # ys"
      by (metis length_Suc_conv_rev list.exhaust not_less numeral_3_eq_3 list.size(3) length_Cons
          less_Suc_eq_0_disj less_Suc_eq)
    with True g s' uint_AND_0x80 [of b] uint_AND_0x7f [of b] show ?thesis
      by (simp add: ReadLen_def push_bit_eq_mult numeral_3_eq_3)
  qed
qed

lemma ReadPair_src:
  assumes "src zs s r k" "int n + int v + 2 \<le> INT_MAX"
  shows "\<exists>s' r' k'. ReadPair fill (int n) (int v) s r k
      = Some (if length zs < n + v then None else Some (entry (take n zs, take v (drop n zs))), s', r', k')
    \<and> src (drop (n + v) zs) s' r' k' \<and> (length zs < n + v \<longrightarrow> isClosed s')"
proof -
  define m where "m = map (junk k) [0 ..< nat (int n + int v + 2)]"
  have lm: "length m = n + v + 2" by (simp add: m_def)
  have sz: "int_checked (int n + int v + 2) = Some (int n + int v + 2)"
    using assms(2) by (simp add: int_checked_def fits_int_def)
  note unf = ReadPair_def [of fill "int n" "int v" s r k, unfolded sz Option.bind.simps(2) Let_def,
    folded m_def]
  from GetStr_src [OF assms(1), of "int n"] obtain s1 r1 k1 where
    g1: "FCGX_GetStr fill (int n) s r k = Some (int (min n (length zs)), take n zs, s1, r1, k1)"
    and s1: "src (drop n zs) s1 r1 k1" "length zs < n \<longrightarrow> isClosed s1" by force
  from GetStr_src [OF s1(1), of "int v"] obtain s2 r2 k2 where
    g2: "FCGX_GetStr fill (int v) s1 r1 k1
      = Some (int (min v (length zs - n)), take v (drop n zs), s2, r2, k2)"
    and s2: "src (drop v (drop n zs)) s2 r2 k2" "length zs - n < v \<longrightarrow> isClosed s2" by force
  have w1: "memwrite 0 (take n zs) m = Some (take n zs @ drop (length (take n zs)) m)"
    using memwrite_append [of "take n zs" m 0 "[]"] lm by simp
  show ?thesis
  proof (cases "length zs < n")
    case True
    with g1 w1 lm s1 show ?thesis by (simp add: unf)
  next
    case False
    then have ln: "length (take n zs) = n" by simp
    have w2: "memwrite n [61] (take n zs @ drop n m) = Some ((take n zs @ [61]) @ drop (n + 1) m)"
      using memwrite_append [of "[61]" "drop n m" n "take n zs"] ln lm by simp
    have w3: "memwrite (n + 1) (take v (drop n zs)) ((take n zs @ [61]) @ drop (n + 1) m)
        = Some ((take n zs @ [61]) @ take v (drop n zs)
            @ drop (n + 1 + length (take v (drop n zs))) m)"
      using memwrite_append [of "take v (drop n zs)" "drop (n + 1) m" "n + 1" "take n zs @ [61]"] ln lm
      by (simp add: add.commute)
    show ?thesis
    proof (cases "length zs < n + v")
      case True
      with False g1 g2 w1 w2 w3 ln s2 show ?thesis
        by (simp add: unf nat_add_distrib add.commute)
    next
      case F2: False
      then have lv: "length (take v (drop n zs)) = v" by simp
      have w4: "memwrite (n + v + 1) [0] ((take n zs @ [61]) @ take v (drop n zs) @ drop (n + 1 + v) m)
        = Some (entry (take n zs, take v (drop n zs)))"
        using pair_block_end [of m "take n zs" "take v (drop n zs)"] lm unfolding ln lv by simp
      from False F2 g1 g2 w1 w2 w3 [unfolded lv] w4 ln lv s2 show ?thesis
        by (simp add: unf nat_add_distrib add.commute)
    qed
  qed
qed

text \<open>One turn of the loop, from the point where both lengths are known.\<close>

lemma ReadParams_pair:
  assumes IH: "\<And>es p s r k ps. \<not> INT_MAX < int n + int v + 2 \<Longrightarrow> \<not> length zs < n + v \<Longrightarrow>
      src (drop (n + v) zs) s r k \<Longrightarrow> params_ok es p \<Longrightarrow>
      length es + length (drop (n + v) zs) < 2 ^ 29 \<Longrightarrow> decode_pairs (drop (n + v) zs) = (ps, e) \<Longrightarrow>
      (case e of
        PEnd \<Rightarrow> \<exists>p' s' r' k'. ReadParams fill p s r k = Some (0, p', s', r', k')
          \<and> params_ok (es @ map entry ps) p' \<and> src [] s' r' k' \<and> isClosed s'
      | PCut \<Rightarrow> \<exists>p' s' r' k'. ReadParams fill p s r k = Some (-1, p', s', r', k')
          \<and> params_ok (es @ map entry ps) p'
        \<and> (\<exists>s0. s' = SetError FCGX_PARAMS_ERROR s0 \<and> src [] s0 r' k' \<and> isClosed s0)
      | PTooLong \<Rightarrow> ReadParams fill p s r k = None)"
    and unf: "ReadParams fill p s r k =
      do { (nameValue, s, r, k) \<leftarrow> ReadPair fill (int n) (int v) s4 r4 k4;
           case nameValue of None \<Rightarrow> Some (-1, p, SetError FCGX_PARAMS_ERROR s, r, k)
           | Some nameValue \<Rightarrow> do { p \<leftarrow> PutParam nameValue p; ReadParams fill p s r k } }"
    and s4: "src zs s4 r4 k4" and ne: "xs \<noteq> []"
    and ny: "take_len xs = Some (n, ys)" and vz: "take_len ys = Some (v, zs)"
    and pr: "params_ok es p" "length es + length xs < 2 ^ 29" "decode_pairs xs = (ps, e)"
  shows "(case e of
      PEnd \<Rightarrow> \<exists>p' s' r' k'. ReadParams fill p s r k = Some (0, p', s', r', k')
        \<and> params_ok (es @ map entry ps) p' \<and> src [] s' r' k' \<and> isClosed s'
    | PCut \<Rightarrow> \<exists>p' s' r' k'. ReadParams fill p s r k = Some (-1, p', s', r', k')
        \<and> params_ok (es @ map entry ps) p'
        \<and> (\<exists>s0. s' = SetError FCGX_PARAMS_ERROR s0 \<and> src [] s0 r' k' \<and> isClosed s0)
    | PTooLong \<Rightarrow> ReadParams fill p s r k = None)"
proof (cases "INT_MAX < int n + int v + 2")
  case True
  then have "ReadPair fill (int n) (int v) s4 r4 k4 = None"
    by (simp add: ReadPair_def int_checked_def fits_int_def)
  moreover have "decode_pairs xs = ([], PTooLong)"
    using True ne ny vz by (simp add: decode_pairs.simps [of xs])
  ultimately show ?thesis using unf pr by auto
next
  case small: False
  then have small': "int n + int v + 2 \<le> INT_MAX" by simp
  from ReadPair_src [OF s4 small'] obtain s5 r5 k5 where
    rp: "ReadPair fill (int n) (int v) s4 r4 k4 = Some (if length zs < n + v then None
        else Some (entry (take n zs, take v (drop n zs))), s5, r5, k5)"
    and s5: "src (drop (n + v) zs) s5 r5 k5" "length zs < n + v \<longrightarrow> isClosed s5" by blast
  show ?thesis
  proof (cases "length zs < n + v")
    case True
    then have "ReadParams fill p s r k = Some (-1, p, SetError FCGX_PARAMS_ERROR s5, r5, k5)"
      using unf rp by simp
    moreover have "decode_pairs xs = ([], PCut)"
      using True small ne ny vz by (simp add: decode_pairs.simps [of xs])
    moreover have "src [] s5 r5 k5" "isClosed s5" using s5 True by simp_all
    ultimately show ?thesis using pr by auto
  next
    case enough: False
    let ?e = "entry (take n zs, take v (drop n zs))"
    have les: "length es < 2 ^ 29" using pr(2) by simp
    from PutParam_ok [OF pr(1) les, of ?e] obtain p' where
      pp: "PutParam ?e p = Some p'" "params_ok (es @ [?e]) p'" by blast
    obtain ps' where d: "decode_pairs (drop (n + v) zs) = (ps', e)"
      and ps: "ps = (take n zs, take v (drop n zs)) # ps'"
      using pr(3) small enough ne ny vz
      by (auto simp: decode_pairs.simps [of xs] split: prod.splits)
    have run: "ReadParams fill p s r k = ReadParams fill p' s5 r5 k5"
      using unf rp enough pp(1) by simp
    have len: "length (es @ [?e]) + length (drop (n + v) zs) < 2 ^ 29"
      using pr(2) take_len_shorter [OF ny] take_len_shorter [OF vz] by simp
    from IH [OF small enough s5(1) pp(2) len d] show ?thesis
      unfolding run ps by (simp split: pairs_end.splits)
  qed
qed

text \<open>
  \<open>ReadParams\<close> on a vector that holds \<open>es\<close>: it returns unless a pair is too long for an \<open>int\<close>
  (then the size computation overflows), the decoded pairs are added in order, and the result
  tells whether the stream ended at a pair boundary.
\<close>

lemma ReadParams_src:
  assumes "src xs s r k" "params_ok es p" "length es + length xs < 2 ^ 29"
    "decode_pairs xs = (ps, e)"
  shows "(case e of
      PEnd \<Rightarrow> \<exists>p' s' r' k'. ReadParams fill p s r k = Some (0, p', s', r', k')
        \<and> params_ok (es @ map entry ps) p' \<and> src [] s' r' k' \<and> isClosed s'
    | PCut \<Rightarrow> \<exists>p' s' r' k'. ReadParams fill p s r k = Some (-1, p', s', r', k')
        \<and> params_ok (es @ map entry ps) p'
        \<and> (\<exists>s0. s' = SetError FCGX_PARAMS_ERROR s0 \<and> src [] s0 r' k' \<and> isClosed s0)
    | PTooLong \<Rightarrow> ReadParams fill p s r k = None)"
  using assms
proof (induction xs arbitrary: es p s r k ps rule: decode_pairs.induct)
  case (1 xs)
  from GetChar_src [OF "1.prems"(1)] obtain s1 r1 k1 where
    g1: "FCGX_GetChar fill s r k = Some (if xs = [] then EOF else uint (hd xs), s1, r1, k1)"
    and s1: "src (tl xs) s1 r1 k1" and c1: "xs = [] \<longrightarrow> isClosed s1" by blast
  show ?case
  proof (cases xs)
    case Nil
    then have "ReadParams fill p s r k = Some (0, p, s1, r1, k1)"
      by (subst ReadParams.simps) (simp add: g1)
    with Nil "1.prems" s1 c1 show ?thesis by auto
  next
    case (Cons b xs')
    have ne: "xs \<noteq> []" using Cons by simp
    from ReadLen_src [OF s1, of b] Cons obtain s2 r2 k2 where
      l1: "ReadLen fill (uint b) s1 r1 k1 = Some (map_option (\<lambda>(n, ys). int n) (take_len xs), s2, r2, k2)"
      and s2: "\<forall>n ys. take_len xs = Some (n, ys) \<longrightarrow> src ys s2 r2 k2"
        "take_len xs = None \<longrightarrow> src [] s2 r2 k2 \<and> isClosed s2" by auto
    show ?thesis
    proof (cases "take_len xs")
      case None
      then have "decode_pairs xs = ([], PCut)" using ne by (simp add: decode_pairs.simps [of xs])
      moreover have "ReadParams fill p s r k = Some (-1, p, SetError FCGX_PARAMS_ERROR s2, r2, k2)"
        by (subst ReadParams.simps) (use None Cons g1 l1 in simp)
      ultimately show ?thesis using "1.prems" s2 None by auto
    next
      case (Some ny)
      then obtain n ys where ny: "take_len xs = Some (n, ys)" by (cases ny) auto
      from s2 ny have s2': "src ys s2 r2 k2" by blast
      from GetChar_src [OF s2'] obtain s3 r3 k3 where
        g2: "FCGX_GetChar fill s2 r2 k2 = Some (if ys = [] then EOF else uint (hd ys), s3, r3, k3)"
        and s3: "src (tl ys) s3 r3 k3" and c3: "ys = [] \<longrightarrow> isClosed s3" by blast
      show ?thesis
      proof (cases "ys")
        case Nil
        then have "decode_pairs xs = ([], PCut)" using ne ny by (simp add: decode_pairs.simps [of xs])
        moreover have "ReadParams fill p s r k = Some (-1, p, SetError FCGX_PARAMS_ERROR s3, r3, k3)"
          by (subst ReadParams.simps) (use ny Nil Cons g1 g2 l1 in simp)
        ultimately show ?thesis using "1.prems" s3 c3 Nil by auto
      next
        case Cons2: (Cons b' ys')
        from ReadLen_src [OF s3, of b'] Cons2 obtain s4 r4 k4 where
          l2: "ReadLen fill (uint b') s3 r3 k3
            = Some (map_option (\<lambda>(n, ys). int n) (take_len ys), s4, r4, k4)"
          and s4: "\<forall>n zs. take_len ys = Some (n, zs) \<longrightarrow> src zs s4 r4 k4"
            "take_len ys = None \<longrightarrow> src [] s4 r4 k4 \<and> isClosed s4" by auto
        show ?thesis
        proof (cases "take_len ys")
          case None
          then have "decode_pairs xs = ([], PCut)" using ne ny by (simp add: decode_pairs.simps [of xs])
          moreover have "ReadParams fill p s r k = Some (-1, p, SetError FCGX_PARAMS_ERROR s4, r4, k4)"
            by (subst ReadParams.simps) (use None ny Cons Cons2 g1 g2 l1 l2 in simp)
          ultimately show ?thesis using "1.prems" s4 None by auto
        next
          case (Some vz)
          then obtain v zs where vz: "take_len ys = Some (v, zs)" by (cases vz) auto
          from s4 vz have s4': "src zs s4 r4 k4" by blast
          have unf: "ReadParams fill p s r k =
              do { (nameValue, s, r, k) \<leftarrow> ReadPair fill (int n) (int v) s4 r4 k4;
                   case nameValue of None \<Rightarrow> Some (-1, p, SetError FCGX_PARAMS_ERROR s, r, k)
                   | Some nameValue \<Rightarrow> do { p \<leftarrow> PutParam nameValue p; ReadParams fill p s r k } }"
            by (subst ReadParams.simps) (use ny vz Cons Cons2 g1 g2 l1 l2 in simp)
          show ?thesis
            by (rule ReadParams_pair [OF "1.IH" [OF ne ny refl vz refl] unf s4' ne ny vz "1.prems"(2-4)])
        qed
      qed
    qed
  qed
qed

end

end
