(* ===== verification/Reader.thy ===== *)
theory Reader
  imports Params
begin

text \<open>
  The input side of \<open>fcgiapp.c\<close>: \<open>FillBuffProc\<close>, which takes the records of a connection apart
  and hands the content of the current stream to the client, and the procedures it calls
  for other records: \<open>ProcessHeader\<close>, \<open>ProcessBeginRecord\<close>, \<open>ProcessManagementRecord\<close>.

  In the C these call back into \<open>FillBuffProc\<close> through \<open>FCGX_GetStr\<close> and \<open>FCGX_GetChar\<close>, with
  \<open>eorStop\<close> set, which makes \<open>FillBuffProc\<close> return at the end of the record and never reach
  \<open>ProcessHeader\<close> again. \<open>FillBuff_inner\<close> is that inner call, whose \<open>ProcessHeader\<close> is never run.
\<close>

abbreviation (input) STREAM_RECORD :: int where "STREAM_RECORD \<equiv> 0"
abbreviation (input) SKIP :: int where "SKIP \<equiv> 1"
abbreviation (input) BEGIN_RECORD :: int where "BEGIN_RECORD \<equiv> 2"
abbreviation (input) MGMT_RECORD :: int where "MGMT_RECORD \<equiv> 3"

section \<open>Management records\<close>

text \<open>\<open>strchr(name, '=')\<close>: the offset of the first equals sign of the string in a block.\<close>

fun strchr_eq :: "byte list \<Rightarrow> nat option" where
  "strchr_eq [] = None"
| "strchr_eq (b # bs) =
     (if b = 61 then Some 0 else if b = 0 then None else map_option Suc (strchr_eq bs))"

text \<open>The value of a variable the library knows, as the character \<open>sprintf\<close> prints.\<close>

definition known_value :: "byte list \<Rightarrow> byte option" where
  "known_value name =
     (if name = bytes_of ''FCGI_MAX_CONNS'' then Some 49
      else if name = bytes_of ''FCGI_MAX_REQS'' then Some 49
      else if name = bytes_of ''FCGI_MPXS_CONNS'' then Some 48
      else None)"

text \<open>
  The loop over the requested variables. \<open>response\<close> is the 64-byte array on the stack,
  \<open>responseP\<close> an offset into it; \<open>sprintf\<close> stores the pair and a terminating zero. A name
  without equals sign would make \<open>strchr\<close> return a null pointer, which is written through.
\<close>

fun GetValues_loop :: "slot list \<Rightarrow> byte list \<Rightarrow> nat \<Rightarrow> (byte list \<times> nat) option" where
  "GetValues_loop [] response responseP = Some (response, responseP)"
| "GetValues_loop (Str e # ss) response responseP =
     do { eq \<leftarrow> strchr_eq e;
          let name = take eq e;
          case known_value name of
            None \<Rightarrow> GetValues_loop ss response responseP
          | Some value \<Rightarrow>
              do { response \<leftarrow> memwrite responseP
                     ([uchar (int (length name)), 1] @ name @ [value, 0]) response;
                   GetValues_loop ss response (responseP + length name + 3) } }"
| "GetValues_loop (_ # ss) response responseP = None"

text \<open>The bytes of the answer to \<open>FCGI_GET_VALUES\<close>: header, pairs and padding.\<close>

definition GetValues_response :: "(nat \<Rightarrow> byte) \<Rightarrow> slot list \<Rightarrow> byte list option" where
  "GetValues_response stk ss =
     do { let response = map stk [0 ..< 64];
          (response, responseP) \<leftarrow> GetValues_loop ss response 8;
          let len = int responseP - 8;
          let paddedLen = AlignInt8 len;
          ASSERT (0 \<le> len \<and> len \<le> INT_MAX);
          ASSERT (0 \<le> paddedLen - len \<and> paddedLen - len \<le> INT_MAX);
          h \<leftarrow> MakeHeader FCGI_GET_VALUES_RESULT FCGI_NULL_REQUEST_ID len (paddedLen - len);
          response \<leftarrow> memwrite 0 (header_bytes h) response;
          memread 0 (nat (8 + paddedLen)) response }"

definition UnknownType_response :: "int \<Rightarrow> byte list option" where
  "UnknownType_response type =
     do { h \<leftarrow> MakeHeader FCGI_UNKNOWN_TYPE FCGI_NULL_REQUEST_ID 8 0;
          Some (header_bytes h @ unknown_body_bytes (MakeUnknownTypeBody type)) }"

definition ProcessManagementRecord ::
  "filler \<Rightarrow> int \<Rightarrow> stream \<Rightarrow> FCGX_Request \<Rightarrow> os \<Rightarrow> (int \<times> stream \<times> FCGX_Request \<times> os) option" where
  "ProcessManagementRecord fillBuffProc type s r k =
     do { paramsPtr \<leftarrow> NewParams 3;
          (response, s, r, k) \<leftarrow>
            (if type = FCGI_GET_VALUES then
               do { (_, paramsPtr, s, r, k) \<leftarrow> ReadParams fillBuffProc paramsPtr s r k;
                    if FCGX_GetError s \<noteq> 0 \<or> contentLen s \<noteq> 0 then
                      do { FreeParams (Some paramsPtr); Some (None, s, r, k) }
                    else
                      do { ss \<leftarrow> memread 0 (cur paramsPtr) (vec paramsPtr);
                           response \<leftarrow> GetValues_response (junk k) ss;
                           FreeParams (Some paramsPtr);
                           Some (Some response, s, r, k) } }
             else do { response \<leftarrow> UnknownType_response type; Some (Some response, s, r, k) });
          case response of
            None \<Rightarrow> Some (FCGX_PROTOCOL_ERROR, s, r, k)
          | Some response \<Rightarrow>
              let (w, k) = write_it_all (ipcFd r) response k in
              if w < 0 then Some (-1, SetError (errno k) s, r, k)
              else Some (MGMT_RECORD, s, r, k) }"

section \<open>Begin records and headers\<close>

definition ProcessBeginRecord ::
  "filler \<Rightarrow> int \<Rightarrow> stream \<Rightarrow> FCGX_Request \<Rightarrow> os \<Rightarrow> (int \<times> stream \<times> FCGX_Request \<times> os) option" where
  "ProcessBeginRecord fillBuffProc reqId s r k =
     (if reqId = 0 \<or> contentLen s \<noteq> 8 then Some (FCGX_PROTOCOL_ERROR, s, r, k)
      else if isBeginProcessed r then
        do { h \<leftarrow> MakeHeader FCGI_END_REQUEST reqId 8 0;
             let body = MakeEndRequestBody 0 FCGI_CANT_MPX_CONN;
             let (w, k) = write_it_all (ipcFd r) (header_bytes h @ end_body_bytes body) k;
             if w < 0 then Some (-1, SetError (errno k) s, r, k)
             else Some (SKIP, s, r, k) }
      else
        do { let r = r\<lparr>requestId := reqId\<rparr>;
             (c, bs, s, r, k) \<leftarrow> FCGX_GetStr fillBuffProc 8 s r k;
             if c \<noteq> 8 then Some (FCGX_PROTOCOL_ERROR, s, r, k)
             else
               do { body \<leftarrow> begin_body_of bs;
                    Some (BEGIN_RECORD, s,
                      r\<lparr>keepConnection := uint (bflags body) AND FCGI_KEEP_CONN,
                        role := be16 (roleB1 body) (roleB0 body),
                        isBeginProcessed := True\<rparr>, k) } })"

definition ProcessHeader ::
  "filler \<Rightarrow> FCGI_Header \<Rightarrow> stream \<Rightarrow> FCGX_Request \<Rightarrow> os
     \<Rightarrow> (int \<times> stream \<times> FCGX_Request \<times> os) option" where
  "ProcessHeader fillBuffProc header s r k =
     (if uint (version header) \<noteq> FCGI_VERSION_1 then Some (FCGX_UNSUPPORTED_VERSION, s, r, k)
      else
        let reqId = hdr_requestId header;
            s = s\<lparr>contentLen := hdr_contentLen header, paddingLen := uint (paddingLength header)\<rparr>;
            type = uint (rectype header) in
        if type = FCGI_BEGIN_REQUEST then ProcessBeginRecord fillBuffProc reqId s r k
        else if reqId = FCGI_NULL_REQUEST_ID then ProcessManagementRecord fillBuffProc type s r k
        else if reqId \<noteq> requestId r then Some (SKIP, s, r, k)
        else if type \<noteq> strtype s then Some (FCGX_PROTOCOL_ERROR, s, r, k)
        else Some (STREAM_RECORD, s, r, k))"

section \<open>FillBuffProc\<close>

text \<open>
  One turn of the \<open>for (;;)\<close>, in the order of the code: read when the buffer is empty, deliver
  or skip content, skip padding, stop at the end of the record, collect the header,
  interpret it. \<open>Next\<close> falls through to the next part, \<open>Continue\<close> starts the next turn.
\<close>

datatype flow = Next | Continue | Return

definition Fill_read :: "stream \<Rightarrow> FCGX_Request \<Rightarrow> os \<Rightarrow> (flow \<times> stream \<times> os) option" where
  "Fill_read s r k =
     (if rdNext s = buffStop s then
        let (count, bs, k) = OS_Read (ipcFd r) (nat (bufflen s)) k in
        if count \<le> 0 then
          Some (Return, SetError (if count = 0 then FCGX_PROTOCOL_ERROR else errno k) s, k)
        else do { b \<leftarrow> memwrite 0 bs (buff s);
                  Some (Next, s\<lparr>buff := b, rdNext := 0, buffStop := nat count\<rparr>, k) }
      else Some (Next, s, k))"

definition Fill_content :: "stream \<Rightarrow> (flow \<times> stream) option" where
  "Fill_content s =
     (if contentLen s > 0 then
        do { let ptrDiff = int (buffStop s) - int (rdNext s);
             ASSERT (0 \<le> ptrDiff \<and> ptrDiff \<le> INT_MAX);
             let count = min (contentLen s) ptrDiff;
             let s = s\<lparr>contentLen := contentLen s - count\<rparr>;
             if \<not> skip s then
               Some (Return, s\<lparr>wrNext := rdNext s + nat count, stop := rdNext s + nat count\<rparr>)
             else
               let s = s\<lparr>rdNext := rdNext s + nat count\<rparr> in
               if contentLen s > 0 then Some (Continue, s)
               else Some (Next, s\<lparr>skip := False\<rparr>) }
      else Some (Next, s))"

definition Fill_padding :: "stream \<Rightarrow> (flow \<times> stream) option" where
  "Fill_padding s =
     (if paddingLen s > 0 then
        do { let ptrDiff = int (buffStop s) - int (rdNext s);
             ASSERT (0 \<le> ptrDiff \<and> ptrDiff \<le> INT_MAX);
             let count = min (paddingLen s) ptrDiff;
             let s = s\<lparr>paddingLen := paddingLen s - count, rdNext := rdNext s + nat count\<rparr>;
             Some (if paddingLen s > 0 then Continue else Next, s) }
      else Some (Next, s))"

definition Fill_header :: "byte list \<Rightarrow> stream \<Rightarrow> (byte list \<times> stream) option" where
  "Fill_header header s =
     do { let ptrDiff = int (buffStop s) - int (rdNext s);
          ASSERT (0 \<le> ptrDiff \<and> ptrDiff \<le> INT_MAX);
          let count = min (8 - int (length header)) ptrDiff;
          ASSERT (0 \<le> count);
          bs \<leftarrow> memread (rdNext s) (nat count) (buff s);
          Some (header @ bs, s\<lparr>rdNext := rdNext s + nat count\<rparr>) }"

definition Fill_dispatch :: "int \<Rightarrow> stream \<Rightarrow> (flow \<times> stream) option" where
  "Fill_dispatch status s =
     (if status = STREAM_RECORD then
        if contentLen s = 0 then
          Some (Return, s\<lparr>wrNext := rdNext s, stop := rdNext s, isClosed := True\<rparr>)
        else Some (Continue, s)
      else if status = SKIP then Some (Continue, s\<lparr>skip := True\<rparr>)
      else if status = BEGIN_RECORD then Some (Return, s)
      else if status = MGMT_RECORD then Some (Continue, s)
      else do { ASSERT (status < 0); Some (Return, SetError status s) })"

type_synonym header_proc =
  "FCGI_Header \<Rightarrow> stream \<Rightarrow> FCGX_Request \<Rightarrow> os \<Rightarrow> (int \<times> stream \<times> FCGX_Request \<times> os) option"

text \<open>A turn up to the end of the padding.\<close>

definition Fill_front :: "stream \<Rightarrow> FCGX_Request \<Rightarrow> os \<Rightarrow> (flow \<times> stream \<times> os) option" where
  "Fill_front s r k =
     do { (f, s, k) \<leftarrow> Fill_read s r k;
          if f \<noteq> Next then Some (f, s, k) else do {
          (f, s) \<leftarrow> Fill_content s;
          if f \<noteq> Next then Some (f, s, k) else do {
          (f, s) \<leftarrow> Fill_padding s;
          Some (f, s, k) } } }"

text \<open>The interpretation of a complete header, with the stream as \<open>ProcessHeader\<close> finds it.\<close>

definition Fill_interpret ::
  "header_proc \<Rightarrow> FCGI_Header \<Rightarrow> stream \<Rightarrow> FCGX_Request \<Rightarrow> os
     \<Rightarrow> (flow \<times> stream \<times> FCGX_Request \<times> os) option" where
  "Fill_interpret processHeader h s r k =
     do { let s = s\<lparr>eorStop := True, stop := rdNext s\<rparr>;
          (status, s, r, k) \<leftarrow> processHeader h s r k;
          let s = s\<lparr>eorStop := False, isClosed := False\<rparr>;
          (f, s) \<leftarrow> Fill_dispatch status s;
          Some (f, s, r, k) }"

text \<open>The rest of a turn: the record is done.\<close>

definition Fill_tail ::
  "header_proc \<Rightarrow> byte list \<Rightarrow> stream \<Rightarrow> FCGX_Request \<Rightarrow> os
     \<Rightarrow> (flow \<times> byte list \<times> stream \<times> FCGX_Request \<times> os) option" where
  "Fill_tail processHeader header s r k =
     (if eorStop s then Some (Return, header, s\<lparr>stop := rdNext s, isClosed := True\<rparr>, r, k)
      else do {
        (header, s) \<leftarrow> Fill_header header s;
        if length header < 8 then Some (Continue, header, s, r, k)
        else do {
          h \<leftarrow> header_of header;
          (f, s, r, k) \<leftarrow> Fill_interpret processHeader h s r k;
          Some (f, [], s, r, k) } })"

definition Fill_turn ::
  "header_proc \<Rightarrow> byte list \<Rightarrow> stream \<Rightarrow> FCGX_Request \<Rightarrow> os
     \<Rightarrow> (flow \<times> byte list \<times> stream \<times> FCGX_Request \<times> os) option" where
  "Fill_turn processHeader header s r k =
     do { (f, s, k) \<leftarrow> Fill_front s r k;
          if f \<noteq> Next then Some (f, header, s, r, k)
          else Fill_tail processHeader header s r k }"

partial_function (option) FillBuff_loop ::
  "header_proc \<Rightarrow> byte list \<Rightarrow> stream \<Rightarrow> FCGX_Request \<Rightarrow> os
     \<Rightarrow> (stream \<times> FCGX_Request \<times> os) option" where
  "FillBuff_loop processHeader header s r k =
     do { (f, header, s, r, k) \<leftarrow> Fill_turn processHeader header s r k;
          if f = Return then Some (s, r, k)
          else FillBuff_loop processHeader header s r k }"

definition FillBuff_inner :: filler where
  "FillBuff_inner s r k = FillBuff_loop (\<lambda>h s r k. None) [] s r k"

definition FillBuffProc :: filler where
  "FillBuffProc s r k = FillBuff_loop (ProcessHeader FillBuff_inner) [] s r k"

end
