(* ===== verification/Refill.thy ===== *)
theory Refill
  imports Reader
begin

text \<open>
  One turn of \<open>FillBuffProc\<close> on the bytes that are left on the connection, wherever they are:
  in the buffer or still to be read. \<open>left\<close> is that byte string. It does not depend on how the
  kernel cuts the bytes into reads, and the lemmas here show that a turn does not either.
  On top of them, the inner \<open>FillBuffProc\<close> (with \<open>eorStop\<close>) is a \<open>byte_source\<close> that delivers
  the content of the current record.
\<close>

section \<open>What is left\<close>

definition left :: "stream \<Rightarrow> FCGX_Request \<Rightarrow> os \<Rightarrow> byte list" where
  "left s r k = seg (rdNext s) (buffStop s) (buff s) @ rx_bytes (rx k (ipcFd r))"

text \<open>What the client may read at once, and what comes after it.\<close>

definition pend :: "stream \<Rightarrow> byte list" where
  "pend s = seg (rdNext s) (stop s) (buff s)"

definition beyond :: "stream \<Rightarrow> FCGX_Request \<Rightarrow> os \<Rightarrow> byte list" where
  "beyond s r k = seg (stop s) (buffStop s) (buff s) @ rx_bytes (rx k (ipcFd r))"

definition rd_shape :: "stream \<Rightarrow> bool" where
  "rd_shape s \<longleftrightarrow> isReader s \<and> buff_ok s \<and> rdNext s \<le> buffStop s \<and> buffStop s \<le> nat (bufflen s)
     \<and> 0 \<le> contentLen s \<and> 0 \<le> paddingLen s"

lemma rd_shape_bounds:
  assumes "rd_shape s"
  shows "isReader s" "rdNext s \<le> buffStop s" "buffStop s \<le> length (buff s)" "buffStop s \<le> 65536"
    "0 \<le> contentLen s" "0 \<le> paddingLen s" "nat (bufflen s) \<le> length (buff s)" "0 < nat (bufflen s)"
  using assms by (auto simp: rd_shape_def buff_ok_def)

text \<open>
  The kernel state \<open>k\<close> differs from \<open>k0\<close> by reads on \<open>fd\<close> and by the bytes \<open>w\<close> sent on it, and
  writes on \<open>fd\<close> do not fail.
\<close>

definition chan :: "os \<Rightarrow> int \<Rightarrow> byte list \<Rightarrow> os \<Rightarrow> bool" where
  "chan k0 fd w k \<longleftrightarrow> fd_ok fd k0 \<and>
     (\<exists>es ws e. k = sent_on fd w ws e (recvd_on fd es e k0) \<and> wx_clean ws)"

lemma chan_start: "fd_ok fd k \<Longrightarrow> wx_clean (wx k fd) \<Longrightarrow> chan k fd [] k"
  unfolding chan_def
  by (intro conjI exI [of _ "rx k fd"] exI [of _ "wx k fd"] exI [of _ "errno k"])
    (simp_all add: sent_on_def recvd_on_def)

lemma chan_fd_ok: "chan k0 fd w k \<Longrightarrow> fd_ok fd k"
  by (auto simp: chan_def)

lemma chan_tx: "chan k0 fd w k \<Longrightarrow> tx k fd = tx k0 fd @ w"
  by (auto simp: chan_def)

lemma chan_junk: "chan k0 fd w k \<Longrightarrow> junk k = junk k0"
  by (auto simp: chan_def)

lemma chan_recvd: "chan k0 fd w k \<Longrightarrow> chan k0 fd w (recvd_on fd es e k)"
proof -
  assume "chan k0 fd w k"
  then obtain es' ws e' where k: "k = sent_on fd w ws e' (recvd_on fd es' e' k0)" "wx_clean ws" "fd_ok fd k0"
    by (auto simp: chan_def)
  have "recvd_on fd es e k = sent_on fd w ws e (recvd_on fd es e k0)"
    by (simp add: k(1) sent_on_def recvd_on_def)
  with k(2,3) show ?thesis unfolding chan_def by blast
qed

lemma chan_write:
  assumes "chan k0 fd w k"
  shows "\<exists>k'. write_it_all fd bs k = (0, k') \<and> chan k0 fd (w @ bs) k' \<and> rx k' = rx k"
proof -
  obtain es ws e where k: "k = sent_on fd w ws e (recvd_on fd es e k0)" "wx_clean ws" "fd_ok fd k0"
    using assms by (auto simp: chan_def)
  then have "wx_clean (wx k fd)" "fd_ok fd k" by auto
  from write_it_all_ok [OF this, of bs] obtain ws' where
    w: "write_it_all fd bs k = (0, sent_on fd bs ws' (errno k) k)" "wx_clean ws'" by blast
  have "sent_on fd bs ws' (errno k) k = sent_on fd (w @ bs) ws' e (recvd_on fd es e k0)"
    by (simp add: k(1))
  moreover from this w(2) k(3) have "chan k0 fd (w @ bs) (sent_on fd bs ws' (errno k) k)"
    unfolding chan_def by blast
  moreover have "rx (sent_on fd bs ws' (errno k) k) = rx k" by simp
  ultimately show ?thesis using w(1) by blast
qed

text \<open>The error a stream gets when the connection has nothing left.\<close>

definition rerr :: "int option \<Rightarrow> int" where
  "rerr re = (case re of None \<Rightarrow> FCGX_PROTOCOL_ERROR | Some e \<Rightarrow> e)"

lemma rerr_nonzero: "re \<noteq> Some 0 \<Longrightarrow> rerr re \<noteq> 0"
  by (auto simp: rerr_def split: option.splits)

section \<open>The parts of a turn\<close>

lemma Fill_read_left:
  assumes "rd_shape s" "chan k0 (ipcFd r) w k" "left s r k \<noteq> []"
  shows "\<exists>b n m k'. Fill_read s r k = Some (Next, s\<lparr>buff := b, rdNext := n, buffStop := m\<rparr>, k')
    \<and> left (s\<lparr>buff := b, rdNext := n, buffStop := m\<rparr>) r k' = left s r k
    \<and> rd_shape (s\<lparr>buff := b, rdNext := n, buffStop := m\<rparr>) \<and> n < m
    \<and> chan k0 (ipcFd r) w k' \<and> rx_error (rx k' (ipcFd r)) = rx_error (rx k (ipcFd r))"
proof (cases "rdNext s = buffStop s")
  case False
  then have "Fill_read s r k = Some (Next, s\<lparr>buff := buff s, rdNext := rdNext s, buffStop := buffStop s\<rparr>, k)"
    by (simp add: Fill_read_def)
  moreover have "rdNext s < buffStop s" using False assms(1) by (simp add: rd_shape_def)
  ultimately show ?thesis using assms
    by (intro exI [of _ "buff s"] exI [of _ "rdNext s"] exI [of _ "buffStop s"] exI [of _ k]) simp
next
  case True
  note b = rd_shape_bounds [OF assms(1)]
  have rb: "rx_bytes (rx k (ipcFd r)) \<noteq> []" "left s r k = rx_bytes (rx k (ipcFd r))"
    using True assms(3) by (auto simp: left_def)
  have fd: "fd_ok (ipcFd r) k" using assms(2) by (rule chan_fd_ok)
  obtain c bs k' where rd: "OS_Read (ipcFd r) (nat (bufflen s)) k = (c, bs, k')"
    by (metis prod_cases3)
  have c: "0 < c" using OS_Read_nonpos [OF fd rd _ b(8)] rb(1) by force
  from OS_Read_pos [OF fd rd c b(8)] obtain es where
    bs: "c = int (length bs)" "bs \<noteq> []" "length bs \<le> nat (bufflen s)"
    and k': "k' = recvd_on (ipcFd r) es (errno k) k"
    and es: "rx_bytes (rx k (ipcFd r)) = bs @ rx_bytes es" "rx_error es = rx_error (rx k (ipcFd r))"
    by blast
  have mw: "memwrite 0 bs (buff s) = Some (bs @ drop (length bs) (buff s))"
    using bs(3) b(7) by (simp add: memwrite_def)
  let ?s = "s\<lparr>buff := bs @ drop (length bs) (buff s), rdNext := 0, buffStop := length bs\<rparr>"
  have "Fill_read s r k = Some (Next, ?s, k')"
    using True rd c bs(1) mw by (simp add: Fill_read_def)
  moreover have "left ?s r k' = left s r k"
    using es rb(2) k' by (simp add: left_def seg_def)
  moreover have "rd_shape ?s"
    using assms(1) bs(3) b(7) by (auto simp: rd_shape_def buff_ok_def)
  moreover have "chan k0 (ipcFd r) w k'" unfolding k' using assms(2) by (rule chan_recvd)
  moreover have "rx_error (rx k' (ipcFd r)) = rx_error (rx k (ipcFd r))" using es(2) k' by simp
  ultimately show ?thesis using bs(2) by blast
qed

lemma Fill_read_end:
  assumes "rd_shape s" "chan k0 (ipcFd r) w k" "left s r k = []"
  shows "\<exists>k'. Fill_read s r k = Some (Return, SetError (rerr (rx_error (rx k (ipcFd r)))) s, k')
    \<and> chan k0 (ipcFd r) w k'"
proof -
  note b = rd_shape_bounds [OF assms(1)]
  have rb: "rx_bytes (rx k (ipcFd r)) = []" and e: "rdNext s = buffStop s"
    using assms(3) b by (auto simp: left_def seg_eq_Nil)
  have fd: "fd_ok (ipcFd r) k" using assms(2) by (rule chan_fd_ok)
  obtain c bs k' where rd: "OS_Read (ipcFd r) (nat (bufflen s)) k = (c, bs, k')"
    by (metis prod_cases3)
  have c: "c \<le> 0" using OS_Read_pos [OF fd rd _ b(8)] rb by force
  from OS_Read_nonpos [OF fd rd c b(8)] obtain es er where
    k': "k' = recvd_on (ipcFd r) es er k"
    and er: "c = 0 \<longrightarrow> rx_error (rx k (ipcFd r)) = None"
      "c \<noteq> 0 \<longrightarrow> rx_error (rx k (ipcFd r)) = Some (errno k')" by blast
  have "Fill_read s r k = Some (Return, SetError (rerr (rx_error (rx k (ipcFd r)))) s, k')"
    using e rd c er by (auto simp: Fill_read_def rerr_def)
  moreover have "chan k0 (ipcFd r) w k'" unfolding k' using assms(2) by (rule chan_recvd)
  ultimately show ?thesis by blast
qed

lemma left_drop:
  assumes "rdNext s + n \<le> buffStop s" "buffStop s \<le> length (buff s)"
  shows "left (s\<lparr>rdNext := rdNext s + n\<rparr>) r k = drop n (left s r k)"
    and "n \<le> length (left s r k)"
    and "seg (rdNext s) (rdNext s + n) (buff s) = take n (left s r k)"
  using assms by (auto simp: left_def seg_def drop_take add.commute min_def)

lemma left_avail:
  assumes "buffStop s \<le> length (buff s)"
  shows "buffStop s - rdNext s \<le> length (left s r k)"
  using assms by (simp add: left_def)

text \<open>
  The state after a turn has skipped \<open>c1\<close> bytes of content and \<open>c2\<close> of padding: only the
  buffer, the read position and the record's counters change.
\<close>

definition moved :: "nat \<Rightarrow> nat \<Rightarrow> byte list \<Rightarrow> nat \<Rightarrow> nat \<Rightarrow> stream \<Rightarrow> stream" where
  "moved c1 c2 b n m s = s\<lparr>buff := b, rdNext := n, buffStop := m,
     contentLen := contentLen s - int c1, paddingLen := paddingLen s - int c2,
     skip := (skip s \<and> \<not> (0 < contentLen s \<and> contentLen s = int c1))\<rparr>"

lemma moved_sel [simp]:
  "isReader (moved c1 c2 b n m s) = isReader s" "isClosed (moved c1 c2 b n m s) = isClosed s"
  "FCGI_errno (moved c1 c2 b n m s) = FCGI_errno s" "strtype (moved c1 c2 b n m s) = strtype s"
  "eorStop (moved c1 c2 b n m s) = eorStop s" "bufflen (moved c1 c2 b n m s) = bufflen s"
  "contentLen (moved c1 c2 b n m s) = contentLen s - int c1"
  "paddingLen (moved c1 c2 b n m s) = paddingLen s - int c2"
  "skip (moved c1 c2 b n m s) = (skip s \<and> \<not> (0 < contentLen s \<and> contentLen s = int c1))"
  "rdNext (moved c1 c2 b n m s) = n" "buffStop (moved c1 c2 b n m s) = m" "buff (moved c1 c2 b n m s) = b"
  "stop (moved c1 c2 b n m s) = stop s" "wasFCloseCalled (moved c1 c2 b n m s) = wasFCloseCalled s"
  "stopUnget (moved c1 c2 b n m s) = stopUnget s"
  by (simp_all add: moved_def)

text \<open>Content to be skipped.\<close>

lemma Fill_content_skip:
  assumes "rd_shape s" "0 < contentLen s" "skip s" "rdNext s < buffStop s"
  shows "\<exists>c. 0 < c \<and> int c \<le> contentLen s \<and> rdNext s + c \<le> buffStop s
    \<and> Fill_content s = Some (if int c < contentLen s then Continue else Next,
        moved c 0 (buff s) (rdNext s + c) (buffStop s) s)"
proof -
  note b = rd_shape_bounds [OF assms(1)]
  obtain c where ceq: "min (contentLen s) (int (buffStop s) - int (rdNext s)) = int c"
    using b by (metis zero_le_imp_eq_int diff_ge_0_iff_ge min_def of_nat_le_iff)
  have c: "0 < c" "int c \<le> contentLen s" "rdNext s + c \<le> buffStop s"
    using assms b ceq by linarith+
  have "Fill_content s = Some (if int c < contentLen s then Continue else Next,
      moved c 0 (buff s) (rdNext s + c) (buffStop s) s)"
    using assms(2,3) b(2,4) c(2)
    by (simp add: Fill_content_def Let_def moved_def INT_MAX_def ceq)
  with c show ?thesis by blast
qed

text \<open>Content to be delivered.\<close>

lemma Fill_content_deliver:
  assumes "rd_shape s" "0 < contentLen s" "\<not> skip s" "rdNext s < buffStop s"
  shows "\<exists>c. 0 < c \<and> int c \<le> contentLen s \<and> rdNext s + c \<le> buffStop s
    \<and> Fill_content s = Some (Return,
        s\<lparr>contentLen := contentLen s - int c, wrNext := rdNext s + c, stop := rdNext s + c\<rparr>)"
proof -
  note b = rd_shape_bounds [OF assms(1)]
  obtain c where ceq: "min (contentLen s) (int (buffStop s) - int (rdNext s)) = int c"
    using b by (metis zero_le_imp_eq_int diff_ge_0_iff_ge min_def of_nat_le_iff)
  have c: "0 < c" "int c \<le> contentLen s" "rdNext s + c \<le> buffStop s"
    using assms b ceq by linarith+
  have "Fill_content s = Some (Return,
        s\<lparr>contentLen := contentLen s - int c, wrNext := rdNext s + c, stop := rdNext s + c\<rparr>)"
    using assms(2,3) b(2,4)
    by (simp add: Fill_content_def Let_def INT_MAX_def ceq)
  with c show ?thesis by blast
qed

lemma Fill_padding_step:
  assumes "rd_shape s"
  shows "\<exists>c. int c \<le> paddingLen s \<and> rdNext s + c \<le> buffStop s
    \<and> (int c < paddingLen s \<longrightarrow> rdNext s + c = buffStop s)
    \<and> Fill_padding s = Some (if int c < paddingLen s then Continue else Next,
        s\<lparr>rdNext := rdNext s + c, paddingLen := paddingLen s - int c\<rparr>)"
proof (cases "0 < paddingLen s")
  case False
  then have "Fill_padding s = Some (if int 0 < paddingLen s then Continue else Next,
        s\<lparr>rdNext := rdNext s + 0, paddingLen := paddingLen s - int 0\<rparr>)"
    by (simp add: Fill_padding_def)
  with False rd_shape_bounds [OF assms] show ?thesis by (intro exI [of _ 0]) simp
next
  case True
  note b = rd_shape_bounds [OF assms(1)]
  obtain c where ceq: "min (paddingLen s) (int (buffStop s) - int (rdNext s)) = int c"
    using b by (metis zero_le_imp_eq_int diff_ge_0_iff_ge min_def of_nat_le_iff)
  have c: "int c \<le> paddingLen s" "rdNext s + c \<le> buffStop s"
    "int c < paddingLen s \<longrightarrow> rdNext s + c = buffStop s"
    using True b ceq by linarith+
  have "Fill_padding s = Some (if int c < paddingLen s then Continue else Next,
        s\<lparr>rdNext := rdNext s + c, paddingLen := paddingLen s - int c\<rparr>)"
    using True b(2,4) by (simp add: Fill_padding_def Let_def INT_MAX_def ceq)
  with c show ?thesis by blast
qed

lemma rd_shape_moved:
  assumes "rd_shape s" "n \<le> m" "m \<le> nat (bufflen s)" "length b = length (buff s)"
    "int c1 \<le> contentLen s" "int c2 \<le> paddingLen s"
  shows "rd_shape (moved c1 c2 b n m s)"
  using assms by (auto simp: rd_shape_def buff_ok_def)

section \<open>The front of a turn\<close>

text \<open>
  When there is content to deliver, a turn delivers a non-empty part of it: what the client
  may now read and what comes after it make up what was left.
\<close>

lemma Fill_front_deliver:
  assumes "rd_shape s" "chan k0 (ipcFd r) w k" "left s r k \<noteq> []" "0 < contentLen s" "\<not> skip s"
  shows "\<exists>c b n m k' s'. Fill_front s r k = Some (Return, s', k')
    \<and> s' = s\<lparr>buff := b, rdNext := n, buffStop := m, contentLen := contentLen s - int c,
             wrNext := n + c, stop := n + c\<rparr>
    \<and> rd_shape s' \<and> stop s' \<le> buffStop s' \<and> 0 < c \<and> int c \<le> contentLen s
    \<and> c \<le> length (left s r k) \<and> pend s' = take c (left s r k) \<and> beyond s' r k' = drop c (left s r k)
    \<and> chan k0 (ipcFd r) w k' \<and> rx_error (rx k' (ipcFd r)) = rx_error (rx k (ipcFd r))"
proof -
  from Fill_read_left [OF assms(1-3)] obtain b n m k' where
    rd: "Fill_read s r k = Some (Next, s\<lparr>buff := b, rdNext := n, buffStop := m\<rparr>, k')"
    and lf: "left (s\<lparr>buff := b, rdNext := n, buffStop := m\<rparr>) r k' = left s r k"
    and sh: "rd_shape (s\<lparr>buff := b, rdNext := n, buffStop := m\<rparr>)" and nm: "n < m"
    and ch: "chan k0 (ipcFd r) w k'" "rx_error (rx k' (ipcFd r)) = rx_error (rx k (ipcFd r))" by blast
  let ?s = "s\<lparr>buff := b, rdNext := n, buffStop := m\<rparr>"
  from Fill_content_deliver [OF sh] assms(4,5) nm obtain c where c: "0 < c" "int c \<le> contentLen s"
    "n + c \<le> m" and fc: "Fill_content ?s = Some (Return,
        ?s\<lparr>contentLen := contentLen s - int c, wrNext := n + c, stop := n + c\<rparr>)" by auto
  let ?t = "s\<lparr>buff := b, rdNext := n, buffStop := m, contentLen := contentLen s - int c,
             wrNext := n + c, stop := n + c\<rparr>"
  have "Fill_front s r k = Some (Return, ?t, k')"
    by (simp add: Fill_front_def rd fc)
  moreover have "rd_shape ?t" using sh c by (auto simp: rd_shape_def buff_ok_def)
  moreover have "pend ?t = take c (left s r k)" "c \<le> length (left s r k)"
    using left_drop [of ?s c r k'] rd_shape_bounds(3) [OF sh] c(3) by (simp_all add: lf pend_def)
  moreover have "beyond ?t r k' = drop c (left s r k)"
    using left_drop(1) [of ?s c r k'] rd_shape_bounds(3) [OF sh] c(3)
    by (simp add: lf) (simp add: left_def beyond_def)
  ultimately show ?thesis using c ch by (intro exI [of _ c] exI [of _ b] exI [of _ n]
      exI [of _ m] exI [of _ k'] exI [of _ ?t]) simp
qed

text \<open>Otherwise a turn skips content and padding, and goes on only when both are finished.\<close>

lemma Fill_front_advance:
  assumes "rd_shape s" "chan k0 (ipcFd r) w k" "left s r k \<noteq> []" "contentLen s = 0 \<or> skip s"
  shows "\<exists>c1 c2 b n m k' f. Fill_front s r k = Some (f, moved c1 c2 b n m s, k')
    \<and> rd_shape (moved c1 c2 b n m s) \<and> chan k0 (ipcFd r) w k'
    \<and> rx_error (rx k' (ipcFd r)) = rx_error (rx k (ipcFd r))
    \<and> c1 + c2 \<le> length (left s r k) \<and> left (moved c1 c2 b n m s) r k' = drop (c1 + c2) (left s r k)
    \<and> int c1 \<le> contentLen s \<and> int c2 \<le> paddingLen s
    \<and> (int c1 < contentLen s \<longrightarrow> c2 = 0) \<and> (c1 + c2 = 0 \<longrightarrow> n < m)
    \<and> f = (if int c1 = contentLen s \<and> int c2 = paddingLen s then Next else Continue)
    \<and> (f = Continue \<longrightarrow> 0 < c1 + c2)"
proof -
  from Fill_read_left [OF assms(1-3)] obtain b n m k' where
    rd: "Fill_read s r k = Some (Next, s\<lparr>buff := b, rdNext := n, buffStop := m\<rparr>, k')"
    and lf: "left (s\<lparr>buff := b, rdNext := n, buffStop := m\<rparr>) r k' = left s r k"
    and sh: "rd_shape (s\<lparr>buff := b, rdNext := n, buffStop := m\<rparr>)" and nm: "n < m"
    and ch: "chan k0 (ipcFd r) w k'" "rx_error (rx k' (ipcFd r)) = rx_error (rx k (ipcFd r))" by blast
  let ?s = "s\<lparr>buff := b, rdNext := n, buffStop := m\<rparr>"
  note bd = rd_shape_bounds [OF sh]
  have ctn: "\<exists>c1. int c1 \<le> contentLen s \<and> n + c1 \<le> m \<and> (0 < contentLen s \<longrightarrow> 0 < c1)
      \<and> Fill_content ?s = Some (if int c1 < contentLen s then Continue else Next, moved c1 0 b (n + c1) m s)"
  proof (cases "0 < contentLen s")
    case True
    with assms(4) Fill_content_skip [OF sh] nm show ?thesis by (auto simp: moved_def)
  next
    case False
    with bd have "contentLen s = 0" by simp
    then have "Fill_content ?s = Some (Next, moved 0 0 b (n + 0) m s)"
      by (simp add: Fill_content_def moved_def)
    with False bd nm show ?thesis by (intro exI [of _ 0]) simp
  qed
  then obtain c1 where c1: "int c1 \<le> contentLen s" "n + c1 \<le> m" "0 < contentLen s \<longrightarrow> 0 < c1"
    and fc: "Fill_content ?s = Some (if int c1 < contentLen s then Continue else Next,
        moved c1 0 b (n + c1) m s)" by blast
  have lbm: "m \<le> length b" using bd by simp
  have lenb: "nat (bufflen s) \<le> length b" using bd by simp
  have shm: "rd_shape (moved c1 c2 b n' m s)"
    if "int c2 \<le> paddingLen s" "n' \<le> m" for c2 n'
    using sh c1(1) that by (auto simp: rd_shape_def buff_ok_def)
  have lfm: "left (moved c1 c2 b (n + c) m s) r k' = drop c (left s r k)" "c \<le> length (left s r k)"
    if "n + c \<le> m" for c c2
  proof -
    have "left (moved c1 c2 b (n + c) m s) r k' = left (?s\<lparr>rdNext := rdNext ?s + c\<rparr>) r k'"
      by (simp add: left_def)
    then show "left (moved c1 c2 b (n + c) m s) r k' = drop c (left s r k)"
      using left_drop(1) [of ?s c r k'] that lbm by (simp add: lf)
    show "c \<le> length (left s r k)" using left_drop(2) [of ?s c r k'] that lbm by (simp add: lf)
  qed
  show ?thesis
  proof (cases "int c1 < contentLen s")
    case True
    then have "Fill_front s r k = Some (Continue, moved c1 0 b (n + c1) m s, k')"
      by (simp add: Fill_front_def rd fc)
    with True c1 ch shm [of 0 "n + c1"] lfm [OF c1(2)] bd show ?thesis
      by (intro exI [of _ c1] exI [of _ "0 :: nat"] exI [of _ b] exI [of _ "n + c1"] exI [of _ m]
          exI [of _ k'] exI [of _ Continue]) simp
  next
    case False
    let ?m = "moved c1 0 b (n + c1) m s"
    have cl: "int c1 = contentLen s" using False c1(1) by simp
    have "rd_shape ?m" using shm [of 0 "n + c1"] c1(2) bd by simp
    from Fill_padding_step [OF this] obtain c2 where c2: "int c2 \<le> paddingLen s" "n + c1 + c2 \<le> m"
      "int c2 < paddingLen s \<longrightarrow> n + c1 + c2 = m"
      and fp: "Fill_padding ?m = Some (if int c2 < paddingLen s then Continue else Next,
        ?m\<lparr>rdNext := n + c1 + c2, paddingLen := paddingLen s - int c2\<rparr>)" by auto
    let ?f = "if int c2 < paddingLen s then Continue else Next"
    have mm: "?m\<lparr>rdNext := n + c1 + c2, paddingLen := paddingLen s - int c2\<rparr>
        = moved c1 c2 b (n + (c1 + c2)) m s" by (simp add: moved_def add.assoc)
    have ff: "Fill_front s r k = Some (?f, moved c1 c2 b (n + (c1 + c2)) m s, k')"
      using False by (simp add: Fill_front_def rd fc fp mm)
    have nc: "n + (c1 + c2) \<le> m" using c2(2) by simp
    have f: "?f = (if int c1 = contentLen s \<and> int c2 = paddingLen s then Next else Continue)"
      using cl c2(1) by auto
    have pr: "?f = Continue \<longrightarrow> 0 < c1 + c2" using c2(3) nm by auto
    show ?thesis
      by (rule exI [of _ c1], rule exI [of _ c2], rule exI [of _ b], rule exI [of _ "n + (c1 + c2)"],
        rule exI [of _ m], rule exI [of _ k'], rule exI [of _ ?f])
        (use ff f pr cl c2(1) nm ch shm [OF c2(1) nc] lfm [OF nc] in simp)
  qed
qed

section \<open>Reading the content of one record\<close>

text \<open>
  \<open>eor_ok\<close> tells whether the end of the record can be seen: its content and padding are there
  and, unless the last turn ends by skipping, one byte more to read or skip.
\<close>

definition eor_ok :: "bool \<Rightarrow> int \<Rightarrow> int \<Rightarrow> byte list \<Rightarrow> bool" where
  "eor_ok sk cl pl xs \<longleftrightarrow>
     cl + pl \<le> int (length xs) \<and> (int (length xs) = cl \<longrightarrow> sk \<and> 0 < cl)"

lemma eor_ok_deliver:
  "int c \<le> cl \<Longrightarrow> c \<le> length xs \<Longrightarrow> eor_ok False (cl - int c) pl (drop c xs) = eor_ok False cl pl xs"
  by (auto simp: eor_ok_def of_nat_diff)

lemma eor_ok_advance:
  assumes "int c1 \<le> cl" "int c2 \<le> pl" "c1 + c2 \<le> length xs" "int c1 < cl \<longrightarrow> c2 = 0"
    "cl = 0 \<or> sk" "\<not> (int c1 = cl \<and> int c2 = pl)"
  shows "eor_ok (sk \<and> \<not> (0 < cl \<and> cl = int c1)) (cl - int c1) (pl - int c2) (drop (c1 + c2) xs)
    = eor_ok sk cl pl xs"
proof (cases "int c1 < cl")
  case True
  with assms show ?thesis by (auto simp: eor_ok_def of_nat_diff)
next
  case False
  with assms have "int c1 = cl" "int c2 < pl" by auto
  with assms show ?thesis by (auto simp: eor_ok_def of_nat_diff)
qed

text \<open>
  The inner reader: \<open>w\<close> has been sent, \<open>re\<close> is the error at the end of the connection, \<open>ok\<close>
  tells whether the record is complete, and then \<open>rest\<close> is what follows it and \<open>sk\<close> the value
  \<open>skip\<close> will have. \<open>Z\<close> is what follows the content, and \<open>full\<close> says that the content
  is all there and not skipped.
\<close>

definition eor_src ::
  "os \<Rightarrow> FCGX_Request \<Rightarrow> int \<Rightarrow> byte list \<Rightarrow> int option \<Rightarrow> bool \<Rightarrow> byte list \<Rightarrow> bool \<Rightarrow> byte list \<Rightarrow> bool
     \<Rightarrow> byte list \<Rightarrow> stream \<Rightarrow> FCGX_Request \<Rightarrow> os \<Rightarrow> bool" where
  "eor_src k0 r0 ty w re ok rest sk Z full xs s r k \<longleftrightarrow>
     r = r0 \<and> rd_shape s \<and> eorStop s \<and> strtype s = ty \<and> chan k0 (ipcFd r0) w k \<and>
     (if isClosed s then xs = [] \<and>
        (if ok then FCGI_errno s = 0 \<and> contentLen s = 0 \<and> paddingLen s = 0 \<and> rdNext s = stop s
           \<and> left s r k = rest \<and> rx_error (rx k (ipcFd r0)) = re \<and> skip s = sk
         else FCGI_errno s = rerr re)
      else FCGI_errno s = 0 \<and> rx_error (rx k (ipcFd r0)) = re
        \<and> rdNext s \<le> stop s \<and> stop s \<le> buffStop s
        \<and> xs = pend s @ (if skip s then [] else take (nat (contentLen s)) (beyond s r k))
        \<and> ok = eor_ok (skip s) (contentLen s) (paddingLen s) (beyond s r k)
        \<and> rest = drop (nat (contentLen s + paddingLen s)) (beyond s r k)
        \<and> sk = (skip s \<and> contentLen s = 0)
        \<and> (skip s \<longrightarrow> pend s = [])
        \<and> Z = drop (nat (contentLen s)) (beyond s r k)
        \<and> (full \<longrightarrow> \<not> skip s \<and> nat (contentLen s) \<le> length (beyond s r k)))"

lemma eor_src_closed:
  "eor_src k0 r0 ty w re ok rest sk Z full xs s r k \<Longrightarrow> isClosed s \<Longrightarrow>
     eor_src k0 r0 ty w re ok rest sk Z' full' xs s r k"
  by (auto simp: eor_src_def)

lemma left_beyond: "rdNext s = stop s \<Longrightarrow> left s r k = beyond s r k"
  by (simp add: left_def beyond_def)

lemma pend_beyond:
  "rdNext s \<le> stop s \<Longrightarrow> stop s \<le> buffStop s \<Longrightarrow> left s r k = pend s @ beyond s r k"
  using seg_append [of "rdNext s" "stop s" "buffStop s" "buff s"]
  by (simp add: left_def pend_def beyond_def)

lemma FillBuff_loop_return:
  "Fill_turn ph hdr s r k = Some (Return, hdr', s', r', k') \<Longrightarrow>
     FillBuff_loop ph hdr s r k = Some (s', r', k')"
  by (subst FillBuff_loop.simps) simp

lemma FillBuff_loop_continue:
  "Fill_turn ph hdr s r k = Some (Continue, hdr', s', r', k') \<Longrightarrow>
     FillBuff_loop ph hdr s r k = FillBuff_loop ph hdr' s' r' k'"
  by (subst FillBuff_loop.simps) simp

lemma rd_shape_SetError [simp]: "rd_shape (SetError e s) = rd_shape s"
  by (simp add: rd_shape_def buff_ok_def)

text \<open>With \<open>eorStop\<close> set, a call whose buffer is empty returns at the latest at the end of the record.\<close>

lemma FillBuff_loop_eor:
  assumes "rd_shape s" "eorStop s" "chan k0 (ipcFd r) w k" "\<not> isClosed s" "FCGI_errno s = 0"
    "rx_error (rx k (ipcFd r)) = re"
  shows "\<exists>s' k'. FillBuff_loop ph hdr s r k = Some (s', r, k')
    \<and> eor_src k0 r (strtype s) w re (eor_ok (skip s) (contentLen s) (paddingLen s) (left s r k))
        (drop (nat (contentLen s + paddingLen s)) (left s r k)) (skip s \<and> contentLen s = 0)
        (drop (nat (contentLen s)) (left s r k)) (\<not> skip s \<and> nat (contentLen s) \<le> length (left s r k))
        (if skip s then [] else take (nat (contentLen s)) (left s r k)) s' r k'
    \<and> (isClosed s' \<or> rdNext s' < stop s')"
  using assms
proof (induction "length (left s r k)" arbitrary: s k rule: less_induct)
  case less
  note b = rd_shape_bounds [OF less.prems(1)]
  let ?l = "left s r k" and ?cl = "contentLen s" and ?pl = "paddingLen s"
  show ?case
  proof (cases "?l = []")
    case True
    from Fill_read_end [OF less.prems(1,3) True] obtain k' where
      "Fill_read s r k = Some (Return, SetError (rerr re) s, k')" and ch: "chan k0 (ipcFd r) w k'"
      using less.prems(6) by blast
    then have "Fill_turn ph hdr s r k = Some (Return, hdr, SetError (rerr re) s, r, k')"
      by (simp add: Fill_turn_def Fill_front_def)
    from FillBuff_loop_return [OF this] show ?thesis
      using True ch less.prems b(5,6) by (auto simp: eor_src_def eor_ok_def)
  next
    case ne: False
    show ?thesis
    proof (cases "0 < ?cl \<and> \<not> skip s")
      case True
      then have cl: "0 < ?cl" and nsk: "\<not> skip s" by auto
      from Fill_front_deliver [OF less.prems(1,3) ne cl nsk] obtain c bf n m k' s' where
        ff: "Fill_front s r k = Some (Return, s', k')"
        and s': "s' = s\<lparr>buff := bf, rdNext := n, buffStop := m, contentLen := ?cl - int c,
             wrNext := n + c, stop := n + c\<rparr>"
        and r: "rd_shape s'" "stop s' \<le> buffStop s'" "0 < c" "int c \<le> ?cl" "c \<le> length ?l"
          "pend s' = take c ?l" "beyond s' r k' = drop c ?l" "chan k0 (ipcFd r) w k'"
          "rx_error (rx k' (ipcFd r)) = rx_error (rx k (ipcFd r))" by blast
      have "Fill_turn ph hdr s r k = Some (Return, hdr, s', r, k')"
        by (simp add: Fill_turn_def ff)
      note run = FillBuff_loop_return [OF this]
      have nc: "nat ?cl = c + nat (?cl - int c)" "nat (?cl + ?pl) = c + nat (?cl - int c + ?pl)"
        using r(4) b(6) by auto
      have tk: "take (nat ?cl) ?l = take c ?l @ take (nat (?cl - int c)) (drop c ?l)"
        unfolding nc(1) by (rule take_add)
      have dr: "drop (nat (?cl + ?pl)) ?l = drop (nat (?cl - int c + ?pl)) (drop c ?l)"
        unfolding nc(2) by (simp add: add.commute)
      have zd: "drop (nat ?cl) ?l = drop (nat (?cl - int c)) (drop c ?l)"
        "nat ?cl \<le> length ?l \<longrightarrow> nat (?cl - int c) \<le> length ?l - c"
        unfolding nc(1) by (simp add: add.commute, linarith)
      have fl: "isClosed s' = isClosed s" "eorStop s' = eorStop s" "FCGI_errno s' = FCGI_errno s"
        "skip s' = skip s" "contentLen s' = ?cl - int c" "paddingLen s' = ?pl" "rdNext s' < stop s'"
        "strtype s' = strtype s"
        using s' r(3) by simp_all
      have "eor_src k0 r (strtype s) w re (eor_ok (skip s) ?cl ?pl ?l) (drop (nat (?cl + ?pl)) ?l)
          (skip s \<and> ?cl = 0) (drop (nat ?cl) ?l) (\<not> skip s \<and> nat ?cl \<le> length ?l) (if skip s then [] else take (nat ?cl) ?l) s' r k'"
        unfolding eor_src_def fl dr zd(1)
        using less.prems r nsk tk eor_ok_deliver [OF r(4,5), of ?pl] cl fl(7) zd(2) by simp
      with run fl show ?thesis by blast
    next
      case False
      with b(5) have adv: "?cl = 0 \<or> skip s" by auto
      from Fill_front_advance [OF less.prems(1,3) ne adv] obtain c1 c2 bf n m k' f where
        ff: "Fill_front s r k = Some (f, moved c1 c2 bf n m s, k')"
        and sh: "rd_shape (moved c1 c2 bf n m s)" and ch: "chan k0 (ipcFd r) w k'"
        and re: "rx_error (rx k' (ipcFd r)) = rx_error (rx k (ipcFd r))"
        and l: "c1 + c2 \<le> length ?l" "left (moved c1 c2 bf n m s) r k' = drop (c1 + c2) ?l"
        and c: "int c1 \<le> ?cl" "int c2 \<le> ?pl" "int c1 < ?cl \<longrightarrow> c2 = 0"
        and f: "f = (if int c1 = ?cl \<and> int c2 = ?pl then Next else Continue)"
        and pr: "f = Continue \<longrightarrow> 0 < c1 + c2" by blast
      let ?s = "moved c1 c2 bf n m s"
      show ?thesis
      proof (cases "int c1 = ?cl \<and> int c2 = ?pl")
        case True
        let ?t = "?s\<lparr>stop := n, isClosed := True\<rparr>"
        have "Fill_turn ph hdr s r k = Some (Return, hdr, ?t, r, k')"
          using True f less.prems(2) by (simp add: Fill_turn_def ff Fill_tail_def)
        note run = FillBuff_loop_return [OF this]
        have nc: "nat (?cl + ?pl) = c1 + c2" using True by auto
        have ok: "eor_ok (skip s) ?cl ?pl ?l"
          using True l(1) adv ne length_greater_0_conv [of ?l] unfolding eor_ok_def by linarith
        have lt: "left ?t r k' = left ?s r k'" by (simp add: left_def)
        have sht: "rd_shape ?t" using sh by (simp add: rd_shape_def buff_ok_def)
        have "eor_src k0 r (strtype s) w re (eor_ok (skip s) ?cl ?pl ?l) (drop (nat (?cl + ?pl)) ?l)
          (skip s \<and> ?cl = 0) (drop (nat ?cl) ?l) (\<not> skip s \<and> nat ?cl \<le> length ?l) (if skip s then [] else take (nat ?cl) ?l) ?t r k'"
          unfolding eor_src_def
          using True less.prems ok nc lt sht l ch re adv b(5) by auto
        with run show ?thesis by fastforce
      next
        case F2: False
        then have fC: "f = Continue" using f by simp
        have "Fill_turn ph hdr s r k = Some (Continue, hdr, ?s, r, k')"
          using fC by (simp add: Fill_turn_def ff)
        note run = FillBuff_loop_continue [OF this]
        have lt: "length (left ?s r k') < length ?l" using l pr fC ne unfolding l(2) length_drop
          by linarith
        have nc: "nat (?cl + ?pl) = nat (?cl - int c1 + (?pl - int c2)) + (c1 + c2)"
          using c(1,2) by auto
        have dr: "drop (nat (?cl - int c1 + (?pl - int c2))) (left ?s r k') = drop (nat (?cl + ?pl)) ?l"
          unfolding nc l(2) by simp
        have sk: "(skip ?s \<and> contentLen ?s = 0) = (skip s \<and> ?cl = 0)"
          using c(1) b(5) by auto
        have ct: "(if skip ?s then [] else take (nat (contentLen ?s)) (left ?s r k'))
            = (if skip s then [] else take (nat ?cl) ?l)"
          using adv c(1) b(5) by auto
        have eo: "eor_ok (skip ?s) (contentLen ?s) (paddingLen ?s) (left ?s r k') = eor_ok (skip s) ?cl ?pl ?l"
          unfolding l(2) moved_sel by (rule eor_ok_advance [OF c(1,2) l(1) c(3) adv F2])
        have "\<exists>s' k''. FillBuff_loop ph hdr ?s r k' = Some (s', r, k'')
          \<and> eor_src k0 r (strtype ?s) w re (eor_ok (skip ?s) (contentLen ?s) (paddingLen ?s) (left ?s r k'))
              (drop (nat (contentLen ?s + paddingLen ?s)) (left ?s r k')) (skip ?s \<and> contentLen ?s = 0)
              (drop (nat (contentLen ?s)) (left ?s r k')) (\<not> skip ?s \<and> nat (contentLen ?s) \<le> length (left ?s r k'))
              (if skip ?s then [] else take (nat (contentLen ?s)) (left ?s r k')) s' r k''
          \<and> (isClosed s' \<or> rdNext s' < stop s')"
          by (rule less.hyps [OF lt sh _ ch]) (use less.prems re in simp_all)
        then obtain s' k'' where run': "FillBuff_loop ph hdr s r k = Some (s', r, k'')"
          and es: "eor_src k0 r (strtype s) w re (eor_ok (skip s) ?cl ?pl ?l) (drop (nat (?cl + ?pl)) ?l)
              (skip s \<and> ?cl = 0) (drop (nat (contentLen ?s)) (left ?s r k'))
              (\<not> skip ?s \<and> nat (contentLen ?s) \<le> length (left ?s r k')) (if skip s then [] else take (nat ?cl) ?l) s' r k''"
          and pr': "isClosed s' \<or> rdNext s' < stop s'"
          unfolding eo sk ct run unfolding moved_sel dr by blast
        have "isClosed s'"
        proof (rule ccontr)
          assume o: "\<not> isClosed s'"
          then have "pend s' = []" "stop s' \<le> length (buff s')"
            using es adv rd_shape_bounds(3) [of s'] by (auto simp: eor_src_def)
          with o pr' show False by (simp add: pend_def seg_eq_Nil)
        qed
        with run' pr' eor_src_closed [OF es] show ?thesis by blast
      qed
    qed
  qed
qed

text \<open>The inner reader keeps the contract of a byte source.\<close>

lemma eor_src_consume:
  assumes "eor_src k0 r0 ty w re ok rest sk Z full xs s r k" "\<not> isClosed s" "n \<le> stop s - rdNext s"
  shows "seg (rdNext s) (rdNext s + n) (buff s) = take n xs \<and> n \<le> length xs
    \<and> eor_src k0 r0 ty w re ok rest sk Z full (drop n xs) (s\<lparr>rdNext := rdNext s + n\<rparr>) r k"
proof -
  let ?s = "s\<lparr>rdNext := rdNext s + n\<rparr>"
  from assms have s: "rd_shape s" "rdNext s \<le> stop s" "stop s \<le> buffStop s"
    and xs: "xs = pend s @ (if skip s then [] else take (nat (contentLen s)) (beyond s r k))"
    by (auto simp: eor_src_def)
  note b = rd_shape_bounds [OF s(1)]
  have p: "seg (rdNext s) (rdNext s + n) (buff s) @ pend ?s = pend s"
    using seg_append [of "rdNext s" "rdNext s + n" "stop s" "buff s"] assms(3) s(2)
    by (auto simp: pend_def)
  have l: "length (seg (rdNext s) (rdNext s + n) (buff s)) = n"
    using b s assms(3) by auto
  have pe: "seg (rdNext s) (rdNext s + n) (buff s) = take n (pend s)" "pend ?s = drop n (pend s)"
    "n \<le> length (pend s)"
    unfolding p [symmetric] using l by simp_all
  have "rd_shape ?s" using s assms(3) by (auto simp: rd_shape_def buff_ok_def)
  moreover have "beyond ?s r k = beyond s r k" by (simp add: beyond_def)
  ultimately show ?thesis
    using assms pe xs by (auto simp: eor_src_def)
qed

interpretation inner: byte_source FillBuff_inner "eor_src k0 r0 ty w re ok rest sk Z full"
  for k0 r0 ty w re ok rest sk Z full
proof unfold_locales
  fix xs s r k
  assume "eor_src k0 r0 ty w re ok rest sk Z full xs s r k"
  then show "isReader s \<and>
      (if isClosed s then xs = [] else rdNext s \<le> stop s \<and> stop s \<le> length (buff s))"
    using rd_shape_bounds [of s] by (auto simp: eor_src_def)
next
  fix xs s r k n
  assume "eor_src k0 r0 ty w re ok rest sk Z full xs s r k" "\<not> isClosed s" "n \<le> stop s - rdNext s"
  then show "seg (rdNext s) (rdNext s + n) (buff s) = take n xs \<and> n \<le> length xs
    \<and> eor_src k0 r0 ty w re ok rest sk Z full (drop n xs) (s\<lparr>rdNext := rdNext s + n\<rparr>) r k"
    by (rule eor_src_consume)
next
  fix xs s r k u
  assume "eor_src k0 r0 ty w re ok rest sk Z full xs s r k"
  then show "eor_src k0 r0 ty w re ok rest sk Z full xs (s\<lparr>stopUnget := u\<rparr>) r k"
    by (auto simp: eor_src_def rd_shape_def buff_ok_def left_def pend_def beyond_def)
next
  fix xs s r k
  assume a: "eor_src k0 r0 ty w re ok rest sk Z full xs s r k" "\<not> isClosed s" "rdNext s = stop s"
  then have s: "rd_shape s" "eorStop s" "chan k0 (ipcFd r) w k" "FCGI_errno s = 0"
    "rx_error (rx k (ipcFd r)) = re" and r: "r = r0" and ty: "ty = strtype s"
    by (auto simp: eor_src_def)
  have lb: "left s r k = beyond s r k" using a(3) by (rule left_beyond)
  have xs: "xs = (if skip s then [] else take (nat (contentLen s)) (left s r k))"
    "ok = eor_ok (skip s) (contentLen s) (paddingLen s) (left s r k)"
    "rest = drop (nat (contentLen s + paddingLen s)) (left s r k)"
    "sk = (skip s \<and> contentLen s = 0)"
    unfolding lb using a by (simp_all add: eor_src_def pend_def)
  have zf: "Z = drop (nat (contentLen s)) (left s r k)"
    "full \<longrightarrow> \<not> skip s \<and> nat (contentLen s) \<le> length (left s r k)"
    unfolding lb using a by (auto simp: eor_src_def)
  from FillBuff_loop_eor [OF s(1-3) a(2) s(4,5), of "\<lambda>h s r k. None" "[]"] obtain s' k' where
    f: "FillBuff_inner s r k = Some (s', r, k')" and pr: "isClosed s' \<or> rdNext s' < stop s'"
    and es: "eor_src k0 r0 ty w re ok rest sk Z (\<not> skip s \<and> nat (contentLen s) \<le> length (left s r k)) xs s' r k'"
    unfolding FillBuff_inner_def xs r ty zf(1) by blast
  from es have "eor_src k0 r0 ty w re ok rest sk Z full xs s' r k'"
    using zf(2) by (auto simp: eor_src_def)
  with f pr show "\<exists>s' r' k'. FillBuff_inner s r k = Some (s', r', k')
    \<and> eor_src k0 r0 ty w re ok rest sk Z full xs s' r' k' \<and> (isClosed s' \<or> rdNext s' < stop s')" by blast
qed

end
