(* ===== verification/Writer.thy ===== *)
theory Writer
  imports Alloc
begin

text \<open>
  The output side of \<open>fcgiapp.c\<close>: \<open>EmptyBuffProc\<close>, which wraps the buffered bytes into a
  stream record and sends it, and \<open>WriteCloseRecords\<close>, which sends the end-of-stream record
  and, for the last writer of a request, the end-of-request record.

  In the C the two call each other through \<open>stream->emptyBuffProc\<close>: \<open>WriteCloseRecords\<close> uses
  \<open>FCGX_PutStr\<close>, which may call \<open>EmptyBuffProc(stream, FALSE)\<close>, which never reaches
  \<open>WriteCloseRecords\<close>. \<open>EmptyBuff_inner\<close> is that inner call; \<open>EmptyBuffProc_False\<close> shows that it
  is \<open>EmptyBuffProc\<close> itself.

  \<open>wr_acc\<close> relates a writer to the bytes it has accepted: complete records of them are on
  the wire and the rest is in the buffer. It makes the writer a \<open>byte_sink\<close>, in stream mode
  and in the raw mode of the closing records.
\<close>

section \<open>Code\<close>

text \<open>The first part of \<open>EmptyBuffProc\<close>: header and padding, or the reserved space reclaimed.\<close>

definition EmptyBuff_header :: "stream \<Rightarrow> FCGX_Request \<Rightarrow> stream option" where
  "EmptyBuff_header s r =
     (if \<not> rawWrite s then
        let cLen = int (wrNext s) - 8 in
        if cLen > 0 then
          do { let eLen = AlignInt8 cLen;
               b \<leftarrow> memwrite (wrNext s) (replicate (nat (eLen - cLen)) 0) (buff s);
               ASSERT (0 \<le> cLen \<and> cLen \<le> INT_MAX);
               ASSERT (0 \<le> eLen - cLen \<and> eLen - cLen \<le> INT_MAX);
               h \<leftarrow> MakeHeader (strtype s) (requestId r) cLen (eLen - cLen);
               b \<leftarrow> memwrite 0 (header_bytes h) b;
               Some (s\<lparr>wrNext := wrNext s + nat (eLen - cLen), buff := b\<rparr>) }
        else Some (s\<lparr>wrNext := 0\<rparr>)
      else Some s)"

text \<open>The last part: send the buffer, then reserve the header of the next record.\<close>

definition EmptyBuff_send ::
  "stream \<Rightarrow> FCGX_Request \<Rightarrow> os \<Rightarrow> (stream \<times> FCGX_Request \<times> os) option" where
  "EmptyBuff_send s r k =
     (let reserve = (\<lambda>s. if \<not> rawWrite s then s\<lparr>wrNext := wrNext s + 8\<rparr> else s) in
      if wrNext s \<noteq> 0 then
        do { let s = s\<lparr>isAnythingWritten := True\<rparr>;
             bs \<leftarrow> memread 0 (wrNext s) (buff s);
             let (w, k) = write_it_all (ipcFd r) bs k;
             if w < 0 then Some (SetError (errno k) s, r, k)
             else Some (reserve (s\<lparr>wrNext := 0\<rparr>), r, k) }
      else Some (reserve s, r, k))"

definition EmptyBuff_body :: "filler \<Rightarrow> bool \<Rightarrow> filler" where
  "EmptyBuff_body closeRecords doClose s r k =
     do { s \<leftarrow> EmptyBuff_header s r;
          (s, r, k) \<leftarrow> (if doClose then closeRecords s r k else Some (s, r, k));
          EmptyBuff_send s r k }"

definition WriteCloseRecords :: "(bool \<Rightarrow> filler) \<Rightarrow> filler" where
  "WriteCloseRecords emptyBuffProc s r k =
     do { let s = s\<lparr>rawWrite := True\<rparr>;
          (s, r, k) \<leftarrow>
            (if \<not> (strtype s = FCGI_STDERR \<and> wrNext s = 0 \<and> \<not> isAnythingWritten s) then
               do { h \<leftarrow> MakeHeader (strtype s) (requestId r) 0 0;
                    (_, s, r, k) \<leftarrow> FCGX_PutStr emptyBuffProc (header_bytes h) 8 s r k;
                    Some (s, r, k) }
             else Some (s, r, k));
          (s, r, k) \<leftarrow>
            (if nWriters r = 1 then
               do { h \<leftarrow> MakeHeader FCGI_END_REQUEST (requestId r) 8 0;
                    let body = MakeEndRequestBody (appStatus r) FCGI_REQUEST_COMPLETE;
                    (_, s, r, k) \<leftarrow> FCGX_PutStr emptyBuffProc
                       (header_bytes h @ end_body_bytes body) 16 s r k;
                    Some (s, r, k) }
             else Some (s, r, k));
          Some (s, r\<lparr>nWriters := nWriters r - 1\<rparr>, k) }"

definition EmptyBuff_inner :: "bool \<Rightarrow> filler" where
  "EmptyBuff_inner doClose = EmptyBuff_body (\<lambda>s r k. None) doClose"

definition EmptyBuffProc :: "bool \<Rightarrow> filler" where
  "EmptyBuffProc doClose = EmptyBuff_body (WriteCloseRecords EmptyBuff_inner) doClose"

lemma EmptyBuffProc_False: "EmptyBuffProc False = EmptyBuff_inner False"
  by (intro ext) (simp add: EmptyBuffProc_def EmptyBuff_inner_def EmptyBuff_body_def)

section \<open>Well-formed writers\<close>

definition wr_shape :: "stream \<Rightarrow> bool" where
  "wr_shape s \<longleftrightarrow> \<not> isReader s \<and> buff_ok s \<and> stop s = nat (bufflen s)
     \<and> wrNext s \<le> stop s \<and> (\<not> rawWrite s \<longrightarrow> 8 \<le> wrNext s)"

lemma wr_shape_bounds:
  assumes "wr_shape s"
  shows "wrNext s \<le> stop s" "stop s \<le> length (buff s)" "24 \<le> stop s" "stop s \<le> 65536"
    "stop s mod 8 = 0"
proof -
  from assms have b: "bufflen s mod 8 = 0" "24 \<le> bufflen s" "stop s = nat (bufflen s)"
    by (auto simp: wr_shape_def buff_ok_def)
  then show "stop s mod 8 = 0" using nat_mod_distrib [of "bufflen s" 8] by simp
qed (use assms in \<open>auto simp: wr_shape_def buff_ok_def\<close>)

lemma NewWriter_shape:
  assumes "malloc_fits k"
  shows "\<exists>s. NewWriter len t k = Some s \<and> wr_shape s \<and> \<not> rawWrite s \<and> \<not> isClosed s
    \<and> wrNext s = 8 \<and> strtype s = t \<and> \<not> isAnythingWritten s \<and> FCGI_errno s = 0
    \<and> \<not> wasFCloseCalled s"
proof -
  from NewStream_ok [OF assms] obtain s where s: "NewStream len False t k = Some s" "buff_ok s"
    by blast
  from NewStream_fields [OF s(1)] s(2) show ?thesis
    unfolding NewWriter_def wr_shape_def buff_ok_def by (intro exI [of _ s]) (auto simp: s(1))
qed

text \<open>The content waiting in a stream-mode buffer, after the reserved header.\<close>

definition pending_out :: "stream \<Rightarrow> byte list" where
  "pending_out s = seg 8 (wrNext s) (buff s)"

lemma length_pending_out: "wr_shape s \<Longrightarrow> length (pending_out s) = wrNext s - 8"
  using wr_shape_bounds [of s] by (simp add: pending_out_def)

lemma pad_fits:
  assumes "8 + n \<le> m" "m mod 8 = 0"
  shows "8 + n + pad8 n \<le> m"
proof -
  have "AlignInt8 (int n) \<le> int m - 8"
    using assms by (intro AlignInt8_least) (auto simp: mod_diff_eq zmod_int [symmetric])
  then show ?thesis using pad8_AlignInt8 [of n] assms(1) by linarith
qed

text \<open>
  With content waiting, \<open>EmptyBuff_header\<close> turns the front of the buffer into the record of
  that content; the padding stays inside the buffer because its length is a multiple of 8.
\<close>

lemma EmptyBuff_header_record:
  assumes "wr_shape s" "\<not> rawWrite s" "8 < wrNext s"
  shows "\<exists>b. EmptyBuff_header s r = Some (s\<lparr>wrNext := wrNext s + pad8 (wrNext s - 8), buff := b\<rparr>)
    \<and> length b = length (buff s)
    \<and> take (wrNext s + pad8 (wrNext s - 8)) b = enc_record (strtype s) (requestId r) (pending_out s)
    \<and> wrNext s + pad8 (wrNext s - 8) \<le> stop s"
proof -
  let ?n = "wrNext s - 8" and ?w = "wrNext s"
  let ?p = "pad8 ?n"
  note b = wr_shape_bounds [OF assms(1)]
  have fits: "?w + ?p \<le> stop s"
    using pad_fits [of ?n "stop s"] b assms(3) by auto
  have al: "AlignInt8 (int ?w - 8) - (int ?w - 8) = int ?p"
    using pad8_AlignInt8 [of ?n] assms(3) by (simp add: of_nat_diff)
  then have alE: "AlignInt8 (int ?w - 8) = int ?w - 8 + int ?p" by simp
  obtain h where h: "MakeHeader (strtype s) (requestId r) (int ?n) (int ?p) = Some h"
    using MakeHeader_Some [of "int ?n" "int ?p" "strtype s" "requestId r"] b pad8_less [of ?n]
      assms(3) by auto
  obtain b1 where b1: "memwrite ?w (replicate ?p 0) (buff s) = Some b1"
    using fits b(2) by (simp add: memwrite_def)
  obtain b2 where b2: "memwrite 0 (header_bytes h) b1 = Some b2"
    using memwrite_length [OF b1] b by (simp add: memwrite_def)
  have hl: "header_bytes h = enc_header (strtype s) (requestId r) ?n ?p"
    by (rule MakeHeader_enc [OF h])
  have "take (?w + ?p) b2 = seg 0 8 b2 @ seg 8 (?w + ?p) b2"
    using seg_append [of 0 8 "?w + ?p" b2] assms(3) by (simp add: seg_def)
  moreover have "seg 0 8 b2 = header_bytes h"
    using seg_memwrite_at [OF b2] by simp
  moreover have "seg 8 (?w + ?p) b2 = seg 8 (?w + ?p) b1"
    using b2 by (auto simp: memwrite_eq_Some seg_def)
  moreover have "seg 8 (?w + ?p) b1 = pending_out s @ replicate ?p 0"
    using seg_memwrite_extend [OF b1, of 8] assms(3) by (simp add: pending_out_def)
  moreover have "length (pending_out s) = ?n"
    using assms(1) by (rule length_pending_out)
  ultimately have rec: "take (?w + ?p) b2 = enc_record (strtype s) (requestId r) (pending_out s)"
    by (simp add: enc_record_def hl)
  have "EmptyBuff_header s r = Some (s\<lparr>wrNext := ?w + ?p, buff := b2\<rparr>)"
    using assms(2,3) b(1,4) pad8_less [of ?n] b1 b2 h
    by (simp add: EmptyBuff_header_def Let_def alE of_nat_diff INT_MAX_def)
  with rec fits memwrite_length [OF b1] memwrite_length [OF b2] show ?thesis by auto
qed

lemma EmptyBuff_header_empty:
  "wr_shape s \<Longrightarrow> \<not> rawWrite s \<Longrightarrow> wrNext s = 8 \<Longrightarrow> EmptyBuff_header s r = Some (s\<lparr>wrNext := 0\<rparr>)"
  by (simp add: EmptyBuff_header_def Let_def)

section \<open>What the wire holds\<close>

text \<open>
  The kernel state \<open>k\<close> differs from \<open>k0\<close> by the bytes \<open>bs\<close> sent on \<open>fd\<close>. In a \<open>clean\<close> run no
  write of the script fails.
\<close>

definition wire :: "bool \<Rightarrow> int \<Rightarrow> os \<Rightarrow> byte list \<Rightarrow> os \<Rightarrow> bool" where
  "wire clean fd k0 bs k \<longleftrightarrow> fd_ok fd k0 \<and>
     (\<exists>es e. k = sent_on fd bs es e k0 \<and> (clean \<longrightarrow> wx_clean es \<and> e = errno k0))"

lemma wire_start: "fd_ok fd k \<Longrightarrow> (clean \<longrightarrow> wx_clean (wx k fd)) \<Longrightarrow> wire clean fd k [] k"
  unfolding wire_def by (metis sent_on_nothing)

lemma wire_fd_ok: "wire clean fd k0 bs k \<Longrightarrow> fd_ok fd k"
  by (auto simp: wire_def)

lemma wire_tx: "wire clean fd k0 bs k \<Longrightarrow> tx k fd = tx k0 fd @ bs"
  by (auto simp: wire_def)

lemma wire_write:
  assumes "wire clean fd k0 bs k" "write_it_all fd cs k = (w, k')"
  shows "(0 \<le> w \<and> wire clean fd k0 (bs @ cs) k')
    \<or> (w < 0 \<and> \<not> clean \<and> (\<exists>n \<le> length cs. wire clean fd k0 (bs @ take n cs) k'))"
proof -
  obtain es e where k: "k = sent_on fd bs es e k0" and ok: "fd_ok fd k0"
    and c: "clean \<longrightarrow> wx_clean es \<and> e = errno k0" using assms(1) by (auto simp: wire_def)
  from write_it_all_result [OF assms(2)] ok k obtain n es' e' where
    n: "n \<le> length cs" and k': "k' = sent_on fd (take n cs) es' e' k"
    and w: "0 \<le> w \<longrightarrow> w = 0 \<and> n = length cs \<and> e' = errno k"
    and c': "wx_clean (wx k fd) \<longrightarrow> 0 \<le> w \<and> wx_clean es'" by auto
  have k'': "k' = sent_on fd (bs @ take n cs) es' e' k0" by (simp add: k' k)
  show ?thesis
  proof (cases "0 \<le> w")
    case True
    with w c c' k k'' ok show ?thesis by (auto simp: wire_def)
  next
    case False
    with c c' k have "\<not> clean" by auto
    with False n k'' ok show ?thesis by (auto simp: wire_def)
  qed
qed

text \<open>
  A stream-mode writer of type \<open>t\<close> for request \<open>r0\<close> that has accepted \<open>xs\<close> since the kernel was
  in state \<open>k0\<close>: the records \<open>chunks\<close> are on the wire, the rest of \<open>xs\<close> is in the buffer. \<open>pre\<close>
  says that the stream has sent records before that.
\<close>

definition wr_acc ::
  "bool \<Rightarrow> bool \<Rightarrow> os \<Rightarrow> FCGX_Request \<Rightarrow> int \<Rightarrow> byte list \<Rightarrow> stream \<Rightarrow> FCGX_Request \<Rightarrow> os \<Rightarrow> bool" where
  "wr_acc pre clean k0 r0 t xs s r k \<longleftrightarrow>
     r = r0 \<and> wr_shape s \<and> \<not> rawWrite s \<and> \<not> isClosed s \<and> \<not> wasFCloseCalled s
     \<and> FCGI_errno s = 0 \<and> strtype s = t \<and>
     (\<exists>chunks. list_all (\<lambda>c. c \<noteq> [] \<and> length c \<le> 65535) chunks
        \<and> xs = concat chunks @ pending_out s
        \<and> (isAnythingWritten s \<longleftrightarrow> pre \<or> chunks \<noteq> [])
        \<and> wire clean (ipcFd r0) k0 (concat (map (enc_record t (requestId r0)) chunks)) k)"

text \<open>After a failed write the wire holds complete records and at most one that is cut short.\<close>

definition wr_failed ::
  "bool \<Rightarrow> os \<Rightarrow> FCGX_Request \<Rightarrow> int \<Rightarrow> stream \<Rightarrow> FCGX_Request \<Rightarrow> os \<Rightarrow> bool" where
  "wr_failed clean k0 r0 t s r k \<longleftrightarrow>
     \<not> clean \<and> r = r0 \<and> wr_shape s \<and> isClosed s \<and> \<not> rawWrite s \<and> \<not> wasFCloseCalled s \<and>
     (\<exists>chunks c n. list_all (\<lambda>c. c \<noteq> [] \<and> length c \<le> 65535) chunks \<and>
        wire clean (ipcFd r0) k0 (concat (map (enc_record t (requestId r0)) chunks)
          @ take n (enc_record t (requestId r0) c)) k)"

lemma wr_acc_start:
  assumes "malloc_fits k" "fd_ok (ipcFd r) k" "clean \<longrightarrow> wx_clean (wx k (ipcFd r))"
  shows "\<exists>s. NewWriter len t k = Some s \<and> wr_acc False clean k r t [] s r k"
proof -
  from NewWriter_shape [OF assms(1)] obtain s where s: "NewWriter len t k = Some s"
    "wr_shape s" "\<not> rawWrite s" "\<not> isClosed s" "wrNext s = 8" "strtype s = t"
    "\<not> isAnythingWritten s" "FCGI_errno s = 0" "\<not> wasFCloseCalled s" by blast
  then have "wr_acc False clean k r t [] s r k"
    using wire_start [OF assms(2,3)]
    by (auto simp: wr_acc_def pending_out_def intro!: exI [of _ "[]"])
  with s show ?thesis by blast
qed

lemma EmptyBuff_send_ok:
  assumes "wire clean (ipcFd r) k0 bs k" "wrNext s \<noteq> 0" "wrNext s \<le> length (buff s)"
  shows "\<exists>s' k'. EmptyBuff_send s r k = Some (s', r, k') \<and>
    ((wire clean (ipcFd r) k0 (bs @ take (wrNext s) (buff s)) k'
      \<and> s' = s\<lparr>isAnythingWritten := True, wrNext := (if rawWrite s then 0 else 8)\<rparr>)
    \<or> (\<not> clean \<and> (\<exists>n. wire clean (ipcFd r) k0 (bs @ take n (take (wrNext s) (buff s))) k')
      \<and> s' = SetError (errno k') (s\<lparr>isAnythingWritten := True\<rparr>)))"
proof -
  obtain w k' where w: "write_it_all (ipcFd r) (take (wrNext s) (buff s)) k = (w, k')"
    by fastforce
  have mr: "memread 0 (wrNext s) (buff s) = Some (take (wrNext s) (buff s))"
    using assms(3) by (simp add: memread_def)
  show ?thesis
    using wire_write [OF assms(1) w]
  proof
    assume a: "0 \<le> w \<and> wire clean (ipcFd r) k0 (bs @ take (wrNext s) (buff s)) k'"
    with w mr assms(2) show ?thesis
      by (auto simp: EmptyBuff_send_def Let_def)
  next
    assume a: "w < 0 \<and> \<not> clean \<and>
      (\<exists>n \<le> length (take (wrNext s) (buff s)). wire clean (ipcFd r) k0
        (bs @ take n (take (wrNext s) (buff s))) k')"
    with w mr assms(2) have "EmptyBuff_send s r k =
        Some (SetError (errno k') (s\<lparr>isAnythingWritten := True\<rparr>), r, k')"
      by (simp add: EmptyBuff_send_def Let_def)
    with a show ?thesis by blast
  qed
qed

text \<open>The empty procedure in stream mode keeps what was accepted, or fails and closes.\<close>

lemma wr_acc_empty:
  assumes "wr_acc pre clean k0 r0 t xs s r k"
  shows "\<exists>s' r' k'. EmptyBuffProc False s r k = Some (s', r', k')
    \<and> (wr_acc pre clean k0 r0 t xs s' r' k' \<and> wrNext s' < stop s'
      \<or> wr_failed clean k0 r0 t s' r' k' \<and> isClosed s' \<and> (wrNext s = stop s \<longrightarrow> wrNext s' = stop s'))"
proof -
  obtain chunks where r: "r = r0" and s: "wr_shape s" "\<not> rawWrite s" "\<not> isClosed s"
      "\<not> wasFCloseCalled s" "FCGI_errno s = 0" "strtype s = t"
    and ch: "list_all (\<lambda>c. c \<noteq> [] \<and> length c \<le> 65535) chunks"
    and xs: "xs = concat chunks @ pending_out s"
    and an: "isAnythingWritten s \<longleftrightarrow> pre \<or> chunks \<noteq> []"
    and wi: "wire clean (ipcFd r0) k0 (concat (map (enc_record t (requestId r0)) chunks)) k"
    using assms by (auto simp: wr_acc_def)
  note b = wr_shape_bounds [OF s(1)]
  have unf: "EmptyBuffProc False s r k =
      (do { s \<leftarrow> EmptyBuff_header s r; EmptyBuff_send s r k })"
    by (simp add: EmptyBuffProc_def EmptyBuff_body_def)
  have w8: "8 \<le> wrNext s" using s(1,2) by (simp add: wr_shape_def)
  show ?thesis
  proof (cases "wrNext s = 8")
    case True
    have e: "s\<lparr>wrNext := 8\<rparr> = s" using True by simp
    have "EmptyBuffProc False s r k = Some (s\<lparr>wrNext := 8\<rparr>, r, k)"
      using True s by (simp add: unf EmptyBuff_header_empty EmptyBuff_send_def Let_def)
    then have "EmptyBuffProc False s r k = Some (s, r, k)" unfolding e .
    moreover have "wrNext s < stop s" using True b by simp
    ultimately show ?thesis using assms by blast
  next
    case False
    with w8 have w8: "8 < wrNext s" by simp
    let ?w = "wrNext s + pad8 (wrNext s - 8)" and ?c = "pending_out s"
    from EmptyBuff_header_record [OF s(1,2) w8, of r] obtain bf where
      hd: "EmptyBuff_header s r = Some (s\<lparr>wrNext := ?w, buff := bf\<rparr>)"
      and lb: "length bf = length (buff s)"
      and rec: "take ?w bf = enc_record t (requestId r0) ?c" and fit: "?w \<le> stop s"
      unfolding r s(6) by blast
    let ?s = "s\<lparr>wrNext := ?w, buff := bf\<rparr>"
    have lc: "length ?c = wrNext s - 8" by (rule length_pending_out [OF s(1)])
    have shp: "wr_shape ?s" using s(1) lb fit w8
      by (simp add: wr_shape_def buff_ok_def)
    have "\<exists>s' k'. EmptyBuff_send ?s r k = Some (s', r, k') \<and>
      ((wire clean (ipcFd r) k0 (concat (map (enc_record t (requestId r0)) chunks) @ take (wrNext ?s) (buff ?s)) k'
        \<and> s' = ?s\<lparr>isAnythingWritten := True, wrNext := (if rawWrite ?s then 0 else 8)\<rparr>)
      \<or> (\<not> clean \<and> (\<exists>n. wire clean (ipcFd r) k0 (concat (map (enc_record t (requestId r0)) chunks)
           @ take n (take (wrNext ?s) (buff ?s))) k')
        \<and> s' = SetError (errno k') (?s\<lparr>isAnythingWritten := True\<rparr>)))"
      by (rule EmptyBuff_send_ok) (use wi r w8 fit b lb in auto)
    then obtain s' k' where sd: "EmptyBuff_send ?s r k = Some (s', r, k')" and
      out: "(wire clean (ipcFd r) k0 (concat (map (enc_record t (requestId r0)) chunks) @ enc_record t (requestId r0) ?c) k'
        \<and> s' = ?s\<lparr>isAnythingWritten := True, wrNext := 8\<rparr>)
      \<or> (\<not> clean \<and> (\<exists>n. wire clean (ipcFd r) k0 (concat (map (enc_record t (requestId r0)) chunks)
           @ take n (enc_record t (requestId r0) ?c)) k')
        \<and> s' = SetError (errno k') (?s\<lparr>isAnythingWritten := True\<rparr>))"
      using rec s(2) by auto
    have run: "EmptyBuffProc False s r k = Some (s', r, k')" by (simp add: unf hd sd)
    from out show ?thesis
    proof
      assume a: "wire clean (ipcFd r) k0 (concat (map (enc_record t (requestId r0)) chunks) @ enc_record t (requestId r0) ?c) k'
        \<and> s' = ?s\<lparr>isAnythingWritten := True, wrNext := 8\<rparr>"
      have cs: "list_all (\<lambda>c. c \<noteq> [] \<and> length c \<le> 65535) (chunks @ [?c])"
        using ch lc w8 b by auto
      have "pending_out s' = []" using a by (simp add: pending_out_def)
      then have "wr_acc pre clean k0 r0 t xs s' r k'"
        using a s r shp cs xs b unfolding wr_acc_def
        by (intro conjI exI [of _ "chunks @ [?c]"]) (auto simp: wr_shape_def buff_ok_def)
      with run a b show ?thesis by auto
    next
      assume a: "\<not> clean \<and> (\<exists>n. wire clean (ipcFd r) k0 (concat (map (enc_record t (requestId r0)) chunks)
           @ take n (enc_record t (requestId r0) ?c)) k')
        \<and> s' = SetError (errno k') (?s\<lparr>isAnythingWritten := True\<rparr>)"
      have sh': "wr_shape s'" using a shp by (auto simp: wr_shape_def buff_ok_def)
      have f: "isClosed s'" "\<not> rawWrite s'" "\<not> wasFCloseCalled s'" using a s by auto
      from a f sh' r ch have "wr_failed clean k0 r0 t s' r k'"
        unfolding wr_failed_def by blast
      moreover have "wrNext s = stop s \<longrightarrow> wrNext s' = stop s'" using a fit by auto
      ultimately show ?thesis using run a by auto
    qed
  qed
qed

lemma wr_acc_put:
  assumes "wr_acc pre clean k0 r0 t xs s r k" "length bs \<le> stop s - wrNext s"
    "memwrite (wrNext s) bs (buff s) = Some b"
  shows "wr_acc pre clean k0 r0 t (xs @ bs) (s\<lparr>wrNext := wrNext s + length bs, buff := b\<rparr>) r k"
proof -
  have s: "wr_shape s" "\<not> rawWrite s" using assms(1) by (auto simp: wr_acc_def)
  then have "8 \<le> wrNext s" "wrNext s \<le> stop s" by (auto simp: wr_shape_def)
  then have p: "pending_out (s\<lparr>wrNext := wrNext s + length bs, buff := b\<rparr>) = pending_out s @ bs"
    using seg_memwrite_extend [OF assms(3), of 8] by (simp add: pending_out_def)
  have "wr_shape (s\<lparr>wrNext := wrNext s + length bs, buff := b\<rparr>)"
    using s memwrite_length [OF assms(3)] assms(2) by (auto simp: wr_shape_def buff_ok_def)
  with assms(1) p show ?thesis by (auto simp: wr_acc_def)
qed

interpretation cooked: byte_sink EmptyBuffProc "wr_acc pre clean k0 r0 t" "wr_failed clean k0 r0 t"
  for pre clean k0 r0 t
proof unfold_locales
  fix xs s r k
  assume "wr_acc pre clean k0 r0 t xs s r k"
  then show "\<not> isReader s \<and> \<not> isClosed s \<and> wrNext s \<le> stop s \<and> stop s \<le> length (buff s)"
    using wr_shape_bounds [of s] by (auto simp: wr_acc_def wr_shape_def)
next
  fix xs s r k bs b
  assume "wr_acc pre clean k0 r0 t xs s r k" "length bs \<le> stop s - wrNext s"
    "memwrite (wrNext s) bs (buff s) = Some b"
  then show "wr_acc pre clean k0 r0 t (xs @ bs) (s\<lparr>wrNext := wrNext s + length bs, buff := b\<rparr>) r k"
    by (rule wr_acc_put)
qed (rule wr_acc_empty)

end
