(* ===== verification/Closing.thy ===== *)
theory Closing
  imports Writer
begin

text \<open>
  Closing a writer: \<open>EmptyBuffProc(stream, TRUE)\<close> with \<open>WriteCloseRecords\<close> inside, as
  \<open>FCGX_FClose\<close> calls it. The closing records are put into the stream in raw mode, where the
  buffer holds finished records; \<open>raw_acc\<close> is the byte sink of that mode.
\<close>

section \<open>The raw mode\<close>

text \<open>Everything put so far is on the wire or in the buffer.\<close>

definition raw_acc ::
  "bool \<Rightarrow> os \<Rightarrow> FCGX_Request \<Rightarrow> int \<Rightarrow> byte list \<Rightarrow> stream \<Rightarrow> FCGX_Request \<Rightarrow> os \<Rightarrow> bool" where
  "raw_acc clean k0 r0 t xs s r k \<longleftrightarrow>
     r = r0 \<and> wr_shape s \<and> rawWrite s \<and> \<not> isClosed s \<and> \<not> wasFCloseCalled s
     \<and> FCGI_errno s = 0 \<and> strtype s = t
     \<and> (\<exists>bs. xs = bs @ take (wrNext s) (buff s) \<and> wire clean (ipcFd r0) k0 bs k)"

definition raw_failed ::
  "bool \<Rightarrow> os \<Rightarrow> FCGX_Request \<Rightarrow> int \<Rightarrow> stream \<Rightarrow> FCGX_Request \<Rightarrow> os \<Rightarrow> bool" where
  "raw_failed clean k0 r0 t s r k \<longleftrightarrow>
     \<not> clean \<and> r = r0 \<and> wr_shape s \<and> isClosed s \<and> rawWrite s \<and> \<not> wasFCloseCalled s
     \<and> (\<exists>bs. wire clean (ipcFd r0) k0 bs k)"

lemma EmptyBuff_inner_raw:
  "rawWrite s \<Longrightarrow> EmptyBuff_inner False s r k = EmptyBuff_send s r k"
  by (simp add: EmptyBuff_inner_def EmptyBuff_body_def EmptyBuff_header_def)

lemma raw_acc_send:
  assumes "raw_acc clean k0 r0 t xs s r k"
  shows "\<exists>s' k'. EmptyBuff_send s r k = Some (s', r, k')
    \<and> (raw_acc clean k0 r0 t xs s' r k' \<and> wrNext s' = 0 \<and> wire clean (ipcFd r0) k0 xs k'
      \<or> raw_failed clean k0 r0 t s' r k' \<and> isClosed s' \<and> wrNext s' = wrNext s \<and> stop s' = stop s)"
proof -
  obtain bs where r: "r = r0" and s: "wr_shape s" "rawWrite s" "\<not> isClosed s"
      "\<not> wasFCloseCalled s" "FCGI_errno s = 0" "strtype s = t"
    and xs: "xs = bs @ take (wrNext s) (buff s)" and wi: "wire clean (ipcFd r0) k0 bs k"
    using assms by (auto simp: raw_acc_def)
  note b = wr_shape_bounds [OF s(1)]
  show ?thesis
  proof (cases "wrNext s = 0")
    case True
    then have "EmptyBuff_send s r k = Some (s, r, k)"
      using s by (simp add: EmptyBuff_send_def)
    with True assms wi xs show ?thesis by auto
  next
    case False
    have lb: "wrNext s \<le> length (buff s)" using b by simp
    from EmptyBuff_send_ok [OF wi [folded r] False lb] s(2) obtain s' k' where
      sd: "EmptyBuff_send s r k = Some (s', r, k')" and
      out: "wire clean (ipcFd r) k0 xs k' \<and> s' = s\<lparr>isAnythingWritten := True, wrNext := 0\<rparr>
        \<or> \<not> clean \<and> (\<exists>n. wire clean (ipcFd r) k0 (bs @ take n (take (wrNext s) (buff s))) k')
          \<and> s' = SetError (errno k') (s\<lparr>isAnythingWritten := True\<rparr>)"
      unfolding xs by auto
    from out show ?thesis
    proof
      assume a: "wire clean (ipcFd r) k0 xs k' \<and> s' = s\<lparr>isAnythingWritten := True, wrNext := 0\<rparr>"
      then have "raw_acc clean k0 r0 t xs s' r k'"
        using s r b by (auto simp: raw_acc_def wr_shape_def buff_ok_def)
      with a sd r show ?thesis by auto
    next
      assume a: "\<not> clean \<and> (\<exists>n. wire clean (ipcFd r) k0 (bs @ take n (take (wrNext s) (buff s))) k')
          \<and> s' = SetError (errno k') (s\<lparr>isAnythingWritten := True\<rparr>)"
      then have "wr_shape s'" "isClosed s'" "rawWrite s'" "\<not> wasFCloseCalled s'"
        using s by (auto simp: wr_shape_def buff_ok_def)
      with a r have "raw_failed clean k0 r0 t s' r k'"
        unfolding raw_failed_def by blast
      with a sd show ?thesis by auto
    qed
  qed
qed

lemma raw_acc_put:
  assumes "raw_acc clean k0 r0 t xs s r k" "length bs \<le> stop s - wrNext s"
    "memwrite (wrNext s) bs (buff s) = Some b"
  shows "raw_acc clean k0 r0 t (xs @ bs) (s\<lparr>wrNext := wrNext s + length bs, buff := b\<rparr>) r k"
proof -
  have s: "wr_shape s" using assms(1) by (auto simp: raw_acc_def)
  then have "take (wrNext s + length bs) b = take (wrNext s) (buff s) @ bs"
    using seg_memwrite_extend [OF assms(3), of 0] by (simp add: seg_def)
  moreover have "wr_shape (s\<lparr>wrNext := wrNext s + length bs, buff := b\<rparr>)"
    using s memwrite_length [OF assms(3)] assms(2) by (auto simp: wr_shape_def buff_ok_def)
  ultimately show ?thesis using assms(1) by (auto simp: raw_acc_def)
qed

interpretation raw: byte_sink EmptyBuff_inner "raw_acc clean k0 r0 t" "raw_failed clean k0 r0 t"
  for clean k0 r0 t
proof unfold_locales
  fix xs s r k
  assume "raw_acc clean k0 r0 t xs s r k"
  then show "\<not> isReader s \<and> \<not> isClosed s \<and> wrNext s \<le> stop s \<and> stop s \<le> length (buff s)"
    using wr_shape_bounds [of s] by (auto simp: raw_acc_def wr_shape_def)
next
  fix xs s r k bs b
  assume "raw_acc clean k0 r0 t xs s r k" "length bs \<le> stop s - wrNext s"
    "memwrite (wrNext s) bs (buff s) = Some b"
  then show "raw_acc clean k0 r0 t (xs @ bs) (s\<lparr>wrNext := wrNext s + length bs, buff := b\<rparr>) r k"
    by (rule raw_acc_put)
next
  fix xs s r k
  assume a: "raw_acc clean k0 r0 t xs s r k"
  then have "rawWrite s" "24 \<le> stop s" using wr_shape_bounds by (auto simp: raw_acc_def)
  moreover from raw_acc_send [OF a] obtain s' k' where "EmptyBuff_send s r k = Some (s', r, k')"
    and "raw_acc clean k0 r0 t xs s' r k' \<and> wrNext s' = 0 \<or>
      raw_failed clean k0 r0 t s' r k' \<and> isClosed s' \<and> wrNext s' = wrNext s \<and> stop s' = stop s"
    by blast
  ultimately show "\<exists>s' r' k'. EmptyBuff_inner False s r k = Some (s', r', k')
    \<and> (raw_acc clean k0 r0 t xs s' r' k' \<and> wrNext s' < stop s'
      \<or> raw_failed clean k0 r0 t s' r' k' \<and> isClosed s' \<and> (wrNext s = stop s \<longrightarrow> wrNext s' = stop s'))"
    using wr_shape_bounds(3) [of s'] by (auto simp: EmptyBuff_inner_raw raw_acc_def)
qed

section \<open>The closing records\<close>

abbreviation (input) raw_out where
  "raw_out clean k0 r0 t xs s r k \<equiv>
     raw_acc clean k0 r0 t xs s r k \<or> raw_failed clean k0 r0 t s r k"

lemma raw_failed_sel:
  "raw_failed clean k0 r0 t s r k \<Longrightarrow>
     r = r0 \<and> isClosed s \<and> wrNext s \<le> stop s \<and> stop s \<le> length (buff s)"
  using wr_shape_bounds [of s] by (auto simp: raw_failed_def)

lemma raw_PutStr:
  assumes "raw_out clean k0 r0 t xs s r k"
  shows "\<exists>v s' k'. FCGX_PutStr EmptyBuff_inner str (int (length str)) s r k = Some (v, s', r, k')
    \<and> raw_out clean k0 r0 t (xs @ str) s' r k'"
  using assms
proof
  assume a: "raw_acc clean k0 r0 t xs s r k"
  from raw.PutStr_acc [OF a, of str] obtain v s' r' k' where
    p: "FCGX_PutStr EmptyBuff_inner str (int (length str)) s r k = Some (v, s', r', k')"
    and o: "raw_out clean k0 r0 t (xs @ str) s' r' k'" by blast
  moreover have "r' = r" using a o by (auto simp: raw_acc_def raw_failed_def)
  ultimately show ?thesis by blast
next
  assume a: "raw_failed clean k0 r0 t s r k"
  note sel = raw_failed_sel [OF a]
  from PutStr_closed [of s EmptyBuff_inner str r k] sel obtain v w b where
    p: "FCGX_PutStr EmptyBuff_inner str (int (length str)) s r k
      = Some (v, s\<lparr>wrNext := w, buff := b\<rparr>, r, k)" and "w \<le> stop s" "length b = length (buff s)"
    by blast
  then have "raw_failed clean k0 r0 t (s\<lparr>wrNext := w, buff := b\<rparr>) r k"
    using a by (auto simp: raw_failed_def wr_shape_def buff_ok_def)
  with p show ?thesis by blast
qed

lemma raw_send:
  assumes "raw_out clean k0 r0 t xs s r k"
  shows "\<exists>s' k'. EmptyBuff_send s r k = Some (s', r, k') \<and> raw_out clean k0 r0 t xs s' r k'
    \<and> (clean \<longrightarrow> wire clean (ipcFd r0) k0 xs k')"
  using assms
proof
  assume a: "raw_acc clean k0 r0 t xs s r k"
  from raw_acc_send [OF a] show ?thesis by (auto simp: raw_failed_def)
next
  assume a: "raw_failed clean k0 r0 t s r k"
  then obtain bs where sh: "wr_shape s" "rawWrite s" "isClosed s" "\<not> wasFCloseCalled s"
    and r: "r = r0" and c: "\<not> clean" and wi: "wire clean (ipcFd r) k0 bs k"
    by (auto simp: raw_failed_def)
  show ?thesis
  proof (cases "wrNext s = 0")
    case True
    with a sh c show ?thesis by (auto simp: EmptyBuff_send_def)
  next
    case False
    have "wrNext s \<le> length (buff s)" using wr_shape_bounds [OF sh(1)] by simp
    from EmptyBuff_send_ok [OF wi False this] obtain s' k' bs' where
      sd: "EmptyBuff_send s r k = Some (s', r, k')" and wi': "wire clean (ipcFd r0) k0 bs' k'"
      and s': "s' = s\<lparr>isAnythingWritten := True, wrNext := (if rawWrite s then 0 else 8)\<rparr>
        \<or> s' = SetError (errno k') (s\<lparr>isAnythingWritten := True\<rparr>)"
      unfolding r by blast
    from s' sh have "wr_shape s'" "rawWrite s'" "isClosed s'" "\<not> wasFCloseCalled s'"
      by (auto simp: wr_shape_def buff_ok_def)
    with wi' c r have "raw_failed clean k0 r0 t s' r k'" unfolding raw_failed_def by blast
    with sd c show ?thesis by blast
  qed
qed

text \<open>What \<open>WriteCloseRecords\<close> adds; \<open>silent\<close> says that the stream has written nothing.\<close>

definition close_records :: "int \<Rightarrow> FCGX_Request \<Rightarrow> bool \<Rightarrow> byte list" where
  "close_records t r silent =
     (if t = FCGI_STDERR \<and> silent then [] else enc_record t (requestId r) [])
     @ (if nWriters r = 1
        then enc_record FCGI_END_REQUEST (requestId r)
               (end_body_bytes (MakeEndRequestBody (appStatus r) FCGI_REQUEST_COMPLETE))
        else [])"

lemma MakeHeader_8:
  "\<exists>h. MakeHeader t i 8 0 = Some h \<and> header_bytes h = enc_header t i 8 0"
  using MakeHeader_Some [of 8 0 t i] MakeHeader_enc [of t i 8 0] by auto

lemma MakeHeader_0:
  "\<exists>h. MakeHeader t i 0 0 = Some h \<and> header_bytes h = enc_record t i []"
  using MakeHeader_Some [of 0 0 t i] MakeHeader_enc [of t i 0 0] by (auto simp: enc_record_def)

lemma end_record_enc:
  "enc_header t i 8 0 @ end_body_bytes (MakeEndRequestBody a p)
    = enc_record t i (end_body_bytes (MakeEndRequestBody a p))"
  by (simp add: enc_record_def pad8_def)

lemma raw_out_nWriters:
  "raw_out clean k0 r0 t xs s r k \<Longrightarrow>
     raw_out clean k0 (r0\<lparr>nWriters := n\<rparr>) t xs s (r\<lparr>nWriters := n\<rparr>) k"
  by (auto simp: raw_acc_def raw_failed_def)

lemma WriteCloseRecords_out:
  assumes "raw_out clean k0 r0 t xs (s\<lparr>rawWrite := True\<rparr>) r k" "strtype s = t"
  shows "\<exists>s' k'. WriteCloseRecords EmptyBuff_inner s r k
      = Some (s', r\<lparr>nWriters := nWriters r - 1\<rparr>, k')
    \<and> raw_out clean k0 (r0\<lparr>nWriters := nWriters r - 1\<rparr>) t
        (xs @ close_records t r (wrNext s = 0 \<and> \<not> isAnythingWritten s))
        s' (r\<lparr>nWriters := nWriters r - 1\<rparr>) k'"
proof -
  let ?s = "s\<lparr>rawWrite := True\<rparr>" and ?e = "wrNext s = 0 \<and> \<not> isAnythingWritten s"
  let ?first = "if t = FCGI_STDERR \<and> ?e then [] else enc_record t (requestId r) []"
  obtain h0 where h0: "MakeHeader t (requestId r) 0 0 = Some h0"
    "header_bytes h0 = enc_record t (requestId r) []" using MakeHeader_0 by blast
  obtain h8 where h8: "MakeHeader FCGI_END_REQUEST (requestId r) 8 0 = Some h8"
    "header_bytes h8 = enc_header FCGI_END_REQUEST (requestId r) 8 0" using MakeHeader_8 by blast
  let ?er = "header_bytes h8 @ end_body_bytes (MakeEndRequestBody (appStatus r) FCGI_REQUEST_COMPLETE)"
  have l: "length (enc_record t (requestId r) []) = 8" "length ?er = 16"
    by (simp_all add: length_enc_record)
  have "\<exists>s1 k1. (if \<not> (strtype ?s = FCGI_STDERR \<and> wrNext ?s = 0 \<and> \<not> isAnythingWritten ?s) then
               do { h \<leftarrow> MakeHeader (strtype ?s) (requestId r) 0 0;
                    (_, s, r, k) \<leftarrow> FCGX_PutStr EmptyBuff_inner (header_bytes h) 8 ?s r k;
                    Some (s, r, k) }
             else Some (?s, r, k)) = Some (s1, r, k1)
      \<and> raw_out clean k0 r0 t (xs @ ?first) s1 r k1"
    using raw_PutStr [OF assms(1), of "enc_record t (requestId r) []"] assms h0 l by auto
  then obtain s1 k1 where
    one: "(if \<not> (strtype ?s = FCGI_STDERR \<and> wrNext ?s = 0 \<and> \<not> isAnythingWritten ?s) then
               do { h \<leftarrow> MakeHeader (strtype ?s) (requestId r) 0 0;
                    (_, s, r, k) \<leftarrow> FCGX_PutStr EmptyBuff_inner (header_bytes h) 8 ?s r k;
                    Some (s, r, k) }
             else Some (?s, r, k)) = Some (s1, r, k1)"
    and o1: "raw_out clean k0 r0 t (xs @ ?first) s1 r k1" by blast
  have "\<exists>s2 k2. (if nWriters r = 1 then
               do { h \<leftarrow> MakeHeader FCGI_END_REQUEST (requestId r) 8 0;
                    (_, s, r, k) \<leftarrow> FCGX_PutStr EmptyBuff_inner
                       (header_bytes h @ end_body_bytes (MakeEndRequestBody (appStatus r) FCGI_REQUEST_COMPLETE))
                       16 s1 r k1;
                    Some (s, r, k) }
             else Some (s1, r, k1)) = Some (s2, r, k2)
      \<and> raw_out clean k0 r0 t (xs @ close_records t r ?e) s2 r k2"
    using raw_PutStr [OF o1, of ?er] o1 h8 l
    by (auto simp: close_records_def end_record_enc)
  then obtain s2 k2 where
    two: "(if nWriters r = 1 then
               do { h \<leftarrow> MakeHeader FCGI_END_REQUEST (requestId r) 8 0;
                    (_, s, r, k) \<leftarrow> FCGX_PutStr EmptyBuff_inner
                       (header_bytes h @ end_body_bytes (MakeEndRequestBody (appStatus r) FCGI_REQUEST_COMPLETE))
                       16 s1 r k1;
                    Some (s, r, k) }
             else Some (s1, r, k1)) = Some (s2, r, k2)"
    and o2: "raw_out clean k0 r0 t (xs @ close_records t r ?e) s2 r k2" by blast
  have "WriteCloseRecords EmptyBuff_inner s r k = Some (s2, r\<lparr>nWriters := nWriters r - 1\<rparr>, k2)"
    unfolding WriteCloseRecords_def Let_def one by (simp only: Option.bind.simps(2) split two)
  with raw_out_nWriters [OF o2] show ?thesis by blast
qed

section \<open>EmptyBuffProc(stream, TRUE) and FCGX\_FClose\<close>

text \<open>The header step hands over to the raw mode: what was accepted becomes complete records.\<close>

lemma EmptyBuff_header_out:
  assumes "wr_acc pre clean k0 r0 t xs s r k"
  shows "\<exists>s' chunks. EmptyBuff_header s r = Some s'
    \<and> list_all (\<lambda>c. c \<noteq> [] \<and> length c \<le> 65535) chunks \<and> concat chunks = xs
    \<and> raw_acc clean k0 r0 t (concat (map (enc_record t (requestId r0)) chunks)) (s'\<lparr>rawWrite := True\<rparr>) r k
    \<and> strtype s' = t \<and> (wrNext s' = 0 \<and> \<not> isAnythingWritten s' \<longleftrightarrow> \<not> pre \<and> xs = [])"
proof -
  obtain chunks where r: "r = r0" and s: "wr_shape s" "\<not> rawWrite s" "\<not> isClosed s"
      "\<not> wasFCloseCalled s" "FCGI_errno s = 0" "strtype s = t"
    and ch: "list_all (\<lambda>c. c \<noteq> [] \<and> length c \<le> 65535) chunks"
    and xs: "xs = concat chunks @ pending_out s"
    and an: "isAnythingWritten s \<longleftrightarrow> pre \<or> chunks \<noteq> []"
    and wi: "wire clean (ipcFd r0) k0 (concat (map (enc_record t (requestId r0)) chunks)) k"
    using assms by (auto simp: wr_acc_def)
  note b = wr_shape_bounds [OF s(1)]
  have w8: "8 \<le> wrNext s" using s(1,2) by (simp add: wr_shape_def)
  have ne: "concat chunks = [] \<longleftrightarrow> chunks = []" using ch by (cases chunks) auto
  show ?thesis
  proof (cases "wrNext s = 8")
    case True
    let ?s = "s\<lparr>wrNext := 0\<rparr>"
    have "pending_out s = []" using True by (simp add: pending_out_def)
    moreover have "raw_acc clean k0 r0 t (concat (map (enc_record t (requestId r0)) chunks))
        (?s\<lparr>rawWrite := True\<rparr>) r k"
      using s r wi by (simp add: raw_acc_def wr_shape_def buff_ok_def)
    ultimately show ?thesis
      using EmptyBuff_header_empty [OF s(1,2) True, of r] s ch xs an ne
      by (intro exI [of _ ?s] exI [of _ chunks]) simp
  next
    case False
    with w8 have w8: "8 < wrNext s" by simp
    let ?w = "wrNext s + pad8 (wrNext s - 8)" and ?c = "pending_out s"
    from EmptyBuff_header_record [OF s(1,2) w8, of r] obtain bf where
      hd: "EmptyBuff_header s r = Some (s\<lparr>wrNext := ?w, buff := bf\<rparr>)"
      and lb: "length bf = length (buff s)"
      and rec: "take ?w bf = enc_record t (requestId r0) ?c" and fit: "?w \<le> stop s"
      unfolding r s(6) by blast
    let ?s = "s\<lparr>wrNext := ?w, buff := bf\<rparr>"
    have lc: "length ?c = wrNext s - 8" by (rule length_pending_out [OF s(1)])
    have cs: "list_all (\<lambda>c. c \<noteq> [] \<and> length c \<le> 65535) (chunks @ [?c])"
      using ch lc w8 b by auto
    have "raw_acc clean k0 r0 t (concat (map (enc_record t (requestId r0)) (chunks @ [?c])))
        (?s\<lparr>rawWrite := True\<rparr>) r k"
      using s r wi fit lb rec by (auto simp: raw_acc_def wr_shape_def buff_ok_def)
    moreover have "xs \<noteq> []" using lc w8 xs by auto
    ultimately show ?thesis
      using hd s cs xs w8 by (intro exI [of _ ?s] exI [of _ "chunks @ [?c]"]) simp
  qed
qed

text \<open>
  \<open>EmptyBuffProc(stream, TRUE)\<close> returns; on a descriptor that takes everything the wire then
  holds the records of all that was written, followed by the closing records.
\<close>

lemma EmptyBuffProc_close:
  assumes "wr_acc pre clean k0 r0 t xs s r k"
  shows "\<exists>s' k' chunks. EmptyBuffProc True s r k = Some (s', r\<lparr>nWriters := nWriters r - 1\<rparr>, k')
    \<and> list_all (\<lambda>c. c \<noteq> [] \<and> length c \<le> 65535) chunks \<and> concat chunks = xs
    \<and> (clean \<longrightarrow> wire clean (ipcFd r0) k0
         (concat (map (enc_record t (requestId r0)) chunks) @ close_records t r (\<not> pre \<and> xs = [])) k')
    \<and> \<not> isReader s' \<and> \<not> wasFCloseCalled s' \<and> (clean \<longrightarrow> FCGI_errno s' = 0)"
proof -
  from EmptyBuff_header_out [OF assms] obtain s1 chunks where
    hd: "EmptyBuff_header s r = Some s1"
    and ch: "list_all (\<lambda>c. c \<noteq> [] \<and> length c \<le> 65535) chunks" "concat chunks = xs"
    and ra: "raw_acc clean k0 r0 t (concat (map (enc_record t (requestId r0)) chunks)) (s1\<lparr>rawWrite := True\<rparr>) r k"
    and s1: "strtype s1 = t" "wrNext s1 = 0 \<and> \<not> isAnythingWritten s1 \<longleftrightarrow> \<not> pre \<and> xs = []" by blast
  let ?r = "r\<lparr>nWriters := nWriters r - 1\<rparr>" and ?q = "r0\<lparr>nWriters := nWriters r - 1\<rparr>"
  let ?out = "concat (map (enc_record t (requestId r0)) chunks) @ close_records t r (\<not> pre \<and> xs = [])"
  from WriteCloseRecords_out [OF disjI1 [OF ra] s1(1)] obtain s2 k2 where
    cl: "WriteCloseRecords EmptyBuff_inner s1 r k = Some (s2, ?r, k2)"
    and o2: "raw_out clean k0 ?q t ?out s2 ?r k2" unfolding s1(2) by blast
  from raw_send [OF o2] obtain s3 k3 where sd: "EmptyBuff_send s2 ?r k2 = Some (s3, ?r, k3)"
    and o3: "raw_out clean k0 ?q t ?out s3 ?r k3" and wi: "clean \<longrightarrow> wire clean (ipcFd ?q) k0 ?out k3"
    by blast
  have "EmptyBuffProc True s r k = Some (s3, ?r, k3)"
    by (simp add: EmptyBuffProc_def EmptyBuff_body_def hd cl sd)
  moreover have "\<not> isReader s3 \<and> \<not> wasFCloseCalled s3 \<and> (clean \<longrightarrow> FCGI_errno s3 = 0)"
    using o3 by (auto simp: raw_acc_def raw_failed_def wr_shape_def)
  ultimately show ?thesis using ch wi by auto
qed

lemma FClose_acc:
  assumes "wr_acc pre clean k0 r0 t xs s r k"
  shows "\<exists>v s' k' chunks. FCGX_FClose EmptyBuffProc s r k
      = Some (v, s', r\<lparr>nWriters := nWriters r - 1\<rparr>, k')
    \<and> isClosed s' \<and> wasFCloseCalled s' \<and> wrNext s' = stop s'
    \<and> list_all (\<lambda>c. c \<noteq> [] \<and> length c \<le> 65535) chunks \<and> concat chunks = xs
    \<and> (clean \<longrightarrow> v = 0 \<and> wire clean (ipcFd r0) k0
         (concat (map (enc_record t (requestId r0)) chunks) @ close_records t r (\<not> pre \<and> xs = [])) k')"
proof -
  from EmptyBuffProc_close [OF assms] obtain s' k' chunks where
    e: "EmptyBuffProc True s r k = Some (s', r\<lparr>nWriters := nWriters r - 1\<rparr>, k')"
    and rest: "list_all (\<lambda>c. c \<noteq> [] \<and> length c \<le> 65535) chunks" "concat chunks = xs"
      "clean \<longrightarrow> wire clean (ipcFd r0) k0
         (concat (map (enc_record t (requestId r0)) chunks) @ close_records t r (\<not> pre \<and> xs = [])) k'"
    and s': "\<not> isReader s'" "clean \<longrightarrow> FCGI_errno s' = 0" by blast
  have s: "\<not> wasFCloseCalled s" "\<not> isReader s"
    using assms by (auto simp: wr_acc_def wr_shape_def)
  let ?s = "s'\<lparr>wasFCloseCalled := True, isClosed := True, rdNext := wrNext s', stop := wrNext s'\<rparr>"
  have "FCGX_FClose EmptyBuffProc s r k = Some (if FCGI_errno s' = 0 then 0 else EOF, ?s,
      r\<lparr>nWriters := nWriters r - 1\<rparr>, k')"
    using s s' by (simp add: FCGX_FClose_def e Let_def)
  with rest s' show ?thesis
    by (intro exI [of _ "if FCGI_errno s' = 0 then 0 else EOF"] exI [of _ ?s] exI [of _ k']
        exI [of _ chunks]) simp
qed

text \<open>Closing twice is closing once, and nothing reaches the wire after the close.\<close>

lemma FClose_again:
  "wasFCloseCalled s \<Longrightarrow>
     FCGX_FClose emp s r k = Some (if FCGI_errno s = 0 then 0 else EOF, s, r, k)"
  by (simp add: FCGX_FClose_def)

text \<open>The records of a whole output stream, as the peer parses them.\<close>

lemma parse_records_enc_list:
  assumes "0 \<le> t" "t < 256" "0 \<le> i" "i < 65536" "list_all (\<lambda>c. length c \<le> 65535) chunks"
  shows "parse_records (concat (map (enc_record t i) chunks) @ bs)
    = map_option ((@) (map (\<lambda>c. (t, i, c)) chunks)) (parse_records bs)"
  using assms(5)
proof (induction chunks)
  case Nil
  then show ?case by (simp add: option.map_ident)
next
  case (Cons c chunks)
  have "parse_records (enc_record t i c @ concat (map (enc_record t i) chunks) @ bs)
      = map_option ((#) (t, i, c)) (parse_records (concat (map (enc_record t i) chunks) @ bs))"
    using Cons.prems by (intro parse_records_enc_append assms) simp
  with Cons show ?case by (simp add: option.map_comp comp_def)
qed

definition closing :: "int \<Rightarrow> FCGX_Request \<Rightarrow> bool \<Rightarrow> (int \<times> int \<times> byte list) list" where
  "closing t r silent =
     (if t = FCGI_STDERR \<and> silent then [] else [(t, requestId r, [])])
     @ (if nWriters r = 1
        then [(FCGI_END_REQUEST, requestId r,
               end_body_bytes (MakeEndRequestBody (appStatus r) FCGI_REQUEST_COMPLETE))] else [])"

lemma parse_close_records:
  assumes "0 \<le> t" "t < 256" "0 \<le> requestId r" "requestId r < 65536"
  shows "parse_records (close_records t r silent) = Some (closing t r silent)"
  using parse_records_enc_append [of _ "requestId r" _ "[]"] assms
  by (auto simp: close_records_def closing_def parse_records_enc_append)

lemma enc_record_aligned: "8 dvd length (enc_record t i cs)"
proof -
  have "8 dvd 8 + n + pad8 n" for n
    using pad8_AlignInt8 [of n] AlignInt8_bounds [of "int n"] by presburger
  then show ?thesis by (simp add: length_enc_record)
qed

lemma enc_records_aligned: "8 dvd length (concat (map (enc_record t i) chunks))"
  by (induction chunks) (auto intro: dvd_add enc_record_aligned)

lemma close_records_aligned: "8 dvd length (close_records t r silent)"
  by (auto simp: close_records_def intro: dvd_add enc_record_aligned)

text \<open>
  Closing a writer that has accepted \<open>xs\<close>: what it has sent since \<open>k0\<close> decodes to records with the
  content \<open>xs\<close> and the closing records.
\<close>

lemma FClose_decodes:
  assumes "wr_acc False True k0 r t xs s r1 k" "0 \<le> t" "t < 256" "0 \<le> requestId r" "requestId r < 65536"
  shows "\<exists>s' k' out chunks.
    FCGX_FClose EmptyBuffProc s r1 k = Some (0, s', r\<lparr>nWriters := nWriters r - 1\<rparr>, k')
    \<and> tx k' (ipcFd r) = tx k0 (ipcFd r) @ out
    \<and> parse_records out = Some (map (\<lambda>c. (t, requestId r, c)) chunks @ closing t r (xs = []))
    \<and> concat chunks = xs \<and> list_all (\<lambda>c. c \<noteq> [] \<and> length c \<le> 65535) chunks \<and> 8 dvd length out"
proof -
  have r1: "r1 = r" using assms(1) by (simp add: wr_acc_def)
  from FClose_acc [OF assms(1)] obtain s2 k2 chunks where
    c: "FCGX_FClose EmptyBuffProc s r k = Some (0, s2, r\<lparr>nWriters := nWriters r - 1\<rparr>, k2)"
    and ch: "list_all (\<lambda>c. c \<noteq> [] \<and> length c \<le> 65535) chunks" "concat chunks = xs"
    and wi: "wire True (ipcFd r) k0
      (concat (map (enc_record t (requestId r)) chunks) @ close_records t r (xs = [])) k2"
    unfolding r1 by auto
  have "8 dvd length (concat (map (enc_record t (requestId r)) chunks) @ close_records t r (xs = []))"
    by (simp only: length_append) (intro dvd_add enc_records_aligned close_records_aligned)
  moreover have "list_all (\<lambda>c. length c \<le> 65535) chunks" using ch(1) by (simp add: list_all_iff)
  moreover note parse_records_enc_list [OF assms(2-5)] parse_close_records [OF assms(2-5)] c ch wire_tx [OF wi]
  ultimately show ?thesis unfolding r1 by fastforce
qed

end
