(* ===== verification/Demux.thy ===== *)
theory Demux
  imports Refill Closing
begin

text \<open>
  What the input side of a connection means, as a function on its bytes, and the proof that
  \<open>FillBuffProc\<close> computes it however the bytes arrive.

  \<open>demux\<close> takes the bytes apart: it gives the content that belongs to the current stream,
  the bytes the library answers with (to management records and to a second
  \<open>FCGI_BEGIN_REQUEST\<close>) and the way the stream ends. It follows the code in its corner cases:
  a skipped record without content leaves \<open>skip\<close> set for the next one, the content of a
  management record of an unknown type is not skipped, and the end of a stream leaves the
  padding of its last record unread.
\<close>

section \<open>Specification\<close>

text \<open>
  How a stream ends: with its end-of-stream record, an error, a run that is not defined
  (\<open>None\<close> in the code), or a \<open>FCGI_BEGIN_REQUEST\<close> that starts the request. The byte list is
  what follows.
\<close>

datatype dend =
    DEof "byte list"
  | DFail int
  | DFault
  | DBegin int FCGI_BeginRequestBody "byte list"

text \<open>What a header leads to: an end, or answer bytes and a new position.\<close>

datatype after_header = HStop dend | HGo "byte list" nat nat bool "byte list"

text \<open>
  The parameters that stay fixed: the contents of uninitialised memory, the type and request
  of the stream, whether the request has begun, and the error at the end of the connection.
\<close>

record dparams =
  d_junk :: "nat \<Rightarrow> byte"
  d_type :: int
  d_id :: int
  d_begun :: bool
  d_err :: int

definition on_begin :: "dparams \<Rightarrow> bool \<Rightarrow> int \<Rightarrow> nat \<Rightarrow> nat \<Rightarrow> byte list \<Rightarrow> after_header" where
  "on_begin d sk rid n p ys =
     (if rid = 0 \<or> n \<noteq> 8 then HStop (DFail FCGX_PROTOCOL_ERROR)
      else if d_begun d then
        HGo (enc_record FCGI_END_REQUEST rid (end_body_bytes (MakeEndRequestBody 0 FCGI_CANT_MPX_CONN)))
          8 p True ys
      else if \<not> sk \<and> 8 \<le> length ys then
        (case begin_body_of (take 8 ys) of
           Some body \<Rightarrow> HStop (DBegin rid body (drop 8 ys)) | None \<Rightarrow> HStop DFault)
      else HStop (DFail (if eor_ok sk 8 (int p) ys then FCGX_PROTOCOL_ERROR else d_err d)))"

definition on_get_values :: "dparams \<Rightarrow> bool \<Rightarrow> nat \<Rightarrow> nat \<Rightarrow> byte list \<Rightarrow> after_header" where
  "on_get_values d sk n p ys =
     (let complete = eor_ok sk (int n) (int p) ys in
      case decode_pairs (if sk then [] else take n ys) of
        (ps, PTooLong) \<Rightarrow> HStop DFault
      | (ps, PCut) \<Rightarrow> HStop (DFail (if complete then FCGX_PARAMS_ERROR else d_err d))
      | (ps, PEnd) \<Rightarrow>
          if \<not> complete then HStop (DFail (d_err d))
          else case GetValues_response (d_junk d) (map (Str \<circ> entry) ps) of
            None \<Rightarrow> HStop DFault
          | Some w \<Rightarrow> HGo w 0 0 (sk \<and> n = 0) (drop (n + p) ys))"

definition on_header :: "dparams \<Rightarrow> bool \<Rightarrow> FCGI_Header \<Rightarrow> byte list \<Rightarrow> after_header" where
  "on_header d sk h ys =
     (let n = nat (hdr_contentLen h); p = nat (uint (paddingLength h));
          rid = hdr_requestId h; ty = uint (rectype h) in
      if uint (version h) \<noteq> 1 then HStop (DFail FCGX_UNSUPPORTED_VERSION)
      else if ty = FCGI_BEGIN_REQUEST then on_begin d sk rid n p ys
      else if rid = FCGI_NULL_REQUEST_ID then
        if ty = FCGI_GET_VALUES then on_get_values d sk n p ys
        else (case UnknownType_response ty of
                None \<Rightarrow> HStop DFault | Some w \<Rightarrow> HGo w n p sk ys)
      else if rid \<noteq> d_id d then HGo [] n p True ys
      else if ty \<noteq> d_type d then HStop (DFail FCGX_PROTOCOL_ERROR)
      else if n = 0 then HStop (DEof ys)
      else HGo [] n p sk ys)"

lemma on_header_shrinks: "on_header d sk h ys = HGo w n p sk' zs \<Longrightarrow> length zs \<le> length ys"
  by (auto simp: on_header_def on_begin_def on_get_values_def Let_def
      split: if_splits option.splits prod.splits pairs_end.splits)

definition before :: "byte list \<Rightarrow> byte list \<Rightarrow> byte list \<times> byte list \<times> dend
    \<Rightarrow> byte list \<times> byte list \<times> dend" where
  "before c w res = (c @ fst res, w @ fst (snd res), snd (snd res))"

lemma before_nothing [simp]: "before [] [] res = res"
  by (simp add: before_def)

lemma before_before [simp]: "before c w (before c' w' res) = before (c @ c') (w @ w') res"
  by (simp add: before_def)

lemma before_sel [simp]:
  "fst (before c w res) = c @ fst res" "fst (snd (before c w res)) = w @ fst (snd res)"
  "snd (snd (before c w res)) = snd (snd res)"
  by (simp_all add: before_def)

text \<open>
  \<open>cl\<close> bytes of content and \<open>pl\<close> of padding of the current record are still to come; the
  content is skipped when \<open>sk\<close>.
\<close>

function demux ::
  "dparams \<Rightarrow> nat \<Rightarrow> nat \<Rightarrow> bool \<Rightarrow> byte list \<Rightarrow> byte list \<times> byte list \<times> dend" where
  "demux d cl pl sk xs =
     (if 0 < cl then
        (if length xs < cl then (if sk then [] else xs, [], DFail (d_err d))
         else before (if sk then [] else take cl xs) [] (demux d 0 pl False (drop cl xs)))
      else if length xs < pl + 8 then ([], [], DFail (d_err d))
      else case header_of (take 8 (drop pl xs)) of
        None \<Rightarrow> ([], [], DFault)
      | Some h \<Rightarrow>
         (case on_header d sk h (drop (pl + 8) xs) of
            HStop E \<Rightarrow> ([], [], E)
          | HGo w cl' pl' sk' ys \<Rightarrow> before [] w (demux d cl' pl' sk' ys)))"
  by pat_completeness auto
termination
  by (relation "measure (\<lambda>(d, cl, pl, sk, xs). length xs)")
    (auto dest!: on_header_shrinks)

declare demux.simps [simp del]

text \<open>Delivering or skipping a part of the content, and skipping a part of the padding.\<close>

lemma demux_content_part:
  assumes "0 < c" "c \<le> cl" "c \<le> length xs"
  shows "demux d cl pl sk xs
    = before (if sk then [] else take c xs) [] (demux d (cl - c) pl (sk \<and> c < cl) (drop c xs))"
proof (cases "c < cl")
  case False
  with assms show ?thesis by (subst demux.simps) auto
next
  case True
  show ?thesis
  proof (cases "length xs < cl")
    case short: True
    with assms have "length xs - c < cl - c" by auto
    with short True assms show ?thesis
      by (simp add: demux.simps [of d cl] demux.simps [of d "cl - c"] before_def)
  next
    case False
    have "take c xs @ take (cl - c) (drop c xs) = take cl xs"
      using True take_add [of c "cl - c" xs] by simp
    moreover have "\<not> length xs - c < cl - c" using False by simp
    ultimately show ?thesis
      using False True assms
      by (simp add: demux.simps [of d cl] demux.simps [of d "cl - c"])
  qed
qed

lemma demux_padding_part:
  assumes "c \<le> pl" "c \<le> length xs"
  shows "demux d 0 pl sk xs = demux d 0 (pl - c) sk (drop c xs)"
proof -
  have "pl - c + 8 + c = pl + 8" "pl - c + c = pl" using assms by auto
  then have d: "drop (pl - c) (drop c xs) = drop pl xs" "drop (pl - c + 8) (drop c xs) = drop (pl + 8) xs"
    unfolding drop_drop by simp_all
  have "length (drop c xs) < pl - c + 8 \<longleftrightarrow> length xs < pl + 8" using assms by auto
  then show ?thesis
    unfolding demux.simps [of d 0 pl sk xs] demux.simps [of d 0 "pl - c" sk "drop c xs"] d
    by (simp only: less_irrefl if_False)
qed

lemma demux_advance:
  assumes "c1 \<le> cl" "c2 \<le> pl" "c1 + c2 \<le> length xs" "c1 < cl \<longrightarrow> c2 = 0" "cl = 0 \<or> sk"
  shows "demux d cl pl sk xs
    = demux d (cl - c1) (pl - c2) (sk \<and> \<not> (0 < cl \<and> cl = c1)) (drop (c1 + c2) xs)"
proof (cases "cl = 0")
  case True
  with assms demux_padding_part [of c2 pl xs d sk] show ?thesis by simp
next
  case False
  with assms have sk: sk by simp
  show ?thesis
  proof (cases "c1 = 0")
    case True
    with False assms show ?thesis by simp
  next
    case c1: False
    have "demux d cl pl sk xs = demux d (cl - c1) pl (c1 < cl) (drop c1 xs)"
      using demux_content_part [of c1 cl xs d pl sk] c1 assms sk by simp
    also have "\<dots> = demux d (cl - c1) (pl - c2) (c1 < cl) (drop (c1 + c2) xs)"
    proof (cases "c1 < cl")
      case True
      with assms show ?thesis by simp
    next
      case False
      with assms demux_padding_part [of c2 pl "drop c1 xs" d "c1 < cl"] show ?thesis
        by (simp add: add.commute)
    qed
    also have "(c1 < cl) = (sk \<and> \<not> (0 < cl \<and> cl = c1))" using assms False sk by auto
    finally show ?thesis .
  qed
qed

end
