(* ===== verification/Management.thy ===== *)
theory Management
  imports Demux
begin

text \<open>
  The answer to \<open>FCGI_GET_VALUES\<close>, which \<open>ProcessManagementRecord\<close> builds in an array of 64 bytes on the
  stack: what it holds (\<open>get_values\<close>), and when it does not fit.
\<close>

text \<open>The variables the library knows among those asked for, with their values.\<close>

definition known :: "(byte list \<times> byte list) list \<Rightarrow> (byte list \<times> byte list) list" where
  "known ps = concat (map (\<lambda>(n, v). case known_value n of None \<Rightarrow> [] | Some c \<Rightarrow> [(n, [c])]) ps)"

text \<open>The 64-byte array \<open>m\<close> once the answer \<open>a\<close> has been stored after the place of the header.\<close>

definition response_with :: "byte list \<Rightarrow> byte list \<Rightarrow> byte list" where
  "response_with m a = take 8 m @ a @ (if a = [] then drop 8 m else 0 # drop (9 + length a) m)"

lemma known_value_short: "known_value n = Some c \<Longrightarrow> length n < 16"
  by (auto simp: known_value_def split: if_splits)

lemma strchr_entry: "0 \<notin> set n \<Longrightarrow> 61 \<notin> set n \<Longrightarrow> strchr_eq (n @ 61 # m) = Some (length n)"
  by (induction n) auto

lemma response_with_put:
  assumes "length m = 64" "b \<noteq> []" "length a + length b \<le> 55"
  shows "memwrite (8 + length a) (b @ [0]) (response_with m a) = Some (response_with m (a @ b))"
  using assms by (cases "a = []") (auto simp: memwrite_def response_with_def add_ac)

lemma response_with_full:
  assumes "length m = 64" "b \<noteq> []" "\<not> length a + length b \<le> 55" "length a \<le> 55"
  shows "memwrite (8 + length a) (b @ [0]) (response_with m a) = None"
  using assms by (cases "a = []") (auto simp: memwrite_def response_with_def)

lemma known_Cons: "known ((n, v) # ps) = (case known_value n of None \<Rightarrow> [] | Some c \<Rightarrow> [(n, [c])]) @ known ps"
  by (simp add: known_def)

lemma known_short: "(n, v) \<in> set (known ps) \<Longrightarrow> length n < 16 \<and> length v = 1"
  by (induction ps) (auto simp: known_Cons known_def dest: known_value_short known_value_short [OF sym] split: option.splits)

lemma GetValues_loop_known:
  assumes "length m = 64" "length a \<le> 55" "\<forall>nv \<in> set ps. 0 \<notin> set (fst nv) \<and> 61 \<notin> set (fst nv)"
  shows "GetValues_loop (map (Str \<circ> entry) ps) (response_with m a) (8 + length a) =
    (let b = a @ concat (map enc_pair (known ps)) in
     if length b \<le> 55 then Some (response_with m b, 8 + length b) else None)"
  using assms(2,3)
proof (induction ps arbitrary: a)
  case (Cons nv ps)
  obtain n v where nv: "nv = (n, v)" by fastforce
  have eq: "strchr_eq (entry nv) = Some (length n)" "take (length n) (entry nv) = n"
    using strchr_entry [of n "v @ [0]"] Cons.prems(2) by (simp_all add: entry_def nv)
  show ?case
  proof (cases "known_value n")
    case None
    with Cons eq show ?thesis by (simp add: nv known_Cons)
  next
    case (Some c)
    let ?e = "enc_pair (n, [c])"
    have e: "[uchar (int (length n)), 1] @ n @ [c, 0] = ?e @ [0]" "length ?e = length n + 3"
      using known_value_short [OF Some] by (simp_all add: enc_pair_def enc_len_def uchar_def)
    have ne: "?e \<noteq> []" using e(2) by auto
    have step: "GetValues_loop (map (Str \<circ> entry) (nv # ps)) R P
        = do { R' \<leftarrow> memwrite P (?e @ [0]) R; GetValues_loop (map (Str \<circ> entry) ps) R' (P + length ?e) }" for R P
      unfolding e(1) [symmetric] using eq Some e(2) by (simp add: nv add.assoc)
    have k: "known (nv # ps) = (n, [c]) # known ps" using Some by (simp add: nv known_Cons)
    show ?thesis
    proof (cases "length a + length ?e \<le> 55")
      case True
      with Cons.IH [of "a @ ?e"] Cons.prems(2) response_with_put [OF assms(1) ne True] show ?thesis
        unfolding step k by (simp add: add_ac comp_def)
    next
      case False
      with response_with_full [OF assms(1) ne False Cons.prems(1)] show ?thesis
        unfolding step k by (simp add: Let_def comp_def)
    qed
  qed
qed (simp add: Let_def known_def)

lemma parse_one_record:
  assumes "version h = 1" "hdr_contentLen h = int (length a)" "uint (paddingLength h) = int (length pad)"
  shows "parse_records (header_bytes h @ a @ pad) = Some [(uint (rectype h), hdr_requestId h, a)]"
proof -
  have "header_bytes h \<noteq> []" using length_header_bytes [of h] by force
  with assms show ?thesis by (subst parse_records.simps) (simp add: Let_def)
qed

text \<open>
  C16: the answer to \<open>FCGI_GET_VALUES\<close> for variables \<open>ps\<close>: one management record with the values of those
  the library knows, padded to eight bytes. It is built in a 64-byte array: more than 55 bytes of
  pairs, which takes a name asked for more than once, are written past its end.
\<close>

theorem get_values:
  assumes "\<forall>nv \<in> set ps. 0 \<notin> set (fst nv) \<and> 61 \<notin> set (fst nv)"
  shows "case GetValues_response stk (map (Str \<circ> entry) ps) of
      None \<Rightarrow> 55 < length (concat (map enc_pair (known ps)))
    | Some bs \<Rightarrow> length (concat (map enc_pair (known ps))) \<le> 55 \<and> length bs \<le> 64 \<and> 8 dvd length bs
        \<and> parse_records bs = Some [(FCGI_GET_VALUES_RESULT, FCGI_NULL_REQUEST_ID, concat (map enc_pair (known ps)))]
        \<and> decode_pairs (concat (map enc_pair (known ps))) = (known ps, PEnd)"
proof -
  let ?m = "map stk [0..<64]" and ?a = "concat (map enc_pair (known ps))"
  have r0: "response_with ?m [] = ?m" by (simp add: response_with_def)
  note loop = GetValues_loop_known [of ?m "[]" ps, OF _ _ assms, unfolded r0]
  show ?thesis
  proof (cases "length ?a \<le> 55")
    case False
    with loop show ?thesis by (simp add: GetValues_response_def Let_def)
  next
    case True
    let ?n = "length ?a" and ?p = "AlignInt8 (int (length ?a)) - int (length ?a)"
    have p: "0 \<le> ?p" "?p < 8" "AlignInt8 (int ?n) mod 8 = 0" using AlignInt8_bounds [of "int ?n"] by auto
    have al: "AlignInt8 (int ?n) \<le> 56" using AlignInt8_least [of "int ?n" 56] True by simp
    obtain h where h: "MakeHeader FCGI_GET_VALUES_RESULT FCGI_NULL_REQUEST_ID (int ?n) ?p = Some h"
      using MakeHeader_Some [of "int ?n" ?p] p True by auto
    let ?rest = "drop 8 (response_with ?m ?a)"
    have rest: "length ?rest = 56" "take ?n ?rest = ?a" using True by (auto simp: response_with_def)
    have "memwrite 0 (header_bytes h) (response_with ?m ?a) = Some (header_bytes h @ ?rest)"
      using rest(1) by (simp add: memwrite_def response_with_def)
    then have resp: "GetValues_response stk (map (Str \<circ> entry) ps)
        = Some (header_bytes h @ take (nat (AlignInt8 (int ?n))) ?rest)"
      using loop True h p al rest(1)
      by (simp add: GetValues_response_def Let_def memread_def INT_MAX_def nat_add_distrib)
    note f = MakeHeader_fields [OF h]
    have v: "version h = 1" using f(2) by (metis uint_1 word_uint_eq_iff)
    have np: "nat (AlignInt8 (int ?n)) = ?n + nat ?p" using p by simp
    have split: "take (nat (AlignInt8 (int ?n))) ?rest = ?a @ take (nat ?p) (drop ?n ?rest)"
      unfolding np take_add rest(2) ..
    have "length (take (nat ?p) (drop ?n ?rest)) = nat ?p" using rest(1) al np p by simp
    then have "parse_records (header_bytes h @ take (nat (AlignInt8 (int ?n))) ?rest)
        = Some [(FCGI_GET_VALUES_RESULT, FCGI_NULL_REQUEST_ID, ?a)]"
      unfolding split using parse_one_record [of h ?a] f v p by simp
    moreover have "decode_pairs ?a = (known ps, PEnd)"
      by (rule decode_pairs_enc_list) (auto simp: list_all_iff dest!: known_short)
    moreover have "8 dvd nat (AlignInt8 (int ?n))" by (simp add: AlignInt8_div nat_mult_distrib)
    ultimately show ?thesis using resp rest(1) al True by (simp add: dvd_add)
  qed
qed


lemma get_values_witness:
  defines "c \<equiv> (bytes_of ''FCGI_MAX_CONNS'', [])"
  shows "\<exists>bs. GetValues_response (\<lambda>i. 7) (map (Str \<circ> entry) [c, ([65], [])]) = Some bs
     \<and> parse_records bs = Some [(FCGI_GET_VALUES_RESULT, 0, enc_pair (fst c, [49]))]
   \<and> GetValues_response (\<lambda>i. 7) (map (Str \<circ> entry) [c, c, c, c]) = None"
proof -
  have k: "known_value (fst c) = Some 49" "known_value [65] = None"
    by (simp_all add: known_value_def bytes_of_def c_def)
  have b: "0 \<notin> set (fst c)" "61 \<notin> set (fst c)" "length (enc_pair (fst c, [49])) = 17" "c = (fst c, [])"
    by (simp_all add: bytes_of_def c_def enc_pair_def enc_len_def)
  have n: "known [c, ([65], [])] = [(fst c, [49])]"
    "known [c, c, c, c] = [(fst c, [49]), (fst c, [49]), (fst c, [49]), (fst c, [49])]"
    using k by (simp_all add: known_def case_prod_unfold)
  have "length (concat (map enc_pair (known [c, c, c, c]))) = 68" "length (concat (map enc_pair (known [c, ([65], [])]))) = 17"
    unfolding n using b(3) by simp_all
  then show ?thesis
    using get_values [of "[c, ([65], [])]" "\<lambda>i. 7"] get_values [of "[c, c, c, c]" "\<lambda>i. 7"] b(1-3)
    unfolding n
    by (cases "GetValues_response (\<lambda>i. 7) (map (Str \<circ> entry) [c, ([65], [])])";
        cases "GetValues_response (\<lambda>i. 7) (map (Str \<circ> entry) [c, c, c, c])")
      simp_all
qed

end
