(* ===== verification/OsUnix.thy ===== *)
theory OsUnix
  imports Kernel
begin

text \<open>
  The connection side of \<open>os_unix.c\<close>: \<open>OS_Close\<close> and \<open>OS_IpcClose\<close>, \<open>OS_Accept\<close> with its record
  lock, its address list and its handling of transient errors, \<open>OS_IsFcgi\<close>, the signal handlers
  and \<open>OS_LibInit\<close>/\<open>OS_LibShutdown\<close>. \<open>USE_LOCKING\<close> is defined, \<open>HAVE_SOCKLEN\<close> is not (\<open>fcgi_config.h\<close>).

  A signal handler can run only inside a blocking call here (\<open>accept\<close>, \<open>fcntl\<close>), which then
  fails with \<open>EINTR\<close>: the script of the call says whether it did. \<open>select\<close> may fail with \<open>EINTR\<close> as
  well, but that a handler which runs inside it sets \<open>shutdownPending\<close> is left out.
\<close>

section \<open>Descriptor sets and the table of asynchronous operations\<close>

text \<open>An \<open>fd_set\<close> has \<open>FD_SETSIZE\<close> = 1024 bits; outside them the macros write beside it.\<close>

definition FD_SET :: "int \<Rightarrow> int set \<Rightarrow> int set option" where
  "FD_SET fd fds = (if 0 \<le> fd \<and> fd < 1024 then Some (insert fd fds) else None)"

definition FD_CLR :: "int \<Rightarrow> int set \<Rightarrow> int set option" where
  "FD_CLR fd fds = (if 0 \<le> fd \<and> fd < 1024 then Some (fds - {fd}) else None)"

definition AIO_RD_IX :: "int \<Rightarrow> int" where
  "AIO_RD_IX fd = fd * 2"

definition AIO_WR_IX :: "int \<Rightarrow> int" where
  "AIO_WR_IX fd = fd * 2 + 1"

text \<open>\<open>asyncIoTable[index]\<close>, read and written; the table has no bound check.\<close>

definition aio_get :: "int \<Rightarrow> os \<Rightarrow> AioInfo option" where
  "aio_get index k = do { t \<leftarrow> asyncIoTable k; ASSERT (0 \<le> index); deref t (nat index) }"

definition aio_put :: "int \<Rightarrow> AioInfo \<Rightarrow> os \<Rightarrow> os option" where
  "aio_put index a k =
     do { t \<leftarrow> asyncIoTable k;
          ASSERT (0 \<le> index);
          t \<leftarrow> memwrite (nat index) [a] t;
          Some (k\<lparr>asyncIoTable := Some t\<rparr>) }"

definition aio_cancel :: "int \<Rightarrow> os \<Rightarrow> os option" where
  "aio_cancel index k =
     do { a \<leftarrow> aio_get index k;
          if inUse a then aio_put index (a\<lparr>inUse := False\<rparr>) k else Some k }"

section \<open>Closing\<close>

definition sys_close :: "int \<Rightarrow> os \<Rightarrow> int \<times> os" where
  "sys_close fd k =
     (if fd \<notin> open_fds k then (-1, k\<lparr>errno := EBADF\<rparr>)
      else (0, k\<lparr>open_fds := open_fds k - {fd}, locks := locks k - {fd}\<rparr>))"

text \<open>\<open>shutdown(fd, how)\<close>: the script gives 0 or the \<open>errno\<close>; an exhausted one gives 0.\<close>

definition sys_shutdown :: "int \<Rightarrow> os \<Rightarrow> int \<times> os" where
  "sys_shutdown fd k =
     (if fd \<notin> open_fds k then (-1, k\<lparr>errno := EBADF\<rparr>)
      else case shutq k of
        [] \<Rightarrow> (0, k)
      | e # es \<Rightarrow> if e = 0 then (0, k\<lparr>shutq := es\<rparr>) else (-1, k\<lparr>shutq := es, errno := e\<rparr>))"

text \<open>
  \<open>select\<close> on one descriptor for reading, with a time limit: a positive answer of the script is
  a readable descriptor, 0 a timeout, \<open>-e\<close> a failure with \<open>errno = e\<close>. When the script is exhausted the
  descriptor is readable, from then on always: what remains of its reads, or their end, has arrived.
\<close>

definition sys_select :: "int \<Rightarrow> os \<Rightarrow> int \<times> os" where
  "sys_select fd k =
     (if fd \<notin> open_fds k then (-1, k\<lparr>errno := EBADF\<rparr>)
      else case selq k of
        [] \<Rightarrow> (1, k)
      | n # ns \<Rightarrow> if n < 0 then (-1, k\<lparr>selq := ns, errno := - n\<rparr>)
                  else (min n 1, k\<lparr>selq := ns\<rparr>))"

text \<open>\<open>OS_Close\<close>: forget the descriptor's asynchronous operations.\<close>

definition OS_Close_aio :: "int \<Rightarrow> os \<Rightarrow> os option" where
  "OS_Close_aio fd k =
     (if asyncIoInUse k then
        do { fds \<leftarrow> FD_CLR fd (readFdSet k);
             let k = k\<lparr>readFdSet := fds\<rparr>;
             fds \<leftarrow> FD_CLR fd (readFdSetPost k);
             let k = k\<lparr>readFdSetPost := fds\<rparr>;
             k \<leftarrow> aio_cancel (AIO_RD_IX fd) k;
             fds \<leftarrow> FD_CLR fd (writeFdSet k);
             let k = k\<lparr>writeFdSet := fds\<rparr>;
             fds \<leftarrow> FD_CLR fd (writeFdSetPost k);
             let k = k\<lparr>writeFdSetPost := fds\<rparr>;
             k \<leftarrow> aio_cancel (AIO_WR_IX fd) k;
             Some (if maxFd k = fd then k\<lparr>maxFd := maxFd k - 1\<rparr> else k) }
      else Some k)"

text \<open>
  The loop that reads what the client still sends, up to its end of file, a failure or a timeout. Each turn
  waits anew, for up to two seconds. It ends because every turn but the last reads something, and a script of
  reads is finite; \<open>select\<close> alone would go on for ever.
\<close>

fun rx_size :: "rx_event list \<Rightarrow> nat" where
  "rx_size [] = 0"
| "rx_size (Data bs # es) = Suc (length bs + rx_size es)"
| "rx_size (RxErr e # es) = Suc (rx_size es)"

lemma sys_select_rx: "sys_select fd k = (n, k') \<Longrightarrow> rx k' = rx k"
  by (auto simp: sys_select_def split: if_splits list.splits)

lemma sys_read_size:
  "sys_read fd n k = (c, bs, k') \<Longrightarrow> 0 < c \<Longrightarrow> rx_size (rx k' fd) < rx_size (rx k fd)"
  by (auto simp: sys_read_def split: if_splits list.splits rx_event.splits)

function OS_Close_drain :: "int \<Rightarrow> os \<Rightarrow> os option" where
  "OS_Close_drain fd k =
     do { _ \<leftarrow> FD_SET fd {};
          let (rv, k1) = sys_select fd k in
          if rv > 0 then
            let (n, trash, k2) = sys_read fd 1024 k1 in
            if n > 0 then OS_Close_drain fd k2 else Some k2
          else Some k1 }"
  by pat_completeness auto
termination
proof (relation "measure (\<lambda>(fd, k). rx_size (rx k fd))", simp)
  fix fd :: int and k :: os and u v rv k1 n w trash k2
  assume s: "v = sys_select fd k" "(rv, k1) = v" and r: "w = sys_read fd 1024 k1" "(n, u) = w" "(trash, k2) = u" "n > 0"
  have "rx k1 = rx k" using s sys_select_rx [of fd k rv k1] by simp
  moreover have "rx_size (rx k2 fd) < rx_size (rx k1 fd)" using r sys_read_size [of fd 1024 k1 n trash k2] by simp
  ultimately show "((fd, k2), fd, k) \<in> measure (\<lambda>(fd, k). rx_size (rx k fd))" by simp
qed

definition OS_Close :: "int \<Rightarrow> bool \<Rightarrow> os \<Rightarrow> (int \<times> os) option" where
  "OS_Close fd shutdown_ok k =
     (if fd = -1 then Some (0, k)
      else
        do { k \<leftarrow> OS_Close_aio fd k;
             k \<leftarrow> (if shutdown_ok then
                     let (rc, k) = sys_shutdown fd k in
                     if rc = 0 then OS_Close_drain fd k else Some k
                   else Some k);
             Some (sys_close fd k) })"

definition OS_IpcClose :: "int \<Rightarrow> bool \<Rightarrow> os \<Rightarrow> (int \<times> os) option" where
  "OS_IpcClose ipcFd shutdown k = OS_Close ipcFd shutdown k"

section \<open>The record lock\<close>

definition sys_lock :: "int \<Rightarrow> bool \<Rightarrow> os \<Rightarrow> int \<times> os" where
  "sys_lock sock acquire k =
     (let held = (if acquire then insert sock (locks k) else locks k - {sock}) in
      case lockq k of
        [] \<Rightarrow> (0, k\<lparr>locks := held\<rparr>)
      | LockOk # ls \<Rightarrow> (0, k\<lparr>lockq := ls, locks := held\<rparr>)
      | LockErr e handler # ls \<Rightarrow>
          (-1, k\<lparr>lockq := ls, errno := e, shutdownPending := (shutdownPending k \<or> handler)\<rparr>))"

function AcquireLock :: "int \<Rightarrow> bool \<Rightarrow> os \<Rightarrow> int \<times> os" where
  "AcquireLock sock fail_on_intr k =
     (let (rc, k') = sys_lock sock True k in
      if rc \<noteq> -1 then (0, k')
      else if errno k' = EINTR \<and> \<not> fail_on_intr \<and> \<not> shutdownPending k'
      then AcquireLock sock fail_on_intr k'
      else (-1, k'))"
  by pat_completeness auto
termination
  by (relation "measure (\<lambda>(sock, f, k). length (lockq k))")
    (auto simp: sys_lock_def Let_def split: list.splits lock_event.splits)

function ReleaseLock :: "int \<Rightarrow> os \<Rightarrow> int \<times> os" where
  "ReleaseLock sock k =
     (let (rc, k') = sys_lock sock False k in
      if rc \<noteq> -1 then (0, k')
      else if errno k' = EINTR then ReleaseLock sock k'
      else (-1, k'))"
  by pat_completeness auto
termination
  by (relation "measure (\<lambda>(sock, k). length (lockq k))")
    (auto simp: sys_lock_def Let_def split: list.splits lock_event.splits)

section \<open>Accepting\<close>

text \<open>
  \<open>ClientAddrOK\<close>: the loop over the comma-separated list, on the rest of the string copy; \<open>cur\<close>
  is cut at the next comma.
\<close>

function ClientAddr_loop :: "(byte list \<Rightarrow> 32 word) \<Rightarrow> 32 word \<Rightarrow> byte list \<Rightarrow> bool" where
  "ClientAddr_loop inet s_addr cur =
     (let name = takeWhile (\<lambda>b. b \<noteq> 44) cur in
      if inet name = s_addr then True
      else if name = cur then False
      else ClientAddr_loop inet s_addr (drop (length name + 1) cur))"
  by pat_completeness auto
termination
proof (relation "measure (\<lambda>(inet, a, cur). length cur)", simp)
  fix inet a cur name
  assume "name = takeWhile (\<lambda>b. b \<noteq> 44) cur" "name \<noteq> cur"
  then have "cur \<noteq> []" by auto
  then show "((inet, a, drop (length name + 1) cur), inet, a, cur)
      \<in> measure (\<lambda>(inet, a, cur). length cur)" by simp
qed

definition ClientAddrOK :: "(byte list \<Rightarrow> 32 word) \<Rightarrow> 32 word \<Rightarrow> byte list option \<Rightarrow> bool" where
  "ClientAddrOK inet s_addr clientList =
     (case clientList of
        None \<Rightarrow> True
      | Some l \<Rightarrow> if c_str l = [] then True else ClientAddr_loop inet s_addr (c_str l))"

text \<open>The Linux error numbers of \<open>EPROTO\<close>, \<open>ECONNABORTED\<close>, \<open>ECONNRESET\<close>, \<open>ETIMEDOUT\<close>, \<open>EHOSTUNREACH\<close>, \<open>ENETUNREACH\<close>.\<close>

definition is_reasonable_accept_errno :: "int \<Rightarrow> bool" where
  "is_reasonable_accept_errno error \<longleftrightarrow>
     error = 71 \<or> error = 103 \<or> error = 104 \<or> error = 110 \<or> error = 113 \<or> error = 101"

definition is_af_unix_keeper :: "int \<Rightarrow> os \<Rightarrow> (bool \<times> os) option" where
  "is_af_unix_keeper fd k =
     do { _ \<leftarrow> FD_SET fd {};
          let (n, k) = sys_select fd k;
          Some (n > 0, k) }"

text \<open>
  \<open>accept\<close>: the descriptor and the peer. A scripted descriptor that is not free stands for
  \<open>EMFILE\<close>. An exhausted script is a call that blocks for ever.
\<close>

definition sys_accept :: "int \<Rightarrow> os \<Rightarrow> (int \<times> (sa_family \<times> 32 word) option \<times> os) option" where
  "sys_accept listen k =
     (case accq k of
        [] \<Rightarrow> None
      | AccOk fd fam addr rxs txs # as \<Rightarrow>
          if fd < 0 \<or> fd \<in> open_fds k then Some (-1, None, k\<lparr>accq := as, errno := 24\<rparr>)
          else Some (fd, Some (fam, addr),
            k\<lparr>accq := as, open_fds := insert fd (open_fds k), rx := (rx k)(fd := rxs),
              wx := (wx k)(fd := txs), tx := (tx k)(fd := [])\<rparr>)
      | AccErr e handler # as \<Rightarrow>
          Some (-1, None, k\<lparr>accq := as, errno := e, shutdownPending := (shutdownPending k \<or> handler)\<rparr>))"

text \<open>
  The three loops of \<open>OS_Accept\<close>. The variables \<open>socket\<close> and \<open>sa\<close> keep their values from one
  turn to the next; \<open>sa\<close> is uninitialised before the first connection. \<open>Accept_retry\<close> is the
  \<open>do ... while\<close> around \<open>accept\<close>.
\<close>

type_synonym peer = "(sa_family \<times> 32 word) option"

function Accept_retry ::
  "int \<Rightarrow> bool \<Rightarrow> int \<Rightarrow> peer \<Rightarrow> os \<Rightarrow> (int \<times> peer \<times> os) option" where
  "Accept_retry listen_sock fail_on_intr socket sa k =
     (if shutdownPending k then Some (socket, sa, k)
      else
        case sys_accept listen_sock k of
          None \<Rightarrow> None
        | Some (socket, from, k1) \<Rightarrow>
            let sa = (if from = None then sa else from) in
            if socket < 0 \<and> errno k1 = EINTR \<and> \<not> fail_on_intr \<and> \<not> shutdownPending k1
            then Accept_retry listen_sock fail_on_intr socket sa k1
            else Some (socket, sa, k1))"
  by pat_completeness auto
termination
  by (relation "measure (\<lambda>(l, f, s, p, k). length (accq k))")
    (auto simp: sys_accept_def split: list.splits acc_event.splits if_splits)

text \<open>The loop under the lock; the first component is \<open>None\<close> when it makes \<open>OS_Accept\<close> return -1.\<close>

partial_function (option) Accept_inner ::
  "int \<Rightarrow> bool \<Rightarrow> byte list option \<Rightarrow> int \<Rightarrow> peer \<Rightarrow> os
     \<Rightarrow> ((int \<times> peer) option \<times> os) option" where
  "Accept_inner listen_sock fail_on_intr webServerAddrs socket sa k =
     do { (socket, sa, k) \<leftarrow> Accept_retry listen_sock fail_on_intr socket sa k;
          if socket < 0 then
            if shutdownPending k \<or> \<not> is_reasonable_accept_errno (errno k) then
              let errnoSave = errno k;
                  (_, k) = ReleaseLock listen_sock k in
              Some (None, if shutdownPending k then k else k\<lparr>errno := errnoSave\<rparr>)
            else Accept_inner listen_sock fail_on_intr webServerAddrs socket sa (k\<lparr>errno := 0\<rparr>)
          else
            do { (sin_family, s_addr) \<leftarrow> sa;
                 if sin_family \<noteq> AF_INET then Some (Some (socket, sa), k)
                 else if ClientAddrOK (inet_addr k) s_addr webServerAddrs
                 then Some (Some (socket, sa), k)
                 else Accept_inner listen_sock fail_on_intr webServerAddrs socket sa
                        (snd (sys_close socket k)) } }"

partial_function (option) Accept_outer ::
  "int \<Rightarrow> bool \<Rightarrow> byte list option \<Rightarrow> int \<Rightarrow> peer \<Rightarrow> os \<Rightarrow> (int \<times> os) option" where
  "Accept_outer listen_sock fail_on_intr webServerAddrs socket sa k =
     (let (rc, k) = AcquireLock listen_sock fail_on_intr k in
      if rc \<noteq> 0 then Some (-1, k)
      else
        do { (found, k) \<leftarrow> Accept_inner listen_sock fail_on_intr webServerAddrs socket sa k;
             case found of
               None \<Rightarrow> Some (-1, k)
             | Some (socket, sa) \<Rightarrow>
                 (let (rc, k) = ReleaseLock listen_sock k in
                  if rc \<noteq> 0 then Some (-1, k)
                  else
                    do { (sin_family, _) \<leftarrow> sa;
                         if sin_family \<noteq> AF_UNIX then Some (socket, k)
                         else
                           do { (keep, k) \<leftarrow> is_af_unix_keeper socket k;
                                if keep then Some (socket, k)
                                else Accept_outer listen_sock fail_on_intr webServerAddrs socket sa
                                       (snd (sys_close socket k)) } }) })"

definition OS_Accept :: "int \<Rightarrow> bool \<Rightarrow> byte list option \<Rightarrow> os \<Rightarrow> (int \<times> os) option" where
  "OS_Accept listen_sock fail_on_intr webServerAddrs k =
     Accept_outer listen_sock fail_on_intr webServerAddrs (-1) None k"

section \<open>Initialisation and signals\<close>

definition OS_ShutdownPending :: "os \<Rightarrow> os" where
  "OS_ShutdownPending k = k\<lparr>shutdownPending := True\<rparr>"

text \<open>What a delivered signal does: its handler runs, or \<open>None\<close>, the default action ends the process.\<close>

definition deliver :: "signal \<Rightarrow> os \<Rightarrow> os option" where
  "deliver sig k =
     (case sigact k sig of
        SIG_DFL \<Rightarrow> None
      | OS_Sigusr1Handler \<Rightarrow> Some (OS_ShutdownPending k)
      | _ \<Rightarrow> Some k)"

definition installSignalHandler :: "signal \<Rightarrow> sighandler \<Rightarrow> bool \<Rightarrow> os \<Rightarrow> os" where
  "installSignalHandler signo act force k =
     (if force \<or> sigact k signo = SIG_DFL \<or> sigact k signo = SIG_IGN
      then k\<lparr>sigact := (sigact k)(signo := act)\<rparr> else k)"

definition OS_InstallSignalHandlers :: "bool \<Rightarrow> os \<Rightarrow> os" where
  "OS_InstallSignalHandlers force k =
     installSignalHandler SIGTERM OS_Sigusr1Handler False
       (installSignalHandler SIGUSR1 OS_Sigusr1Handler force
         (installSignalHandler SIGPIPE OS_SigpipeHandler force k))"

text \<open>A zeroed table entry; \<open>sizeof(AioInfo)\<close> is 48.\<close>

definition zero_aio :: AioInfo where
  "zero_aio = \<lparr>procPtr = None, clientData = 0, aio_fd = 0, aio_len = 0, aio_offset = 0, aio_buf = 0,
     inUse = False\<rparr>"

definition OS_LibInit :: "os \<Rightarrow> int \<times> os" where
  "OS_LibInit k =
     (if os_libInitialized k then (0, k)
      else if malloc_at k (asyncIoTableSize k * 48) = 0
      then (-1, k\<lparr>asyncIoTable := None, errno := 12\<rparr>)
      else
        let k = k\<lparr>asyncIoTable := Some (replicate (nat (asyncIoTableSize k)) zero_aio)\<rparr>;
            k = k\<lparr>readFdSet := {}, writeFdSet := {}, readFdSetPost := {}, writeFdSetPost := {}\<rparr>;
            k = OS_InstallSignalHandlers False k in
        (0, k\<lparr>os_libInitialized := True\<rparr>))"

definition OS_LibShutdown :: "os \<Rightarrow> os" where
  "OS_LibShutdown k =
     (if \<not> os_libInitialized k then k
      else k\<lparr>asyncIoTable := None, os_libInitialized := False\<rparr>)"

text \<open>\<open>getpeername\<close> answers as \<open>peername\<close> says; \<open>ENOTCONN\<close> is 107.\<close>

definition OS_IsFcgi :: "int \<Rightarrow> os \<Rightarrow> bool \<times> os" where
  "OS_IsFcgi sock k =
     (let k = k\<lparr>errno := 0\<rparr>;
          e = (if sock \<in> open_fds k then peername k sock else EBADF);
          k = (if e = 0 then k else k\<lparr>errno := e\<rparr>) in
      (e \<noteq> 0 \<and> errno k = 107, k))"

declare ClientAddr_loop.simps [simp del] Accept_retry.simps [simp del]
declare OS_Close_drain.simps [simp del] AcquireLock.simps [simp del] ReleaseLock.simps [simp del]

section \<open>What closing does\<close>

text \<open>
  \<open>close_frame fd k k'\<close>: besides the scripts of \<open>select\<close>, \<open>shutdown\<close> and the reads on \<open>fd\<close>, and
  \<open>errno\<close>, nothing has changed.
\<close>

definition close_frame :: "int \<Rightarrow> os \<Rightarrow> os \<Rightarrow> bool" where
  "close_frame fd k k' \<longleftrightarrow>
     k'\<lparr>selq := selq k, shutq := shutq k, rx := rx k, errno := errno k\<rparr> = k
     \<and> (\<forall>fd'. fd' \<noteq> fd \<longrightarrow> rx k' fd' = rx k fd')"

lemma close_frame_refl [simp]: "close_frame fd k k"
  by (simp add: close_frame_def)

lemma close_frame_trans: "close_frame fd k k1 \<Longrightarrow> close_frame fd k1 k2 \<Longrightarrow> close_frame fd k k2"
  unfolding close_frame_def by (cases k, cases k1, cases k2) simp

lemma close_frame_sel:
  assumes "close_frame fd k k'"
  shows "open_fds k' = open_fds k" "tx k' = tx k" "wx k' = wx k" "locks k' = locks k"
    "shutdownNow k' = shutdownNow k" "fd' \<noteq> fd \<Longrightarrow> rx k' fd' = rx k fd'"
  using assms unfolding close_frame_def by (cases k, cases k', simp)+

lemma sys_read_frame: "sys_read fd n k = (c, bs, k') \<Longrightarrow> close_frame fd k k'"
  by (auto simp: sys_read_def close_frame_def split: if_splits list.splits rx_event.splits)

lemma sys_select_frame: "sys_select fd k = (n, k') \<Longrightarrow> close_frame fd k k'"
  by (auto simp: sys_select_def close_frame_def split: if_splits list.splits)

lemma sys_shutdown_frame: "sys_shutdown fd k = (n, k') \<Longrightarrow> close_frame fd k k'"
  by (auto simp: sys_shutdown_def close_frame_def split: if_splits list.splits)

lemma OS_Close_drain_frame:
  assumes "0 \<le> fd" "fd < 1024"
  shows "\<exists>k'. OS_Close_drain fd k = Some k' \<and> close_frame fd k k'"
  using assms
proof (induction fd k rule: OS_Close_drain.induct)
  case (1 fd k)
  obtain rv k1 where s: "sys_select fd k = (rv, k1)" by fastforce
  obtain n bs k2 where r: "sys_read fd 1024 k1 = (n, bs, k2)" by (metis prod_cases3)
  note fr = sys_select_frame [OF s] sys_read_frame [OF r]
  have set: "FD_SET fd {} = Some {fd}" using 1(2,3) by (simp add: FD_SET_def)
  show ?case
  proof (cases "rv > 0 \<and> n > 0")
    case True
    with 1(1) [OF set s [symmetric] refl _ r [symmetric] refl refl] 1(2,3) obtain k' where
      "OS_Close_drain fd k2 = Some k'" "close_frame fd k2 k'" by auto
    with True s r set fr show ?thesis
      by (subst OS_Close_drain.simps) (auto intro: close_frame_trans)
  next
    case False
    with s r set fr show ?thesis
      by (subst OS_Close_drain.simps) (auto intro: close_frame_trans)
  qed
qed

text \<open>
  What the loop reads. The script of the reads of one descriptor after the end of file or the failure it leads
  to, and the number of reads of up to 1024 bytes it takes to get there.
\<close>

fun rx_rest :: "rx_event list \<Rightarrow> rx_event list" where
  "rx_rest [] = []"
| "rx_rest (RxErr e # es) = es"
| "rx_rest (Data bs # es) = (if bs = [] then es else rx_rest es)"

fun reads_of :: "rx_event list \<Rightarrow> nat" where
  "reads_of [] = 1"
| "reads_of (RxErr e # es) = 1"
| "reads_of (Data bs # es) = (if bs = [] then 1 else (length bs + 1023) div 1024 + reads_of es)"

lemma reads_of_pos: "0 < reads_of es"
  by (induction es rule: reads_of.induct) auto

text \<open>One read: it is the last one, or one less is left.\<close>

lemma sys_read_reads:
  assumes "fd \<in> open_fds k" "sys_read fd 1024 k = (c, bs, k')"
  shows "if 0 < c then reads_of (rx k fd) = Suc (reads_of (rx k' fd)) \<and> rx_rest (rx k' fd) = rx_rest (rx k fd)
    else reads_of (rx k fd) = 1 \<and> rx k' fd = rx_rest (rx k fd)"
    and "selq k' = selq k" "open_fds k' = open_fds k"
proof -
  have more: "(length d - 1024 + 1023) div 1024 = (length d + 1023) div 1024 - 1" "1 \<le> (length d + 1023) div 1024"
    if "1024 < length d" for d :: "byte list" using that by auto
  have one: "(length d + 1023) div 1024 = 1" if "d \<noteq> []" "length d \<le> 1024" for d :: "byte list"
  proof -
    have "length d + 1023 = length d - 1 + 1024" using that(1) by (cases d) auto
    moreover have "(length d - 1) div 1024 = 0" using that by (cases d) auto
    ultimately show ?thesis by (simp add: div_add_self2)
  qed
  show "if 0 < c then reads_of (rx k fd) = Suc (reads_of (rx k' fd)) \<and> rx_rest (rx k' fd) = rx_rest (rx k fd)
    else reads_of (rx k fd) = 1 \<and> rx k' fd = rx_rest (rx k fd)"
    using assms more one
    by (auto simp: sys_read_def split: list.splits rx_event.splits if_splits)
  show "selq k' = selq k" "open_fds k' = open_fds k"
    using assms by (auto simp: sys_read_def split: list.splits rx_event.splits if_splits)
qed

text \<open>
  The loop waits once before every read. As long as the descriptor is found readable it reads all that the client
  sends, however many reads that takes; otherwise it stops at the first other answer.
\<close>

lemma sys_select_answers:
  assumes "fd \<in> open_fds k" "sys_select fd k = (rv, k')"
  shows "0 < rv \<longleftrightarrow> list_all ((<) 0) (take 1 (selq k))"
    "selq k' = tl (selq k)" "rx k' = rx k" "open_fds k' = open_fds k"
  using assms by (auto simp: sys_select_def split: list.splits if_splits)

lemma OS_Close_drain_reads:
  assumes "OS_Close_drain fd k = Some k'" "fd \<in> open_fds k"
  shows "if list_all ((<) 0) (take (reads_of (rx k fd)) (selq k))
    then rx k' fd = rx_rest (rx k fd) \<and> selq k' = drop (reads_of (rx k fd)) (selq k)
    else selq k' = tl (dropWhile ((<) 0) (selq k))"
  using assms
proof (induction fd k rule: OS_Close_drain.induct)
  case (1 fd k)
  obtain rv k1 where s: "sys_select fd k = (rv, k1)" by fastforce
  obtain n bs k2 where r: "sys_read fd 1024 k1 = (n, bs, k2)" by (metis prod_cases3)
  from 1(2) have set: "FD_SET fd {} = Some {fd}"
    by (subst (asm) OS_Close_drain.simps) (auto simp: FD_SET_def split: if_splits)
  note sel = sys_select_answers [OF 1(3) s]
  have "fd \<in> open_fds k1" using 1(3) sel by simp
  note rd = sys_read_reads [OF this r]
  obtain m where m: "reads_of (rx k fd) = Suc m" using reads_of_pos [of "rx k fd"] by (metis gr0_conv_Suc)
  show ?case
  proof (cases "0 < rv")
    case False
    with 1(2) set s have "k' = k1" by (subst (asm) OS_Close_drain.simps) simp
    with False sel m show ?thesis by (cases "selq k") auto
  next
    case rv: True
    show ?thesis
    proof (cases "0 < n")
      case True
      with 1(2) set s r rv have d: "OS_Close_drain fd k2 = Some k'" by (subst (asm) OS_Close_drain.simps) simp
      have "fd \<in> open_fds k2" using rd(3) sel(4) 1(3) by simp
      from 1(1) [OF set refl s [symmetric] rv refl r [symmetric] refl True d this] rd sel True rv m
      show ?thesis by (cases "selq k") (auto split: if_splits)
    next
      case False
      with 1(2) set s r rv have "k' = k2" by (subst (asm) OS_Close_drain.simps) simp
      with rd sel False rv show ?thesis by (cases "selq k") auto
    qed
  qed
qed

text \<open>
  \<open>OS_Close\<close> closes exactly its descriptor, after it has read what the client still sends.
\<close>

definition close_reads :: "int \<Rightarrow> bool \<Rightarrow> os \<Rightarrow> os \<Rightarrow> bool" where
  "close_reads fd b k k' \<longleftrightarrow>
     (if \<not> b \<or> fst (sys_shutdown fd k) \<noteq> 0 then rx k' fd = rx k fd \<and> selq k' = selq k
      else if list_all ((<) 0) (take (reads_of (rx k fd)) (selq k))
      then rx k' fd = rx_rest (rx k fd) \<and> selq k' = drop (reads_of (rx k fd)) (selq k)
      else selq k' = tl (dropWhile ((<) 0) (selq k)))"

lemma OS_Close_ok:
  assumes "fd \<in> open_fds k" "0 \<le> fd" "fd < 1024" "\<not> asyncIoInUse k"
  shows "\<exists>k1. OS_Close fd b k = Some (0, k1\<lparr>open_fds := open_fds k - {fd}, locks := locks k - {fd}\<rparr>)
    \<and> close_frame fd k k1 \<and> close_reads fd b k k1"
proof -
  obtain rc k1 where s: "sys_shutdown fd k = (rc, k1)" by fastforce
  from OS_Close_drain_frame [OF assms(2,3)] obtain k2 where
    d: "OS_Close_drain fd k1 = Some k2" "close_frame fd k1 k2" by blast
  let ?k = "if b then if rc = 0 then k2 else k1 else k"
  have f: "close_frame fd k ?k"
    using sys_shutdown_frame [OF s] d(2) by (auto intro: close_frame_trans)
  have same: "rx k1 = rx k" "selq k1 = selq k" "open_fds k1 = open_fds k"
    using s by (auto simp: sys_shutdown_def split: if_splits list.splits)
  have "close_reads fd b k ?k"
    using OS_Close_drain_reads [OF d(1)] assms(1) s by (simp add: close_reads_def same)
  moreover have "OS_Close fd b k = Some (sys_close fd ?k)"
    using assms s d by (simp add: OS_Close_def OS_Close_aio_def)
  moreover have "sys_close fd ?k = (0, ?k\<lparr>open_fds := open_fds k - {fd}, locks := locks k - {fd}\<rparr>)"
    using close_frame_sel(1,4) [OF f] assms(1) unfolding sys_close_def by simp
  ultimately show ?thesis using f by auto
qed

text \<open>The address list is a comma-separated list of addresses; any of them is accepted.\<close>

fun joined :: "byte list list \<Rightarrow> byte list" where
  "joined [] = []"
| "joined [n] = n"
| "joined (n # ns) = n @ 44 # joined ns"

lemma ClientAddr_loop_last: "44 \<notin> set n \<Longrightarrow> ClientAddr_loop inet a n \<longleftrightarrow> inet n = a"
proof -
  assume "44 \<notin> set n"
  then have e: "takeWhile (\<lambda>b. b \<noteq> 44) n = n" by (auto simp: takeWhile_eq_all_conv)
  show ?thesis unfolding ClientAddr_loop.simps [of inet a n] e Let_def by simp
qed

lemma ClientAddr_loop_cut:
  "44 \<notin> set n \<Longrightarrow> ClientAddr_loop inet a (n @ 44 # l) \<longleftrightarrow> inet n = a \<or> ClientAddr_loop inet a l"
proof -
  assume "44 \<notin> set n"
  then have "takeWhile (\<lambda>b. b \<noteq> 44) (n @ 44 # l) = n" by (subst takeWhile_append2) auto
  then show ?thesis by (subst ClientAddr_loop.simps) (simp add: Let_def)
qed

lemma ClientAddr_loop_joined:
  "ns \<noteq> [] \<Longrightarrow> list_all (\<lambda>n. 44 \<notin> set n) ns \<Longrightarrow>
     ClientAddr_loop inet a (joined ns) \<longleftrightarrow> a \<in> inet ` set ns"
  by (induction ns rule: joined.induct) (auto simp: ClientAddr_loop_last ClientAddr_loop_cut)

end
