(* ===== verification/Accepting.thy ===== *)
theory Accepting
  imports OsUnix
begin

text \<open>
  What \<open>OS_Accept\<close> does, as a function of the answers of \<open>accept\<close> and \<open>select\<close>: \<open>next_conn\<close> says which
  connection it returns or which error, and \<open>OS_Accept_next\<close> that it does, with everything else
  the process has open left alone and the lock released. \<open>Accept_outer_spins\<close> is the case in
  which it never returns.
\<close>

text \<open>
  Which answer of \<open>accept\<close> ends \<open>OS_Accept\<close>, and how: \<open>F\<close> are the descriptors open before, \<open>allowed\<close>
  says which IPv4 peers are. \<open>None\<close> is a call that never returns.
\<close>

datatype outcome = Conn int "rx_event list" "tx_event list" | Refused int

fun next_conn ::
  "bool \<Rightarrow> (32 word \<Rightarrow> bool) \<Rightarrow> int set \<Rightarrow> acc_event list \<Rightarrow> int list
     \<Rightarrow> (outcome \<times> acc_event list \<times> int list) option" where
  "next_conn f allowed F [] sq = None"
| "next_conn f allowed F (AccErr e handler # q) sq =
     (if \<not> handler \<and> (e = EINTR \<and> \<not> f \<or> is_reasonable_accept_errno e) then next_conn f allowed F q sq
      else Some (Refused e, q, sq))"
| "next_conn f allowed F (AccOk fd fam addr rxs txs # q) sq =
     (if fd < 0 \<or> fd \<in> F then Some (Refused 24, q, sq)
      else case fam of
        AF_INET \<Rightarrow> if allowed addr then Some (Conn fd rxs txs, q, sq) else next_conn f allowed F q sq
      | AF_UNIX \<Rightarrow>
          if 1024 \<le> fd then None
          else case sq of
            [] \<Rightarrow> Some (Conn fd rxs txs, q, [])
          | n # sq \<Rightarrow> if 0 < n then Some (Conn fd rxs txs, q, sq) else next_conn f allowed F q sq)"

text \<open>
  What \<open>OS_Accept\<close> leaves alone: everything but the scripts it reads, the lock, \<open>errno\<close>, and the
  streams of descriptors that were not open.
\<close>

definition accept_frame :: "int \<Rightarrow> os \<Rightarrow> os \<Rightarrow> bool" where
  "accept_frame ls k k' \<longleftrightarrow>
     k'\<lparr>accq := accq k, selq := selq k, lockq := lockq k, locks := locks k, errno := errno k,
        shutdownPending := shutdownPending k,
        open_fds := open_fds k, rx := rx k, wx := wx k, tx := tx k\<rparr> = k
     \<and> ls \<notin> locks k'
     \<and> (\<forall>fd \<in> open_fds k. rx k' fd = rx k fd \<and> wx k' fd = wx k fd \<and> tx k' fd = tx k fd)"

text \<open>The result \<open>next_conn\<close> prescribes.\<close>

fun accept_outcome ::
  "int \<Rightarrow> os \<Rightarrow> (outcome \<times> acc_event list \<times> int list) option \<Rightarrow> (int \<times> os) option \<Rightarrow> bool" where
  "accept_outcome ls k None res \<longleftrightarrow> res = None"
| "accept_outcome ls k (Some (Refused e, q, sq)) res \<longleftrightarrow>
     (\<exists>k'. res = Some (-1, k') \<and> accept_frame ls k k' \<and> errno k' = e
       \<and> open_fds k' = open_fds k \<and> accq k' = q \<and> selq k' = sq \<and> lockq k' = [])"
| "accept_outcome ls k (Some (Conn fd rxs txs, q, sq)) res \<longleftrightarrow>
     (\<exists>k'. res = Some (fd, k') \<and> accept_frame ls k k' \<and> \<not> shutdownPending k'
       \<and> 0 \<le> fd \<and> fd \<notin> open_fds k \<and> open_fds k' = insert fd (open_fds k)
       \<and> rx k' fd = rxs \<and> wx k' fd = txs \<and> tx k' fd = []
       \<and> accq k' = q \<and> selq k' = sq \<and> lockq k' = [])"

text \<open>Between two turns the process holds the lock and the same descriptors are open.\<close>

definition locked_frame :: "os \<Rightarrow> os \<Rightarrow> bool" where
  "locked_frame k k' \<longleftrightarrow>
     k'\<lparr>accq := accq k, selq := selq k, lockq := lockq k, locks := locks k, errno := errno k,
        rx := rx k, wx := wx k, tx := tx k\<rparr> = k
     \<and> \<not> shutdownPending k \<and> lockq k' = []
     \<and> (\<forall>fd \<in> open_fds k. rx k' fd = rx k fd \<and> wx k' fd = wx k fd \<and> tx k' fd = tx k fd)"

lemma locked_frame_sel:
  assumes "locked_frame k k'"
  shows "open_fds k' = open_fds k" "\<not> shutdownPending k'" "lockq k' = []" "inet_addr k' = inet_addr k"
  using assms unfolding locked_frame_def by (cases k, cases k', simp)+

text \<open>\<open>OS_Accept\<close> from the point where the lock has been taken.\<close>

definition Accept_locked ::
  "int \<Rightarrow> bool \<Rightarrow> byte list option \<Rightarrow> int \<Rightarrow> peer \<Rightarrow> os \<Rightarrow> (int \<times> os) option" where
  "Accept_locked ls f addrs socket sa k =
     do { (found, k) \<leftarrow> Accept_inner ls f addrs socket sa k;
          case found of
            None \<Rightarrow> Some (-1, k)
          | Some (socket, sa) \<Rightarrow>
              (let (rc, k) = ReleaseLock ls k in
               if rc \<noteq> 0 then Some (-1, k)
               else
                 do { (sin_family, _) \<leftarrow> sa;
                      if sin_family \<noteq> AF_UNIX then Some (socket, k)
                      else
                        do { (keep, k) \<leftarrow> is_af_unix_keeper socket k;
                             if keep then Some (socket, k)
                             else Accept_outer ls f addrs socket sa (snd (sys_close socket k)) } }) }"

lemma Accept_outer_locked:
  "lockq k = [] \<Longrightarrow> Accept_outer ls f addrs socket sa k =
     Accept_locked ls f addrs socket sa (k\<lparr>locks := insert ls (locks k)\<rparr>)"
  by (subst Accept_outer.simps)
    (simp add: Accept_locked_def AcquireLock.simps [of ls f k] sys_lock_def)

lemma ReleaseLock_free: "lockq k = [] \<Longrightarrow> ReleaseLock ls k = (0, k\<lparr>locks := locks k - {ls}\<rparr>)"
  by (simp add: ReleaseLock.simps [of ls k] sys_lock_def)

lemma Accept_locked_None:
  assumes "accq k = []" "\<not> shutdownPending k"
  shows "Accept_locked ls f addrs socket sa k = None"
  using assms
  by (simp add: Accept_locked_def Accept_inner.simps [of ls f addrs socket sa k]
      Accept_retry.simps [of ls f socket sa k] sys_accept_def)

text \<open>A transient error is skipped.\<close>

lemma Accept_locked_skip:
  assumes "\<not> shutdownPending k" "accq k = AccErr e False # q"
    "e = EINTR \<and> \<not> f \<or> is_reasonable_accept_errno e"
  shows "\<exists>e'. Accept_locked ls f addrs socket sa k
    = Accept_locked ls f addrs (-1) sa (k\<lparr>accq := q, errno := e'\<rparr>)"
proof -
  let ?k = "k\<lparr>accq := q, errno := e\<rparr>"
  have a: "sys_accept ls k = Some (-1, None, ?k)" using assms by (simp add: sys_accept_def)
  show ?thesis
  proof (cases "e = EINTR \<and> \<not> f")
    case True
    with a assms have "Accept_retry ls f socket sa k = Accept_retry ls f (-1) sa ?k"
      by (simp add: Accept_retry.simps [of ls False socket sa k])
    then have "Accept_inner ls f addrs socket sa k = Accept_inner ls f addrs (-1) sa ?k"
      by (simp add: Accept_inner.simps)
    then show ?thesis unfolding Accept_locked_def by (intro exI [of _ e]) simp
  next
    case False
    with a assms have "Accept_retry ls f socket sa k = Some (-1, sa, ?k)"
      by (auto simp: Accept_retry.simps [of ls f socket sa k])
    with assms(1,3) False have "Accept_inner ls f addrs socket sa k
        = Accept_inner ls f addrs (-1) sa (?k\<lparr>errno := 0\<rparr>)"
      by (subst Accept_inner.simps) simp
    then show ?thesis unfolding Accept_locked_def by (intro exI [of _ 0]) simp
  qed
qed

text \<open>Any other error ends the call.\<close>

lemma Accept_locked_fail:
  assumes "sys_accept ls k = Some (-1, None, k1)" "\<not> shutdownPending k" "lockq k1 = []"
    "shutdownPending k1 \<or> \<not> (errno k1 = EINTR \<and> \<not> f \<or> is_reasonable_accept_errno (errno k1))"
  shows "Accept_locked ls f addrs socket sa k = Some (-1, k1\<lparr>locks := locks k1 - {ls}\<rparr>)"
proof -
  have "Accept_retry ls f socket sa k = Some (-1, sa, k1)"
    using assms by (subst Accept_retry.simps) auto
  moreover have "ReleaseLock ls k1 = (0, k1\<lparr>locks := locks k1 - {ls}\<rparr>)"
    using assms(3) by (rule ReleaseLock_free)
  ultimately show ?thesis
    using assms(4) unfolding Accept_locked_def
    by (subst Accept_inner.simps) auto
qed

text \<open>A connection: kept when its peer is acceptable, else closed and forgotten.\<close>

lemma Accept_retry_conn:
  assumes "sys_accept ls k = Some (fd, Some p, k1)" "\<not> shutdownPending k" "0 \<le> fd"
  shows "Accept_retry ls f socket sa k = Some (fd, Some p, k1)"
  using assms by (subst Accept_retry.simps) auto

lemma Accept_locked_inet:
  assumes "sys_accept ls k = Some (fd, Some (AF_INET, a), k1)" "\<not> shutdownPending k" "0 \<le> fd" "lockq k1 = []"
  shows "Accept_locked ls f addrs socket sa k =
     (if ClientAddrOK (inet_addr k1) a addrs then Some (fd, k1\<lparr>locks := locks k1 - {ls}\<rparr>)
      else Accept_locked ls f addrs fd (Some (AF_INET, a)) (snd (sys_close fd k1)))"
  unfolding Accept_locked_def
  by (subst Accept_inner.simps) (use assms in \<open>simp add: Accept_retry_conn ReleaseLock_free\<close>)

lemma Accept_locked_unix:
  assumes "sys_accept ls k = Some (fd, Some (AF_UNIX, a), k1)" "\<not> shutdownPending k" "0 \<le> fd" "lockq k1 = []"
  shows "Accept_locked ls f addrs socket sa k =
     do { (keep, k) \<leftarrow> is_af_unix_keeper fd (k1\<lparr>locks := locks k1 - {ls}\<rparr>);
          if keep then Some (fd, k)
          else Accept_outer ls f addrs fd (Some (AF_UNIX, a)) (snd (sys_close fd k)) }"
  unfolding Accept_locked_def
  by (subst Accept_inner.simps) (use assms in \<open>simp add: Accept_retry_conn ReleaseLock_free\<close>)

lemma locked_frame_step:
  assumes "locked_frame k0 k"
    "k1\<lparr>accq := accq k, selq := selq k, locks := locks k, errno := errno k,
        rx := rx k, wx := wx k, tx := tx k\<rparr> = k"
    "\<And>fd. fd \<in> open_fds k0 \<Longrightarrow> rx k1 fd = rx k fd \<and> wx k1 fd = wx k fd \<and> tx k1 fd = tx k fd"
  shows "locked_frame k0 k1"
  using assms unfolding locked_frame_def by (cases k, cases k1, cases k0) simp

lemma locked_frame_accept:
  assumes "locked_frame k0 k"
    "k1\<lparr>accq := accq k, selq := selq k, locks := locks k, errno := errno k,
        shutdownPending := shutdownPending k, open_fds := open_fds k, rx := rx k, wx := wx k, tx := tx k\<rparr> = k"
    "\<And>fd. fd \<in> open_fds k0 \<Longrightarrow> rx k1 fd = rx k fd \<and> wx k1 fd = wx k fd \<and> tx k1 fd = tx k fd"
    "ls \<notin> locks k1"
  shows "accept_frame ls k0 k1"
  using assms unfolding locked_frame_def accept_frame_def by (cases k, cases k1, cases k0) simp

lemma sys_select_answer:
  assumes "fd \<in> open_fds k"
  shows "\<exists>n e. sys_select fd k = (n, k\<lparr>selq := tl (selq k), errno := e\<rparr>)
    \<and> (0 < n \<longleftrightarrow> (case selq k of [] \<Rightarrow> True | m # _ \<Rightarrow> 0 < m))"
proof (cases "selq k")
  case Nil
  with assms have "sys_select fd k = (1, k\<lparr>selq := tl (selq k), errno := errno k\<rparr>)"
    by (simp add: sys_select_def)
  with Nil show ?thesis by (intro exI [of _ 1] exI [of _ "errno k"]) simp
next
  case (Cons m ms)
  with assms have "sys_select fd k = (if m < 0 then -1 else min m 1,
      k\<lparr>selq := tl (selq k), errno := (if m < 0 then - m else errno k)\<rparr>)"
    by (simp add: sys_select_def)
  with Cons show ?thesis
    by (intro exI [of _ "if m < 0 then -1 else min m 1"] exI [of _ "if m < 0 then - m else errno k"]) simp
qed

lemma Accept_locked_next:
  assumes "locked_frame k0 k"
  shows "accept_outcome ls k0
     (next_conn f (\<lambda>a. ClientAddrOK (inet_addr k0) a addrs) (open_fds k0) (accq k) (selq k))
     (Accept_locked ls f addrs socket sa k)"
  using assms
proof (induction "accq k" arbitrary: k socket sa)
  case Nil
  then show ?case using Accept_locked_None [of k] locked_frame_sel [OF Nil.prems]
    by (simp flip: Nil.hyps)
next
  case (Cons ev q)
  note acc = Cons.hyps(2) [symmetric] and ih = Cons.hyps(1) and fr = Cons.prems
  note sel = locked_frame_sel [OF fr]
  show ?case
  proof (cases ev)
    case (AccErr e handler)
    show ?thesis
    proof (cases "\<not> handler \<and> (e = EINTR \<and> \<not> f \<or> is_reasonable_accept_errno e)")
      case True
      with AccErr acc have "accq k = AccErr e False # q" by simp
      from Accept_locked_skip [OF sel(2) this, of f ls addrs socket sa] True obtain e' where
        "Accept_locked ls f addrs socket sa k
          = Accept_locked ls f addrs (-1) sa (k\<lparr>accq := q, errno := e'\<rparr>)" by blast
      moreover have "locked_frame k0 (k\<lparr>accq := q, errno := e'\<rparr>)"
        by (rule locked_frame_step [OF fr]) simp_all
      ultimately show ?thesis
        using ih [of "k\<lparr>accq := q, errno := e'\<rparr>" "-1" sa] True AccErr acc by simp
    next
      case False
      let ?k = "k\<lparr>accq := q, errno := e, shutdownPending := (shutdownPending k \<or> handler)\<rparr>"
      have a: "sys_accept ls k = Some (-1, None, ?k)"
        by (simp add: sys_accept_def acc AccErr)
      have "accept_frame ls k0 (?k\<lparr>locks := locks ?k - {ls}\<rparr>)"
        by (rule locked_frame_accept [OF fr]) simp_all
      then show ?thesis
        using Accept_locked_fail [OF a sel(2)] False AccErr acc sel by auto
    qed
  next
    case (AccOk fd fam addr rxs txs)
    let ?k = "k\<lparr>accq := q, open_fds := insert fd (open_fds k), rx := (rx k)(fd := rxs),
              wx := (wx k)(fd := txs), tx := (tx k)(fd := [])\<rparr>"
    show ?thesis
    proof (cases "fd < 0 \<or> fd \<in> open_fds k")
      case True
      have a: "sys_accept ls k = Some (-1, None, k\<lparr>accq := q, errno := 24\<rparr>)"
        using True by (simp add: sys_accept_def acc AccOk)
      have "accept_frame ls k0 ((k\<lparr>accq := q, errno := 24\<rparr>)\<lparr>locks := locks k - {ls}\<rparr>)"
        by (rule locked_frame_accept [OF fr]) simp_all
      then show ?thesis
        using Accept_locked_fail [OF a sel(2)] True AccOk acc sel
        by (auto simp: is_reasonable_accept_errno_def)
    next
      case fresh: False
      then have a: "sys_accept ls k = Some (fd, Some (fam, addr), ?k)"
        by (simp add: sys_accept_def acc AccOk)
      have closed: "snd (sys_close fd (?k\<lparr>locks := lk, selq := sq, errno := er\<rparr>))
          = ?k\<lparr>open_fds := open_fds k, selq := sq, errno := er, locks := lk - {fd}\<rparr>" for sq lk er
        using fresh by (simp add: sys_close_def)
      have af: "accept_frame ls k0 (?k\<lparr>locks := locks k - {ls}, selq := sq, errno := er\<rparr>)" for sq er
        by (rule locked_frame_accept [OF fr]) (use fresh sel(1) in auto)
      have kept: "accept_outcome ls k0 (Some (Conn fd rxs txs, q, sq))
          (Some (fd, ?k\<lparr>locks := locks k - {ls}, selq := sq, errno := er\<rparr>))" for sq er
        using fresh sel af [where sq = sq and er = er] by simp
      show ?thesis
      proof (cases fam)
        case AF_INET
        have again: "locked_frame k0 (?k\<lparr>open_fds := open_fds k, locks := locks k - {fd}\<rparr>)"
          by (rule locked_frame_step [OF fr]) (use fresh sel(1) in auto)
        show ?thesis
          using Accept_locked_inet [OF a [unfolded AF_INET] sel(2), of f addrs socket sa] sel fresh
            ih [OF _ again, of fd "Some (AF_INET, addr)"]
            closed [where sq = "selq k" and lk = "locks k" and er = "errno k"] kept [where sq = "selq k" and er = "errno k"]
          by (simp add: acc AccOk AF_INET)
      next
        case AF_UNIX
        let ?u = "?k\<lparr>locks := locks k - {ls}\<rparr>"
        let ?again = "\<lambda>sq er. ?k\<lparr>open_fds := open_fds k, selq := sq, errno := er, locks := insert ls (locks k - {ls} - {fd})\<rparr>"
        have b: "locked_frame k0 (?again sq er)" for sq er
          by (rule locked_frame_step [OF fr]) (use fresh sel(1) in auto)
        have rest: "Accept_outer ls f addrs fd (Some (AF_UNIX, addr)) (snd (sys_close fd (?u\<lparr>selq := sq, errno := er\<rparr>)))
            = Accept_locked ls f addrs fd (Some (AF_UNIX, addr)) (?again sq er)" for sq er
          using closed [where sq = sq and lk = "locks k - {ls}" and er = er] sel by (simp add: Accept_outer_locked)
        from sys_select_answer [of fd ?u] obtain n er where
          s: "sys_select fd ?u = (n, ?u\<lparr>selq := tl (selq k), errno := er\<rparr>)"
          "0 < n \<longleftrightarrow> (case selq k of [] \<Rightarrow> True | m # _ \<Rightarrow> 0 < m)" by auto
        with Accept_locked_unix [OF a [unfolded AF_UNIX] sel(2), of f addrs socket sa] sel(3) fresh
          ih [OF _ b [where sq = "tl (selq k)" and er = er], of fd "Some (AF_UNIX, addr)"] kept [where sq = "tl (selq k)" and er = er]
          rest [where sq = "tl (selq k)" and er = er] sel(1)
        show ?thesis
          by (cases "selq k")
            (simp_all add: acc AccOk AF_UNIX is_af_unix_keeper_def FD_SET_def)
      qed
    qed
  qed
qed
text \<open>\<open>OS_Accept\<close> returns what \<open>next_conn\<close> picks, and never returns when it picks nothing.\<close>

lemma OS_Accept_next:
  assumes "\<not> shutdownPending k" "lockq k = []"
  shows "accept_outcome ls k
     (next_conn f (\<lambda>a. ClientAddrOK (inet_addr k) a addrs) (open_fds k) (accq k) (selq k))
     (OS_Accept ls f addrs k)"
proof -
  have "locked_frame k (k\<lparr>locks := insert ls (locks k)\<rparr>)"
    using assms by (simp add: locked_frame_def)
  from Accept_locked_next [OF this, of ls f addrs "-1" None] show ?thesis
    using assms by (simp add: OS_Accept_def Accept_outer_locked)
qed

text \<open>
  A pending shutdown found while \<open>socket\<close> still holds a descriptor that has been closed: the
  call spins for ever.
\<close>

lemma Accept_outer_spins:
  assumes "Accept_outer ls f addrs fd (Some (AF_UNIX, a)) k = Some y"
  shows "shutdownPending k \<Longrightarrow> 0 \<le> fd \<Longrightarrow> fd \<notin> open_fds k \<Longrightarrow> lockq k = [] \<Longrightarrow> False"
proof -
  let ?P = "\<lambda>ls f addrs fd sa k y. shutdownPending k \<longrightarrow> 0 \<le> fd \<longrightarrow> fd \<notin> open_fds k \<longrightarrow> lockq k = []
    \<longrightarrow> (\<forall>a. sa \<noteq> Some (AF_UNIX, a))"
  have "?P ls f addrs fd (Some (AF_UNIX, a)) k y"
  proof (rule Accept_outer.raw_induct [where P = ?P, OF _ assms], goal_cases)
    case (1 rec ls f addrs fd sa k y)
    note ih = 1(1) and body = 1(2)
    show ?case
    proof (intro impI allI notI)
      fix a
      assume h: "shutdownPending k" "0 \<le> fd" "fd \<notin> open_fds k" "lockq k = []" "sa = Some (AF_UNIX, a)"
      let ?k = "k\<lparr>locks := insert ls (locks k)\<rparr>" and ?k' = "k\<lparr>locks := locks k - {ls}\<rparr>"
      have "AcquireLock ls f k = (0, ?k)"
        using h(4) by (simp add: AcquireLock.simps [of ls f k] sys_lock_def)
      moreover have "Accept_inner ls f addrs fd sa ?k = Some (Some (fd, sa), ?k)"
        using h by (subst Accept_inner.simps) (simp add: Accept_retry.simps [of ls f fd "Some (AF_UNIX, a)" ?k])
      moreover have "ReleaseLock ls ?k = (0, ?k')"
        using h(4) ReleaseLock_free [of ?k ls] by simp
      ultimately have "rec ls f addrs fd sa (snd (sys_close fd (?k'\<lparr>errno := EBADF\<rparr>))) = Some y"
        using body h by (auto simp: is_af_unix_keeper_def FD_SET_def sys_select_def bind_Some_iff split: if_splits)
      from ih [OF this] h show False by (simp add: sys_close_def)
    qed
  qed
  then show "shutdownPending k \<Longrightarrow> 0 \<le> fd \<Longrightarrow> fd \<notin> open_fds k \<Longrightarrow> lockq k = [] \<Longrightarrow> False" by blast
qed
end
