(* ===== verification/Fill.thy ===== *)
theory Fill
  imports Demux
begin

text \<open>
  \<open>FillBuffProc\<close> refines \<open>demux\<close>: the interpretation of each kind of header, the loop, and the
  contract of a \<open>byte_source\<close> for the reader of a request.
\<close>

section \<open>States of the reader\<close>

text \<open>An open reader between two turns: \<open>w\<close> has been sent, \<open>re\<close> is how the connection will end.\<close>

definition rd_open ::
  "os \<Rightarrow> byte list \<Rightarrow> int option \<Rightarrow> stream \<Rightarrow> FCGX_Request \<Rightarrow> os \<Rightarrow> bool" where
  "rd_open k0 w re s r k \<longleftrightarrow> rd_shape s \<and> \<not> isClosed s \<and> FCGI_errno s = 0 \<and> \<not> eorStop s
     \<and> chan k0 (ipcFd r) w k \<and> rx_error (rx k (ipcFd r)) = re"

text \<open>The request after its \<open>FCGI_BEGIN_REQUEST\<close>.\<close>

definition begun_request :: "int \<Rightarrow> FCGI_BeginRequestBody \<Rightarrow> FCGX_Request \<Rightarrow> FCGX_Request" where
  "begun_request rid body r = r\<lparr>requestId := rid, keepConnection := uint (bflags body) AND FCGI_KEEP_CONN,
     role := be16 (roleB1 body) (roleB0 body), isBeginProcessed := True\<rparr>"

text \<open>The reader at the end of its stream.\<close>

fun ended :: "int option \<Rightarrow> FCGX_Request \<Rightarrow> dend \<Rightarrow> stream \<Rightarrow> FCGX_Request \<Rightarrow> os \<Rightarrow> bool" where
  "ended re r0 (DEof rest) s r k \<longleftrightarrow> isClosed s \<and> FCGI_errno s = 0 \<and> contentLen s = 0
     \<and> rdNext s = stop s \<and> left s r k = rest \<and> r = r0 \<and> rx_error (rx k (ipcFd r)) = re"
| "ended re r0 (DFail e) s r k \<longleftrightarrow> isClosed s \<and> FCGI_errno s = e \<and> (\<exists>i. r = r0\<lparr>requestId := i\<rparr>)"
| "ended re r0 DFault s r k \<longleftrightarrow> False"
| "ended re r0 (DBegin rid body rest) s r k \<longleftrightarrow> \<not> isClosed s \<and> FCGI_errno s = 0
     \<and> contentLen s = 0 \<and> rdNext s = stop s \<and> left s r k = rest \<and> r = begun_request rid body r0
     \<and> rx_error (rx k (ipcFd r)) = re"

definition dpar :: "os \<Rightarrow> int option \<Rightarrow> stream \<Rightarrow> FCGX_Request \<Rightarrow> dparams" where
  "dpar k0 re s r = \<lparr>d_junk = junk k0, d_type = strtype s, d_id = requestId r,
     d_begun = isBeginProcessed r, d_err = rerr re\<rparr>"

lemma dpar_sel [simp]:
  "d_junk (dpar k0 re s r) = junk k0" "d_type (dpar k0 re s r) = strtype s"
  "d_id (dpar k0 re s r) = requestId r" "d_begun (dpar k0 re s r) = isBeginProcessed r"
  "d_err (dpar k0 re s r) = rerr re"
  by (simp_all add: dpar_def)

lemma dpar_moved [simp]: "dpar k0 re (moved c1 c2 b n m s) r = dpar k0 re s r"
  by (simp add: dpar_def)

section \<open>Management records\<close>

text \<open>The stream as \<open>ProcessHeader\<close> hands it on: a record of \<open>n\<close> bytes and \<open>p\<close> of padding begins.\<close>

definition at_record ::
  "os \<Rightarrow> byte list \<Rightarrow> int option \<Rightarrow> nat \<Rightarrow> nat \<Rightarrow> stream \<Rightarrow> FCGX_Request \<Rightarrow> os \<Rightarrow> bool" where
  "at_record k0 w re n p s r k \<longleftrightarrow> rd_shape s \<and> \<not> isClosed s \<and> FCGI_errno s = 0 \<and> eorStop s
     \<and> chan k0 (ipcFd r) w k \<and> rx_error (rx k (ipcFd r)) = re
     \<and> rdNext s = stop s \<and> contentLen s = int n \<and> paddingLen s = int p"

lemma at_record_src:
  assumes "at_record k0 w re n p s r k"
  shows "eor_src k0 r (strtype s) w re (eor_ok (skip s) (int n) (int p) (left s r k))
      (drop (n + p) (left s r k)) (skip s \<and> n = 0) (drop n (left s r k)) (\<not> skip s \<and> n \<le> length (left s r k))
      (if skip s then [] else take n (left s r k)) s r k"
proof -
  have "rdNext s = stop s" using assms by (simp add: at_record_def)
  then have lb: "left s r k = beyond s r k" by (rule left_beyond)
  have "stop s \<le> buffStop s" using assms rd_shape_bounds(2) [of s] by (simp add: at_record_def)
  then show ?thesis
    using assms unfolding lb by (auto simp: eor_src_def at_record_def pend_def nat_add_distrib)
qed

lemma eor_src_end:
  assumes "eor_src k0 r0 ty w re ok rest sk Z full xs s r k" "isClosed s"
  shows "r = r0 \<and> rd_shape s \<and> eorStop s \<and> strtype s = ty \<and> chan k0 (ipcFd r0) w k
    \<and> (ok \<longrightarrow> FCGI_errno s = 0 \<and> contentLen s = 0 \<and> paddingLen s = 0 \<and> rdNext s = stop s
        \<and> left s r0 k = rest \<and> rx_error (rx k (ipcFd r0)) = re \<and> skip s = sk)
    \<and> (\<not> ok \<longrightarrow> FCGI_errno s = rerr re)"
  using assms by (auto simp: eor_src_def)

lemma params_ok_entries:
  assumes "params_ok es p"
  shows "memread 0 (cur p) (vec p) = Some (map Str es)"
  using assms by (auto simp: params_ok_def memread_def)

text \<open>\<open>FCGI_GET_VALUES\<close>: the variables are read from the content, the answer is sent.\<close>

lemma GetValues_record:
  assumes "at_record k0 w re n p s r k" "re \<noteq> Some 0" "n \<le> 65535"
  shows "case on_get_values (dpar k0 re s r) (skip s) n p (left s r k) of
      HStop E \<Rightarrow> E \<noteq> DFault \<longrightarrow> (\<exists>e s' k'. E = DFail e
        \<and> ProcessManagementRecord FillBuff_inner FCGI_GET_VALUES s r k = Some (FCGX_PROTOCOL_ERROR, s', r, k')
        \<and> rd_shape s' \<and> strtype s' = strtype s \<and> FCGI_errno s' = e \<and> e \<noteq> 0 \<and> chan k0 (ipcFd r) w k')
    | HGo w' n' p' sk ys \<Rightarrow> \<exists>s' k'. n' = 0 \<and> p' = 0
        \<and> ProcessManagementRecord FillBuff_inner FCGI_GET_VALUES s r k = Some (MGMT_RECORD, s', r, k')
        \<and> rd_shape s' \<and> strtype s' = strtype s \<and> FCGI_errno s' = 0 \<and> contentLen s' = 0
        \<and> paddingLen s' = 0 \<and> rdNext s' = stop s' \<and> skip s' = sk \<and> left s' r k' = ys
        \<and> chan k0 (ipcFd r) (w @ w') k' \<and> rx_error (rx k' (ipcFd r)) = re"
proof -
  let ?l = "left s r k"
  let ?xs = "if skip s then [] else take n ?l"
  let ?ok = "eor_ok (skip s) (int n) (int p) ?l"
  note src = at_record_src [OF assms(1)]
  obtain ps e where d: "decode_pairs ?xs = (ps, e)" by fastforce
  obtain p0 where p0: "NewParams 3 = Some p0" "params_ok [] p0" using NewParams_ok [of 3] by auto
  have len: "length ([] :: byte list list) + length ?xs < 2 ^ 29" using assms(3) by auto
  note rp = inner.ReadParams_src [OF src p0(2) len d]
  show ?thesis
  proof (cases e)
    case PTooLong
    then show ?thesis using d by (simp add: on_get_values_def Let_def)
  next
    case PCut
    with rp obtain p' s1 k1 r1 where
      run: "ReadParams FillBuff_inner p0 s r k = Some (-1, p', SetError FCGX_PARAMS_ERROR s1, r1, k1)"
      and po: "params_ok (map entry ps) p'"
      and s1: "eor_src k0 r (strtype s) w re ?ok (drop (n + p) ?l) (skip s \<and> n = 0) (drop n ?l)
        (\<not> skip s \<and> n \<le> length ?l) [] s1 r1 k1" "isClosed s1" by auto
    note en = eor_src_end [OF s1]
    let ?e = "if ?ok then FCGX_PARAMS_ERROR else rerr re"
    have er: "FCGI_errno (SetError FCGX_PARAMS_ERROR s1) = ?e" "?e \<noteq> 0"
      using en rerr_nonzero [OF assms(2)] by auto
    have "ProcessManagementRecord FillBuff_inner FCGI_GET_VALUES s r k
        = Some (FCGX_PROTOCOL_ERROR, SetError FCGX_PARAMS_ERROR s1, r, k1)"
      using run p0(1) er FreeParams_ok [OF po] en
      by (simp add: ProcessManagementRecord_def FCGX_GetError_def del: SetError_sel)
    then show ?thesis
      using d PCut er en rerr_nonzero [OF assms(2)] by (simp add: on_get_values_def Let_def del: SetError_sel(2))
  next
    case PEnd
    with rp obtain p' s1 k1 r1 where
      run: "ReadParams FillBuff_inner p0 s r k = Some (0, p', s1, r1, k1)"
      and po: "params_ok (map entry ps) p'"
      and s1: "eor_src k0 r (strtype s) w re ?ok (drop (n + p) ?l) (skip s \<and> n = 0) (drop n ?l)
        (\<not> skip s \<and> n \<le> length ?l) [] s1 r1 k1" "isClosed s1" by auto
    note en = eor_src_end [OF s1]
    show ?thesis
    proof (cases ?ok)
      case False
      then have "FCGI_errno s1 = rerr re" using en by blast
      then have "ProcessManagementRecord FillBuff_inner FCGI_GET_VALUES s r k
          = Some (FCGX_PROTOCOL_ERROR, s1, r, k1)"
        using run p0(1) FreeParams_ok [OF po] en rerr_nonzero [OF assms(2)]
        by (simp add: ProcessManagementRecord_def FCGX_GetError_def)
      then show ?thesis
        using d PEnd False en rerr_nonzero [OF assms(2)] by (simp add: on_get_values_def Let_def)
    next
      case True
      show ?thesis
      proof (cases "GetValues_response (junk k0) (map (Str \<circ> entry) ps)")
        case None
        then show ?thesis using d PEnd True by (simp add: on_get_values_def Let_def)
      next
        case (Some resp)
        from en have ch: "chan k0 (ipcFd r) w k1" by blast
        from chan_write [OF ch, of resp] obtain k2 where
          wr: "write_it_all (ipcFd r) resp k1 = (0, k2)" "chan k0 (ipcFd r) (w @ resp) k2" "rx k2 = rx k1"
          by blast
        have jk: "junk k1 = junk k0" using ch by (rule chan_junk)
        have es: "map Str (map entry ps) = map (Str \<circ> entry) ps" by simp
        have "ProcessManagementRecord FillBuff_inner FCGI_GET_VALUES s r k = Some (MGMT_RECORD, s1, r, k2)"
          using run p0(1) FreeParams_ok [OF po] en True Some wr(1) params_ok_entries [OF po] jk
          by (simp add: ProcessManagementRecord_def FCGX_GetError_def)
        moreover have "left s1 r k2 = left s1 r k1" using wr(3) by (simp add: left_def)
        ultimately show ?thesis
          using d PEnd True Some en wr by (simp add: on_get_values_def Let_def)
      qed
    qed
  qed
qed

text \<open>Any other management record is answered; its content stays where it is.\<close>

lemma UnknownType_record:
  assumes "at_record k0 w re n p s r k" "ty \<noteq> FCGI_GET_VALUES"
  shows "\<exists>resp k'. UnknownType_response ty = Some resp
    \<and> ProcessManagementRecord FillBuff_inner ty s r k = Some (MGMT_RECORD, s, r, k')
    \<and> left s r k' = left s r k \<and> chan k0 (ipcFd r) (w @ resp) k' \<and> rx k' = rx k"
proof -
  obtain p0 where p0: "NewParams 3 = Some p0" using NewParams_ok [of 3] by auto
  obtain resp where re: "UnknownType_response ty = Some resp"
    using MakeHeader_8 [of FCGI_UNKNOWN_TYPE 0] by (auto simp: UnknownType_response_def)
  have "chan k0 (ipcFd r) w k" using assms(1) by (simp add: at_record_def)
  from chan_write [OF this, of resp] obtain k2 where
    wr: "write_it_all (ipcFd r) resp k = (0, k2)" "chan k0 (ipcFd r) (w @ resp) k2" "rx k2 = rx k"
    by blast
  have "ProcessManagementRecord FillBuff_inner ty s r k = Some (MGMT_RECORD, s, r, k2)"
    using p0 re wr(1) assms(2) by (simp add: ProcessManagementRecord_def)
  with re wr show ?thesis by (auto simp: left_def)
qed

section \<open>Begin records\<close>

text \<open>
  What each result of \<open>on_begin\<close> says of the code. The content of a record that is refused stays
  where it is; the caller sets \<open>skip\<close>.
\<close>

lemma ProcessBeginRecord_record:
  assumes "at_record k0 w re n p s r k" "re \<noteq> Some 0"
  shows "case on_begin (dpar k0 re s r) (skip s) rid n p (left s r k) of
      HStop (DBegin rid' body rest) \<Rightarrow> \<exists>s' k'. rid' = rid
        \<and> ProcessBeginRecord FillBuff_inner rid s r k
            = Some (BEGIN_RECORD, s', begun_request rid body r, k')
        \<and> rd_shape s' \<and> strtype s' = strtype s \<and> \<not> isClosed s' \<and> FCGI_errno s' = 0
        \<and> contentLen s' = 0 \<and> rdNext s' = stop s' \<and> left s' r k' = rest
        \<and> chan k0 (ipcFd r) w k' \<and> rx_error (rx k' (ipcFd r)) = re
    | HStop (DFail e) \<Rightarrow> \<exists>s' r' k'. ProcessBeginRecord FillBuff_inner rid s r k
            = Some (FCGX_PROTOCOL_ERROR, s', r', k')
        \<and> rd_shape s' \<and> strtype s' = strtype s \<and> (\<exists>i. r' = r\<lparr>requestId := i\<rparr>)
        \<and> FCGI_errno (SetError FCGX_PROTOCOL_ERROR s') = e \<and> chan k0 (ipcFd r) w k'
    | HStop E \<Rightarrow> E = DFault \<and> False
    | HGo w' n' p' sk ys \<Rightarrow> \<exists>k'. n' = n \<and> p' = p \<and> sk \<and> ys = left s r k
        \<and> ProcessBeginRecord FillBuff_inner rid s r k = Some (SKIP, s, r, k')
        \<and> chan k0 (ipcFd r) (w @ w') k' \<and> rx k' = rx k"
proof -
  let ?l = "left s r k"
  have cl: "contentLen s = int n" and ch: "chan k0 (ipcFd r) w k" and e0: "FCGI_errno s = 0"
    and sh: "rd_shape s" and op: "\<not> isClosed s" using assms(1) by (auto simp: at_record_def)
  show ?thesis
  proof (cases "rid = 0 \<or> n \<noteq> 8")
    case True
    then have "ProcessBeginRecord FillBuff_inner rid s r k = Some (FCGX_PROTOCOL_ERROR, s, r, k)"
      using cl by (auto simp: ProcessBeginRecord_def)
    moreover have "\<exists>i. r = r\<lparr>requestId := i\<rparr>" by (rule exI [of _ "requestId r"]) simp
    ultimately show ?thesis using True sh e0 ch by (simp add: on_begin_def)
  next
    case ok: False
    show ?thesis
    proof (cases "isBeginProcessed r")
      case True
      obtain h where h: "MakeHeader FCGI_END_REQUEST rid 8 0 = Some h"
        "header_bytes h = enc_header FCGI_END_REQUEST rid 8 0" using MakeHeader_8 by blast
      let ?resp = "enc_record FCGI_END_REQUEST rid (end_body_bytes (MakeEndRequestBody 0 FCGI_CANT_MPX_CONN))"
      from chan_write [OF ch, of ?resp] obtain k2 where
        "write_it_all (ipcFd r) ?resp k = (0, k2)" "chan k0 (ipcFd r) (w @ ?resp) k2" "rx k2 = rx k"
        by blast
      with True ok cl h show ?thesis
        by (simp add: on_begin_def ProcessBeginRecord_def end_record_enc)
    next
      case False
      let ?r = "r\<lparr>requestId := rid\<rparr>"
      have at: "at_record k0 w re n p s ?r k" using assms(1) by (simp add: at_record_def)
      have lr: "left s ?r k = ?l" by (simp add: left_def)
      note src = at_record_src [OF at, unfolded lr]
      let ?xs = "if skip s then [] else take n ?l"
      from inner.GetStr_src [OF src, of 8] obtain s1 r1 k1 where
        g: "FCGX_GetStr FillBuff_inner 8 s ?r k = Some (int (min 8 (length ?xs)), take 8 ?xs, s1, r1, k1)"
        and s1: "eor_src k0 ?r (strtype s) w re (eor_ok (skip s) (int n) (int p) ?l)
            (drop (n + p) ?l) (skip s \<and> n = 0) (drop n ?l) (\<not> skip s \<and> n \<le> length ?l) (drop 8 ?xs) s1 r1 k1"
        and c1: "isClosed s1 = (isClosed s \<or> length ?xs < 8)" by auto
      show ?thesis
      proof (cases "\<not> skip s \<and> 8 \<le> length ?l")
        case True
        obtain body where b: "begin_body_of (take 8 ?l) = Some body"
          using begin_body_of_Some [of "take 8 ?l"] True by auto
        have xs: "?xs = take 8 ?l" "length ?xs = 8" "n = 8" using True ok by auto
        have o1: "\<not> isClosed s1" using c1 op xs(2) by simp
        have s1': "r1 = ?r" "rd_shape s1" "strtype s1 = strtype s" "FCGI_errno s1 = 0"
          "rx_error (rx k1 (ipcFd r)) = re" "chan k0 (ipcFd r) w k1"
          "rdNext s1 \<le> stop s1" "stop s1 \<le> buffStop s1" "\<not> skip s1"
          "[] = pend s1 @ take (nat (contentLen s1)) (beyond s1 ?r k1)"
          "drop n ?l = drop (nat (contentLen s1)) (beyond s1 ?r k1)"
          "nat (contentLen s1) \<le> length (beyond s1 ?r k1)"
          using s1 o1 True xs by (auto simp: eor_src_def)
        note bd = rd_shape_bounds [OF s1'(2)]
        have c0: "contentLen s1 = 0"
          using s1'(10,12) bd(5) by (cases "nat (contentLen s1)") auto
        have "pend s1 = []" using s1'(10) by simp
        then have rs: "rdNext s1 = stop s1"
          using s1'(7,8) bd(3) by (auto simp: pend_def seg_eq_Nil)
        have "left s1 r k1 = beyond s1 ?r k1"
          using rs by (simp add: left_def beyond_def)
        then have lf: "left s1 r k1 = drop 8 ?l" using s1'(11) c0 xs(3) by simp
        have "ProcessBeginRecord FillBuff_inner rid s r k = Some (BEGIN_RECORD, s1, begun_request rid body r, k1)"
          using ok cl False g xs b s1'(1) by (simp add: ProcessBeginRecord_def begun_request_def)
        with True ok False b s1' o1 c0 rs lf show ?thesis by (simp add: on_begin_def)
      next
        case short: False
        then have lx: "length ?xs < 8" by auto
        have "isClosed s1" using c1 lx by simp
        note en = eor_src_end [OF s1 this]
        have "ProcessBeginRecord FillBuff_inner rid s r k = Some (FCGX_PROTOCOL_ERROR, s1, ?r, k1)"
          using ok cl False g lx en by (simp add: ProcessBeginRecord_def)
        with short ok False en rerr_nonzero [OF assms(2)] show ?thesis
          by (auto simp: on_begin_def)
      qed
    qed
  qed
qed

section \<open>Headers\<close>

abbreviation (input) PH :: header_proc where
  "PH \<equiv> ProcessHeader FillBuff_inner"

text \<open>What the code does after a header is what \<open>on_header\<close> says.\<close>

definition interpreted ::
  "os \<Rightarrow> byte list \<Rightarrow> int option \<Rightarrow> stream \<Rightarrow> FCGX_Request \<Rightarrow> after_header
     \<Rightarrow> (flow \<times> stream \<times> FCGX_Request \<times> os) option \<Rightarrow> bool" where
  "interpreted k0 w re s r res out \<longleftrightarrow>
     (case res of
        HStop E \<Rightarrow> E \<noteq> DFault \<longrightarrow> (\<exists>s' r' k'. out = Some (Return, s', r', k')
          \<and> rd_shape s' \<and> \<not> eorStop s' \<and> strtype s' = strtype s
          \<and> chan k0 (ipcFd r) w k' \<and> ended re r E s' r' k')
      | HGo w' n p sk ys \<Rightarrow> \<exists>s' k'. out = Some (Continue, s', r, k')
          \<and> rd_open k0 (w @ w') re s' r k' \<and> strtype s' = strtype s
          \<and> contentLen s' = int n \<and> paddingLen s' = int p \<and> skip s' = sk \<and> left s' r k' = ys)"

lemma left_irrelevant [simp]:
  "left (s\<lparr>eorStop := a\<rparr>) r k = left s r k" "left (s\<lparr>stop := b\<rparr>) r k = left s r k"
  "left (s\<lparr>isClosed := c\<rparr>) r k = left s r k" "left (s\<lparr>skip := d\<rparr>) r k = left s r k"
  "left (s\<lparr>contentLen := e\<rparr>) r k = left s r k" "left (s\<lparr>paddingLen := f\<rparr>) r k = left s r k"
  "left (s\<lparr>wrNext := g\<rparr>) r k = left s r k" "left (SetError h s) r k = left s r k"
  "left (s\<lparr>stopUnget := i\<rparr>) r k = left s r k"
  by (simp_all add: left_def)

lemma rd_shape_irrelevant [simp]:
  "rd_shape (s\<lparr>eorStop := a\<rparr>) = rd_shape s" "rd_shape (s\<lparr>stop := b\<rparr>) = rd_shape s"
  "rd_shape (s\<lparr>isClosed := c\<rparr>) = rd_shape s" "rd_shape (s\<lparr>skip := d\<rparr>) = rd_shape s"
  "rd_shape (s\<lparr>wrNext := g\<rparr>) = rd_shape s" "rd_shape (s\<lparr>stopUnget := i\<rparr>) = rd_shape s"
  by (simp_all add: rd_shape_def buff_ok_def)

text \<open>The stream as \<open>ProcessHeader\<close> sees it once it has taken the lengths from the header.\<close>

definition at_header :: "FCGI_Header \<Rightarrow> stream \<Rightarrow> stream" where
  "at_header h s = s\<lparr>eorStop := True, stop := rdNext s, contentLen := hdr_contentLen h,
    paddingLen := uint (paddingLength h)\<rparr>"

abbreviation (input) clen where "clen h \<equiv> nat (hdr_contentLen h)"
abbreviation (input) plen where "plen h \<equiv> nat (uint (paddingLength h))"

lemma at_header_sel [simp]:
  "skip (at_header h s) = skip s" "strtype (at_header h s) = strtype s"
  "isClosed (at_header h s) = isClosed s" "FCGI_errno (at_header h s) = FCGI_errno s"
  "contentLen (at_header h s) = hdr_contentLen h" "paddingLen (at_header h s) = uint (paddingLength h)"
  "rdNext (at_header h s) = rdNext s" "stop (at_header h s) = rdNext s" "eorStop (at_header h s)"
  "left (at_header h s) r k = left s r k" "dpar k0 re (at_header h s) r = dpar k0 re s r"
  by (simp_all add: at_header_def dpar_def)

lemma hdr_contentLen_nonneg [simp]: "0 \<le> hdr_contentLen h"
  using hdr_contentLen_range by blast

lemma int_lens [simp]: "int (clen h) = hdr_contentLen h" "int (plen h) = uint (paddingLength h)"
  using hdr_contentLen_range [of h] by simp_all

lemma rd_shape_at_header [simp]: "rd_shape s \<Longrightarrow> rd_shape (at_header h s)"
  using hdr_contentLen_range [of h] by (auto simp: rd_shape_def buff_ok_def at_header_def)

lemma at_header_record:
  "rd_open k0 w re s r k \<Longrightarrow> at_record k0 w re (clen h) (plen h) (at_header h s) r k"
  by (auto simp: rd_open_def at_record_def)

lemma same_request: "\<exists>i. r = r\<lparr>requestId := i\<rparr>"
  by (rule exI [of _ "requestId r"]) simp

lemma Fill_interpret_begin:
  assumes "rd_open k0 w re s r k" "re \<noteq> Some 0" "uint (version h) = 1"
    "uint (rectype h) = FCGI_BEGIN_REQUEST"
  shows "interpreted k0 w re s r (on_header (dpar k0 re s r) (skip s) h (left s r k))
    (Fill_interpret PH h s r k)"
proof -
  let ?s = "at_header h s" and ?l = "left s r k" and ?rid = "hdr_requestId h"
  let ?res = "on_begin (dpar k0 re s r) (skip s) ?rid (clen h) (plen h) ?l"
  have sh: "rd_shape s" using assms(1) by (simp add: rd_open_def)
  have ph: "PH h (s\<lparr>eorStop := True, stop := rdNext s\<rparr>) r k = ProcessBeginRecord FillBuff_inner ?rid ?s r k"
    using assms(3,4) by (simp add: ProcessHeader_def Let_def at_header_def)
  have oh: "on_header (dpar k0 re s r) (skip s) h ?l = ?res"
    using assms(3,4) by (simp add: on_header_def Let_def)
  note pb = ProcessBeginRecord_record [OF at_header_record [OF assms(1), of h] assms(2), of ?rid,
      unfolded at_header_sel]
  consider (fail) e where "?res = HStop (DFail e)"
    | (start) rid body rest where "?res = HStop (DBegin rid body rest)"
    | (go) w' n p sk ys where "?res = HGo w' n p sk ys"
    using pb by (cases ?res; cases "case ?res of HStop E \<Rightarrow> E | _ \<Rightarrow> DFault") auto
  then show ?thesis
  proof cases
    case fail
    with pb obtain s' r' k' where
      "ProcessBeginRecord FillBuff_inner ?rid ?s r k = Some (FCGX_PROTOCOL_ERROR, s', r', k')"
      "rd_shape s'" "strtype s' = strtype s" "\<exists>i. r' = r\<lparr>requestId := i\<rparr>"
      "FCGI_errno (SetError FCGX_PROTOCOL_ERROR s') = e" "chan k0 (ipcFd r) w k'" by auto
    with fail show ?thesis
      unfolding oh interpreted_def by (auto simp: Fill_interpret_def ph Fill_dispatch_def)
  next
    case start
    with pb obtain s' k' where
      "ProcessBeginRecord FillBuff_inner ?rid ?s r k = Some (BEGIN_RECORD, s', begun_request rid body r, k')"
      "rd_shape s'" "strtype s' = strtype s" "\<not> isClosed s'" "FCGI_errno s' = 0"
      "contentLen s' = 0" "rdNext s' = stop s'" "left s' r k' = rest"
      "chan k0 (ipcFd r) w k'" "rx_error (rx k' (ipcFd r)) = re" by auto
    moreover have "left s' (begun_request rid body r) k' = left s' r k'"
      by (simp add: left_def begun_request_def)
    ultimately show ?thesis using start
      unfolding oh interpreted_def
      by (auto simp: Fill_interpret_def ph Fill_dispatch_def begun_request_def)
  next
    case go
    with pb obtain k' where g: "n = clen h" "p = plen h" "sk" "ys = ?l"
      "ProcessBeginRecord FillBuff_inner ?rid ?s r k = Some (SKIP, ?s, r, k')"
      "chan k0 (ipcFd r) (w @ w') k'" "rx k' = rx k" by auto
    then have "left s r k' = ?l" by (simp add: left_def)
    with g go assms(1) sh show ?thesis
      unfolding oh interpreted_def
      by (auto simp: Fill_interpret_def ph Fill_dispatch_def rd_open_def)
  qed
qed

lemma Fill_interpret_management:
  assumes "rd_open k0 w re s r k" "re \<noteq> Some 0" "uint (version h) = 1"
    "uint (rectype h) \<noteq> FCGI_BEGIN_REQUEST" "hdr_requestId h = 0"
  shows "interpreted k0 w re s r (on_header (dpar k0 re s r) (skip s) h (left s r k))
    (Fill_interpret PH h s r k)"
proof -
  let ?s = "at_header h s" and ?l = "left s r k" and ?ty = "uint (rectype h)"
  have sh: "rd_shape s" using assms(1) by (simp add: rd_open_def)
  have ph: "PH h (s\<lparr>eorStop := True, stop := rdNext s\<rparr>) r k = ProcessManagementRecord FillBuff_inner ?ty ?s r k"
    using assms(3-5) by (simp add: ProcessHeader_def Let_def at_header_def)
  note at = at_header_record [OF assms(1), of h]
  show ?thesis
  proof (cases "?ty = FCGI_GET_VALUES")
    case True
    let ?res = "on_get_values (dpar k0 re s r) (skip s) (clen h) (plen h) ?l"
    have oh: "on_header (dpar k0 re s r) (skip s) h ?l = ?res"
      using assms(3-5) True by (simp add: on_header_def Let_def)
    have "clen h \<le> 65535" using hdr_contentLen_range [of h] by auto
    note gr = GetValues_record [OF at assms(2) this, unfolded at_header_sel]
    show ?thesis
    proof (cases ?res)
      case (HStop E)
      with gr show ?thesis
        unfolding oh interpreted_def using same_request
        by (auto simp: Fill_interpret_def ph True Fill_dispatch_def)
    next
      case (HGo w' n p sk ys)
      with gr show ?thesis
        unfolding oh interpreted_def
        by (auto simp: Fill_interpret_def ph True Fill_dispatch_def rd_open_def)
    qed
  next
    case False
    from UnknownType_record [OF at False] obtain resp k' where
      u: "UnknownType_response ?ty = Some resp"
      "ProcessManagementRecord FillBuff_inner ?ty ?s r k = Some (MGMT_RECORD, ?s, r, k')"
      "left ?s r k' = left ?s r k" "chan k0 (ipcFd r) (w @ resp) k'" "rx k' = rx k" by blast
    then have lf: "left s r k' = ?l" by (simp add: left_def)
    have "on_header (dpar k0 re s r) (skip s) h ?l = HGo resp (clen h) (plen h) (skip s) ?l"
      using assms(3-5) False u(1) by (simp add: on_header_def Let_def)
    with u assms(1) lf sh show ?thesis
      by (auto simp: interpreted_def Fill_interpret_def ph Fill_dispatch_def rd_open_def)
  qed
qed

lemma Fill_interpret_header:
  assumes "rd_open k0 w re s r k" "re \<noteq> Some 0"
  shows "interpreted k0 w re s r (on_header (dpar k0 re s r) (skip s) h (left s r k))
    (Fill_interpret PH h s r k)"
proof -
  note o = assms(1) [unfolded rd_open_def]
  have sh: "rd_shape (s\<lparr>stop := b, contentLen := hdr_contentLen h, paddingLen := uint (paddingLength h)\<rparr>)"
    "rd_shape (s\<lparr>contentLen := hdr_contentLen h, paddingLen := uint (paddingLength h)\<rparr>)" for b
    using o hdr_contentLen_range [of h] by (auto simp: rd_shape_def buff_ok_def)
  have "hdr_contentLen h \<noteq> 0 \<longleftrightarrow> clen h \<noteq> 0"
    using hdr_contentLen_range [of h] by linarith
  note unf = interpreted_def on_header_def Fill_interpret_def ProcessHeader_def Fill_dispatch_def
    rd_open_def Let_def
  consider (version) "uint (version h) \<noteq> 1"
    | (start) "uint (version h) = 1" "uint (rectype h) = FCGI_BEGIN_REQUEST"
    | (mgmt) "uint (version h) = 1" "uint (rectype h) \<noteq> FCGI_BEGIN_REQUEST" "hdr_requestId h = 0"
    | (stream) "uint (version h) = 1" "uint (rectype h) \<noteq> FCGI_BEGIN_REQUEST" "hdr_requestId h \<noteq> 0"
    by blast
  then show ?thesis
  proof cases
    case version
    with o same_request [of r] show ?thesis by (simp add: unf)
  next
    case start
    with assms show ?thesis by (rule Fill_interpret_begin)
  next
    case mgmt
    with assms show ?thesis by (rule Fill_interpret_management)
  next
    case stream
    with o sh same_request [of r] \<open>hdr_contentLen h \<noteq> 0 \<longleftrightarrow> clen h \<noteq> 0\<close> show ?thesis
      by (cases "hdr_requestId h = requestId r"; cases "uint (rectype h) = strtype s";
          cases "hdr_contentLen h = 0") (auto simp: unf)
  qed
qed

section \<open>The loop\<close>

text \<open>
  What one call of \<open>FillBuffProc\<close> achieves, when \<open>demux\<close> still finds \<open>c\<close>, \<open>w2\<close> and \<open>E\<close> in the bytes
  before the reader: either the stream is over, or a part of \<open>c\<close> is ready in the buffer.
\<close>

definition filled ::
  "os \<Rightarrow> byte list \<Rightarrow> int option \<Rightarrow> stream \<Rightarrow> FCGX_Request \<Rightarrow> byte list \<times> byte list \<times> dend
     \<Rightarrow> stream \<Rightarrow> FCGX_Request \<Rightarrow> os \<Rightarrow> bool" where
  "filled k0 w re s r res s' r' k' \<longleftrightarrow>
     rd_shape s' \<and> \<not> eorStop s' \<and> strtype s' = strtype s \<and>
     (fst res = [] \<and> chan k0 (ipcFd r) (w @ fst (snd res)) k' \<and> ended re r (snd (snd res)) s' r' k'
      \<or> (\<exists>w3 c' w4. r' = r \<and> \<not> isClosed s' \<and> FCGI_errno s' = 0 \<and> \<not> skip s'
           \<and> chan k0 (ipcFd r) (w @ w3) k' \<and> rx_error (rx k' (ipcFd r)) = re
           \<and> rdNext s' < stop s' \<and> stop s' \<le> buffStop s'
           \<and> fst res = pend s' @ c' \<and> fst (snd res) = w3 @ w4
           \<and> demux (dpar k0 re s r) (nat (contentLen s')) (nat (paddingLen s')) False (beyond s' r k')
               = (c', w4, snd (snd res))))"

lemma filled_before:
  "filled k0 (w @ w') re s r res s' r' k' \<Longrightarrow> filled k0 w re s r (before [] w' res) s' r' k'"
  unfolding filled_def before_sel append_Nil append_assoc
  by (elim conjE disjE exE, blast, intro conjI disjI2, assumption+)
    (intro exI conjI; (assumption | simp))

lemma filled_dpar:
  "strtype s1 = strtype s \<Longrightarrow> filled k0 w re s1 r res s' r' k' \<Longrightarrow> filled k0 w re s r res s' r' k'"
  by (simp add: filled_def dpar_def)

text \<open>The tail of a turn, when the previous record is finished.\<close>

lemma Fill_tail_header:
  assumes "rd_open k0 w re s r k" "re \<noteq> Some 0" "length hdr < 8"
  shows "\<exists>c s1. Fill_header hdr s = Some (hdr @ take c (left s r k), s1)
    \<and> s1 = s\<lparr>rdNext := rdNext s + c\<rparr> \<and> rd_open k0 w re s1 r k \<and> left s1 r k = drop c (left s r k)
    \<and> c \<le> length (left s r k) \<and> length hdr + c \<le> 8 \<and> (rdNext s < buffStop s \<longrightarrow> 0 < c)"
proof -
  have o: "rd_shape s" using assms(1) by (simp add: rd_open_def)
  note b = rd_shape_bounds [OF o]
  let ?c = "min (8 - length hdr) (buffStop s - rdNext s)"
  have c: "min (8 - int (length hdr)) (int (buffStop s) - int (rdNext s)) = int ?c"
    using assms(3) b(2) by (auto simp: min_def of_nat_diff)
  have le: "rdNext s + ?c \<le> buffStop s" using b(2) by auto
  note lf = left_drop [OF le b(3), of r k]
  have "memread (rdNext s) ?c (buff s) = Some (take ?c (left s r k))"
    using le b(3) lf(3) by (subst memread_Some) auto
  then have "Fill_header hdr s = Some (hdr @ take ?c (left s r k), s\<lparr>rdNext := rdNext s + ?c\<rparr>)"
    using b(2,4) unfolding Fill_header_def Let_def c by (simp add: INT_MAX_def)
  moreover have "rd_open k0 w re (s\<lparr>rdNext := rdNext s + ?c\<rparr>) r k"
    using assms(1) le by (auto simp: rd_open_def rd_shape_def buff_ok_def)
  ultimately show ?thesis using lf assms(3) by (intro exI [of _ ?c] exI conjI) auto
qed

text \<open>A turn that ends in the header part.\<close>

lemma Fill_tail_demux:
  assumes op: "rd_open k0 w re s r k" and re: "re \<noteq> Some 0" and hl: "length hdr < 8"
    and sk: "skip s = sk" and E: "snd (snd (demux (dpar k0 re s r) 0 0 sk (hdr @ left s r k))) \<noteq> DFault"
  shows "(\<exists>hdr' s1. Fill_tail PH hdr s r k = Some (Continue, hdr', s1, r, k)
        \<and> rd_open k0 w re s1 r k \<and> strtype s1 = strtype s \<and> length hdr' < 8
        \<and> contentLen s1 = contentLen s \<and> paddingLen s1 = paddingLen s \<and> skip s1 = sk
        \<and> hdr' @ left s1 r k = hdr @ left s r k
        \<and> (rdNext s < buffStop s \<longrightarrow> length (left s1 r k) < length (left s r k))
        \<and> length (left s1 r k) \<le> length (left s r k))
    \<or> (\<exists>s1 r1 k1. Fill_tail PH hdr s r k = Some (Return, [], s1, r1, k1)
        \<and> filled k0 w re s r (demux (dpar k0 re s r) 0 0 sk (hdr @ left s r k)) s1 r1 k1)
    \<or> (\<exists>w' n p sk' ys s1 k1. Fill_tail PH hdr s r k = Some (Continue, [], s1, r, k1)
        \<and> rd_open k0 (w @ w') re s1 r k1 \<and> strtype s1 = strtype s
        \<and> contentLen s1 = int n \<and> paddingLen s1 = int p \<and> skip s1 = sk' \<and> left s1 r k1 = ys
        \<and> length ys < length (left s r k)
        \<and> demux (dpar k0 re s r) 0 0 sk (hdr @ left s r k) = before [] w' (demux (dpar k0 re s r) n p sk' ys))"
proof -
  let ?l = "left s r k" and ?d = "dpar k0 re s r"
  have ne: "\<not> eorStop s" using op by (simp add: rd_open_def)
  from Fill_tail_header [OF op re hl] obtain c s1 where
    fh: "Fill_header hdr s = Some (hdr @ take c ?l, s1)" and s1: "s1 = s\<lparr>rdNext := rdNext s + c\<rparr>"
    and o1: "rd_open k0 w re s1 r k" and l1: "left s1 r k = drop c ?l"
    and c: "c \<le> length ?l" "length hdr + c \<le> 8" "rdNext s < buffStop s \<longrightarrow> 0 < c" by blast
  have f1: "strtype s1 = strtype s" "skip s1 = sk" "contentLen s1 = contentLen s"
    "paddingLen s1 = paddingLen s" "dpar k0 re s1 r = ?d"
    using s1 sk by (simp_all add: dpar_def)
  have lh: "length (hdr @ take c ?l) = length hdr + c" using c(1) by simp
  show ?thesis
  proof (cases "length hdr + c < 8")
    case True
    then have "Fill_tail PH hdr s r k = Some (Continue, hdr @ take c ?l, s1, r, k)"
      using ne fh lh by (simp add: Fill_tail_def)
    moreover have "rdNext s < buffStop s \<longrightarrow> length (left s1 r k) < length ?l"
      using c unfolding l1 length_drop by linarith
    ultimately show ?thesis using o1 f1 l1 lh True
      by (intro disjI1 exI [of _ "hdr @ take c ?l"] exI [of _ s1]) simp
  next
    case False
    then have c8: "length hdr + c = 8" "0 < c" using c(2) hl by auto
    then have "length (hdr @ take c ?l) = 8" using lh by simp
    then obtain h where h: "header_of (hdr @ take c ?l) = Some h" using header_of_Some by blast
    have d8: "8 - length hdr = c" using c8 by simp
    have t8: "take 8 (hdr @ ?l) = hdr @ take c ?l" "drop 8 (hdr @ ?l) = drop c ?l"
      using c8 by (simp_all add: d8)
    have l8: "\<not> length (hdr @ ?l) < 0 + 8" using c8 c(1) by simp
    have dm: "demux ?d 0 0 sk (hdr @ ?l) = (case on_header ?d sk h (drop c ?l) of
        HStop E \<Rightarrow> ([], [], E) | HGo w cl' pl' sk' ys \<Rightarrow> before [] w (demux ?d cl' pl' sk' ys))"
      using l8 h by (subst demux.simps) (simp only: less_irrefl if_False drop_0 add_0 t8 option.case)
    have ft: "Fill_tail PH hdr s r k = do { (f, s, r, k) \<leftarrow> Fill_interpret PH h s1 r k; Some (f, [], s, r, k) }"
      using ne fh h lh c8 by (simp add: Fill_tail_def)
    note it = Fill_interpret_header [OF o1 re, of h, unfolded f1 l1]
    show ?thesis
    proof (cases "on_header ?d sk h (drop c ?l)")
      case (HStop E')
      then have "E' \<noteq> DFault" using E dm by simp
      with it HStop obtain s' r' k' where "Fill_interpret PH h s1 r k = Some (Return, s', r', k')"
        "rd_shape s'" "\<not> eorStop s'" "strtype s' = strtype s" "chan k0 (ipcFd r) w k'" "ended re r E' s' r' k'"
        by (auto simp: interpreted_def f1)
      then show ?thesis using ft dm HStop
        by (intro disjI2 disjI1 exI [of _ s'] exI [of _ r'] exI [of _ k']) (simp add: filled_def)
    next
      case (HGo w' n p sk' ys)
      with it obtain s' k' where "Fill_interpret PH h s1 r k = Some (Continue, s', r, k')"
        "rd_open k0 (w @ w') re s' r k'" "strtype s' = strtype s" "contentLen s' = int n"
        "paddingLen s' = int p" "skip s' = sk'" "left s' r k' = ys" by (auto simp: interpreted_def f1)
      moreover have "length ys < length ?l"
        using on_header_shrinks [OF HGo] c8 c(1) unfolding length_drop by linarith
      ultimately show ?thesis using ft dm HGo
        by (intro disjI2 exI [of _ w'] exI [of _ n] exI [of _ p] exI [of _ sk'] exI [of _ ys]
            exI [of _ s'] exI [of _ k']) simp
    qed
  qed
qed

lemma demux_moved:
  assumes "hdr \<noteq> [] \<longrightarrow> contentLen s = 0 \<and> paddingLen s = 0" "c1 + c2 \<le> length xs"
    "ys = drop (c1 + c2) xs" "0 \<le> contentLen s" "0 \<le> paddingLen s" "int c1 \<le> contentLen s"
    "int c2 \<le> paddingLen s" "int c1 < contentLen s \<longrightarrow> c2 = 0" "contentLen s = 0 \<or> skip s"
  shows "demux d (nat (contentLen s)) (nat (paddingLen s)) (skip s) (hdr @ xs)
    = demux d (nat (contentLen (moved c1 c2 b n m s))) (nat (paddingLen (moved c1 c2 b n m s)))
        (skip (moved c1 c2 b n m s)) (hdr @ ys)"
proof (cases "hdr = []")
  case False
  with assms have "c1 = 0" "c2 = 0" "contentLen s = 0" "paddingLen s = 0" by auto
  then show ?thesis using assms(3) by simp
next
  case True
  have n: "nat (contentLen s - int c1) = nat (contentLen s) - c1"
    "nat (paddingLen s - int c2) = nat (paddingLen s) - c2" using assms(4-7) by auto
  have "(0 < nat (contentLen s) \<and> nat (contentLen s) = c1) = (0 < contentLen s \<and> contentLen s = int c1)"
    using assms(4) by auto
  moreover have "c1 \<le> nat (contentLen s)" "c2 \<le> nat (paddingLen s)"
    "c1 < nat (contentLen s) \<longrightarrow> c2 = 0" "nat (contentLen s) = 0 \<or> skip s" using assms by auto
  ultimately show ?thesis
    using demux_advance [of c1 "nat (contentLen s)" c2 "nat (paddingLen s)" xs "skip s" d] assms(2,3) True
    by (simp add: n)
qed

text \<open>
  \<open>FillBuffProc\<close> returns, and what it has done is what \<open>demux\<close> says. The loop ends because
  every turn that goes on takes at least one byte off what is left.
\<close>

lemma FillBuff_loop_demux:
  assumes "rd_open k0 w re s r k" "re \<noteq> Some 0" "length hdr < 8"
    "hdr \<noteq> [] \<longrightarrow> contentLen s = 0 \<and> paddingLen s = 0"
    "snd (snd (demux (dpar k0 re s r) (nat (contentLen s)) (nat (paddingLen s)) (skip s)
       (hdr @ left s r k))) \<noteq> DFault"
  shows "\<exists>s' r' k'. FillBuff_loop PH hdr s r k = Some (s', r', k')
    \<and> filled k0 w re s r (demux (dpar k0 re s r) (nat (contentLen s)) (nat (paddingLen s)) (skip s)
        (hdr @ left s r k)) s' r' k'"
  using assms
proof (induction "length (left s r k)" arbitrary: w hdr s k rule: less_induct)
  case less
  let ?l = "left s r k" and ?cl = "contentLen s" and ?pl = "paddingLen s"
  have o: "rd_shape s" "\<not> isClosed s" "FCGI_errno s = 0" "\<not> eorStop s" "chan k0 (ipcFd r) w k"
    "rx_error (rx k (ipcFd r)) = re" using less.prems(1) by (auto simp: rd_open_def)
  note b = rd_shape_bounds [OF o(1)]
  consider (over) "?l = []" | (deliver) "?l \<noteq> []" "0 < ?cl" "\<not> skip s"
    | (advance) "?l \<noteq> []" "?cl = 0 \<or> skip s" using b(5) by linarith
  then show ?case
  proof cases
    case over
    from Fill_read_end [OF o(1,5) over] obtain k' where
      "Fill_read s r k = Some (Return, SetError (rerr re) s, k')" and ch: "chan k0 (ipcFd r) w k'"
      using o(6) by blast
    then have "Fill_turn PH hdr s r k = Some (Return, hdr, SetError (rerr re) s, r, k')"
      by (simp add: Fill_turn_def Fill_front_def)
    note run = FillBuff_loop_return [OF this]
    have "length hdr < nat ?pl + 8" using less.prems(3) by simp
    moreover have "0 < ?cl \<Longrightarrow> hdr = []" using less.prems(4) by auto
    ultimately have "demux (dpar k0 re s r) (nat ?cl) (nat ?pl) (skip s) (hdr @ ?l) = ([], [], DFail (rerr re))"
      using over by (subst demux.simps) auto
    with run ch o same_request [of r] show ?thesis
      by (intro exI [of _ "SetError (rerr re) s"] exI [of _ r] exI [of _ k']) (simp add: filled_def)
  next
    case deliver
    from Fill_front_deliver [OF o(1,5) deliver(1) deliver(2) deliver(3)] obtain c bf n m k' s' where
      ff: "Fill_front s r k = Some (Return, s', k')"
      and s': "s' = s\<lparr>buff := bf, rdNext := n, buffStop := m, contentLen := ?cl - int c,
           wrNext := n + c, stop := n + c\<rparr>"
      and r: "rd_shape s'" "stop s' \<le> buffStop s'" "0 < c" "int c \<le> ?cl" "c \<le> length ?l"
        "pend s' = take c ?l" "beyond s' r k' = drop c ?l" "chan k0 (ipcFd r) w k'"
        "rx_error (rx k' (ipcFd r)) = rx_error (rx k (ipcFd r))" by blast
    have "Fill_turn PH hdr s r k = Some (Return, hdr, s', r, k')"
      by (simp add: Fill_turn_def ff)
    note run = FillBuff_loop_return [OF this]
    have h: "hdr = []" using less.prems(4) deliver(2) by auto
    have cn: "c \<le> nat ?cl" "nat (?cl - int c) = nat ?cl - c" using r(4) by auto
    have dm: "demux (dpar k0 re s r) (nat ?cl) (nat ?pl) (skip s) (hdr @ ?l)
        = before (take c ?l) [] (demux (dpar k0 re s r) (nat ?cl - c) (nat ?pl) False (drop c ?l))"
      using demux_content_part [OF r(3) cn(1) r(5)] deliver(3) h by simp
    let ?res = "demux (dpar k0 re s r) (nat ?cl - c) (nat ?pl) False (drop c ?l)"
    have "filled k0 w re s r (before (take c ?l) [] ?res) s' r k'"
      unfolding filled_def before_sel
      using o r s' deliver(3) cn(2)
      by (intro conjI disjI2 exI [of _ "[]"] exI [of _ "fst ?res"] exI [of _ "fst (snd ?res)"]) auto
    with run dm show ?thesis by auto
  next
    case advance
    from Fill_front_advance [OF o(1,5) advance] obtain c1 c2 bf n m k' f where
      ff: "Fill_front s r k = Some (f, moved c1 c2 bf n m s, k')"
      and sh: "rd_shape (moved c1 c2 bf n m s)" and ch: "chan k0 (ipcFd r) w k'"
      and re: "rx_error (rx k' (ipcFd r)) = rx_error (rx k (ipcFd r))"
      and l: "c1 + c2 \<le> length ?l" "left (moved c1 c2 bf n m s) r k' = drop (c1 + c2) ?l"
      and c: "int c1 \<le> ?cl" "int c2 \<le> ?pl" "int c1 < ?cl \<longrightarrow> c2 = 0" "c1 + c2 = 0 \<longrightarrow> n < m"
      and f: "f = (if int c1 = ?cl \<and> int c2 = ?pl then Next else Continue)"
      and pr: "f = Continue \<longrightarrow> 0 < c1 + c2" by blast
    let ?s = "moved c1 c2 bf n m s"
    have op: "rd_open k0 w re ?s r k'" using o sh ch re by (simp add: rd_open_def)
    have dp: "dpar k0 re ?s r = dpar k0 re s r" by (simp add: dpar_def)
    have dm: "demux (dpar k0 re s r) (nat ?cl) (nat ?pl) (skip s) (hdr @ ?l)
        = demux (dpar k0 re s r) (nat (contentLen ?s)) (nat (paddingLen ?s)) (skip ?s) (hdr @ left ?s r k')"
      by (rule demux_moved [OF less.prems(4) l b(5,6) c(1-3) advance(2)])
    show ?thesis
    proof (cases "int c1 = ?cl \<and> int c2 = ?pl")
      case False
      then have fC: "f = Continue" using f by simp
      have h: "hdr = []" using less.prems(4) False c(1,2) by auto
      have "Fill_turn PH hdr s r k = Some (Continue, hdr, ?s, r, k')"
        using fC by (simp add: Fill_turn_def ff)
      note run = FillBuff_loop_continue [OF this]
      have lt: "length (left ?s r k') < length ?l"
        using pr [rule_format, OF fC] l(1) unfolding l(2) length_drop by linarith
      have e5: "snd (snd (demux (dpar k0 re ?s r) (nat (contentLen ?s)) (nat (paddingLen ?s)) (skip ?s)
          (hdr @ left ?s r k'))) \<noteq> DFault"
        using less.prems(5) unfolding dm dp .
      have "\<exists>s' r' k''. FillBuff_loop PH hdr ?s r k' = Some (s', r', k'')
        \<and> filled k0 w re ?s r (demux (dpar k0 re ?s r) (nat (contentLen ?s)) (nat (paddingLen ?s)) (skip ?s)
            (hdr @ left ?s r k')) s' r' k''"
        by (rule less.hyps [OF lt op less.prems(2,3) _ e5]) (use h in simp)
      then show ?thesis
        unfolding run dm dp using filled_dpar [of ?s s] by fastforce
    next
      case True
      then have cp: "contentLen ?s = 0" "paddingLen ?s = 0" and fN: "f = Next" using f by simp_all
      have turn: "Fill_turn PH hdr s r k = Fill_tail PH hdr ?s r k'"
        using fN by (simp add: Fill_turn_def ff)
      have dm0: "demux (dpar k0 re s r) (nat ?cl) (nat ?pl) (skip s) (hdr @ ?l)
          = demux (dpar k0 re ?s r) 0 0 (skip ?s) (hdr @ left ?s r k')"
        using dm cp dp by simp
      have nf: "snd (snd (demux (dpar k0 re ?s r) 0 0 (skip ?s) (hdr @ left ?s r k'))) \<noteq> DFault"
        using less.prems(5) dm0 by simp
      have prog: "length (left ?s r k') < length ?l \<or> rdNext ?s < buffStop ?s"
        using c(4) l(1) unfolding l(2) length_drop by (cases "c1 + c2 = 0") auto
      have le: "length (left ?s r k') \<le> length ?l" unfolding l(2) by simp
      from Fill_tail_demux [OF op less.prems(2,3) refl nf] show ?thesis
      proof (elim disjE exE conjE)
        fix hdr' s1
        assume t: "Fill_tail PH hdr ?s r k' = Some (Continue, hdr', s1, r, k')"
          and o1: "rd_open k0 w re s1 r k'" and st: "strtype s1 = strtype ?s" and h8: "length hdr' < 8"
          and z: "contentLen s1 = contentLen ?s" "paddingLen s1 = paddingLen ?s" "skip s1 = skip ?s"
          and xs: "hdr' @ left s1 r k' = hdr @ left ?s r k'"
          and lt: "rdNext ?s < buffStop ?s \<longrightarrow> length (left s1 r k') < length (left ?s r k')"
            "length (left s1 r k') \<le> length (left ?s r k')"
        note run = FillBuff_loop_continue [OF turn [unfolded t]]
        have d1: "dpar k0 re s1 r = dpar k0 re ?s r" using st by (simp add: dpar_def)
        have m: "length (left s1 r k') < length ?l" using lt prog le by linarith
        have e: "demux (dpar k0 re s1 r) (nat (contentLen s1)) (nat (paddingLen s1)) (skip s1)
            (hdr' @ left s1 r k') = demux (dpar k0 re ?s r) 0 0 (skip ?s) (hdr @ left ?s r k')"
          unfolding xs d1 using z cp by simp
        have "\<exists>s' r' k''. FillBuff_loop PH hdr' s1 r k' = Some (s', r', k'')
          \<and> filled k0 w re s1 r (demux (dpar k0 re s1 r) (nat (contentLen s1)) (nat (paddingLen s1)) (skip s1)
              (hdr' @ left s1 r k')) s' r' k''"
          by (rule less.hyps [OF m o1 less.prems(2) h8]) (use z cp e nf in simp_all)
        then show ?thesis unfolding run e dm0 using filled_dpar [of s1 s] st by fastforce
      next
        fix s1 r1 k1
        assume t: "Fill_tail PH hdr ?s r k' = Some (Return, [], s1, r1, k1)"
          and fl: "filled k0 w re ?s r (demux (dpar k0 re ?s r) 0 0 (skip ?s) (hdr @ left ?s r k')) s1 r1 k1"
        show ?thesis
          using FillBuff_loop_return [OF turn [unfolded t]] filled_dpar [OF _ fl, of s] dm0 by auto
      next
        fix w' n' p sk' ys s1 k1
        assume t: "Fill_tail PH hdr ?s r k' = Some (Continue, [], s1, r, k1)"
          and o1: "rd_open k0 (w @ w') re s1 r k1" and st: "strtype s1 = strtype ?s"
          and z: "contentLen s1 = int n'" "paddingLen s1 = int p" "skip s1 = sk'" "left s1 r k1 = ys"
          and ly: "length ys < length (left ?s r k')"
          and e: "demux (dpar k0 re ?s r) 0 0 (skip ?s) (hdr @ left ?s r k')
            = before [] w' (demux (dpar k0 re ?s r) n' p sk' ys)"
        note run = FillBuff_loop_continue [OF turn [unfolded t]]
        have d1: "dpar k0 re s1 r = dpar k0 re ?s r" using st by (simp add: dpar_def)
        have m: "length (left s1 r k1) < length ?l" using ly le unfolding z(4) by linarith
        let ?res = "demux (dpar k0 re s1 r) (nat (contentLen s1)) (nat (paddingLen s1)) (skip s1)
              ([] @ left s1 r k1)"
        have e1: "?res = demux (dpar k0 re ?s r) n' p sk' ys" unfolding d1 z by simp
        have "\<exists>s' r' k''. FillBuff_loop PH [] s1 r k1 = Some (s', r', k'')
          \<and> filled k0 (w @ w') re s1 r ?res s' r' k''"
          by (rule less.hyps [OF m o1 less.prems(2)]) (use e1 e nf in simp_all)
        then obtain s' r' k'' where "FillBuff_loop PH [] s1 r k1 = Some (s', r', k'')"
          "filled k0 (w @ w') re s1 r ?res s' r' k''" by blast
        moreover from filled_before [OF this(2)] have "filled k0 w re s r (before [] w' ?res) s' r' k''"
          using st by (intro filled_dpar [of s1 s]) simp
        ultimately show ?thesis unfolding run dm0 e e1 by blast
      qed
    qed
  qed
qed

end
