(* ===== verification/Source.thy ===== *)
theory Source
  imports Fill
begin

text \<open>
  The reader of a request as a \<open>byte_source\<close>: \<open>FCGX_GetChar\<close>, \<open>FCGX_GetStr\<close>, \<open>FCGX_GetLine\<close> and
  \<open>ReadParams\<close> on \<open>FillBuffProc\<close> deliver the content that \<open>demux\<close> finds, however it arrives.
\<close>

text \<open>
  The stream \<open>s\<close> still delivers \<open>xs\<close>; when it is over, the library has sent \<open>W\<close> on the
  connection and the stream has ended as \<open>E\<close> says.
\<close>

definition rd_src ::
  "os \<Rightarrow> FCGX_Request \<Rightarrow> int option \<Rightarrow> byte list \<Rightarrow> dend
     \<Rightarrow> byte list \<Rightarrow> stream \<Rightarrow> FCGX_Request \<Rightarrow> os \<Rightarrow> bool" where
  "rd_src k0 r0 re W E xs s r k \<longleftrightarrow>
     rd_shape s \<and> \<not> eorStop s \<and> re \<noteq> Some 0 \<and> E \<noteq> DFault \<and> (\<forall>i b ys. E \<noteq> DBegin i b ys) \<and>
     (if isClosed s then xs = [] \<and> chan k0 (ipcFd r0) W k \<and> ended re r0 E s r k
      else r = r0 \<and> FCGI_errno s = 0 \<and> rdNext s \<le> stop s \<and> stop s \<le> buffStop s
        \<and> rx_error (rx k (ipcFd r0)) = re
        \<and> (\<exists>w c w'. chan k0 (ipcFd r0) w k \<and> xs = pend s @ c \<and> W = w @ w'
            \<and> demux (dpar k0 re s r0) (nat (contentLen s)) (nat (paddingLen s)) (skip s) (beyond s r k)
                = (c, w', E)))"

lemma rd_src_consume:
  assumes "rd_src k0 r0 re W E xs s r k" "\<not> isClosed s" "n \<le> stop s - rdNext s"
  shows "seg (rdNext s) (rdNext s + n) (buff s) = take n xs \<and> n \<le> length xs
    \<and> rd_src k0 r0 re W E (drop n xs) (s\<lparr>rdNext := rdNext s + n\<rparr>) r k"
proof -
  let ?s = "s\<lparr>rdNext := rdNext s + n\<rparr>"
  from assms have s: "rd_shape s" "rdNext s \<le> stop s" "stop s \<le> buffStop s"
    and xs: "\<exists>c. xs = pend s @ c"
    by (auto simp: rd_src_def)
  note b = rd_shape_bounds [OF s(1)]
  have p: "seg (rdNext s) (rdNext s + n) (buff s) @ pend ?s = pend s"
    using seg_append [of "rdNext s" "rdNext s + n" "stop s" "buff s"] assms(3) s(2)
    by (auto simp: pend_def)
  have l: "length (seg (rdNext s) (rdNext s + n) (buff s)) = n"
    using b s assms(3) by auto
  have pe: "seg (rdNext s) (rdNext s + n) (buff s) = take n (pend s)" "pend ?s = drop n (pend s)"
    "n \<le> length (pend s)"
    unfolding p [symmetric] using l by simp_all
  have "rd_shape ?s" using s assms(3) by (auto simp: rd_shape_def buff_ok_def)
  moreover have "beyond ?s r k = beyond s r k" "dpar k0 re ?s r0 = dpar k0 re s r0"
    by (simp_all add: beyond_def dpar_def)
  ultimately show ?thesis
    using assms pe xs by (auto simp: rd_src_def dpar_def)
qed

lemma ended_closed: "ended re r0 E s r k \<Longrightarrow> \<forall>i b ys. E \<noteq> DBegin i b ys \<Longrightarrow> isClosed s"
  by (cases E) auto

lemma rd_src_fill:
  assumes "rd_src k0 r0 re W E xs s r k" "\<not> isClosed s" "rdNext s = stop s"
  shows "\<exists>s' r' k'. FillBuffProc s r k = Some (s', r', k') \<and> rd_src k0 r0 re W E xs s' r' k'
    \<and> strtype s' = strtype s \<and> (isClosed s' \<or> rdNext s' < stop s')"
proof -
  let ?res = "demux (dpar k0 re s r0) (nat (contentLen s)) (nat (paddingLen s)) (skip s) (left s r k)"
  have lb: "left s r k = beyond s r k" using assms(3) by (rule left_beyond)
  obtain w c w' where o: "rd_open k0 w re s r k" and re: "re \<noteq> Some 0" and r: "r = r0"
    and E1: "E \<noteq> DFault" "\<forall>i b ys. E \<noteq> DBegin i b ys"
    and d: "?res = (c, w', E)" "xs = c" "W = w @ w'"
    unfolding lb using assms by (auto simp: rd_src_def rd_open_def pend_def)
  have E: "E \<noteq> DFault" "\<forall>i b ys. E \<noteq> DBegin i b ys" "E = snd (snd ?res)"
    and xs: "xs = fst ?res" and W: "W = w @ fst (snd ?res)" using E1 d by simp_all
  have nf: "snd (snd (demux (dpar k0 re s r) (nat (contentLen s)) (nat (paddingLen s)) (skip s)
      ([] @ left s r k))) \<noteq> DFault" using E r by simp
  from FillBuff_loop_demux [OF o re _ _ nf] obtain s' r' k' where
    f: "FillBuffProc s r k = Some (s', r', k')" and fl: "filled k0 w re s r ?res s' r' k'"
    unfolding FillBuffProc_def r by fastforce
  have sh: "rd_shape s'" "\<not> eorStop s'" "strtype s' = strtype s"
    using fl by (auto simp: filled_def)
  have "rd_src k0 r0 re W E xs s' r' k' \<and> (isClosed s' \<or> rdNext s' < stop s')"
    using fl [unfolded filled_def]
  proof (elim conjE disjE exE)
    assume "fst ?res = []" "chan k0 (ipcFd r) (w @ fst (snd ?res)) k'" "ended re r (snd (snd ?res)) s' r' k'"
    moreover from this(3) have "isClosed s'" using E(2) unfolding E(3) [symmetric] by (rule ended_closed)
    ultimately show ?thesis using sh re E xs W r by (simp add: rd_src_def)
  next
    fix w3 c' w4
    assume a: "r' = r" "\<not> isClosed s'" "FCGI_errno s' = 0" "\<not> skip s'" "chan k0 (ipcFd r) (w @ w3) k'"
      "rx_error (rx k' (ipcFd r)) = re" "rdNext s' < stop s'" "stop s' \<le> buffStop s'"
      "fst ?res = pend s' @ c'" "fst (snd ?res) = w3 @ w4"
      "demux (dpar k0 re s r) (nat (contentLen s')) (nat (paddingLen s')) False (beyond s' r k')
        = (c', w4, snd (snd ?res))"
    have "dpar k0 re s' r0 = dpar k0 re s r" using sh r by (simp add: dpar_def)
    with a r E(3) have dm: "demux (dpar k0 re s' r0) (nat (contentLen s')) (nat (paddingLen s'))
        (skip s') (beyond s' r' k') = (c', w4, E)" by simp
    have "xs = pend s' @ c'" "W = (w @ w3) @ w4" using a xs W by simp_all
    with a(1-8) sh re E(1,2) r dm show ?thesis
      unfolding rd_src_def by simp
  qed
  with f sh show ?thesis by blast
qed

interpretation reader: byte_source FillBuffProc "rd_src k0 r0 re W E"
  for k0 r0 re W E
proof unfold_locales
  fix xs s r k
  assume "rd_src k0 r0 re W E xs s r k"
  then show "isReader s \<and>
      (if isClosed s then xs = [] else rdNext s \<le> stop s \<and> stop s \<le> length (buff s))"
    using rd_shape_bounds [of s] by (auto simp: rd_src_def)
next
  fix xs s r k n
  assume "rd_src k0 r0 re W E xs s r k" "\<not> isClosed s" "n \<le> stop s - rdNext s"
  then show "seg (rdNext s) (rdNext s + n) (buff s) = take n xs \<and> n \<le> length xs
    \<and> rd_src k0 r0 re W E (drop n xs) (s\<lparr>rdNext := rdNext s + n\<rparr>) r k"
    by (rule rd_src_consume)
next
  fix xs s r k u
  assume "rd_src k0 r0 re W E xs s r k"
  then show "rd_src k0 r0 re W E xs (s\<lparr>stopUnget := u\<rparr>) r k"
    by (cases E) (auto simp: rd_src_def left_def pend_def beyond_def dpar_def)
next
  fix xs s r k
  assume "rd_src k0 r0 re W E xs s r k" "\<not> isClosed s" "rdNext s = stop s"
  from rd_src_fill [OF this]
  show "\<exists>s' r' k'. FillBuffProc s r k = Some (s', r', k')
    \<and> rd_src k0 r0 re W E xs s' r' k' \<and> (isClosed s' \<or> rdNext s' < stop s')" by blast
qed

text \<open>
  Starting a stream: a fresh reader, or one whose previous stream has ended and whose type has
  been set, on a begun request.
\<close>

lemma on_begin_begun: "d_begun d \<Longrightarrow> on_begin d sk rid n p ys \<noteq> HStop (DBegin i b zs)"
  by (simp add: on_begin_def)

lemma on_get_values_begin: "on_get_values d sk n p ys \<noteq> HStop (DBegin i b zs)"
  by (simp add: on_get_values_def Let_def split: prod.split pairs_end.split option.split)

lemma demux_begun: "d_begun d \<Longrightarrow> snd (snd (demux d cl pl sk xs)) \<noteq> DBegin i b ys"
proof (induction d cl pl sk xs rule: demux.induct)
  case (1 d cl pl sk xs)
  show ?case
  proof (cases "0 < cl")
    case True
    with 1 show ?thesis by (subst demux.simps) auto
  next
    case c: False
    show ?thesis
    proof (cases "length xs < pl + 8 \<or> header_of (take 8 (drop pl xs)) = None")
      case True
      with c show ?thesis by (subst demux.simps) auto
    next
      case False
      then obtain h where h: "header_of (take 8 (drop pl xs)) = Some h" by auto
      have "on_header d sk h ys \<noteq> HStop (DBegin i b zs)" for ys zs
        using 1(3) on_begin_begun [of d] on_get_values_begin [of d]
        by (simp add: on_header_def Let_def split: option.split)
      moreover have "on_header d sk h (drop (pl + 8) xs) = HGo w n p sk' zs \<Longrightarrow>
          snd (snd (demux d n p sk' zs)) \<noteq> DBegin i b ys" for w n p sk' zs
        using 1(2) [OF c _ h] False 1(3) by auto
      ultimately show ?thesis
        using c False h by (subst demux.simps)
          (cases "on_header d sk h (drop (pl + 8) xs)", auto)
    qed
  qed
qed

lemma rd_src_start:
  assumes "rd_shape s" "\<not> eorStop s" "\<not> isClosed s" "FCGI_errno s = 0" "rdNext s = stop s"
    "contentLen s = 0" "paddingLen s = 0" "\<not> skip s" "fd_ok (ipcFd r) k" "wx_clean (wx k (ipcFd r))"
    "rx_error (rx k (ipcFd r)) = re" "re \<noteq> Some 0" "isBeginProcessed r"
    "demux (dpar k re s r) 0 0 False (left s r k) = (xs, W, E)" "E \<noteq> DFault"
  shows "rd_src k r re W E xs s r k"
proof -
  have "E \<noteq> DBegin i b ys" for i b ys
    using demux_begun [of "dpar k re s r" 0 0 False "left s r k" i b ys] assms(13,14) by simp
  moreover have "beyond s r k = left s r k" using assms(5) by (simp add: left_beyond)
  moreover have "stop s \<le> buffStop s" using rd_shape_bounds(2) [OF assms(1)] assms(5) by simp
  ultimately show ?thesis
    using assms chan_start [OF assms(9,10)]
    by (auto simp: rd_src_def pend_def intro!: exI [of _ "[]"])
qed

end
