(* ===== verification/Examples.thy ===== *)
theory Examples
  imports Source Closing
begin

text \<open>
  Concrete states for the witnesses: an operating system with one open descriptor, 5, whose
  read script is given, and requests on it.
\<close>

definition ex_os :: "rx_event list \<Rightarrow> tx_event list \<Rightarrow> os" where
  "ex_os rxs txs = \<lparr>errno = 0, open_fds = {5}, rx = (\<lambda>fd. if fd = 5 then rxs else []),
     wx = (\<lambda>fd. if fd = 5 then txs else []), tx = (\<lambda>fd. []), accq = [], lockq = [], selq = [], shutq = [],
     locks = {}, sigact = (\<lambda>_. SIG_DFL), peername = (\<lambda>_. 0), inet_addr = (\<lambda>_. 0), environ = (\<lambda>_. None), umem = (\<lambda>_. 0), pollq = [],
     junk = (\<lambda>i. 0xAA), malloc_at = (\<lambda>n. 0x1000), shutdownPending = False, shutdownNow = False,
     os_libInitialized = True, asyncIoInUse = False, asyncIoTableSize = 16, asyncIoTable = None,
     readFdSet = {}, writeFdSet = {}, readFdSetPost = {}, writeFdSetPost = {},
     numRdPosted = 0, numWrPosted = 0, maxFd = 0\<rparr>"

definition ex_req :: "FCGX_Request" where
  "ex_req = \<lparr>requestId = 1, role = 1, ipcFd = 5, isBeginProcessed = True, keepConnection = 0,
     appStatus = 0, nWriters = 1, flags = 0, listen_sock = 0, detached = False\<rparr>"

lemma ex_os_sel [simp]:
  "fd_ok 5 (ex_os rxs txs)" "rx (ex_os rxs txs) 5 = rxs" "wx (ex_os rxs txs) 5 = txs"
  "tx (ex_os rxs txs) fd = []" "junk (ex_os rxs txs) = (\<lambda>i. 0xAA)" "errno (ex_os rxs txs) = 0"
  by (simp_all add: ex_os_def fd_ok_def)

lemma ex_os_malloc [simp]: "malloc_fits (ex_os rxs txs)"
  by (simp add: ex_os_def malloc_fits_def)

lemma ex_req_sel [simp]:
  "requestId ex_req = 1" "ipcFd ex_req = 5" "isBeginProcessed ex_req" "nWriters ex_req = 1"
  "appStatus ex_req = 0"
  by (simp_all add: ex_req_def)

end
