(* ===== verification/Connections.thy ===== *)
theory Connections
  imports Accepting Examples
begin

text \<open>
  The properties of \<open>os_unix.c\<close>'s connections: which one \<open>OS_Accept\<close> returns and what it leaves alone, the
  case in which it never returns, the list of allowed web servers, and closing.
\<close>

text \<open>
  C7: \<open>OS_Accept\<close> refines \<open>next_conn\<close>: interrupted calls, connections lost before they were accepted, peers
  that are not allowed and local peers that do not write are skipped, and skipped connections are
  closed; the first other one is returned, or the error that ends the search; either way the lock is
  released and no descriptor besides the result has been opened, closed or used.
\<close>

theorem accept_refines:
  assumes "\<not> shutdownPending k" "lockq k = []"
  shows "accept_outcome ls k
     (next_conn f (\<lambda>a. ClientAddrOK (inet_addr k) a addrs) (open_fds k) (accq k) (selq k))
     (OS_Accept ls f addrs k)"
  using assms by (rule OS_Accept_next)

lemma accept_refines_witness:
  "\<exists>k'. OS_Accept 0 False None ((ex_os [] [])\<lparr>accq := [AccErr EINTR False, AccErr 103 False, AccOk 6 AF_UNIX 0 [] [],
       AccOk 8 AF_UNIX 0 [Data [1]] []], selq := [0, 1]\<rparr>) = Some (8, k') \<and> open_fds k' = {5, 8} \<and> 0 \<notin> locks k'"
  (is "\<exists>k'. OS_Accept 0 False None ?k = _ \<and> _ \<and> _")
proof -
  have "next_conn False (\<lambda>a. ClientAddrOK (inet_addr ?k) a None) (open_fds ?k) (accq ?k) (selq ?k)
      = Some (Conn 8 [Data [1]] [], [], [])"
    by (simp add: ex_os_def is_reasonable_accept_errno_def)
  with accept_refines [of ?k 0 False None] have "\<exists>k'. OS_Accept 0 False None ?k = Some (8, k')
      \<and> accept_frame 0 ?k k' \<and> open_fds k' = insert 8 (open_fds ?k)"
    by (simp add: ex_os_def) blast
  moreover have "accept_frame 0 ?k k' \<Longrightarrow> 0 \<notin> locks k'" for k' by (simp add: accept_frame_def)
  moreover have "insert 8 (open_fds ?k) = {5, 8}" by (auto simp: ex_os_def)
  ultimately show ?thesis by metis
qed

text \<open>
  C19: when a shutdown becomes pending while \<open>OS_Accept\<close> still holds, in \<open>socket\<close>, the descriptor of a local
  connection it has closed, the call never returns: every turn skips \<open>accept\<close>, finds the peer not
  writing, closes the descriptor again and takes the lock again.
\<close>

theorem accept_spins:
  assumes "shutdownPending k" "0 \<le> fd" "fd \<notin> open_fds k" "lockq k = []"
  shows "Accept_outer ls f addrs fd (Some (AF_UNIX, a)) k = None"
  using Accept_outer_spins [of ls f addrs fd a k] assms
  by (cases "Accept_outer ls f addrs fd (Some (AF_UNIX, a)) k") auto

lemma accept_spins_witness:
  "Accept_outer 0 False None 6 (Some (AF_UNIX, 0)) ((ex_os [] [])\<lparr>shutdownPending := True\<rparr>) = None"
  using accept_spins [of "(ex_os [] [])\<lparr>shutdownPending := True\<rparr>" 6] by (simp add: ex_os_def)

text \<open>
  The list of web servers allows exactly the addresses of the names between its commas.
\<close>

theorem client_list:
  assumes "list_all (\<lambda>n. 44 \<notin> set n \<and> 0 \<notin> set n) ns" "joined ns \<noteq> []"
  shows "ClientAddrOK inet a (Some (joined ns @ [0])) \<longleftrightarrow> a \<in> inet ` set ns"
proof -
  have "0 \<notin> set (joined ns)" using assms(1) by (induction ns rule: joined.induct) auto
  moreover have "list_all (\<lambda>n. 44 \<notin> set n) ns" using assms(1) by (simp add: list_all_iff)
  moreover have "ns \<noteq> []" using assms(2) by auto
  ultimately show ?thesis
    using assms(2) ClientAddr_loop_joined [of ns inet a] by (simp add: ClientAddrOK_def)
qed

lemma client_list_witness: "ClientAddrOK (\<lambda>n. of_nat (length n)) 3 (Some ([49, 44, 49, 50, 51] @ [0]))
    \<and> \<not> ClientAddrOK (\<lambda>n. of_nat (length n)) 2 (Some ([49, 44, 49, 50, 51] @ [0]))"
  using client_list [of "[[49], [49, 50, 51]]" "\<lambda>n. of_nat (length n)" 3]
    client_list [of "[[49], [49, 50, 51]]" "\<lambda>n. of_nat (length n)" 2] by simp

text \<open>
  C24: closing an open descriptor ends, closes just this one, and leaves every other descriptor and what has been sent
  on all of them alone. Unless it may not shut the connection down, or cannot, it first reads what the client still sends: all of it, up to the
  end of file or a failure, if the descriptor is readable every time, with one wait of up to two seconds for every read,
  however many these are; otherwise up to the first wait that ends without. What a client sends is a finite script: nothing
  but the end of it bounds the number of reads.
\<close>

theorem os_close:
  assumes "fd \<in> open_fds k" "0 \<le> fd" "fd < 1024" "\<not> asyncIoInUse k"
  shows "\<exists>v k'. OS_Close fd b k = Some (v, k') \<and> open_fds k' = open_fds k - {fd} \<and> tx k' = tx k \<and> wx k' = wx k
    \<and> (\<forall>fd'. fd' \<noteq> fd \<longrightarrow> rx k' fd' = rx k fd')
    \<and> (if \<not> b \<or> fst (sys_shutdown fd k) \<noteq> 0 then rx k' fd = rx k fd \<and> selq k' = selq k
       else if list_all ((<) 0) (take (reads_of (rx k fd)) (selq k))
       then rx k' fd = rx_rest (rx k fd) \<and> selq k' = drop (reads_of (rx k fd)) (selq k)
       else selq k' = tl (dropWhile ((<) 0) (selq k)))"
proof -
  from OS_Close_ok [OF assms, of b] obtain k1 where
    1: "OS_Close fd b k = Some (0, k1\<lparr>open_fds := open_fds k - {fd}, locks := locks k - {fd}\<rparr>)" "close_frame fd k k1"
      "close_reads fd b k k1" by blast
  moreover from this(2) have "tx k1 = tx k" "wx k1 = wx k" "\<forall>fd'. fd' \<noteq> fd \<longrightarrow> rx k1 fd' = rx k fd'"
    unfolding close_frame_def by (cases k, cases k1, simp)+
  ultimately show ?thesis by (auto simp: close_reads_def)
qed

lemma os_close_witness:
  "\<exists>v k'. OS_Close 5 True ((ex_os [Data [1, 2], Data [3], Data [], Data [4]] [])\<lparr>selq := [1, 1]\<rparr>) = Some (v, k')
    \<and> open_fds k' = {} \<and> rx k' 5 = [Data [4]]"
proof -
  let ?k = "(ex_os [Data [1, 2], Data [3], Data [], Data [4]] [])\<lparr>selq := [1, 1]\<rparr>"
  have "fst (sys_shutdown 5 ?k) = 0" "list_all ((<) 0) (take (reads_of (rx ?k 5)) (selq ?k))"
    by (simp_all add: sys_shutdown_def ex_os_def)
  with os_close [of 5 ?k True] show ?thesis by (simp add: ex_os_def) blast
qed

end
