(* ===== verification/Async.thy ===== *)
theory Async
  imports OsUnix
begin

text \<open>
  Asynchronous input and output of \<open>os_unix.c\<close>: the table of outstanding operations
  (\<open>GrowAsyncTable\<close>, \<open>OS_AsyncReadStdin\<close>, \<open>OS_AsyncRead\<close>, \<open>OS_AsyncWrite\<close>, \<open>OS_CloseRead\<close>) and
  \<open>OS_DoIo\<close>, which waits for descriptors, performs the operations that can go on and calls the
  procedures they were posted with.

  What the callbacks do is the client's: \<open>run\<close> is a parameter, from the number of the procedure, its
  client data and the result of the operation to a change of the client's state and of the library's.
  A callback may post operations and close descriptors. The locale \<open>aio_client\<close> states what \<open>OS_DoIo\<close>
  needs of it.
\<close>

section \<open>Code\<close>

type_synonym 's callback = "nat \<Rightarrow> nat \<Rightarrow> int \<Rightarrow> 's \<times> os \<Rightarrow> ('s \<times> os) option"

definition FD_ISSET :: "int \<Rightarrow> int set \<Rightarrow> bool option" where
  "FD_ISSET fd fds = (if 0 \<le> fd \<and> fd < 1024 then Some (fd \<in> fds) else None)"

text \<open>
  \<open>realloc\<close> of a null pointer would leave the old half of the table uninitialised, and when the table
  cannot grow the process exits.
\<close>

definition GrowAsyncTable :: "os \<Rightarrow> os option" where
  "GrowAsyncTable k =
     do { let oldTableSize = asyncIoTableSize k;
          size \<leftarrow> int_checked (asyncIoTableSize k * 2);
          t \<leftarrow> asyncIoTable k;
          ASSERT (malloc_at k (size * 48) \<noteq> 0);
          Some (k\<lparr>asyncIoTableSize := size,
                  asyncIoTable := Some (t @ replicate (nat oldTableSize) zero_aio)\<rparr>) }"

partial_function (option) Grow_until :: "int \<Rightarrow> os \<Rightarrow> os option" where
  "Grow_until index k =
     (if index \<ge> asyncIoTableSize k then do { k \<leftarrow> GrowAsyncTable k; Grow_until index k } else Some k)"

declare Grow_until.simps [code]

definition aio_post :: "int \<Rightarrow> nat \<Rightarrow> nat \<Rightarrow> int \<Rightarrow> int \<Rightarrow> int \<Rightarrow> nat \<Rightarrow> os \<Rightarrow> os option" where
  "aio_post index proc cdata fd len offset buf k =
     do { a \<leftarrow> aio_get index k;
          ASSERT (\<not> inUse a);
          aio_put index \<lparr>procPtr = Some proc, clientData = cdata, aio_fd = fd, aio_len = len,
            aio_offset = offset, aio_buf = buf, inUse = True\<rparr> k }"

definition OS_AsyncReadStdin :: "nat \<Rightarrow> int \<Rightarrow> nat \<Rightarrow> nat \<Rightarrow> os \<Rightarrow> (int \<times> os) option" where
  "OS_AsyncReadStdin buf len proc cdata k =
     do { let k = k\<lparr>asyncIoInUse := True\<rparr>;
          k \<leftarrow> aio_post (AIO_RD_IX 0) proc cdata 0 len 0 buf k;
          fds \<leftarrow> FD_SET 0 (readFdSet k);
          let k = k\<lparr>readFdSet := fds\<rparr>;
          Some (0, if 0 > maxFd k then k\<lparr>maxFd := 0\<rparr> else k) }"

definition OS_AsyncRead :: "int \<Rightarrow> int \<Rightarrow> nat \<Rightarrow> int \<Rightarrow> nat \<Rightarrow> nat \<Rightarrow> os \<Rightarrow> (int \<times> os) option" where
  "OS_AsyncRead fd offset buf len proc cdata k =
     do { index \<leftarrow> int_checked (AIO_RD_IX fd);
          ASSERT (asyncIoTable k \<noteq> None);
          let k = k\<lparr>asyncIoInUse := True\<rparr>;
          let k = (if fd > maxFd k then k\<lparr>maxFd := fd\<rparr> else k);
          k \<leftarrow> Grow_until index k;
          k \<leftarrow> aio_post index proc cdata fd len offset buf k;
          fds \<leftarrow> FD_SET fd (readFdSet k);
          Some (0, k\<lparr>readFdSet := fds\<rparr>) }"

definition OS_AsyncWrite :: "int \<Rightarrow> int \<Rightarrow> nat \<Rightarrow> int \<Rightarrow> nat \<Rightarrow> nat \<Rightarrow> os \<Rightarrow> (int \<times> os) option" where
  "OS_AsyncWrite fd offset buf len proc cdata k =
     do { index \<leftarrow> int_checked (AIO_WR_IX fd);
          let k = k\<lparr>asyncIoInUse := True\<rparr>;
          let k = (if fd > maxFd k then k\<lparr>maxFd := fd\<rparr> else k);
          k \<leftarrow> Grow_until index k;
          k \<leftarrow> aio_post index proc cdata fd len offset buf k;
          fds \<leftarrow> FD_SET fd (writeFdSet k);
          Some (0, k\<lparr>writeFdSet := fds\<rparr>) }"

definition OS_CloseRead :: "int \<Rightarrow> os \<Rightarrow> (int \<times> os) option" where
  "OS_CloseRead fd k =
     do { a \<leftarrow> aio_get (AIO_RD_IX fd) k;
          k \<leftarrow> (if inUse a then
                  do { k \<leftarrow> aio_put (AIO_RD_IX fd) (a\<lparr>inUse := False\<rparr>) k;
                       fds \<leftarrow> FD_CLR fd (readFdSet k);
                       Some (k\<lparr>readFdSet := fds\<rparr>) }
                else Some k);
          Some (sys_shutdown fd k) }"

text \<open>
  \<open>select\<close> on a set to read and a set to write: a failing call, a descriptor that is not open, or the
  descriptors that are ready; an exhausted script is a timeout.
\<close>

definition sys_poll :: "int set \<Rightarrow> int set \<Rightarrow> os \<Rightarrow> int \<times> int set \<times> int set \<times> os" where
  "sys_poll rd wr k =
     (if \<not> rd \<union> wr \<subseteq> open_fds k then (-1, rd, wr, k\<lparr>errno := EBADF\<rparr>)
      else case pollq k of
        [] \<Rightarrow> (0, {}, {}, k)
      | (e, a, b) # q \<Rightarrow>
          if e < 0 then (-1, rd, wr, k\<lparr>pollq := q, errno := - e\<rparr>)
          else (int (card (rd \<inter> a) + card (wr \<inter> b)), rd \<inter> a, wr \<inter> b, k\<lparr>pollq := q\<rparr>))"

text \<open>The first loop of \<open>OS_DoIo\<close>, over the descriptors up to \<open>maxFd\<close>: the sets to wait for.\<close>

fun DoIo_copy :: "int list \<Rightarrow> os \<Rightarrow> int set \<Rightarrow> int set \<Rightarrow> (int set \<times> int set) option" where
  "DoIo_copy [] k rd wr = Some (rd, wr)"
| "DoIo_copy (fd # fds) k rd wr =
     do { b \<leftarrow> FD_ISSET fd (readFdSet k);
          rd \<leftarrow> (if b then FD_SET fd rd else Some rd);
          b \<leftarrow> FD_ISSET fd (writeFdSet k);
          wr \<leftarrow> (if b then FD_SET fd wr else Some wr);
          DoIo_copy fds k rd wr }"

text \<open>The second: the operations that can go on are taken off the sets and posted.\<close>

fun DoIo_collect :: "int list \<Rightarrow> int set \<Rightarrow> int set \<Rightarrow> os \<Rightarrow> os option" where
  "DoIo_collect [] rd wr k = Some k"
| "DoIo_collect (fd # fds) rd wr k =
     do { b \<leftarrow> FD_ISSET fd rd;
          k \<leftarrow> (if b then
                  do { n \<leftarrow> int_checked (numRdPosted k + 1);
                       post \<leftarrow> FD_SET fd (readFdSetPost k);
                       rest \<leftarrow> FD_CLR fd (readFdSet k);
                       Some (k\<lparr>numRdPosted := n, readFdSetPost := post, readFdSet := rest\<rparr>) }
                else Some k);
          b \<leftarrow> FD_ISSET fd wr;
          k \<leftarrow> (if b then
                  do { n \<leftarrow> int_checked (numWrPosted k + 1);
                       post \<leftarrow> FD_SET fd (writeFdSetPost k);
                       rest \<leftarrow> FD_CLR fd (writeFdSet k);
                       Some (k\<lparr>numWrPosted := n, writeFdSetPost := post, writeFdSet := rest\<rparr>) }
                else Some k);
          DoIo_collect fds rd wr k }"

text \<open>
  The third: each posted operation whose entry is in use is performed and its callback called. A
  negative length would be taken for a huge one.
\<close>

definition DoIo_read :: "'s callback \<Rightarrow> int \<Rightarrow> 's \<times> os \<Rightarrow> ('s \<times> os) option" where
  "DoIo_read run fd sk =
     do { let (s, k) = sk;
          b \<leftarrow> FD_ISSET fd (readFdSetPost k);
          a \<leftarrow> (if b then map_option Some (aio_get (AIO_RD_IX fd) k) else Some None);
          case a of
            None \<Rightarrow> Some (s, k)
          | Some a \<Rightarrow>
              if \<not> inUse a then Some (s, k)
              else
                do { n \<leftarrow> int_checked (numRdPosted k - 1);
                     post \<leftarrow> FD_CLR fd (readFdSetPost k);
                     let k = k\<lparr>numRdPosted := n, readFdSetPost := post\<rparr>;
                     ASSERT (0 \<le> aio_len a);
                     let (len, bs, k) = sys_read (aio_fd a) (nat (aio_len a)) k;
                     let k = k\<lparr>umem := (\<lambda>x. if aio_buf a \<le> x \<and> x < aio_buf a + length bs
                                          then bs ! (x - aio_buf a) else umem k x)\<rparr>;
                     k \<leftarrow> aio_put (AIO_RD_IX fd) (a\<lparr>procPtr := None, inUse := False\<rparr>) k;
                     p \<leftarrow> procPtr a;
                     run p (clientData a) len (s, k) } }"

definition DoIo_write :: "'s callback \<Rightarrow> int \<Rightarrow> 's \<times> os \<Rightarrow> ('s \<times> os) option" where
  "DoIo_write run fd sk =
     do { let (s, k) = sk;
          b \<leftarrow> FD_ISSET fd (writeFdSetPost k);
          a \<leftarrow> (if b then map_option Some (aio_get (AIO_WR_IX fd) k) else Some None);
          case a of
            None \<Rightarrow> Some (s, k)
          | Some a \<Rightarrow>
              if \<not> inUse a then Some (s, k)
              else
                do { n \<leftarrow> int_checked (numWrPosted k - 1);
                     post \<leftarrow> FD_CLR fd (writeFdSetPost k);
                     let k = k\<lparr>numWrPosted := n, writeFdSetPost := post\<rparr>;
                     ASSERT (0 \<le> aio_len a);
                     let bs = map (umem k) [aio_buf a ..< aio_buf a + nat (aio_len a)];
                     let (len, k) = sys_write (aio_fd a) bs k;
                     k \<leftarrow> aio_put (AIO_WR_IX fd) (a\<lparr>procPtr := None, inUse := False\<rparr>) k;
                     p \<leftarrow> procPtr a;
                     run p (clientData a) len (s, k) } }"

partial_function (option) DoIo_dispatch :: "'s callback \<Rightarrow> int \<Rightarrow> 's \<times> os \<Rightarrow> ('s \<times> os) option" where
  "DoIo_dispatch run fd sk =
     (if fd \<le> maxFd (snd sk) then
        do { sk \<leftarrow> DoIo_read run fd sk;
             sk \<leftarrow> DoIo_write run fd sk;
             DoIo_dispatch run (fd + 1) sk }
      else Some sk)"

declare DoIo_dispatch.simps [code]

text \<open>A failing \<open>select\<close> ends the process.\<close>

definition OS_DoIo :: "'s callback \<Rightarrow> 's \<times> os \<Rightarrow> (int \<times> 's \<times> os) option" where
  "OS_DoIo run sk =
     do { let (s, k) = sk;
          let k = k\<lparr>asyncIoInUse := True\<rparr>;
          (rd, wr) \<leftarrow> DoIo_copy [0 .. maxFd k] k {} {};
          k \<leftarrow> (if numRdPosted k = 0 \<and> numWrPosted k = 0 then
                  let (selectStatus, rd, wr, k) = sys_poll rd wr k in
                  if selectStatus < 0 then None else DoIo_collect [0 .. maxFd k] rd wr k
                else Some k);
          if numRdPosted k = 0 \<and> numWrPosted k = 0 then Some (0, s, k)
          else do { (s, k) \<leftarrow> DoIo_dispatch run 0 (s, k); Some (0, s, k) } }"


section \<open>The invariant of the table\<close>

definition rd_pending :: "os \<Rightarrow> int set" where
  "rd_pending k = readFdSet k \<union> readFdSetPost k"

definition wr_pending :: "os \<Rightarrow> int set" where
  "wr_pending k = writeFdSet k \<union> writeFdSetPost k"

definition pending_ix :: "os \<Rightarrow> nat \<Rightarrow> bool" where
  "pending_ix k i \<longleftrightarrow> int (i div 2) \<in> (if even i then rd_pending k else wr_pending k)"

definition entry_ok :: "nat \<Rightarrow> AioInfo \<Rightarrow> bool" where
  "entry_ok i a \<longleftrightarrow> aio_fd a = int (i div 2) \<and> procPtr a \<noteq> None \<and> 0 \<le> aio_len a"

text \<open>
  The entries in use are those of the descriptors waited for or posted, the counters count the posted
  ones, and the table is large enough for all.
\<close>

definition table_ok :: "os \<Rightarrow> AioInfo list \<Rightarrow> bool" where
  "table_ok k t \<longleftrightarrow> int (length t) = asyncIoTableSize k \<and> 16 \<le> length t \<and> length t \<le> 4096 \<and> even (length t)
     \<and> (\<forall>i. pending_ix k i \<longrightarrow> i < length t)
     \<and> (\<forall>i < length t. (inUse (t ! i) \<longleftrightarrow> pending_ix k i) \<and> (inUse (t ! i) \<longrightarrow> entry_ok i (t ! i)))"

definition sets_ok :: "os \<Rightarrow> bool" where
  "sets_ok k \<longleftrightarrow> maxFd k < 1024 \<and> rd_pending k \<union> wr_pending k \<subseteq> {0 .. maxFd k}
     \<and> readFdSet k \<inter> readFdSetPost k = {} \<and> writeFdSet k \<inter> writeFdSetPost k = {}
     \<and> numRdPosted k = int (card (readFdSetPost k)) \<and> numWrPosted k = int (card (writeFdSetPost k))"

definition aio_inv :: "os \<Rightarrow> bool" where
  "aio_inv k \<longleftrightarrow> (\<forall>n. malloc_at k n \<noteq> 0) \<and> sets_ok k \<and> (\<exists>t. asyncIoTable k = Some t \<and> table_ok k t)"

lemma pending_ix_RD [simp]: "0 \<le> fd \<Longrightarrow> pending_ix k (nat (AIO_RD_IX fd)) \<longleftrightarrow> fd \<in> rd_pending k"
  by (simp add: pending_ix_def AIO_RD_IX_def nat_mult_distrib)

lemma pending_ix_WR [simp]: "0 \<le> fd \<Longrightarrow> pending_ix k (nat (AIO_WR_IX fd)) \<longleftrightarrow> fd \<in> wr_pending k"
proof -
  assume fd: "0 \<le> fd"
  then have "nat (AIO_WR_IX fd) = Suc (nat fd * 2)" by (simp add: AIO_WR_IX_def nat_add_distrib nat_mult_distrib)
  with fd show ?thesis by (simp add: pending_ix_def)
qed

lemma ix_cases: "i = nat (AIO_RD_IX (int (i div 2))) \<or> i = nat (AIO_WR_IX (int (i div 2)))"
proof -
  have "int i = 2 * int (i div 2) \<or> int i = 2 * int (i div 2) + 1" by linarith
  then show ?thesis by (auto simp: AIO_RD_IX_def AIO_WR_IX_def)
qed

lemma ix_neq: "0 \<le> fd \<Longrightarrow> 0 \<le> fd' \<Longrightarrow> nat (AIO_RD_IX fd) \<noteq> nat (AIO_WR_IX fd')"
  unfolding AIO_RD_IX_def AIO_WR_IX_def by (simp add: nat_eq_iff) presburger

lemma aio_put_get:
  assumes "asyncIoTable k = Some t" "0 \<le> ix" "nat ix < length t"
  shows "aio_get ix k = Some (t ! nat ix)" "aio_put ix a k = Some (k\<lparr>asyncIoTable := Some (t[nat ix := a])\<rparr>)"
  using assms by (simp_all add: aio_get_def aio_put_def memwrite_def upd_conv_take_nth_drop)

text \<open>The table grows until it has the entry, and stays as it was otherwise.\<close>

definition grown :: "os \<Rightarrow> os \<Rightarrow> bool" where
  "grown k k' \<longleftrightarrow> (\<exists>n sz. k' = k\<lparr>asyncIoTableSize := sz,
     asyncIoTable := map_option (\<lambda>t. t @ replicate n zero_aio) (asyncIoTable k)\<rparr>)"

lemma table_ok_grow:
  assumes "table_ok k t" "length t \<le> 2048"
  shows "table_ok (k\<lparr>asyncIoTableSize := asyncIoTableSize k * 2, asyncIoTable := x\<rparr>) (t @ replicate (length t) zero_aio)"
proof -
  have "pending_ix (k\<lparr>asyncIoTableSize := asyncIoTableSize k * 2, asyncIoTable := x\<rparr>) = pending_ix k"
    by (intro ext) (simp add: pending_ix_def rd_pending_def wr_pending_def)
  with assms show ?thesis
    by (auto simp: table_ok_def nth_append zero_aio_def)
qed

lemma Grow_until_ok:
  assumes "aio_inv k" "index < 2048"
  shows "\<exists>k'. Grow_until index k = Some k' \<and> aio_inv k' \<and> grown k k' \<and> index < asyncIoTableSize k'"
  using assms(1)
proof (induction "nat (4096 - asyncIoTableSize k)" arbitrary: k rule: less_induct)
  case less
  from less.prems obtain t where t: "asyncIoTable k = Some t" "table_ok k t" "\<forall>n. malloc_at k n \<noteq> 0" "sets_ok k"
    by (auto simp: aio_inv_def)
  then have sz: "asyncIoTableSize k = int (length t)" "16 \<le> length t" by (auto simp: table_ok_def)
  show ?case
  proof (cases "index \<ge> asyncIoTableSize k")
    case False
    with less.prems show ?thesis
      by (subst Grow_until.simps) (auto simp: grown_def t(1) intro!: exI [of _ 0] exI [of _ "asyncIoTableSize k"])
  next
    case True
    let ?k = "k\<lparr>asyncIoTableSize := asyncIoTableSize k * 2, asyncIoTable := Some (t @ replicate (length t) zero_aio)\<rparr>"
    have l: "length t \<le> 2048" "t \<noteq> []" using True assms(2) sz by (linarith, cases t, auto)
    have g: "GrowAsyncTable k = Some ?k"
      using t sz l by (auto simp: GrowAsyncTable_def int_checked_def fits_int_def INT_MAX_def)
    have "sets_ok ?k" using t(4) by (simp add: sets_ok_def rd_pending_def wr_pending_def)
    then have i: "aio_inv ?k" using t(3) table_ok_grow [OF t(2) l(1)] by (simp add: aio_inv_def)
    have "nat (4096 - asyncIoTableSize ?k) < nat (4096 - asyncIoTableSize k)" using sz l by simp
    from less.hyps [OF this i] obtain k' where k': "Grow_until index ?k = Some k'" "aio_inv k'" "grown ?k k'"
      "index < asyncIoTableSize k'" by blast
    moreover from k'(3) have "grown k k'"
      by (auto simp: grown_def t(1)) (metis replicate_add)
    ultimately show ?thesis using True g by (subst Grow_until.simps) simp
  qed
qed

text \<open>One entry changes hands: what remains to be checked.\<close>

lemma table_ok_update:
  assumes "table_ok k t" "i < length t" "asyncIoTableSize k' = asyncIoTableSize k"
    "\<And>j. j \<noteq> i \<Longrightarrow> pending_ix k' j = pending_ix k j" "inUse a = pending_ix k' i" "inUse a \<longrightarrow> entry_ok i a"
  shows "table_ok k' (t[i := a])"
  using assms unfolding table_ok_def by (metis length_list_update nth_list_update_eq nth_list_update_neq)


section \<open>Posting\<close>

lemma grown_sel:
  assumes "grown k k'"
  shows "readFdSet k' = readFdSet k" "readFdSetPost k' = readFdSetPost k" "writeFdSet k' = writeFdSet k"
    "writeFdSetPost k' = writeFdSetPost k" "rd_pending k' = rd_pending k" "wr_pending k' = wr_pending k"
    "numRdPosted k' = numRdPosted k" "numWrPosted k' = numWrPosted k" "maxFd k' = maxFd k"
    "malloc_at k' = malloc_at k"
  using assms by (auto simp: grown_def rd_pending_def wr_pending_def)

text \<open>What posting leaves alone: the posted operations with their entries.\<close>

definition post_frame :: "os \<Rightarrow> os \<Rightarrow> bool" where
  "post_frame k k' \<longleftrightarrow> readFdSetPost k' = readFdSetPost k \<and> writeFdSetPost k' = writeFdSetPost k
     \<and> (\<forall>fd \<in> readFdSetPost k. aio_get (AIO_RD_IX fd) k' = aio_get (AIO_RD_IX fd) k)
     \<and> (\<forall>fd \<in> writeFdSetPost k. aio_get (AIO_WR_IX fd) k' = aio_get (AIO_WR_IX fd) k)"

lemma post_frame_refl [simp]: "post_frame k k"
  by (simp add: post_frame_def)

lemma post_frame_trans: "post_frame k k' \<Longrightarrow> post_frame k' k'' \<Longrightarrow> post_frame k k''"
  by (auto simp: post_frame_def)

lemma aio_inv_table:
  assumes "aio_inv k" obtains t where "asyncIoTable k = Some t" "table_ok k t" "sets_ok k" "\<forall>n. malloc_at k n \<noteq> 0"
  using assms by (auto simp: aio_inv_def)

lemma aio_post_ok:
  assumes "aio_inv k" "0 \<le> ix" "nat ix < length (the (asyncIoTable k))" "\<not> pending_ix k (nat ix)"
  shows "\<exists>t. asyncIoTable k = Some t \<and> aio_post ix p c fd len off b k
    = Some (k\<lparr>asyncIoTable := Some (t[nat ix := \<lparr>procPtr = Some p, clientData = c, aio_fd = fd, aio_len = len,
        aio_offset = off, aio_buf = b, inUse = True\<rparr>])\<rparr>)"
proof -
  from aio_inv_table [OF assms(1)] obtain t where t: "asyncIoTable k = Some t" "table_ok k t" by blast
  with assms(3,4) have "\<not> inUse (t ! nat ix)" by (auto simp: table_ok_def)
  with t(1) assms(2,3) show ?thesis by (simp add: aio_post_def aio_put_get)
qed

lemma fd_index:
  assumes "0 \<le> fd" "fd < 1024"
  shows "int_checked (AIO_RD_IX fd) = Some (AIO_RD_IX fd)" "int_checked (AIO_WR_IX fd) = Some (AIO_WR_IX fd)"
    "AIO_RD_IX fd < 2048" "AIO_WR_IX fd < 2048" "0 \<le> AIO_RD_IX fd" "0 \<le> AIO_WR_IX fd"
  using assms by (simp_all add: int_checked_def fits_int_def INT_MAX_def AIO_RD_IX_def AIO_WR_IX_def)

lemma aio_start:
  assumes "aio_inv k" "fd < 1024"
  shows "aio_inv (let k = k\<lparr>asyncIoInUse := True\<rparr> in if fd > maxFd k then k\<lparr>maxFd := fd\<rparr> else k)" (is "aio_inv ?k")
proof -
  have eq: "rd_pending ?k = rd_pending k" "wr_pending ?k = wr_pending k" "pending_ix ?k = pending_ix k"
    "asyncIoTable ?k = asyncIoTable k" "malloc_at ?k = malloc_at k" "asyncIoTableSize ?k = asyncIoTableSize k"
    by (auto simp: Let_def rd_pending_def wr_pending_def pending_ix_def fun_eq_iff)
  from assms have "sets_ok ?k" by (auto simp: aio_inv_def sets_ok_def rd_pending_def wr_pending_def Let_def)
  with assms(1) eq show ?thesis by (simp add: aio_inv_def table_ok_def)
qed

lemma posted_ix:
  assumes "sets_ok k"
  shows "fd \<in> readFdSetPost k \<Longrightarrow> 0 \<le> fd \<and> pending_ix k (nat (AIO_RD_IX fd)) \<and> 0 \<le> AIO_RD_IX fd"
    "fd \<in> writeFdSetPost k \<Longrightarrow> 0 \<le> fd \<and> pending_ix k (nat (AIO_WR_IX fd)) \<and> 0 \<le> AIO_WR_IX fd"
proof -
  have n: "fd \<in> readFdSetPost k \<or> fd \<in> writeFdSetPost k \<Longrightarrow> 0 \<le> fd"
    using assms by (auto simp: sets_ok_def rd_pending_def wr_pending_def)
  then show "fd \<in> readFdSetPost k \<Longrightarrow> 0 \<le> fd \<and> pending_ix k (nat (AIO_RD_IX fd)) \<and> 0 \<le> AIO_RD_IX fd"
    "fd \<in> writeFdSetPost k \<Longrightarrow> 0 \<le> fd \<and> pending_ix k (nat (AIO_WR_IX fd)) \<and> 0 \<le> AIO_WR_IX fd"
    by (simp_all add: rd_pending_def wr_pending_def) (simp_all add: AIO_RD_IX_def AIO_WR_IX_def)
qed

lemma grown_frame:
  assumes "aio_inv k" "grown k k'"
  shows "post_frame k k'"
proof -
  from aio_inv_table [OF assms(1)] obtain t where t: "asyncIoTable k = Some t" "table_ok k t" "sets_ok k" by blast
  from assms(2) t(1) obtain n where t': "asyncIoTable k' = Some (t @ replicate n zero_aio)"
    by (auto simp: grown_def)
  have "aio_get ix k' = aio_get ix k" if "pending_ix k (nat ix)" for ix
    using that t(2) t' by (auto simp: aio_get_def t(1) table_ok_def deref_def nth_append)
  with posted_ix [OF t(3)] grown_sel(2,4) [OF assms(2)] show ?thesis unfolding post_frame_def by blast
qed

lemma update_frame:
  assumes "sets_ok k" "asyncIoTable k = Some t" "\<not> pending_ix k i" "asyncIoTable k' = Some (t[i := a])"
    "readFdSetPost k' = readFdSetPost k" "writeFdSetPost k' = writeFdSetPost k"
  shows "post_frame k k'"
proof -
  have "aio_get ix k' = aio_get ix k" if "pending_ix k (nat ix)" for ix
  proof -
    have "nat ix \<noteq> i" using that assms(3) by auto
    then show ?thesis by (simp add: aio_get_def assms(2,4) deref_def)
  qed
  with posted_ix [OF assms(1)] assms(5,6) show ?thesis unfolding post_frame_def by blast
qed

text \<open>The common part of posting: room for the entry is made and the entry is filled in.\<close>

abbreviation (input) aio_begin :: "int \<Rightarrow> os \<Rightarrow> os" where
  "aio_begin fd k \<equiv> (let k = k\<lparr>asyncIoInUse := True\<rparr> in if fd > maxFd k then k\<lparr>maxFd := fd\<rparr> else k)"

abbreviation (input) aio_new :: "nat \<Rightarrow> nat \<Rightarrow> int \<Rightarrow> int \<Rightarrow> int \<Rightarrow> nat \<Rightarrow> AioInfo" where
  "aio_new p c fd len off b \<equiv> \<lparr>procPtr = Some p, clientData = c, aio_fd = fd, aio_len = len, aio_offset = off,
     aio_buf = b, inUse = True\<rparr>"

lemma aio_grow_post:
  assumes "aio_inv k" "fd < 1024" "0 \<le> ix" "ix < 2048" "\<not> pending_ix k (nat ix)"
  shows "\<exists>k1 t. Grow_until ix (aio_begin fd k) = Some k1
    \<and> aio_post ix p c fd len off b k1 = Some (k1\<lparr>asyncIoTable := Some (t[nat ix := aio_new p c fd len off b])\<rparr>)
    \<and> asyncIoTable k1 = Some t \<and> table_ok k1 t \<and> sets_ok k1 \<and> nat ix < length t \<and> fd \<le> maxFd k1
    \<and> (\<forall>n. malloc_at k1 n \<noteq> 0) \<and> post_frame k k1 \<and> pending_ix k1 = pending_ix k
    \<and> rd_pending k1 = rd_pending k \<and> wr_pending k1 = wr_pending k"
proof -
  have k: "aio_inv (aio_begin fd k)" by (rule aio_start [OF assms(1,2)])
  have eq: "rd_pending (aio_begin fd k) = rd_pending k" "wr_pending (aio_begin fd k) = wr_pending k"
    "post_frame k (aio_begin fd k)" "fd \<le> maxFd (aio_begin fd k)"
    by (auto simp: Let_def rd_pending_def wr_pending_def post_frame_def aio_get_def)
  from Grow_until_ok [OF k assms(4)] obtain k1 where
    k1: "Grow_until ix (aio_begin fd k) = Some k1" "aio_inv k1" "grown (aio_begin fd k) k1" "ix < asyncIoTableSize k1"
    by blast
  note g = grown_sel [OF k1(3)]
  have pe: "pending_ix k1 = pending_ix k" unfolding pending_ix_def fun_eq_iff g(5,6) eq(1,2) by simp
  from aio_inv_table [OF k1(2)] obtain t where t: "asyncIoTable k1 = Some t" "table_ok k1 t" "sets_ok k1"
    "\<forall>n. malloc_at k1 n \<noteq> 0" .
  have i: "nat ix < length t" using t(2) k1(4) assms(3) by (auto simp: table_ok_def nat_less_iff)
  from aio_post_ok [OF k1(2) assms(3), of p c fd len off b] t(1) i pe assms(5) have
    "aio_post ix p c fd len off b k1 = Some (k1\<lparr>asyncIoTable := Some (t[nat ix := aio_new p c fd len off b])\<rparr>)"
    by auto
  moreover have "post_frame k k1" by (rule post_frame_trans [OF eq(3) grown_frame [OF k k1(3)]])
  ultimately show ?thesis using k1(1) t i pe g(5,6,9) eq by auto
qed

lemma aio_posted:
  assumes "asyncIoTable k1 = Some t" "table_ok k1 t" "sets_ok k1" "\<forall>n. malloc_at k1 n \<noteq> 0" "i < length t"
    "\<not> pending_ix k1 i" "inUse a" "entry_ok i a" "asyncIoTable k2 = Some (t[i := a])" "sets_ok k2"
    "\<And>j. pending_ix k2 j \<longleftrightarrow> j = i \<or> pending_ix k1 j" "asyncIoTableSize k2 = asyncIoTableSize k1"
    "malloc_at k2 = malloc_at k1" "readFdSetPost k2 = readFdSetPost k1" "writeFdSetPost k2 = writeFdSetPost k1"
  shows "aio_inv k2 \<and> post_frame k1 k2"
proof
  have "table_ok k2 (t[i := a])"
    by (rule table_ok_update [OF assms(2,5,12)]) (use assms(7,8,11) in auto)
  then show "aio_inv k2" using assms(4,9,10,13) by (simp add: aio_inv_def)
  show "post_frame k1 k2" by (rule update_frame [OF assms(3,1,6,9,14,15)])
qed

lemma OS_AsyncRead_ok:
  assumes "aio_inv k" "0 \<le> fd" "fd < 1024" "fd \<notin> rd_pending k" "0 \<le> len"
  shows "\<exists>k'. OS_AsyncRead fd off b len p c k = Some (0, k') \<and> aio_inv k' \<and> post_frame k k'
    \<and> rd_pending k' = insert fd (rd_pending k) \<and> wr_pending k' = wr_pending k"
proof -
  note ix = fd_index [OF assms(2,3)]
  from aio_grow_post [OF assms(1,3) ix(5,3), of p c len off b] assms(2,4) obtain k1 t where
    k1: "Grow_until (AIO_RD_IX fd) (aio_begin fd k) = Some k1"
      "aio_post (AIO_RD_IX fd) p c fd len off b k1
        = Some (k1\<lparr>asyncIoTable := Some (t[nat (AIO_RD_IX fd) := aio_new p c fd len off b])\<rparr>)"
    and t: "asyncIoTable k1 = Some t" "table_ok k1 t" "sets_ok k1" "\<forall>n. malloc_at k1 n \<noteq> 0"
      "nat (AIO_RD_IX fd) < length t"
    and fr: "post_frame k k1" "fd \<le> maxFd k1" and pe: "rd_pending k1 = rd_pending k" "wr_pending k1 = wr_pending k" by auto
  define k2 where "k2 = k1\<lparr>asyncIoTable := Some (t[nat (AIO_RD_IX fd) := aio_new p c fd len off b]),
    readFdSet := insert fd (readFdSet k1)\<rparr>"
  have run: "OS_AsyncRead fd off b len p c k = Some (0, k2)"
    using assms(1-3) k1 ix by (auto simp: OS_AsyncRead_def Let_def FD_SET_def k2_def aio_inv_def)
  have pend: "rd_pending k2 = insert fd (rd_pending k1)" "wr_pending k2 = wr_pending k1"
    by (auto simp: k2_def rd_pending_def wr_pending_def)
  have "sets_ok k2" using t(3) assms(2-4) fr(2) pe pend by (auto simp: sets_ok_def k2_def rd_pending_def)
  then have "aio_inv k2 \<and> post_frame k1 k2"
    using assms(2,4,5) pe pend
    by (intro aio_posted [OF t(1-5)])
      (auto simp: k2_def entry_ok_def pending_ix_def AIO_RD_IX_def nat_mult_distrib)
  then show ?thesis using run fr(1) pe pend by (auto intro: post_frame_trans)
qed

lemma OS_AsyncWrite_ok:
  assumes "aio_inv k" "0 \<le> fd" "fd < 1024" "fd \<notin> wr_pending k" "0 \<le> len"
  shows "\<exists>k'. OS_AsyncWrite fd off b len p c k = Some (0, k') \<and> aio_inv k' \<and> post_frame k k'
    \<and> rd_pending k' = rd_pending k \<and> wr_pending k' = insert fd (wr_pending k)"
proof -
  note ix = fd_index [OF assms(2,3)]
  from aio_grow_post [OF assms(1,3) ix(6,4), of p c len off b] assms(2,4) obtain k1 t where
    k1: "Grow_until (AIO_WR_IX fd) (aio_begin fd k) = Some k1"
      "aio_post (AIO_WR_IX fd) p c fd len off b k1
        = Some (k1\<lparr>asyncIoTable := Some (t[nat (AIO_WR_IX fd) := aio_new p c fd len off b])\<rparr>)"
    and t: "asyncIoTable k1 = Some t" "table_ok k1 t" "sets_ok k1" "\<forall>n. malloc_at k1 n \<noteq> 0"
      "nat (AIO_WR_IX fd) < length t"
    and fr: "post_frame k k1" "fd \<le> maxFd k1" and pe: "rd_pending k1 = rd_pending k" "wr_pending k1 = wr_pending k" by auto
  define k2 where "k2 = k1\<lparr>asyncIoTable := Some (t[nat (AIO_WR_IX fd) := aio_new p c fd len off b]),
    writeFdSet := insert fd (writeFdSet k1)\<rparr>"
  have run: "OS_AsyncWrite fd off b len p c k = Some (0, k2)"
    using assms(1-3) k1 ix by (auto simp: OS_AsyncWrite_def Let_def FD_SET_def k2_def aio_inv_def)
  have pend: "rd_pending k2 = rd_pending k1" "wr_pending k2 = insert fd (wr_pending k1)"
    by (auto simp: k2_def rd_pending_def wr_pending_def)
  have i: "nat (AIO_WR_IX fd) = Suc (nat fd * 2)"
    using assms(2) by (simp add: AIO_WR_IX_def nat_add_distrib nat_mult_distrib)
  have "sets_ok k2" using t(3) assms(2-4) fr(2) pe pend by (auto simp: sets_ok_def k2_def wr_pending_def)
  then have "aio_inv k2 \<and> post_frame k1 k2"
    using assms(2,4,5) pe pend
    by (intro aio_posted [OF t(1-5)]) (auto simp: k2_def entry_ok_def pending_ix_def i elim!: oddE)
  then show ?thesis using run fr(1) pe pend by (auto intro: post_frame_trans)
qed

section \<open>Performing the operations\<close>

text \<open>The part of the state that the table and the sets are in.\<close>

definition aio_part where
  "aio_part k = (asyncIoTable k, asyncIoTableSize k, (readFdSet k, writeFdSet k), (readFdSetPost k, writeFdSetPost k),
     (numRdPosted k, numWrPosted k), maxFd k, malloc_at k)"

lemma aio_part_inv: "aio_part k = aio_part k' \<Longrightarrow> aio_inv k = aio_inv k'"
  by (simp add: aio_part_def aio_inv_def sets_ok_def table_ok_def pending_ix_def rd_pending_def wr_pending_def)

lemma sys_read_part: "sys_read fd n k = (c, bs, k') \<Longrightarrow> aio_part k' = aio_part k"
  by (auto simp: sys_read_def aio_part_def split: if_splits list.splits rx_event.splits)

lemma sys_write_part: "sys_write fd bs k = (c, k') \<Longrightarrow> aio_part k' = aio_part k"
  by (auto simp: sys_write_def aio_part_def split: if_splits list.splits tx_event.splits)

text \<open>
  The operations that are due on a descriptor, as the procedure and client data they were posted with:
  the read before the write.
\<close>

definition aio_op :: "int \<Rightarrow> os \<Rightarrow> nat \<times> nat" where
  "aio_op index k = (let a = the (aio_get index k) in (the (procPtr a), clientData a))"

definition due_rd :: "int \<Rightarrow> os \<Rightarrow> (nat \<times> nat) list" where
  "due_rd fd k = (if fd \<in> readFdSetPost k then [aio_op (AIO_RD_IX fd) k] else [])"

definition due_wr :: "int \<Rightarrow> os \<Rightarrow> (nat \<times> nat) list" where
  "due_wr fd k = (if fd \<in> writeFdSetPost k then [aio_op (AIO_WR_IX fd) k] else [])"

definition due_from :: "int \<Rightarrow> os \<Rightarrow> (nat \<times> nat) list" where
  "due_from fd k = concat (map (\<lambda>fd. due_rd fd k @ due_wr fd k) [fd .. 1023])"

text \<open>What is left of the posted operations when some have been performed.\<close>

definition post_rest :: "int set \<Rightarrow> int set \<Rightarrow> os \<Rightarrow> os \<Rightarrow> bool" where
  "post_rest rd wr k k' \<longleftrightarrow> readFdSetPost k' = readFdSetPost k - rd \<and> writeFdSetPost k' = writeFdSetPost k - wr
     \<and> (\<forall>fd \<in> readFdSetPost k - rd. aio_get (AIO_RD_IX fd) k' = aio_get (AIO_RD_IX fd) k)
     \<and> (\<forall>fd \<in> writeFdSetPost k - wr. aio_get (AIO_WR_IX fd) k' = aio_get (AIO_WR_IX fd) k)"

lemma post_rest_frame: "post_rest rd wr k k1 \<Longrightarrow> post_frame k1 k2 \<Longrightarrow> post_rest rd wr k k2"
  by (auto simp: post_rest_def post_frame_def)

lemma post_rest_trans: "post_rest rd wr k k1 \<Longrightarrow> post_rest rd' wr' k1 k2 \<Longrightarrow> post_rest (rd \<union> rd') (wr \<union> wr') k k2"
  by (auto simp: post_rest_def)

lemma post_rest_due:
  assumes "post_rest rd wr k k'"
  shows "fd \<notin> rd \<Longrightarrow> due_rd fd k' = due_rd fd k" "fd \<notin> wr \<Longrightarrow> due_wr fd k' = due_wr fd k"
  using assms by (auto simp: post_rest_def due_rd_def due_wr_def aio_op_def)

lemma posted_count:
  assumes "sets_ok k"
  shows "finite (readFdSetPost k)" "finite (writeFdSetPost k)" "numRdPosted k \<le> 1024" "numWrPosted k \<le> 1024"
    "readFdSetPost k \<union> writeFdSetPost k \<subseteq> {0..1023}"
proof -
  have s: "readFdSetPost k \<union> writeFdSetPost k \<subseteq> {0..1023}"
    using assms by (auto simp: sets_ok_def rd_pending_def wr_pending_def)
  then show f: "finite (readFdSetPost k)" "finite (writeFdSetPost k)"
    by (auto intro: finite_subset [of _ "{0..1023}"])
  have "card (readFdSetPost k) \<le> 1024" "card (writeFdSetPost k) \<le> 1024"
    using s card_mono [of "{0..1023::int}" "readFdSetPost k"] card_mono [of "{0..1023::int}" "writeFdSetPost k"] by auto
  with assms show "numRdPosted k \<le> 1024" "numWrPosted k \<le> 1024" by (auto simp: sets_ok_def)
  show "readFdSetPost k \<union> writeFdSetPost k \<subseteq> {0..1023}" by (rule s)
qed

text \<open>Taking a performed operation off the table.\<close>

lemma aio_taken:
  assumes "aio_inv k" "asyncIoTable k = Some t" "pending_ix k i" "\<And>j. pending_ix k' j = (pending_ix k j \<and> j \<noteq> i)"
    "asyncIoTable k' = Some (t[i := a\<lparr>procPtr := None, inUse := False\<rparr>])"
    "asyncIoTableSize k' = asyncIoTableSize k" "malloc_at k' = malloc_at k" "sets_ok k'"
  shows "aio_inv k'" "nat ix \<noteq> i \<Longrightarrow> aio_get ix k' = aio_get ix k"
proof -
  from aio_inv_table [OF assms(1)] assms(2) have t: "table_ok k t" "\<forall>n. malloc_at k n \<noteq> 0" by auto
  then have i: "i < length t" using assms(3) by (simp add: table_ok_def)
  have "table_ok k' (t[i := a\<lparr>procPtr := None, inUse := False\<rparr>])"
    by (rule table_ok_update [OF t(1) i assms(6)]) (simp_all add: assms(4))
  then show "aio_inv k'" using t(2) assms(5,7,8) by (simp add: aio_inv_def)
  show "aio_get ix k' = aio_get ix k" if "nat ix \<noteq> i"
    using that assms(2,5) by (simp add: aio_get_def deref_def)
qed

lemma aio_performed_rd:
  assumes "aio_inv k" "fd \<in> readFdSetPost k" "asyncIoTable k = Some t"
    "k' = k\<lparr>numRdPosted := numRdPosted k - 1, readFdSetPost := readFdSetPost k - {fd},
      asyncIoTable := Some (t[nat (AIO_RD_IX fd) := a\<lparr>procPtr := None, inUse := False\<rparr>])\<rparr>"
  shows "aio_inv k'" "post_rest {fd} {} k k'"
proof -
  from assms(1) have so: "sets_ok k" by (simp add: aio_inv_def)
  note ix = posted_ix(1) [OF so assms(2)]
  have pend: "rd_pending k' = rd_pending k - {fd}" "wr_pending k' = wr_pending k"
    using so assms(2) by (auto simp: sets_ok_def rd_pending_def wr_pending_def assms(4))
  have i: "nat (AIO_RD_IX fd) = 2 * nat fd" using ix by (simp add: AIO_RD_IX_def nat_mult_distrib)
  have other: "pending_ix k' j = (pending_ix k j \<and> j \<noteq> nat (AIO_RD_IX fd))" for j
    unfolding pending_ix_def pend i using ix by auto
  have "0 < card (readFdSetPost k)" using assms(2) posted_count(1) [OF so] by (auto simp: card_gt_0_iff)
  then have "sets_ok k'"
    using so pend assms(2) posted_count(1) [OF so] by (auto simp: sets_ok_def assms(4) of_nat_diff)
  with aio_taken [OF assms(1,3) _ other, of a] ix have t: "aio_inv k'"
    "\<And>ix. nat ix \<noteq> nat (AIO_RD_IX fd) \<Longrightarrow> aio_get ix k' = aio_get ix k" by (simp_all add: assms(4))
  show "aio_inv k'" by (rule t(1))
  have "nat (AIO_RD_IX fd') \<noteq> nat (AIO_RD_IX fd)" if "0 \<le> fd'" "fd' \<noteq> fd" for fd'
    using that ix by (auto simp: AIO_RD_IX_def nat_mult_distrib)
  with t(2) posted_ix [OF so] ix ix_neq [of fd] show "post_rest {fd} {} k k'"
    unfolding post_rest_def by (auto simp: assms(4)) metis+
qed

lemma aio_performed_wr:
  assumes "aio_inv k" "fd \<in> writeFdSetPost k" "asyncIoTable k = Some t"
    "k' = k\<lparr>numWrPosted := numWrPosted k - 1, writeFdSetPost := writeFdSetPost k - {fd},
      asyncIoTable := Some (t[nat (AIO_WR_IX fd) := a\<lparr>procPtr := None, inUse := False\<rparr>])\<rparr>"
  shows "aio_inv k'" "post_rest {} {fd} k k'"
proof -
  from assms(1) have so: "sets_ok k" by (simp add: aio_inv_def)
  note ix = posted_ix(2) [OF so assms(2)]
  have pend: "rd_pending k' = rd_pending k" "wr_pending k' = wr_pending k - {fd}"
    using so assms(2) by (auto simp: sets_ok_def rd_pending_def wr_pending_def assms(4))
  have i: "nat (AIO_WR_IX fd) = Suc (2 * nat fd)" using ix by (simp add: AIO_WR_IX_def nat_add_distrib nat_mult_distrib)
  have other: "pending_ix k' j = (pending_ix k j \<and> j \<noteq> nat (AIO_WR_IX fd))" for j
    unfolding pending_ix_def pend i using ix by (auto elim!: oddE)
  have "0 < card (writeFdSetPost k)" using assms(2) posted_count(2) [OF so] by (auto simp: card_gt_0_iff)
  then have "sets_ok k'"
    using so pend assms(2) posted_count(2) [OF so] by (auto simp: sets_ok_def assms(4) of_nat_diff)
  with aio_taken [OF assms(1,3) _ other, of a] ix have t: "aio_inv k'"
    "\<And>ix. nat ix \<noteq> nat (AIO_WR_IX fd) \<Longrightarrow> aio_get ix k' = aio_get ix k" by (simp_all add: assms(4))
  show "aio_inv k'" by (rule t(1))
  have "nat (AIO_WR_IX fd') \<noteq> nat (AIO_WR_IX fd)" if "0 \<le> fd'" "fd' \<noteq> fd" for fd'
    using that ix by (auto simp: AIO_WR_IX_def)
  with t(2) posted_ix [OF so] ix ix_neq [of _ fd] show "post_rest {} {fd} k k'"
    unfolding post_rest_def by (auto simp: assms(4))
qed

text \<open>The entry of a posted operation.\<close>

lemma posted_entry:
  assumes "aio_inv k" "asyncIoTable k = Some t"
  shows "fd \<in> readFdSetPost k \<Longrightarrow> \<exists>p. nat (AIO_RD_IX fd) < length t \<and> 0 \<le> fd
      \<and> inUse (t ! nat (AIO_RD_IX fd)) \<and> procPtr (t ! nat (AIO_RD_IX fd)) = Some p
      \<and> 0 \<le> aio_len (t ! nat (AIO_RD_IX fd)) \<and> aio_fd (t ! nat (AIO_RD_IX fd)) = fd"
    "fd \<in> writeFdSetPost k \<Longrightarrow> \<exists>p. nat (AIO_WR_IX fd) < length t \<and> 0 \<le> fd
      \<and> inUse (t ! nat (AIO_WR_IX fd)) \<and> procPtr (t ! nat (AIO_WR_IX fd)) = Some p
      \<and> 0 \<le> aio_len (t ! nat (AIO_WR_IX fd)) \<and> aio_fd (t ! nat (AIO_WR_IX fd)) = fd"
proof -
  from aio_inv_table [OF assms(1)] assms(2) have t: "table_ok k t" "sets_ok k" by auto
  have e: "pending_ix k i \<Longrightarrow> \<exists>p. i < length t \<and> inUse (t ! i) \<and> procPtr (t ! i) = Some p \<and> 0 \<le> aio_len (t ! i)
      \<and> aio_fd (t ! i) = int (i div 2)" for i
    using t(1) by (auto simp: table_ok_def entry_ok_def)
  have d: "0 \<le> fd \<Longrightarrow> int (nat (AIO_RD_IX fd) div 2) = fd" "0 \<le> fd \<Longrightarrow> int (nat (AIO_WR_IX fd) div 2) = fd"
    by (simp_all add: AIO_RD_IX_def AIO_WR_IX_def zdiv_int)
  show "fd \<in> readFdSetPost k \<Longrightarrow> \<exists>p. nat (AIO_RD_IX fd) < length t \<and> 0 \<le> fd
      \<and> inUse (t ! nat (AIO_RD_IX fd)) \<and> procPtr (t ! nat (AIO_RD_IX fd)) = Some p
      \<and> 0 \<le> aio_len (t ! nat (AIO_RD_IX fd)) \<and> aio_fd (t ! nat (AIO_RD_IX fd)) = fd"
    using posted_ix(1) [OF t(2), of fd] e [of "nat (AIO_RD_IX fd)"] d by auto
  show "fd \<in> writeFdSetPost k \<Longrightarrow> \<exists>p. nat (AIO_WR_IX fd) < length t \<and> 0 \<le> fd
      \<and> inUse (t ! nat (AIO_WR_IX fd)) \<and> procPtr (t ! nat (AIO_WR_IX fd)) = Some p
      \<and> 0 \<le> aio_len (t ! nat (AIO_WR_IX fd)) \<and> aio_fd (t ! nat (AIO_WR_IX fd)) = fd"
    using posted_ix(2) [OF t(2), of fd] e [of "nat (AIO_WR_IX fd)"] d by auto
qed

section \<open>Waiting\<close>

lemma DoIo_copy_ok:
  "set fds \<subseteq> {0..1023} \<Longrightarrow>
   DoIo_copy fds k rd wr = Some (rd \<union> (readFdSet k \<inter> set fds), wr \<union> (writeFdSet k \<inter> set fds))"
  by (induction fds k rd wr rule: DoIo_copy.induct) (auto simp: FD_ISSET_def FD_SET_def)

text \<open>The descriptors move from the sets waited for to those posted.\<close>

definition moved :: "int set \<Rightarrow> int set \<Rightarrow> os \<Rightarrow> os \<Rightarrow> bool" where
  "moved rd wr k k' \<longleftrightarrow> readFdSet k' = readFdSet k - rd \<and> writeFdSet k' = writeFdSet k - wr
     \<and> readFdSetPost k' = readFdSetPost k \<union> rd \<and> writeFdSetPost k' = writeFdSetPost k \<union> wr
     \<and> asyncIoTable k' = asyncIoTable k \<and> maxFd k' = maxFd k"

lemma moved_trans: "moved rd wr k k1 \<Longrightarrow> moved rd' wr' k1 k2 \<Longrightarrow> moved (rd \<union> rd') (wr \<union> wr') k k2"
  by (auto simp: moved_def)

lemma moved_refl [simp]: "moved {} {} k k"
  by (simp add: moved_def)

lemma move_rd:
  assumes "aio_inv k" "fd \<in> readFdSet k"
  shows "aio_inv (k\<lparr>numRdPosted := numRdPosted k + 1, readFdSetPost := insert fd (readFdSetPost k),
      readFdSet := readFdSet k - {fd}\<rparr>)" (is "aio_inv ?k") "int_checked (numRdPosted k + 1) = Some (numRdPosted k + 1)"
    "0 \<le> fd" "fd < 1024"
proof -
  from aio_inv_table [OF assms(1)] obtain t where t: "asyncIoTable k = Some t" "table_ok k t" "sets_ok k"
    "\<forall>n. malloc_at k n \<noteq> 0" .
  have pend: "rd_pending ?k = rd_pending k" "wr_pending ?k = wr_pending k"
    using assms(2) by (auto simp: rd_pending_def wr_pending_def)
  then have "table_ok ?k t" using t(2) by (simp add: table_ok_def pending_ix_def)
  moreover have "fd \<notin> readFdSetPost k" using t(3) assms(2) by (auto simp: sets_ok_def)
  then have "sets_ok ?k" using t(3) assms(2) pend posted_count(1) [OF t(3)] by (auto simp: sets_ok_def)
  ultimately show "aio_inv ?k" using t(1,4) by (simp add: aio_inv_def)
  show "int_checked (numRdPosted k + 1) = Some (numRdPosted k + 1)"
    using t(3) posted_count(3) [OF t(3)] by (auto simp: int_checked_def fits_int_def INT_MAX_def sets_ok_def)
  show "0 \<le> fd" "fd < 1024" using t(3) assms(2) by (auto simp: sets_ok_def rd_pending_def)
qed

lemma move_wr:
  assumes "aio_inv k" "fd \<in> writeFdSet k"
  shows "aio_inv (k\<lparr>numWrPosted := numWrPosted k + 1, writeFdSetPost := insert fd (writeFdSetPost k),
      writeFdSet := writeFdSet k - {fd}\<rparr>)" (is "aio_inv ?k") "int_checked (numWrPosted k + 1) = Some (numWrPosted k + 1)"
    "0 \<le> fd" "fd < 1024"
proof -
  from aio_inv_table [OF assms(1)] obtain t where t: "asyncIoTable k = Some t" "table_ok k t" "sets_ok k"
    "\<forall>n. malloc_at k n \<noteq> 0" .
  have pend: "rd_pending ?k = rd_pending k" "wr_pending ?k = wr_pending k"
    using assms(2) by (auto simp: rd_pending_def wr_pending_def)
  then have "table_ok ?k t" using t(2) by (simp add: table_ok_def pending_ix_def)
  moreover have "fd \<notin> writeFdSetPost k" using t(3) assms(2) by (auto simp: sets_ok_def)
  then have "sets_ok ?k" using t(3) assms(2) pend posted_count(2) [OF t(3)] by (auto simp: sets_ok_def)
  ultimately show "aio_inv ?k" using t(1,4) by (simp add: aio_inv_def)
  show "int_checked (numWrPosted k + 1) = Some (numWrPosted k + 1)"
    using t(3) posted_count(4) [OF t(3)] by (auto simp: int_checked_def fits_int_def INT_MAX_def sets_ok_def)
  show "0 \<le> fd" "fd < 1024" using t(3) assms(2) by (auto simp: sets_ok_def wr_pending_def)
qed

lemma DoIo_collect_ok:
  assumes "aio_inv k" "distinct fds" "set fds \<subseteq> {0..1023}" "rd \<inter> set fds \<subseteq> readFdSet k" "wr \<inter> set fds \<subseteq> writeFdSet k"
  shows "\<exists>k'. DoIo_collect fds rd wr k = Some k' \<and> aio_inv k' \<and> moved (rd \<inter> set fds) (wr \<inter> set fds) k k'"
  using assms
proof (induction fds arbitrary: k)
  case (Cons fd fds)
  define k1 where "k1 = (if fd \<in> rd then k\<lparr>numRdPosted := numRdPosted k + 1, readFdSetPost := insert fd (readFdSetPost k),
      readFdSet := readFdSet k - {fd}\<rparr> else k)"
  define k2 where "k2 = (if fd \<in> wr then k1\<lparr>numWrPosted := numWrPosted k1 + 1, writeFdSetPost := insert fd (writeFdSetPost k1),
      writeFdSet := writeFdSet k1 - {fd}\<rparr> else k1)"
  have 1: "aio_inv k1" "moved (rd \<inter> {fd}) {} k k1" "writeFdSet k1 = writeFdSet k"
    using Cons.prems move_rd(1) [of k fd] by (auto simp: k1_def moved_def)
  have 2: "aio_inv k2" "moved {} (wr \<inter> {fd}) k1 k2"
    using Cons.prems(5) 1 move_wr(1) [of k1 fd] by (auto simp: k2_def moved_def)
  have mv: "moved (rd \<inter> {fd}) (wr \<inter> {fd}) k k2" using moved_trans [OF 1(2) 2(2)] by simp
  then have "rd \<inter> set fds \<subseteq> readFdSet k2" "wr \<inter> set fds \<subseteq> writeFdSet k2" using Cons.prems by (auto simp: moved_def)
  with Cons.IH [of k2] Cons.prems(2,3) 2(1) obtain k' where
    3: "DoIo_collect fds rd wr k2 = Some k'" "aio_inv k'" "moved (rd \<inter> set fds) (wr \<inter> set fds) k2 k'" by auto
  have "fd \<in> rd \<Longrightarrow> int_checked (numRdPosted k + 1) = Some (numRdPosted k + 1)"
    "fd \<in> wr \<Longrightarrow> int_checked (numWrPosted k + 1) = Some (numWrPosted k + 1)" "0 \<le> fd" "fd < 1024"
    using Cons.prems move_rd(2) [of k fd] move_wr(2) [of k fd] by auto
  then have "DoIo_collect (fd # fds) rd wr k = DoIo_collect fds rd wr k2"
    by (cases "fd \<in> rd"; cases "fd \<in> wr") (simp_all add: FD_ISSET_def FD_SET_def FD_CLR_def k1_def k2_def)
  moreover have "moved (rd \<inter> set (fd # fds)) (wr \<inter> set (fd # fds)) k k'"
    using moved_trans [OF mv 3(3)] by (simp flip: Int_Un_distrib)
  ultimately show ?case using 3 by auto
qed simp

section \<open>Dispatching\<close>

text \<open>
  What a call of \<open>OS_DoIo\<close> has to do: the operations left posted, or, when there are none, those
  \<open>select\<close> finds ready; \<open>None\<close> when \<open>select\<close> fails. \<open>due_of\<close> lists them in the order of the descriptors.
\<close>

definition selected :: "os \<Rightarrow> (int set \<times> int set) option" where
  "selected k =
     (if readFdSetPost k = {} \<and> writeFdSetPost k = {} then
        let (n, rd, wr, _) = sys_poll (readFdSet k) (writeFdSet k) k in if n < 0 then None else Some (rd, wr)
      else Some (readFdSetPost k, writeFdSetPost k))"

definition due_of :: "int set \<Rightarrow> int set \<Rightarrow> os \<Rightarrow> (nat \<times> nat) list" where
  "due_of rd wr k = concat (map (\<lambda>fd. (if fd \<in> rd then [aio_op (AIO_RD_IX fd) k] else [])
     @ (if fd \<in> wr then [aio_op (AIO_WR_IX fd) k] else [])) [0 .. 1023])"

text \<open>
  What \<open>OS_DoIo\<close> needs of the callbacks: they return, keep the invariant, leave the posted operations
  alone, and \<open>calls\<close> records them.
\<close>

locale aio_client =
  fixes run :: "'s callback" and calls :: "'s \<Rightarrow> (nat \<times> nat) list"
  assumes run_ok: "aio_inv k \<Longrightarrow> \<exists>s' k'. run p c len (s, k) = Some (s', k') \<and> aio_inv k' \<and> post_frame k k'
    \<and> calls s' = calls s @ [(p, c)]"
begin

lemma DoIo_read_ok:
  assumes "aio_inv k" "0 \<le> fd" "fd < 1024"
  shows "\<exists>s' k'. DoIo_read run fd (s, k) = Some (s', k') \<and> aio_inv k' \<and> post_rest {fd} {} k k'
    \<and> calls s' = calls s @ due_rd fd k"
proof (cases "fd \<in> readFdSetPost k")
  case False
  then show ?thesis using assms by (auto simp: DoIo_read_def FD_ISSET_def due_rd_def post_rest_def)
next
  case True
  from aio_inv_table [OF assms(1)] obtain t where t: "asyncIoTable k = Some t" "sets_ok k" by blast
  define ix where "ix = AIO_RD_IX fd"
  define a where "a = t ! nat ix"
  from posted_entry(1) [OF assms(1) t(1) True] obtain p where
    a: "nat ix < length t" "inUse a" "procPtr a = Some p" "0 \<le> aio_len a" by (auto simp: ix_def a_def)
  have ix0: "0 \<le> ix" using assms(2) by (simp add: ix_def AIO_RD_IX_def)
  define k0 where "k0 = k\<lparr>numRdPosted := numRdPosted k - 1, readFdSetPost := readFdSetPost k - {fd}\<rparr>"
  obtain len bs k1 where rd: "sys_read (aio_fd a) (nat (aio_len a)) k0 = (len, bs, k1)" by (metis prod_cases3)
  define k2 where "k2 = k1\<lparr>umem := (\<lambda>x. if aio_buf a \<le> x \<and> x < aio_buf a + length bs then bs ! (x - aio_buf a) else umem k1 x),
    asyncIoTable := Some (t[nat ix := a\<lparr>procPtr := None, inUse := False\<rparr>])\<rparr>"
  have part: "aio_part k1 = aio_part k0" by (rule sys_read_part [OF rd])
  then have t1: "asyncIoTable k1 = Some t" using t(1) by (simp add: k0_def aio_part_def)
  note performed = aio_performed_rd [OF assms(1) True t(1) refl, of a, folded ix_def]
  have "aio_part k2 = aio_part (k0\<lparr>asyncIoTable := Some (t[nat ix := a\<lparr>procPtr := None, inUse := False\<rparr>])\<rparr>)"
    using part by (simp add: k2_def aio_part_def)
  then have k2: "aio_inv k2" "post_rest {fd} {} k k2"
    using performed aio_part_inv [of k2 "k0\<lparr>asyncIoTable := Some (t[nat ix := a\<lparr>procPtr := None, inUse := False\<rparr>])\<rparr>"]
    by (auto simp: k0_def post_rest_def aio_part_def aio_get_def)
  from run_ok [OF k2(1), of p "clientData a" len s] obtain s' k' where
    r: "run p (clientData a) len (s, k2) = Some (s', k')" "aio_inv k'" "post_frame k2 k'"
      "calls s' = calls s @ [(p, clientData a)]" by blast
  have "int_checked (numRdPosted k - 1) = Some (numRdPosted k - 1)"
    using t(2) posted_count(3) [OF t(2)] by (auto simp: int_checked_def fits_int_def INT_MAX_def sets_ok_def)
  then have "DoIo_read run fd (s, k) = run p (clientData a) len (s, k2)"
    using assms(2,3) True a rd ix0 aio_put_get(1) [OF t(1) ix0 a(1)] aio_put_get(2) [of "k1\<lparr>umem := _\<rparr>" t ix] t1
    by (simp add: DoIo_read_def FD_ISSET_def FD_CLR_def k0_def k2_def flip: ix_def a_def)
  with r post_rest_frame [OF k2(2) r(3)] show ?thesis
    using True aio_put_get(1) [OF t(1) ix0 a(1)] a(3) by (auto simp: due_rd_def aio_op_def Let_def simp flip: ix_def a_def)
qed

lemma DoIo_write_ok:
  assumes "aio_inv k" "0 \<le> fd" "fd < 1024"
  shows "\<exists>s' k'. DoIo_write run fd (s, k) = Some (s', k') \<and> aio_inv k' \<and> post_rest {} {fd} k k'
    \<and> calls s' = calls s @ due_wr fd k"
proof (cases "fd \<in> writeFdSetPost k")
  case False
  then show ?thesis using assms by (auto simp: DoIo_write_def FD_ISSET_def due_wr_def post_rest_def)
next
  case True
  from aio_inv_table [OF assms(1)] obtain t where t: "asyncIoTable k = Some t" "sets_ok k" by blast
  define ix where "ix = AIO_WR_IX fd"
  define a where "a = t ! nat ix"
  from posted_entry(2) [OF assms(1) t(1) True] obtain p where
    a: "nat ix < length t" "inUse a" "procPtr a = Some p" "0 \<le> aio_len a" by (auto simp: ix_def a_def)
  have ix0: "0 \<le> ix" using assms(2) by (simp add: ix_def AIO_WR_IX_def)
  define k0 where "k0 = k\<lparr>numWrPosted := numWrPosted k - 1, writeFdSetPost := writeFdSetPost k - {fd}\<rparr>"
  obtain len k1 where wr: "sys_write (aio_fd a) (map (umem k0) [aio_buf a ..< aio_buf a + nat (aio_len a)]) k0 = (len, k1)"
    by fastforce
  define k2 where "k2 = k1\<lparr>asyncIoTable := Some (t[nat ix := a\<lparr>procPtr := None, inUse := False\<rparr>])\<rparr>"
  have part: "aio_part k1 = aio_part k0" by (rule sys_write_part [OF wr])
  then have t1: "asyncIoTable k1 = Some t" using t(1) by (simp add: k0_def aio_part_def)
  note performed = aio_performed_wr [OF assms(1) True t(1) refl, of a, folded ix_def]
  have "aio_part k2 = aio_part (k0\<lparr>asyncIoTable := Some (t[nat ix := a\<lparr>procPtr := None, inUse := False\<rparr>])\<rparr>)"
    using part by (simp add: k2_def aio_part_def)
  then have k2: "aio_inv k2" "post_rest {} {fd} k k2"
    using performed aio_part_inv [of k2 "k0\<lparr>asyncIoTable := Some (t[nat ix := a\<lparr>procPtr := None, inUse := False\<rparr>])\<rparr>"]
    by (auto simp: k0_def post_rest_def aio_part_def aio_get_def)
  from run_ok [OF k2(1), of p "clientData a" len s] obtain s' k' where
    r: "run p (clientData a) len (s, k2) = Some (s', k')" "aio_inv k'" "post_frame k2 k'"
      "calls s' = calls s @ [(p, clientData a)]" by blast
  have "int_checked (numWrPosted k - 1) = Some (numWrPosted k - 1)"
    using t(2) posted_count(4) [OF t(2)] by (auto simp: int_checked_def fits_int_def INT_MAX_def sets_ok_def)
  then have "DoIo_write run fd (s, k) = run p (clientData a) len (s, k2)"
    using assms(2,3) True a wr ix0 aio_put_get(1) [OF t(1) ix0 a(1)] aio_put_get(2) [OF t1 ix0 a(1)]
    by (simp add: DoIo_write_def FD_ISSET_def FD_CLR_def k0_def k2_def flip: ix_def a_def)
  with r post_rest_frame [OF k2(2) r(3)] show ?thesis
    using True aio_put_get(1) [OF t(1) ix0 a(1)] a(3) by (auto simp: due_wr_def aio_op_def Let_def simp flip: ix_def a_def)
qed

text \<open>Every posted operation is performed, in the order of the descriptors; what callbacks post meanwhile waits.\<close>

lemma DoIo_dispatch_ok:
  assumes "aio_inv k" "0 \<le> fd" "fd \<le> 1024" "readFdSetPost k \<union> writeFdSetPost k \<subseteq> {fd..}"
  shows "\<exists>s' k'. DoIo_dispatch run fd (s, k) = Some (s', k') \<and> aio_inv k'
    \<and> readFdSetPost k' = {} \<and> writeFdSetPost k' = {} \<and> calls s' = calls s @ due_from fd k"
  using assms
proof (induction "nat (1024 - fd)" arbitrary: fd s k)
  case 0
  then have "maxFd k < fd" by (auto simp: aio_inv_def sets_ok_def)
  moreover from 0 posted_count(5) [of k] have "readFdSetPost k = {}" "writeFdSetPost k = {}"
    by (auto simp: aio_inv_def) (fastforce+)
  ultimately show ?case using 0 by (subst DoIo_dispatch.simps) (simp add: due_from_def)
next
  case (Suc n)
  have fd: "fd < 1024" using Suc.hyps(2) by simp
  from Suc.prems(1) have so: "sets_ok k" by (simp add: aio_inv_def)
  have due: "due_from fd k = due_rd fd k @ due_wr fd k @ due_from (fd + 1) k"
    unfolding due_from_def using fd by (subst upto_rec1) simp_all
  show ?case
  proof (cases "fd \<le> maxFd k")
    case False
    with so Suc.prems(4) have "readFdSetPost k = {}" "writeFdSetPost k = {}"
      by (auto simp: sets_ok_def rd_pending_def wr_pending_def) (fastforce+)
    moreover from this have "due_from fd k = []" by (simp add: due_from_def due_rd_def due_wr_def)
    ultimately show ?thesis using False Suc.prems(1) by (subst DoIo_dispatch.simps) simp
  next
    case True
    from DoIo_read_ok [OF Suc.prems(1,2) fd, of s] obtain s1 k1 where
      1: "DoIo_read run fd (s, k) = Some (s1, k1)" "aio_inv k1" "post_rest {fd} {} k k1"
        "calls s1 = calls s @ due_rd fd k" by blast
    from DoIo_write_ok [OF 1(2) Suc.prems(2) fd, of s1] obtain s2 k2 where
      2: "DoIo_write run fd (s1, k1) = Some (s2, k2)" "aio_inv k2" "post_rest {} {fd} k1 k2"
        "calls s2 = calls s1 @ due_wr fd k1" by blast
    from post_rest_trans [OF 1(3) 2(3)] have pr: "post_rest {fd} {fd} k k2" by simp
    have sub: "readFdSetPost k2 \<union> writeFdSetPost k2 \<subseteq> {fd + 1..}"
      using pr Suc.prems(4) by (auto simp: post_rest_def)
    have "n = nat (1024 - (fd + 1))" using Suc.hyps(2) by simp
    from Suc.hyps(1) [OF this 2(2) _ _ sub, of s2] Suc.prems(2) fd obtain s' k' where
      3: "DoIo_dispatch run (fd + 1) (s2, k2) = Some (s', k')" "aio_inv k'" "readFdSetPost k' = {}" "writeFdSetPost k' = {}"
        "calls s' = calls s2 @ due_from (fd + 1) k2" by auto
    have "due_from (fd + 1) k2 = due_from (fd + 1) k"
      unfolding due_from_def by (intro arg_cong [of _ _ concat] map_cong refl) (simp add: post_rest_due [OF pr])
    moreover have "due_wr fd k1 = due_wr fd k" by (simp add: post_rest_due [OF 1(3)])
    ultimately show ?thesis using 1 2 3 due True by (subst DoIo_dispatch.simps) simp
  qed
qed

lemma OS_DoIo_ok:
  assumes "aio_inv k" "selected k = Some (rd, wr)"
  shows "\<exists>s' k'. OS_DoIo run (s, k) = Some (0, s', k') \<and> aio_inv k'
    \<and> readFdSetPost k' = {} \<and> writeFdSetPost k' = {} \<and> calls s' = calls s @ due_of rd wr k"
proof -
  define k0 where "k0 = k\<lparr>asyncIoInUse := True\<rparr>"
  have "aio_part k0 = aio_part k" by (simp add: k0_def aio_part_def)
  from aio_part_inv [OF this] assms(1) have k0: "aio_inv k0" "sets_ok k0" by (simp_all add: aio_inv_def)
  have fds: "set [0 .. maxFd k] \<subseteq> {0..1023}" "readFdSet k \<inter> set [0 .. maxFd k] = readFdSet k"
    "writeFdSet k \<inter> set [0 .. maxFd k] = writeFdSet k"
    using assms(1) by (auto simp: aio_inv_def sets_ok_def rd_pending_def wr_pending_def)
  have copy: "DoIo_copy [0 .. maxFd k0] k0 {} {} = Some (readFdSet k, writeFdSet k)"
    using DoIo_copy_ok [of "[0 .. maxFd k0]" k0 "{}" "{}"] fds by (simp add: k0_def)
  have num: "numRdPosted k0 = 0 \<longleftrightarrow> readFdSetPost k = {}" "numWrPosted k0 = 0 \<longleftrightarrow> writeFdSetPost k = {}"
    using k0(2) posted_count(1,2) [OF k0(2)] by (auto simp: sets_ok_def k0_def)
  have "\<exists>k1. aio_inv k1 \<and> readFdSetPost k1 = rd \<and> writeFdSetPost k1 = wr \<and> asyncIoTable k1 = asyncIoTable k
      \<and> (if numRdPosted k0 = 0 \<and> numWrPosted k0 = 0 then
           let (selectStatus, rd, wr, k) = sys_poll (readFdSet k) (writeFdSet k) k0 in
           if selectStatus < 0 then None else DoIo_collect [0 .. maxFd k] rd wr k
         else Some k0) = Some k1"
  proof (cases "readFdSetPost k = {} \<and> writeFdSetPost k = {}")
    case False
    have "rd = readFdSetPost k" "wr = writeFdSetPost k"
      using assms(2) unfolding selected_def if_not_P [OF False] by simp_all
    moreover have "\<not> (numRdPosted k0 = 0 \<and> numWrPosted k0 = 0)" using num False by blast
    ultimately show ?thesis using k0(1) unfolding if_not_P [OF \<open>\<not> (numRdPosted k0 = 0 \<and> numWrPosted k0 = 0)\<close>]
      by (auto simp: k0_def)
  next
    case True
    obtain n rd' wr' k1 where p: "sys_poll (readFdSet k) (writeFdSet k) k0 = (n, rd', wr', k1)" by (metis prod_cases4)
    then have p': "sys_poll (readFdSet k) (writeFdSet k) k = (n, rd', wr', k1\<lparr>asyncIoInUse := asyncIoInUse k\<rparr>)"
      "aio_part k1 = aio_part k0" "n \<ge> 0 \<Longrightarrow> rd' \<subseteq> readFdSet k \<and> wr' \<subseteq> writeFdSet k"
      by (auto simp: sys_poll_def k0_def aio_part_def split: if_splits list.splits prod.splits)
    with assms(2) True have n: "0 \<le> n" "rd' = rd" "wr' = wr" by (auto simp: selected_def split: if_splits)
    have k1: "aio_inv k1" "maxFd k1 = maxFd k" "readFdSet k1 = readFdSet k" "writeFdSet k1 = writeFdSet k"
      "asyncIoTable k1 = asyncIoTable k" "readFdSetPost k1 = {}" "writeFdSetPost k1 = {}"
      using p'(2) aio_part_inv [OF p'(2)] k0(1) True by (auto simp: aio_part_def k0_def)
    have i: "rd \<inter> set [0 .. maxFd k] = rd" "wr \<inter> set [0 .. maxFd k] = wr" using p'(3) n fds by auto
    with DoIo_collect_ok [OF k1(1), of "[0 .. maxFd k]" rd wr] fds(1) p'(3) n k1 obtain k2 where
      "DoIo_collect [0 .. maxFd k] rd wr k1 = Some k2" "aio_inv k2" "moved rd wr k1 k2" by auto
    with p n True num k1 show ?thesis by (auto simp: moved_def)
  qed
  then obtain k1 where k1: "aio_inv k1" "readFdSetPost k1 = rd" "writeFdSetPost k1 = wr" "asyncIoTable k1 = asyncIoTable k"
    and sel: "(if numRdPosted k0 = 0 \<and> numWrPosted k0 = 0 then
           let (selectStatus, rd, wr, k) = sys_poll (readFdSet k) (writeFdSet k) k0 in
           if selectStatus < 0 then None else DoIo_collect [0 .. maxFd k] rd wr k
         else Some k0) = Some k1" by blast
  have op: "aio_op ix k1 = aio_op ix k" for ix using k1(4) by (simp add: aio_op_def aio_get_def)
  have due: "due_from 0 k1 = due_of rd wr k"
    unfolding due_from_def due_of_def due_rd_def due_wr_def k1(2,3) op ..
  have s1: "sets_ok k1" using k1(1) by (simp add: aio_inv_def)
  have "OS_DoIo run (s, k) = do { (rd, wr) \<leftarrow> DoIo_copy [0 .. maxFd k0] k0 {} {};
      k1 \<leftarrow> (if numRdPosted k0 = 0 \<and> numWrPosted k0 = 0 then
           let (selectStatus, rd, wr, k) = sys_poll rd wr k0 in
           if selectStatus < 0 then None else DoIo_collect [0 .. maxFd k] rd wr k
         else Some k0);
      if numRdPosted k1 = 0 \<and> numWrPosted k1 = 0 then Some (0, s, k1)
      else do { (s, k) \<leftarrow> DoIo_dispatch run 0 (s, k1); Some (0, s, k) } }"
    unfolding OS_DoIo_def Let_def prod.case k0_def ..
  also have "\<dots> = (if numRdPosted k1 = 0 \<and> numWrPosted k1 = 0 then Some (0, s, k1)
      else do { (s, k) \<leftarrow> DoIo_dispatch run 0 (s, k1); Some (0, s, k) })"
    unfolding copy bind.bind_lunit prod.case sel ..
  finally have do: "OS_DoIo run (s, k) = (if numRdPosted k1 = 0 \<and> numWrPosted k1 = 0 then Some (0, s, k1)
      else do { (s, k) \<leftarrow> DoIo_dispatch run 0 (s, k1); Some (0, s, k) })" .
  show ?thesis
  proof (cases "rd = {} \<and> wr = {}")
    case True
    then have "OS_DoIo run (s, k) = Some (0, s, k1)" "due_of rd wr k = []"
      using s1 k1 do by (simp_all add: sets_ok_def due_of_def)
    then show ?thesis using k1 True by auto
  next
    case False
    then have "\<not> (numRdPosted k1 = 0 \<and> numWrPosted k1 = 0)"
      using s1 k1 posted_count(1,2) [OF s1] by (auto simp: sets_ok_def)
    moreover have "readFdSetPost k1 \<union> writeFdSetPost k1 \<subseteq> {0..}" using posted_count(5) [OF s1] by force
    with DoIo_dispatch_ok [OF k1(1), of 0 s] obtain s' k' where
      "DoIo_dispatch run 0 (s, k1) = Some (s', k')" "aio_inv k'" "readFdSetPost k' = {}" "writeFdSetPost k' = {}"
      "calls s' = calls s @ due_from 0 k1" by auto
    ultimately show ?thesis using do due by auto
  qed
qed

end

section \<open>Closing\<close>

lemma close_frame_part: "close_frame fd k k' \<Longrightarrow> aio_part k' = aio_part k"
  unfolding close_frame_def by (cases k, cases k') (simp add: aio_part_def)

lemma aio_cancel_eq:
  assumes "asyncIoTable k = Some t" "0 \<le> ix" "nat ix < length t"
  shows "aio_cancel ix k = Some (k\<lparr>asyncIoTable := Some (t[nat ix := (t ! nat ix)\<lparr>inUse := False\<rparr>])\<rparr>)"
proof (cases "inUse (t ! nat ix)")
  case True
  then show ?thesis using aio_put_get [OF assms] by (simp add: aio_cancel_def)
next
  case False
  then have e: "(t ! nat ix)\<lparr>inUse := False\<rparr> = t ! nat ix" by (cases "t ! nat ix") simp
  have "k\<lparr>asyncIoTable := Some t\<rparr> = k" using assms(1) by (cases k) simp
  then show ?thesis using False aio_put_get [OF assms] unfolding e list_update_id by (simp add: aio_cancel_def)
qed

lemma aio_cancel_result:
  assumes "asyncIoTable k = Some t" "aio_cancel ix k = Some k'"
  shows "0 \<le> ix" "nat ix < length t" "k' = k\<lparr>asyncIoTable := Some (t[nat ix := (t ! nat ix)\<lparr>inUse := False\<rparr>])\<rparr>"
proof -
  show i: "0 \<le> ix" "nat ix < length t"
    using assms by (auto simp: aio_cancel_def aio_get_def bind_Some_iff deref_def split: if_splits)
  show "k' = k\<lparr>asyncIoTable := Some (t[nat ix := (t ! nat ix)\<lparr>inUse := False\<rparr>])\<rparr>"
    using aio_cancel_eq [OF assms(1) i] assms(2) by simp
qed

text \<open>An operation that is waited for is cancelled.\<close>

lemma cancel_rd:
  assumes "aio_inv k" "asyncIoTable k = Some t" "0 \<le> fd" "nat (AIO_RD_IX fd) < length t" "fd \<notin> readFdSetPost k"
    "k' = k\<lparr>readFdSet := readFdSet k - {fd},
      asyncIoTable := Some (t[nat (AIO_RD_IX fd) := (t ! nat (AIO_RD_IX fd))\<lparr>inUse := False\<rparr>])\<rparr>"
  shows "aio_inv k'"
proof -
  from aio_inv_table [OF assms(1)] assms(2) have t: "table_ok k t" "sets_ok k" "\<forall>n. malloc_at k n \<noteq> 0" by auto
  have pend: "rd_pending k' = rd_pending k - {fd}" "wr_pending k' = wr_pending k"
    using assms(5) by (auto simp: rd_pending_def wr_pending_def assms(6))
  have i: "nat (AIO_RD_IX fd) = 2 * nat fd" using assms(3) by (simp add: AIO_RD_IX_def nat_mult_distrib)
  have "pending_ix k' j = (pending_ix k j \<and> j \<noteq> nat (AIO_RD_IX fd))" for j
    unfolding pending_ix_def pend i using assms(3) by auto
  then have "table_ok k' (t[nat (AIO_RD_IX fd) := (t ! nat (AIO_RD_IX fd))\<lparr>inUse := False\<rparr>])"
    by (intro table_ok_update [OF t(1) assms(4)]) (simp_all add: assms(6))
  moreover have "sets_ok k'" using t(2) pend by (auto simp: sets_ok_def assms(6))
  ultimately show ?thesis using t(3) by (simp add: aio_inv_def assms(6))
qed

lemma cancel_wr:
  assumes "aio_inv k" "asyncIoTable k = Some t" "0 \<le> fd" "nat (AIO_WR_IX fd) < length t" "fd \<notin> writeFdSetPost k"
    "k' = k\<lparr>writeFdSet := writeFdSet k - {fd},
      asyncIoTable := Some (t[nat (AIO_WR_IX fd) := (t ! nat (AIO_WR_IX fd))\<lparr>inUse := False\<rparr>])\<rparr>"
  shows "aio_inv k'"
proof -
  from aio_inv_table [OF assms(1)] assms(2) have t: "table_ok k t" "sets_ok k" "\<forall>n. malloc_at k n \<noteq> 0" by auto
  have pend: "rd_pending k' = rd_pending k" "wr_pending k' = wr_pending k - {fd}"
    using assms(5) by (auto simp: rd_pending_def wr_pending_def assms(6))
  have i: "nat (AIO_WR_IX fd) = Suc (2 * nat fd)"
    using assms(3) by (simp add: AIO_WR_IX_def nat_add_distrib nat_mult_distrib)
  have "pending_ix k' j = (pending_ix k j \<and> j \<noteq> nat (AIO_WR_IX fd))" for j
    unfolding pending_ix_def pend i using assms(3) by (auto elim!: oddE)
  then have "table_ok k' (t[nat (AIO_WR_IX fd) := (t ! nat (AIO_WR_IX fd))\<lparr>inUse := False\<rparr>])"
    by (intro table_ok_update [OF t(1) assms(4)]) (simp_all add: assms(6))
  moreover have "sets_ok k'" using t(2) pend by (auto simp: sets_ok_def assms(6))
  ultimately show ?thesis using t(3) by (simp add: aio_inv_def assms(6))
qed

text \<open>Nothing is posted: the state between two calls of \<open>OS_DoIo\<close>.\<close>

definition aio_rest :: "os \<Rightarrow> bool" where
  "aio_rest k \<longleftrightarrow> aio_inv k \<and> readFdSetPost k = {} \<and> writeFdSetPost k = {}"

lemma aio_rest_part: "aio_part k = aio_part k' \<Longrightarrow> aio_rest k = aio_rest k'"
  using aio_part_inv [of k k'] by (simp add: aio_rest_def aio_part_def)

lemma OS_Close_aio_rest:
  assumes "aio_rest k" "OS_Close_aio fd k = Some k'"
  shows "aio_rest k'"
proof (cases "asyncIoInUse k")
  case False
  with assms show ?thesis by (simp add: OS_Close_aio_def)
next
  case True
  from assms(1) have inv: "aio_inv k" and post: "readFdSetPost k = {}" "writeFdSetPost k = {}"
    by (auto simp: aio_rest_def)
  from aio_inv_table [OF inv] obtain t where t: "asyncIoTable k = Some t" by blast
  define k1 where "k1 = k\<lparr>readFdSet := readFdSet k - {fd}, readFdSetPost := {}\<rparr>"
  define cancel_wr where "cancel_wr = (\<lambda>k. aio_cancel (AIO_WR_IX fd) (k\<lparr>writeFdSet := writeFdSet k - {fd},
    writeFdSetPost := writeFdSetPost k - {fd}\<rparr>))"
  have fd: "0 \<le> fd" using assms(2) True by (auto simp: OS_Close_aio_def FD_CLR_def bind_Some_iff split: if_splits)
  have "OS_Close_aio fd k = do { k \<leftarrow> aio_cancel (AIO_RD_IX fd) k1; k \<leftarrow> cancel_wr k;
      Some (if maxFd k = fd then k\<lparr>maxFd := maxFd k - 1\<rparr> else k) }" if "fd < 1024"
    using that True post fd by (simp add: OS_Close_aio_def FD_CLR_def k1_def cancel_wr_def)
  moreover have "fd < 1024" using assms(2) True by (auto simp: OS_Close_aio_def FD_CLR_def bind_Some_iff split: if_splits)
  ultimately have "do { k \<leftarrow> aio_cancel (AIO_RD_IX fd) k1; k \<leftarrow> cancel_wr k;
      Some (if maxFd k = fd then k\<lparr>maxFd := maxFd k - 1\<rparr> else k) } = Some k'" using assms(2) by simp
  then obtain k2 k3 where 2: "aio_cancel (AIO_RD_IX fd) k1 = Some k2" and 3: "cancel_wr k2 = Some k3"
    and k': "k' = (if maxFd k3 = fd then k3\<lparr>maxFd := maxFd k3 - 1\<rparr> else k3)"
    by (auto simp: bind_Some_iff)
  note 3 = 3 [unfolded cancel_wr_def]
  note c2 = aio_cancel_result [OF _ 2, of t]
  have t1: "asyncIoTable k1 = Some t" by (simp add: k1_def t)
  define t2 where "t2 = t[nat (AIO_RD_IX fd) := (t ! nat (AIO_RD_IX fd))\<lparr>inUse := False\<rparr>]"
  have k2: "k2 = k\<lparr>readFdSet := readFdSet k - {fd}, asyncIoTable := Some t2\<rparr>"
    using c2(3) [OF t1] post by (simp add: k1_def t2_def)
  then have i2: "aio_inv k2" using cancel_rd [OF inv t fd c2(2) [OF t1], of k2] post by (simp add: t2_def)
  have t2: "asyncIoTable k2 = Some t2" by (simp add: k2)
  have k3: "nat (AIO_WR_IX fd) < length t2" "k3 = k2\<lparr>writeFdSet := writeFdSet k2 - {fd},
      asyncIoTable := Some (t2[nat (AIO_WR_IX fd) := (t2 ! nat (AIO_WR_IX fd))\<lparr>inUse := False\<rparr>])\<rparr>"
    using aio_cancel_result(2,3) [OF _ 3, of t2] t2 post by (simp_all add: k2)
  with cancel_wr [OF i2 t2 fd k3(1) _ k3(2)] post have i3: "aio_inv k3" by (simp add: k2)
  have p3: "readFdSetPost k3 = {}" "writeFdSetPost k3 = {}" "fd \<notin> rd_pending k3" "fd \<notin> wr_pending k3"
    using post by (simp_all add: k3(2) k2 rd_pending_def wr_pending_def)
  have "aio_inv k'"
  proof (cases "maxFd k3 = fd")
    case False
    then show ?thesis using i3 k' by simp
  next
    case True
    let ?k = "k3\<lparr>maxFd := maxFd k3 - 1\<rparr>"
    have eq: "rd_pending ?k = rd_pending k3" "wr_pending ?k = wr_pending k3" "pending_ix ?k = pending_ix k3"
      by (auto simp: rd_pending_def wr_pending_def pending_ix_def fun_eq_iff)
    from i3 have "\<forall>x \<in> rd_pending k3 \<union> wr_pending k3. 0 \<le> x \<and> x \<le> fd" using True by (auto simp: aio_inv_def sets_ok_def)
    moreover have "x \<noteq> fd" if "x \<in> rd_pending k3 \<union> wr_pending k3" for x using that p3 by auto
    ultimately have "rd_pending k3 \<union> wr_pending k3 \<subseteq> {0 .. fd - 1}" by force
    with i3 True eq have "sets_ok ?k" by (simp add: aio_inv_def sets_ok_def)
    with i3 eq k' True show ?thesis by (simp add: aio_inv_def table_ok_def)
  qed
  then show ?thesis using p3 k' by (simp add: aio_rest_def)
qed

lemma OS_Close_part:
  assumes "OS_Close fd b k = Some (r, k')" "OS_Close_aio fd k = Some k1" "fd \<noteq> -1"
  shows "aio_part k' = aio_part k1"
proof -
  obtain rc k2 where s: "sys_shutdown fd k1 = (rc, k2)" by fastforce
  from assms s obtain k3 where 3: "k3 = k1 \<or> k3 = k2 \<or> OS_Close_drain fd k2 = Some k3"
    and k': "sys_close fd k3 = (r, k')"
    by (auto simp: OS_Close_def bind_Some_iff split: if_splits)
  have dr: "close_frame fd x k3" if d: "OS_Close_drain fd x = Some k3" for x
  proof -
    have "0 \<le> fd" "fd < 1024" using d by (subst (asm) OS_Close_drain.simps, simp add: FD_SET_def split: if_splits)+
    with OS_Close_drain_frame [OF this, of x] d show ?thesis by simp
  qed
  have "close_frame fd k1 k3" using 3 sys_shutdown_frame [OF s] dr by (auto intro: close_frame_trans)
  then have "aio_part k3 = aio_part k1" by (rule close_frame_part)
  moreover have "aio_part k' = aio_part k3" using k' by (auto simp: sys_close_def aio_part_def split: if_splits)
  ultimately show ?thesis by simp
qed

lemma OS_Close_rest:
  assumes "aio_rest k" "OS_Close fd b k = Some (r, k')"
  shows "aio_rest k'"
proof (cases "fd = -1")
  case True
  with assms show ?thesis by (simp add: OS_Close_def)
next
  case False
  with assms(2) obtain k1 where 1: "OS_Close_aio fd k = Some k1" by (auto simp: OS_Close_def bind_Some_iff)
  from OS_Close_part [OF assms(2) this False] OS_Close_aio_rest [OF assms(1) 1] aio_rest_part [of k' k1] show ?thesis by simp
qed

lemma OS_CloseRead_rest:
  assumes "aio_rest k" "OS_CloseRead fd k = Some (r, k')"
  shows "aio_rest k'"
proof -
  from assms(1) have inv: "aio_inv k" and post: "readFdSetPost k = {}" "writeFdSetPost k = {}" by (auto simp: aio_rest_def)
  from aio_inv_table [OF inv] obtain t where t: "asyncIoTable k = Some t" by blast
  from assms(2) t have ix: "0 \<le> AIO_RD_IX fd" "nat (AIO_RD_IX fd) < length t"
    by (auto simp: OS_CloseRead_def aio_get_def bind_Some_iff deref_def split: if_splits)
  then have fd: "0 \<le> fd" by (simp add: AIO_RD_IX_def)
  define k1 where "k1 = k\<lparr>asyncIoTable := Some (t[nat (AIO_RD_IX fd) := (t ! nat (AIO_RD_IX fd))\<lparr>inUse := False\<rparr>]),
    readFdSet := readFdSet k - {fd}\<rparr>"
  have k1: "k1 = k\<lparr>readFdSet := readFdSet k - {fd},
    asyncIoTable := Some (t[nat (AIO_RD_IX fd) := (t ! nat (AIO_RD_IX fd))\<lparr>inUse := False\<rparr>])\<rparr>"
    unfolding k1_def by (cases k) simp
  have "OS_CloseRead fd k = (if \<not> inUse (t ! nat (AIO_RD_IX fd)) then Some (sys_shutdown fd k)
      else if fd < 1024 then Some (sys_shutdown fd k1) else None)"
    using aio_put_get [OF t ix] fd by (simp add: OS_CloseRead_def FD_CLR_def k1_def)
  with assms(2) obtain k2 where k2: "k2 = k \<or> k2 = k1" "k' = snd (sys_shutdown fd k2)"
    by (auto split: if_splits) (metis snd_conv)+
  moreover have "aio_rest k1"
    using cancel_rd [OF inv t fd ix(2) _ k1] post by (simp add: k1_def aio_rest_def)
  moreover have "aio_part k' = aio_part k2"
    unfolding k2(2) by (rule close_frame_part [OF sys_shutdown_frame [of fd k2 "fst (sys_shutdown fd k2)"]]) simp
  ultimately show ?thesis using assms(1) aio_rest_part [of k' k2] by auto
qed

end
