(* ===== verification/EventLoop.thy ===== *)
theory EventLoop
  imports Async Examples
begin

text \<open>
  The asynchronous operations of \<open>os_unix.c\<close> as a program uses them: any sequence of posting, closing and
  \<open>OS_DoIo\<close> after \<open>OS_LibInit\<close>, as a step relation; what holds between the calls, what \<open>OS_DoIo\<close>
  dispatches, and how closing a descriptor whose operation is due stops it for good.
\<close>

section \<open>The calls a program makes\<close>

text \<open>
  Any call that returns is a step; \<open>elsewhere\<close> stands for everything else that happens, in the program or in
  the kernel, as long as it leaves the static variables of \<open>os_unix.c\<close> alone.
\<close>

inductive aio_step :: "'s callback \<Rightarrow> 's \<times> os \<Rightarrow> 's \<times> os \<Rightarrow> bool" for run where
  post_stdin: "0 \<le> len \<Longrightarrow> OS_AsyncReadStdin b len p c k = Some (r, k') \<Longrightarrow> aio_step run (s, k) (s, k')"
| post_read: "0 \<le> len \<Longrightarrow> OS_AsyncRead fd off b len p c k = Some (r, k') \<Longrightarrow> aio_step run (s, k) (s, k')"
| post_write: "0 \<le> len \<Longrightarrow> OS_AsyncWrite fd off b len p c k = Some (r, k') \<Longrightarrow> aio_step run (s, k) (s, k')"
| close_fd: "OS_Close fd shutdown_ok k = Some (r, k') \<Longrightarrow> aio_step run (s, k) (s, k')"
| close_read: "OS_CloseRead fd k = Some (r, k') \<Longrightarrow> aio_step run (s, k) (s, k')"
| do_io: "OS_DoIo run (s, k) = Some (r, s', k') \<Longrightarrow> aio_step run (s, k) (s', k')"
| elsewhere: "aio_part k' = aio_part k \<Longrightarrow> aio_step run (s, k) (s, k')"

inductive_cases aio_stepE: "aio_step run (s, k) (s', k')"

text \<open>The static variables before \<open>OS_LibInit\<close>, with memory to be had.\<close>

definition aio_static :: "os \<Rightarrow> bool" where
  "aio_static k \<longleftrightarrow> \<not> os_libInitialized k \<and> asyncIoTableSize k = 16 \<and> numRdPosted k = 0 \<and> numWrPosted k = 0
     \<and> maxFd k = -1 \<and> (\<forall>n. malloc_at k n \<noteq> 0)"

definition aio_program :: "'s callback \<Rightarrow> 's \<Rightarrow> os \<Rightarrow> bool" where
  "aio_program run s k \<longleftrightarrow> (\<exists>k0 k1 s0. aio_static k0 \<and> OS_LibInit k0 = (0, k1) \<and> (aio_step run)\<^sup>*\<^sup>* (s0, k1) (s, k))"

lemma OS_InstallSignalHandlers_frame: "\<exists>act. OS_InstallSignalHandlers force k = k\<lparr>sigact := act\<rparr>"
proof -
  have i: "\<exists>act'. installSignalHandler s a f (k\<lparr>sigact := act\<rparr>) = k\<lparr>sigact := act'\<rparr>" for s a f act
    by (auto simp: installSignalHandler_def)
  have "k = k\<lparr>sigact := sigact k\<rparr>" by simp
  with i show ?thesis unfolding OS_InstallSignalHandlers_def by metis
qed

lemma OS_LibInit_rest:
  assumes "aio_static k" "OS_LibInit k = (r, k')"
  shows "aio_rest k'"
proof -
  let ?k = "k\<lparr>asyncIoTable := Some (replicate 16 zero_aio), readFdSet := {}, writeFdSet := {}, readFdSetPost := {},
    writeFdSetPost := {}\<rparr>"
  have "\<exists>act. k' = ?k\<lparr>sigact := act, os_libInitialized := True\<rparr>"
    using assms OS_InstallSignalHandlers_frame [of False ?k] by (auto simp: aio_static_def OS_LibInit_def Let_def)
  then obtain act where "k' = ?k\<lparr>sigact := act, os_libInitialized := True\<rparr>" by blast
  then have "aio_part k' = (Some (replicate 16 zero_aio), 16, ({}, {}), ({}, {}), (0, 0), -1, malloc_at k)"
    using assms(1) by (simp add: aio_part_def aio_static_def)
  then show ?thesis using assms(1)
    by (simp add: aio_part_def aio_static_def aio_rest_def aio_inv_def sets_ok_def table_ok_def rd_pending_def
        wr_pending_def pending_ix_def zero_aio_def)
qed

text \<open>A call that posts on a descriptor with an operation outstanding does not return.\<close>

lemma aio_post_busy:
  assumes "aio_inv k" "pending_ix k (nat ix)" "0 \<le> ix"
  shows "aio_post ix p c fd len off b k = None"
proof -
  from aio_inv_table [OF assms(1)] obtain t where t: "asyncIoTable k = Some t" "table_ok k t" by blast
  with assms(2) have i: "nat ix < length t" "inUse (t ! nat ix)" by (auto simp: table_ok_def)
  then show ?thesis using aio_put_get(1) [OF t(1) assms(3) i(1)] by (simp add: aio_post_def)
qed

lemma OS_AsyncRead_free:
  assumes "aio_inv k" "OS_AsyncRead fd off b len p c k = Some (r, k')"
  shows "0 \<le> fd" "fd < 1024" "fd \<notin> rd_pending k"
proof -
  show fd: "0 \<le> fd" "fd < 1024"
    using assms(2) by (auto simp: OS_AsyncRead_def FD_SET_def bind_Some_iff Let_def split: if_splits)
  show "fd \<notin> rd_pending k"
  proof
    assume busy: "fd \<in> rd_pending k"
    have k: "aio_inv (aio_begin fd k)" by (rule aio_start [OF assms(1) fd(2)])
    have eq: "rd_pending (aio_begin fd k) = rd_pending k" by (simp add: Let_def rd_pending_def)
    from Grow_until_ok [OF k fd_index(3) [OF fd]] obtain k1 where
      k1: "Grow_until (AIO_RD_IX fd) (aio_begin fd k) = Some k1" "aio_inv k1" "grown (aio_begin fd k) k1" by blast
    have "aio_post (AIO_RD_IX fd) p c fd len off b k1 = None"
      using busy fd fd_index(5) [OF fd] grown_sel(5) [OF k1(3)] eq by (intro aio_post_busy [OF k1(2)]) simp_all
    then show False using assms k1(1) fd_index(1) [OF fd] by (auto simp: OS_AsyncRead_def Let_def bind_Some_iff)
  qed
qed

lemma OS_AsyncWrite_free:
  assumes "aio_inv k" "OS_AsyncWrite fd off b len p c k = Some (r, k')"
  shows "0 \<le> fd" "fd < 1024" "fd \<notin> wr_pending k"
proof -
  show fd: "0 \<le> fd" "fd < 1024"
    using assms(2) by (auto simp: OS_AsyncWrite_def FD_SET_def bind_Some_iff Let_def split: if_splits)
  show "fd \<notin> wr_pending k"
  proof
    assume busy: "fd \<in> wr_pending k"
    have k: "aio_inv (aio_begin fd k)" by (rule aio_start [OF assms(1) fd(2)])
    have eq: "wr_pending (aio_begin fd k) = wr_pending k" by (simp add: Let_def wr_pending_def)
    from Grow_until_ok [OF k fd_index(4) [OF fd]] obtain k1 where
      k1: "Grow_until (AIO_WR_IX fd) (aio_begin fd k) = Some k1" "aio_inv k1" "grown (aio_begin fd k) k1" by blast
    have "aio_post (AIO_WR_IX fd) p c fd len off b k1 = None"
      using busy fd fd_index(6) [OF fd] grown_sel(6) [OF k1(3)] eq by (intro aio_post_busy [OF k1(2)]) simp_all
    then show False using assms k1(1) fd_index(2) [OF fd] by (auto simp: OS_AsyncWrite_def Let_def bind_Some_iff)
  qed
qed

lemma post_frame_rest: "aio_rest k \<Longrightarrow> aio_inv k' \<Longrightarrow> post_frame k k' \<Longrightarrow> aio_rest k'"
  by (simp add: aio_rest_def post_frame_def)

lemma OS_AsyncRead_rest:
  assumes "aio_rest k" "0 \<le> len" "OS_AsyncRead fd off b len p c k = Some (r, k')"
  shows "aio_rest k'"
proof -
  have "aio_inv k" using assms(1) by (simp add: aio_rest_def)
  from OS_AsyncRead_ok [OF this OS_AsyncRead_free [OF this assms(3)] assms(2), of off b p c] assms(3) post_frame_rest [OF assms(1)]
  show ?thesis by auto
qed

lemma OS_AsyncWrite_rest:
  assumes "aio_rest k" "0 \<le> len" "OS_AsyncWrite fd off b len p c k = Some (r, k')"
  shows "aio_rest k'"
proof -
  have "aio_inv k" using assms(1) by (simp add: aio_rest_def)
  from OS_AsyncWrite_ok [OF this OS_AsyncWrite_free [OF this assms(3)] assms(2), of off b p c] assms(3) post_frame_rest [OF assms(1)]
  show ?thesis by auto
qed

text \<open>Reading standard input is reading descriptor 0, for which the table always has room.\<close>

lemma maxFd_table_swap: "k\<lparr>maxFd := m, asyncIoTable := t\<rparr> = k\<lparr>asyncIoTable := t, maxFd := m\<rparr>"
  by (cases k) simp

lemma aio_post_maxFd: "aio_post ix p c fd len off b (k\<lparr>maxFd := m\<rparr>) = map_option (\<lambda>k. k\<lparr>maxFd := m\<rparr>) (aio_post ix p c fd len off b k)"
  by (simp add: aio_post_def aio_get_def aio_put_def map_conv_bind_option maxFd_table_swap)

lemma OS_AsyncReadStdin_eq:
  assumes "aio_inv k"
  shows "OS_AsyncReadStdin b len p c k = OS_AsyncRead 0 0 b len p c k"
proof -
  from aio_inv_table [OF assms] obtain t where t: "asyncIoTable k = Some t" "table_ok k t" by blast
  have g: "Grow_until 0 (aio_begin 0 k) = Some (aio_begin 0 k)"
    using t(2) by (subst Grow_until.simps) (auto simp: table_ok_def Let_def)
  show ?thesis
  proof (cases "aio_post 0 p c 0 len 0 b (k\<lparr>asyncIoInUse := True\<rparr>)")
    case None
    then show ?thesis using g t(1)
      by (simp add: OS_AsyncReadStdin_def OS_AsyncRead_def AIO_RD_IX_def int_checked_def fits_int_def INT_MAX_def
          Let_def aio_post_maxFd FD_SET_def)
  next
    case (Some k1)
    moreover from Some have "maxFd k1 = maxFd k" by (auto simp: aio_post_def aio_put_def bind_Some_iff)
    ultimately show ?thesis using g t(1)
      by (simp add: OS_AsyncReadStdin_def OS_AsyncRead_def AIO_RD_IX_def int_checked_def fits_int_def INT_MAX_def
          Let_def aio_post_maxFd FD_SET_def)
  qed
qed

lemma OS_AsyncReadStdin_rest:
  assumes "aio_rest k" "0 \<le> len" "OS_AsyncReadStdin b len p c k = Some (r, k')"
  shows "aio_rest k'"
  using OS_AsyncRead_rest [OF assms(1,2)] assms OS_AsyncReadStdin_eq by (simp add: aio_rest_def)

text \<open>A failing \<open>select\<close> ends the process.\<close>

lemma OS_DoIo_exit:
  assumes "aio_rest k" "selected k = None"
  shows "OS_DoIo run (s, k) = None"
proof -
  define k0 where "k0 = k\<lparr>asyncIoInUse := True\<rparr>"
  from assms(1) have so: "sets_ok k" and post: "readFdSetPost k = {}" "writeFdSetPost k = {}"
    by (auto simp: aio_rest_def aio_inv_def)
  then have "set [0 .. maxFd k] \<subseteq> {0..1023}" "readFdSet k \<inter> set [0 .. maxFd k] = readFdSet k"
    "writeFdSet k \<inter> set [0 .. maxFd k] = writeFdSet k" "numRdPosted k = 0" "numWrPosted k = 0"
    by (auto simp: sets_ok_def rd_pending_def wr_pending_def)
  then have "DoIo_copy [0 .. maxFd k] k0 {} {} = Some (readFdSet k, writeFdSet k)" "numRdPosted k0 = 0 \<and> numWrPosted k0 = 0"
    using DoIo_copy_ok [of "[0 .. maxFd k]" k0 "{}" "{}"] by (simp_all add: k0_def)
  moreover have "fst (sys_poll (readFdSet k) (writeFdSet k) k0) < 0"
    using assms(2) post by (auto simp: selected_def sys_poll_def k0_def split: if_splits list.splits)
  ultimately show ?thesis
    unfolding OS_DoIo_def Let_def prod.case by (auto simp: k0_def split: prod.splits)
qed

section \<open>What holds between the calls\<close>

context aio_client
begin

lemma aio_step_rest:
  assumes "aio_step run (s, k) (s', k')" "aio_rest k"
  shows "aio_rest k'"
proof -
  from assms(2) have inv: "aio_inv k" by (simp add: aio_rest_def)
  have "aio_rest k'" if io: "OS_DoIo run (s, k) = Some (r, s', k')" for r
  proof -
    from io OS_DoIo_exit [OF assms(2), of run s] obtain rd wr where "selected k = Some (rd, wr)"
      by (cases "selected k") auto
    from OS_DoIo_ok [OF inv this, of s] io show ?thesis by (auto simp: aio_rest_def)
  qed
  with assms show ?thesis
    by (elim aio_stepE) (auto intro: OS_AsyncReadStdin_rest OS_AsyncRead_rest OS_AsyncWrite_rest OS_Close_rest
      OS_CloseRead_rest simp: aio_rest_part [of k' k])
qed

lemma aio_program_rest:
  assumes "aio_program run s k"
  shows "aio_rest k"
proof -
  from assms obtain k0 k1 s0 where k1: "aio_static k0" "OS_LibInit k0 = (0, k1)" "(aio_step run)\<^sup>*\<^sup>* (s0, k1) (s, k)"
    by (auto simp: aio_program_def)
  have "(aio_step run)\<^sup>*\<^sup>* x y \<Longrightarrow> aio_rest (snd x) \<Longrightarrow> aio_rest (snd y)" for x y
    by (induction rule: rtranclp_induct) (auto dest: aio_step_rest)
  from this [OF k1(3)] OS_LibInit_rest [OF k1(1,2)] show ?thesis by simp
qed

text \<open>A program can post on every descriptor that has no operation of the kind outstanding.\<close>

lemma aio_program_posts:
  assumes "aio_program run s k" "0 \<le> fd" "fd < 1024" "0 \<le> len"
  shows "fd \<notin> readFdSet k \<Longrightarrow> \<exists>k'. OS_AsyncRead fd off b len p c k = Some (0, k')"
    "fd \<notin> writeFdSet k \<Longrightarrow> \<exists>k'. OS_AsyncWrite fd off b len p c k = Some (0, k')"
proof -
  from aio_program_rest [OF assms(1)] have k: "aio_inv k" "rd_pending k = readFdSet k" "wr_pending k = writeFdSet k"
    by (auto simp: aio_rest_def rd_pending_def wr_pending_def)
  show "fd \<notin> readFdSet k \<Longrightarrow> \<exists>k'. OS_AsyncRead fd off b len p c k = Some (0, k')"
    using OS_AsyncRead_ok [OF k(1) assms(2,3) _ assms(4), of off b p c] unfolding k(2) by blast
  show "fd \<notin> writeFdSet k \<Longrightarrow> \<exists>k'. OS_AsyncWrite fd off b len p c k = Some (0, k')"
    using OS_AsyncWrite_ok [OF k(1) assms(2,3) _ assms(4), of off b p c] unfolding k(3) by blast
qed

lemma aio_program_table:
  assumes "aio_program run s k"
  shows "readFdSetPost k = {} \<and> writeFdSetPost k = {} \<and> numRdPosted k = 0 \<and> numWrPosted k = 0
    \<and> readFdSet k \<union> writeFdSet k \<subseteq> {0 .. maxFd k} \<and> maxFd k < 1024
    \<and> (\<exists>t. asyncIoTable k = Some t \<and> int (length t) = asyncIoTableSize k \<and> length t \<le> 4096
        \<and> (\<forall>i < length t. inUse (t ! i) \<longleftrightarrow> int (i div 2) \<in> (if even i then readFdSet k else writeFdSet k)))"
proof -
  from aio_program_rest [OF assms] have k: "aio_inv k" "readFdSetPost k = {}" "writeFdSetPost k = {}"
    by (auto simp: aio_rest_def)
  then have "rd_pending k = readFdSet k" "wr_pending k = writeFdSet k" by (simp_all add: rd_pending_def wr_pending_def)
  with k show ?thesis by (auto simp: aio_inv_def sets_ok_def table_ok_def pending_ix_def)
qed

end

section \<open>A client\<close>

text \<open>
  A client whose callbacks post further operations: \<open>prog\<close> says which, from the number of the procedure,
  its client data and the result it is called with. It asks for nothing that is outstanding already, and
  keeps a list of the calls.
\<close>

datatype aio_action = PostRead int nat int nat nat | PostWrite int nat int nat nat

fun do_actions :: "aio_action list \<Rightarrow> os \<Rightarrow> os option" where
  "do_actions [] k = Some k"
| "do_actions (PostRead fd b len p c # as) k =
     (if 0 \<le> fd \<and> fd < 1024 \<and> 0 \<le> len \<and> fd \<notin> rd_pending k
      then do { (_, k) \<leftarrow> OS_AsyncRead fd 0 b len p c k; do_actions as k } else do_actions as k)"
| "do_actions (PostWrite fd b len p c # as) k =
     (if 0 \<le> fd \<and> fd < 1024 \<and> 0 \<le> len \<and> fd \<notin> wr_pending k
      then do { (_, k) \<leftarrow> OS_AsyncWrite fd 0 b len p c k; do_actions as k } else do_actions as k)"

definition run_script :: "(nat \<Rightarrow> nat \<Rightarrow> int \<Rightarrow> aio_action list) \<Rightarrow> (nat \<times> nat) list callback" where
  "run_script prog p c len sk =
     do { let (log, k) = sk;
          k \<leftarrow> do_actions (prog p c len) k;
          Some (log @ [(p, c)], k) }"

lemma do_actions_ok: "aio_inv k \<Longrightarrow> \<exists>k'. do_actions as k = Some k' \<and> aio_inv k' \<and> post_frame k k'"
proof (induction as k rule: do_actions.induct)
  case (2 fd b len p c as k)
  show ?case
  proof (cases "0 \<le> fd \<and> fd < 1024 \<and> 0 \<le> len \<and> fd \<notin> rd_pending k")
    case True
    with OS_AsyncRead_ok [OF 2(3), of fd len 0 b p c] obtain k1 where
      "OS_AsyncRead fd 0 b len p c k = Some (0, k1)" "aio_inv k1" "post_frame k k1" by auto
    with 2(1) [OF True] True show ?thesis by (force intro: post_frame_trans)
  next
    case False
    then have "do_actions (PostRead fd b len p c # as) k = do_actions as k" by (subst do_actions.simps) (rule if_not_P)
    with 2(2) [OF False 2(3)] show ?thesis by simp
  qed
next
  case (3 fd b len p c as k)
  show ?case
  proof (cases "0 \<le> fd \<and> fd < 1024 \<and> 0 \<le> len \<and> fd \<notin> wr_pending k")
    case True
    with OS_AsyncWrite_ok [OF 3(3), of fd len 0 b p c] obtain k1 where
      "OS_AsyncWrite fd 0 b len p c k = Some (0, k1)" "aio_inv k1" "post_frame k k1" by auto
    with 3(1) [OF True] True show ?thesis by (force intro: post_frame_trans)
  next
    case False
    then have "do_actions (PostWrite fd b len p c # as) k = do_actions as k" by (subst do_actions.simps) (rule if_not_P)
    with 3(2) [OF False 3(3)] show ?thesis by simp
  qed
qed simp

lemma run_script_ok:
  "aio_inv k \<Longrightarrow> \<exists>s' k'. run_script prog p c len (s, k) = Some (s', k') \<and> aio_inv k' \<and> post_frame k k' \<and> s' = s @ [(p, c)]"
  using do_actions_ok [of k "prog p c len"] by (auto simp: run_script_def)

interpretation script: aio_client "run_script prog" "\<lambda>log. log" for prog
  by unfold_locales (rule run_script_ok)

section \<open>Closing a descriptor whose operation is due\<close>

text \<open>An operation is counted as posted but nothing is posted: \<open>OS_DoIo\<close> neither waits nor dispatches.\<close>

definition stalled :: "os \<Rightarrow> bool" where
  "stalled k \<longleftrightarrow> readFdSetPost k = {} \<and> writeFdSetPost k = {} \<and> \<not> (numRdPosted k = 0 \<and> numWrPosted k = 0)"

lemma DoIo_dispatch_idle:
  assumes "readFdSetPost k = {}" "writeFdSetPost k = {}" "DoIo_dispatch run fd (s, k) = Some r" "0 \<le> fd"
  shows "r = (s, k)"
  using assms(3,4)
proof (induction "nat (maxFd k + 1 - fd)" arbitrary: fd rule: less_induct)
  case less
  show ?case
  proof (cases "fd \<le> maxFd k")
    case False
    with less.prems show ?thesis by (subst (asm) DoIo_dispatch.simps) simp
  next
    case True
    have "DoIo_read run fd (s, k) = (if fd < 1024 then Some (s, k) else None)"
      "DoIo_write run fd (s, k) = (if fd < 1024 then Some (s, k) else None)"
      using assms(1,2) less.prems(2) by (simp_all add: DoIo_read_def DoIo_write_def FD_ISSET_def)
    with less.prems(1) True have "DoIo_dispatch run (fd + 1) (s, k) = Some r"
      by (subst (asm) DoIo_dispatch.simps) (simp split: if_splits)
    then show ?thesis using less.hyps [of "fd + 1"] True less.prems(2) by simp
  qed
qed

lemma stalled_DoIo:
  assumes "stalled k" "OS_DoIo run (s, k) = Some (r, s', k')"
  shows "s' = s \<and> r = 0 \<and> stalled k'"
proof -
  define k0 where "k0 = k\<lparr>asyncIoInUse := True\<rparr>"
  have k0: "stalled k0" using assms(1) by (simp add: stalled_def k0_def)
  from assms have "\<exists>x. DoIo_dispatch run 0 (s, k0) = Some x \<and> r = 0 \<and> (s', k') = x"
    unfolding k0_def by (auto simp: OS_DoIo_def stalled_def Let_def bind_Some_iff split: if_splits)
  with DoIo_dispatch_idle [of k0 run 0 s "(s', k')"] k0 show ?thesis by (auto simp: stalled_def)
qed

lemma Grow_until_stalled: "Grow_until ix k = Some k' \<Longrightarrow> stalled k \<Longrightarrow> stalled k'"
proof -
  have grow: "GrowAsyncTable k = Some k' \<Longrightarrow> stalled k \<Longrightarrow> stalled k'" for k k'
    by (auto simp: GrowAsyncTable_def bind_Some_iff stalled_def)
  assume "Grow_until ix k = Some k'" "stalled k"
  moreover have "Grow_until ix k = Some k' \<Longrightarrow> stalled k \<longrightarrow> stalled k'"
  proof (rule Grow_until.raw_induct [where P = "\<lambda>ix k k'. stalled k \<longrightarrow> stalled k'"], goal_cases)
    case (1 rec ix k k')
    then show ?case by (cases "ix \<ge> asyncIoTableSize k") (auto dest!: grow simp: bind_Some_iff)
  qed
  ultimately show "stalled k'" by blast
qed

lemma aio_post_stalled: "aio_post ix p c fd len off b k = Some k' \<Longrightarrow> stalled k \<Longrightarrow> stalled k'"
  by (auto simp: aio_post_def aio_put_def bind_Some_iff stalled_def)

lemma aio_cancel_stalled: "aio_cancel ix k = Some k' \<Longrightarrow> stalled k \<Longrightarrow> stalled k'"
  by (auto simp: aio_cancel_def aio_put_def bind_Some_iff stalled_def split: if_splits)

lemma stalled_updates [simp]:
  "stalled (k\<lparr>asyncIoInUse := u\<rparr>) = stalled k" "stalled (k\<lparr>maxFd := m\<rparr>) = stalled k" "stalled (k\<lparr>readFdSet := rd\<rparr>) = stalled k"
  "stalled (k\<lparr>writeFdSet := wr\<rparr>) = stalled k"
  by (simp_all add: stalled_def)

lemma stalled_part: "aio_part k = aio_part k' \<Longrightarrow> stalled k = stalled k'"
  by (simp add: stalled_def aio_part_def)

lemma posting_stalled:
  "OS_AsyncRead fd off b len p c k = Some (r, k') \<Longrightarrow> stalled k \<Longrightarrow> stalled k'"
  "OS_AsyncWrite fd off b len p c k = Some (r, k') \<Longrightarrow> stalled k \<Longrightarrow> stalled k'"
  "OS_AsyncReadStdin b len p c k = Some (r, k') \<Longrightarrow> stalled k \<Longrightarrow> stalled k'"
proof -
  have start: "stalled (aio_begin fd k) = stalled k" by (simp add: Let_def)
  assume st: "stalled k"
  show "stalled k'" if r: "OS_AsyncRead fd off b len p c k = Some (r, k')"
  proof -
    from r obtain k1 k2 fds where "Grow_until (AIO_RD_IX fd) (aio_begin fd k) = Some k1"
      "aio_post (AIO_RD_IX fd) p c fd len off b k1 = Some k2" "k' = k2\<lparr>readFdSet := fds\<rparr>"
      by (fastforce simp: OS_AsyncRead_def Let_def bind_Some_iff int_checked_def split: if_splits)
    with st show ?thesis by (metis aio_post_stalled Grow_until_stalled start stalled_updates(3))
  qed
  show "stalled k'" if r: "OS_AsyncWrite fd off b len p c k = Some (r, k')"
  proof -
    from r obtain k1 k2 fds where "Grow_until (AIO_WR_IX fd) (aio_begin fd k) = Some k1"
      "aio_post (AIO_WR_IX fd) p c fd len off b k1 = Some k2" "k' = k2\<lparr>writeFdSet := fds\<rparr>"
      by (fastforce simp: OS_AsyncWrite_def Let_def bind_Some_iff int_checked_def split: if_splits)
    with st show ?thesis by (metis aio_post_stalled Grow_until_stalled start stalled_updates(4))
  qed
  show "stalled k'" if r: "OS_AsyncReadStdin b len p c k = Some (r, k')"
  proof -
    from r obtain k2 fds where k2: "aio_post (AIO_RD_IX 0) p c 0 len 0 b (k\<lparr>asyncIoInUse := True\<rparr>) = Some k2"
      "k' = (if 0 > maxFd k2 then k2\<lparr>readFdSet := fds, maxFd := 0\<rparr> else k2\<lparr>readFdSet := fds\<rparr>)"
      by (fastforce simp: OS_AsyncReadStdin_def Let_def bind_Some_iff split: if_splits)
    from aio_post_stalled [OF k2(1)] st have "stalled k2" by simp
    then show ?thesis by (simp add: k2(2))
  qed
qed

lemma OS_Close_aio_stalled:
  assumes "OS_Close_aio fd k = Some k'" "stalled k"
  shows "stalled k'"
proof -
  have clr: "stalled (k\<lparr>readFdSetPost := {}\<rparr>) = stalled k" "stalled (k\<lparr>writeFdSetPost := {}\<rparr>) = stalled k"
    if "stalled k" for k using that by (simp_all add: stalled_def)
  have post: "readFdSetPost k = {}" "writeFdSetPost k = {}" if "stalled k" for k using that by (simp_all add: stalled_def)
  from assms show ?thesis
    by (auto simp: OS_Close_aio_def FD_CLR_def bind_Some_iff Let_def post clr split: if_splits dest!: aio_cancel_stalled)
qed

lemma OS_Close_stalled:
  assumes "OS_Close fd b k = Some (r, k')" "OS_Close_aio fd k = Some k1" "stalled k1" "fd \<noteq> -1"
  shows "stalled k'"
  using OS_Close_part [OF assms(1,2,4)] assms(3) stalled_part [of k' k1] by simp

lemma OS_CloseRead_stalled:
  assumes "OS_CloseRead fd k = Some (r, k')" "stalled k"
  shows "stalled k'"
proof -
  from assms(1) obtain k1 where k1: "k1 = k \<or> (\<exists>k2 a fds. aio_put (AIO_RD_IX fd) a k = Some k2 \<and> k1 = k2\<lparr>readFdSet := fds\<rparr>)"
      "sys_shutdown fd k1 = (r, k')"
    by (simp add: OS_CloseRead_def bind_Some_iff split: if_splits) blast+
  have st: "stalled k1" using k1(1) assms(2) by (elim disjE) (auto simp: aio_put_def bind_Some_iff stalled_def)
  have "aio_part k' = aio_part k1"
    by (rule close_frame_part [OF sys_shutdown_frame [OF k1(2)]])
  then show ?thesis using st stalled_part [of k' k1] by simp
qed

lemma aio_step_stalled:
  assumes "aio_step run (s, k) (s', k')" "stalled k"
  shows "s' = s \<and> stalled k'"
proof -
  have "stalled k'" if "OS_Close fd b k = Some (r, k')" for fd b r
  proof (cases "fd = -1")
    case True
    with that assms(2) show ?thesis by (simp add: OS_Close_def)
  next
    case False
    with that obtain k1 where "OS_Close_aio fd k = Some k1" by (auto simp: OS_Close_def bind_Some_iff)
    with OS_Close_stalled [OF that this OS_Close_aio_stalled [OF this assms(2)] False] show ?thesis by simp
  qed
  with assms show ?thesis
    by (elim aio_stepE) (auto dest: posting_stalled OS_CloseRead_stalled stalled_DoIo simp: stalled_part [of k' k])
qed

lemma aio_steps_stalled:
  assumes "(aio_step run)\<^sup>*\<^sup>* (s, k) (s', k')" "stalled k"
  shows "s' = s \<and> stalled k'"
proof -
  have "(aio_step run)\<^sup>*\<^sup>* x y \<Longrightarrow> stalled (snd x) \<Longrightarrow> fst y = fst x \<and> stalled (snd y)" for x y
    by (induction rule: rtranclp_induct) (auto dest: aio_step_stalled)
  from this [OF assms(1)] assms(2) show ?thesis by simp
qed

text \<open>Closing goes through, and the count is left behind.\<close>

lemma OS_Close_due:
  assumes "aio_inv k" "asyncIoInUse k" "readFdSetPost k = {fd}" "writeFdSetPost k = {}"
  shows "\<exists>r k'. OS_Close fd b k = Some (r, k') \<and> stalled k'"
proof -
  from aio_inv_table [OF assms(1)] obtain t where t: "asyncIoTable k = Some t" "table_ok k t" "sets_ok k" by blast
  from t(3) assms(3) have fd: "0 \<le> fd" "fd < 1024" "numRdPosted k = 1"
    by (auto simp: sets_ok_def rd_pending_def)
  have ix: "nat (AIO_RD_IX fd) < length t" "0 \<le> AIO_RD_IX fd" "0 \<le> AIO_WR_IX fd"
    using posted_ix(1) [OF t(3), of fd] t(2) assms(3) by (auto simp: table_ok_def AIO_WR_IX_def AIO_RD_IX_def)
  have "even (length t)" using t(2) by (simp add: table_ok_def)
  moreover have "nat (AIO_RD_IX fd) = 2 * nat fd" "nat (AIO_WR_IX fd) = Suc (2 * nat fd)"
    using fd by (simp_all add: AIO_RD_IX_def AIO_WR_IX_def nat_add_distrib nat_mult_distrib)
  ultimately have wr: "nat (AIO_WR_IX fd) < length t" using ix(1) by (auto elim!: evenE)
  define k1 where "k1 = k\<lparr>readFdSet := readFdSet k - {fd}, readFdSetPost := {}\<rparr>"
  define t1 where "t1 = t[nat (AIO_RD_IX fd) := (t ! nat (AIO_RD_IX fd))\<lparr>inUse := False\<rparr>]"
  define k2 where "k2 = k1\<lparr>asyncIoTable := Some t1, writeFdSet := writeFdSet k - {fd}, writeFdSetPost := {}\<rparr>"
  have 1: "aio_cancel (AIO_RD_IX fd) k1 = Some (k1\<lparr>asyncIoTable := Some t1\<rparr>)"
    using aio_cancel_eq [OF _ ix(2,1), of k1] t(1) by (simp add: k1_def t1_def)
  obtain t2 where 2: "aio_cancel (AIO_WR_IX fd) k2 = Some (k2\<lparr>asyncIoTable := Some t2\<rparr>)"
    using aio_cancel_eq [OF _ ix(3), of k2 t1] wr by (auto simp: k2_def t1_def)
  obtain k3 where 3: "OS_Close_aio fd k = Some k3" "stalled k3"
    using 1 2 assms(2-4) fd
    by (simp add: OS_Close_aio_def FD_CLR_def k1_def k2_def stalled_def split: if_splits)
  obtain rc k4 where s: "sys_shutdown fd k3 = (rc, k4)" by fastforce
  from OS_Close_drain_frame [OF fd(1,2), of k4] obtain k5 where d: "OS_Close_drain fd k4 = Some k5" by blast
  have "fd \<noteq> -1" using fd by simp
  with 3(1) s d obtain r k' where "OS_Close fd b k = Some (r, k')"
    by (cases "sys_close fd (if b then if rc = 0 then k5 else k4 else k3)") (auto simp: OS_Close_def split: if_splits)
  with OS_Close_stalled [OF this 3 \<open>fd \<noteq> -1\<close>] show ?thesis by blast
qed

section \<open>Properties\<close>

text \<open>
  C38: whatever a program has posted and closed since \<open>OS_LibInit\<close>, \<open>OS_DoIo\<close> returns 0 when \<open>select\<close> does not
  fail, and has called the procedures of exactly the operations \<open>select\<close> found ready, each once, in the
  order of the descriptors and the read before the write; what the procedures post meanwhile waits for the next
  call. The procedures return, keep the table in order and leave the posted operations alone.
\<close>

theorem doio_dispatches:
  assumes "\<And>k p c len s. aio_inv k \<Longrightarrow> \<exists>s' k'. run p c len (s, k) = Some (s', k') \<and> aio_inv k' \<and> post_frame k k'
      \<and> calls s' = calls s @ [(p, c)]"
    and "aio_program run s k" "selected k = Some (rd, wr)"
  shows "\<exists>s' k'. OS_DoIo run (s, k) = Some (0, s', k') \<and> calls s' = calls s @ due_of rd wr k \<and> aio_program run s' k'"
proof -
  have c: "aio_client run calls" by (rule aio_client.intro [OF assms(1)])
  from aio_client.aio_program_rest [OF c assms(2)] have "aio_inv k" by (simp add: aio_rest_def)
  from aio_client.OS_DoIo_ok [OF c this assms(3), of s] obtain s' k' where
    d: "OS_DoIo run (s, k) = Some (0, s', k')" "calls s' = calls s @ due_of rd wr k" by blast
  moreover from assms(2) aio_step.do_io [OF d(1)] have "aio_program run s' k'"
    unfolding aio_program_def by (meson rtranclp.rtrancl_into_rtrancl)
  ultimately show ?thesis by blast
qed

text \<open>
  C39: between the calls the entries of the table in use are those of the descriptors in the sets to wait for,
  nothing is left posted, the counters are 0 and \<open>maxFd\<close> bounds the sets; and posting on a descriptor without an
  outstanding operation of the kind goes through.
\<close>

theorem aio_table:
  assumes "aio_program (run_script prog) s k"
  shows "readFdSetPost k = {} \<and> writeFdSetPost k = {} \<and> numRdPosted k = 0 \<and> numWrPosted k = 0
    \<and> readFdSet k \<union> writeFdSet k \<subseteq> {0 .. maxFd k} \<and> maxFd k < 1024
    \<and> (\<exists>t. asyncIoTable k = Some t \<and> int (length t) = asyncIoTableSize k \<and> length t \<le> 4096
        \<and> (\<forall>i < length t. inUse (t ! i) \<longleftrightarrow> int (i div 2) \<in> (if even i then readFdSet k else writeFdSet k)))
    \<and> (\<forall>fd len off b p c. 0 \<le> fd \<and> fd < 1024 \<and> 0 \<le> len \<longrightarrow>
         (fd \<notin> readFdSet k \<longrightarrow> (\<exists>k'. OS_AsyncRead fd off b len p c k = Some (0, k')))
         \<and> (fd \<notin> writeFdSet k \<longrightarrow> (\<exists>k'. OS_AsyncWrite fd off b len p c k = Some (0, k'))))"
  using script.aio_program_table [OF assms] script.aio_program_posts [OF assms] by blast

text \<open>
  C40: when a procedure closes a descriptor whose read is due but not yet performed, the count of posted
  operations stays behind: whatever the program posts, closes or waits for from then on, no procedure of any
  client is ever called again.
\<close>

theorem closing_due_stalls:
  assumes "aio_inv k" "asyncIoInUse k" "readFdSetPost k = {fd}" "writeFdSetPost k = {}"
  shows "\<exists>r k'. OS_Close fd b k = Some (r, k') \<and> \<not> (numRdPosted k' = 0 \<and> numWrPosted k' = 0)
    \<and> (\<forall>s s' k''. (aio_step run)\<^sup>*\<^sup>* (s, k') (s', k'') \<longrightarrow> s' = s)"
proof -
  from OS_Close_due [OF assms, of b] obtain r k' where k': "OS_Close fd b k = Some (r, k')" "stalled k'" by blast
  moreover from k'(2) aio_steps_stalled [of run _ k'] have "\<forall>s s' k''. (aio_step run)\<^sup>*\<^sup>* (s, k') (s', k'') \<longrightarrow> s' = s"
    by blast
  ultimately show ?thesis by (auto simp: stalled_def)
qed

section \<open>Witnesses\<close>

text \<open>A program that has posted a read of 10 bytes on descriptor 5, which becomes ready.\<close>

definition ex_fresh :: os where
  "ex_fresh = (ex_os [Data [1, 2]] [])\<lparr>os_libInitialized := False, maxFd := -1, pollq := [(0, {5}, {})]\<rparr>"

definition ex_started :: os where
  "ex_started = snd (OS_LibInit ex_fresh)"

definition ex_posted :: os where
  "ex_posted = ex_started\<lparr>asyncIoInUse := True, maxFd := 5,
     asyncIoTable := Some ((replicate 16 zero_aio)[10 := aio_new 1 7 5 10 0 100]), readFdSet := {5}\<rparr>"

lemma ex_init: "OS_LibInit ex_fresh = (0, ex_started)" "aio_static ex_fresh"
  by (simp_all add: OS_LibInit_def ex_started_def ex_fresh_def ex_os_def aio_static_def Let_def)

lemma ex_started_sel:
  "asyncIoTable ex_started = Some (replicate 16 zero_aio)" "asyncIoTableSize ex_started = 16" "maxFd ex_started = -1"
  "readFdSet ex_started = {}" "writeFdSet ex_started = {}" "readFdSetPost ex_started = {}" "writeFdSetPost ex_started = {}"
  "open_fds ex_started = {5}" "pollq ex_started = [(0, {5}, {})]" "numRdPosted ex_started = 0" "numWrPosted ex_started = 0"
proof -
  obtain act where "OS_InstallSignalHandlers False (ex_fresh\<lparr>asyncIoTable := Some (replicate 16 zero_aio), readFdSet := {},
      writeFdSet := {}, readFdSetPost := {}, writeFdSetPost := {}\<rparr>) = ex_fresh\<lparr>asyncIoTable := Some (replicate 16 zero_aio),
      readFdSet := {}, writeFdSet := {}, readFdSetPost := {}, writeFdSetPost := {}\<rparr>\<lparr>sigact := act\<rparr>"
    using OS_InstallSignalHandlers_frame by blast
  then have e: "ex_started = ex_fresh\<lparr>asyncIoTable := Some (replicate 16 zero_aio), readFdSet := {}, writeFdSet := {},
      readFdSetPost := {}, writeFdSetPost := {}, sigact := act, os_libInitialized := True\<rparr>"
    by (simp add: ex_started_def OS_LibInit_def Let_def) (simp add: ex_fresh_def ex_os_def)
  show "asyncIoTable ex_started = Some (replicate 16 zero_aio)" "asyncIoTableSize ex_started = 16" "maxFd ex_started = -1"
    "readFdSet ex_started = {}" "writeFdSet ex_started = {}" "readFdSetPost ex_started = {}" "writeFdSetPost ex_started = {}"
    "open_fds ex_started = {5}" "pollq ex_started = [(0, {5}, {})]" "numRdPosted ex_started = 0" "numWrPosted ex_started = 0"
    unfolding e by (simp_all add: ex_fresh_def ex_os_def)
qed

lemma ex_posted_sel:
  "asyncIoTable ex_posted = Some ((replicate 16 zero_aio)[10 := aio_new 1 7 5 10 0 100])" "readFdSet ex_posted = {5}"
  "writeFdSet ex_posted = {}" "readFdSetPost ex_posted = {}" "writeFdSetPost ex_posted = {}" "asyncIoInUse ex_posted"
  "open_fds ex_posted = {5}" "pollq ex_posted = [(0, {5}, {})]" "numRdPosted ex_posted = 0"
  by (simp_all add: ex_posted_def ex_started_sel)

lemma ex_post: "OS_AsyncRead 5 0 100 10 1 7 ex_started = Some (0, ex_posted)"
proof -
  define k1 where "k1 = ex_started\<lparr>asyncIoInUse := True, maxFd := 5\<rparr>"
  have t: "asyncIoTable k1 = Some (replicate 16 zero_aio)" by (simp add: k1_def ex_started_sel)
  have g: "Grow_until 10 k1 = Some k1"
    by (subst Grow_until.simps) (simp add: k1_def ex_started_sel)
  have "aio_post 10 1 7 5 10 0 100 k1 = Some (k1\<lparr>asyncIoTable := Some ((replicate 16 zero_aio)[10 := aio_new 1 7 5 10 0 100])\<rparr>)"
    using aio_put_get [OF t, of 10] by (simp add: aio_post_def zero_aio_def)
  moreover have "OS_AsyncRead 5 0 100 10 1 7 ex_started = do { k \<leftarrow> Grow_until 10 k1; k \<leftarrow> aio_post 10 1 7 5 10 0 100 k;
      fds \<leftarrow> FD_SET 5 (readFdSet k); Some (0, k\<lparr>readFdSet := fds\<rparr>) }"
    by (simp add: OS_AsyncRead_def AIO_RD_IX_def int_checked_def fits_int_def INT_MAX_def ex_started_sel k1_def)
  ultimately show ?thesis using g by (simp add: FD_SET_def ex_posted_def k1_def ex_started_sel)
qed

lemma ex_program: "aio_program (run_script prog) [] ex_posted"
proof -
  have "aio_step (run_script prog) ([], ex_started) ([], ex_posted)" by (rule aio_step.post_read [OF _ ex_post]) simp
  with ex_init show ?thesis unfolding aio_program_def by blast
qed

lemma due_of_read:
  assumes "0 \<le> fd" "fd < 1024"
  shows "due_of {fd} {} k = [aio_op (AIO_RD_IX fd) k]"
proof -
  have s: "[0 .. 1023] = [0 .. fd - 1] @ fd # [fd + 1 .. 1023]"
    using assms upto_split2 [of 0 fd 1023] upto_rec2 [of 0 fd] by simp
  have o: "concat (map (\<lambda>x. if x = fd then [aio_op (AIO_RD_IX x) k] else []) xs) = []" if "fd \<notin> set xs" for xs
    using that by (induction xs) auto
  have "fd \<notin> set [0 .. fd - 1]" "fd \<notin> set [fd + 1 .. 1023]" by simp_all
  from this [THEN o] show ?thesis by (simp add: due_of_def s del: concat_eq_Nil_conv)
qed

lemma doio_dispatches_witness:
  "\<exists>s' k'. OS_DoIo (run_script (\<lambda>_ _ _. [])) ([], ex_posted) = Some (0, s', k') \<and> s' = [(1, 7)]"
proof -
  have "selected ex_posted = Some ({5}, {})"
    by (simp add: selected_def sys_poll_def ex_posted_sel)
  from doio_dispatches [OF run_script_ok [where prog = "\<lambda>_ _ _. []"] ex_program this] obtain s' k' where
    "OS_DoIo (run_script (\<lambda>_ _ _. [])) ([], ex_posted) = Some (0, s', k')" "s' = due_of {5} {} ex_posted" by auto
  moreover have "aio_op (AIO_RD_IX 5) ex_posted = (1, 7)"
    by (simp add: aio_op_def aio_get_def AIO_RD_IX_def ex_posted_sel deref_def)
  ultimately show ?thesis by (simp add: due_of_read)
qed

lemma aio_table_witness: "numRdPosted ex_posted = 0 \<and> (\<exists>k'. OS_AsyncWrite 700 0 0 80 2 9 ex_posted = Some (0, k'))"
  using aio_table [OF ex_program [of "\<lambda>_ _ _. []"]] by (auto simp: ex_posted_sel)

lemma closing_due_stalls_witness:
  "\<exists>k r k'. readFdSetPost k = {5} \<and> OS_Close 5 False k = Some (r, k')
    \<and> (\<forall>s s' k''. (aio_step (run_script (\<lambda>_ _ _. [])))\<^sup>*\<^sup>* (s, k') (s', k'') \<longrightarrow> s' = s)"
proof -
  have "aio_inv ex_posted" using script.aio_program_rest [OF ex_program] by (simp add: aio_rest_def)
  then have "aio_inv (ex_posted\<lparr>numRdPosted := 1, readFdSetPost := {5}, readFdSet := {}\<rparr>)" (is "aio_inv ?k")
    using move_rd(1) [of ex_posted 5] by (simp add: ex_posted_sel)
  from closing_due_stalls [OF this, of 5 False "run_script (\<lambda>_ _ _. [])"] ex_posted_sel(5,6) show ?thesis
    by (intro exI [of _ ?k]) auto
qed

end
