(* ===== verification/Request.thy ===== *)
theory Request
  imports Source Accepting
begin

text \<open>
  The life of a request (\<open>fcgiapp.c\<close>): \<open>FCGX_Init\<close>, \<open>FCGX_InitRequest\<close>, \<open>FCGX_Accept_r\<close>, which
  finishes the previous request, waits for a connection whose begin record and parameters it
  can read and builds the streams, \<open>FCGX_Finish_r\<close>, \<open>FCGX_Free\<close>, and the operations around them.

  \<open>Request\<close> is the C struct \<open>FCGX_Request\<close>: its scalar fields are the record \<open>FCGX_Request\<close> that
  the streams share through \<open>reqDataPtr\<close>, the pointers to the streams and parameters are
  options. \<open>envp\<close> points to \<open>paramsPtr->vec\<close>; after \<open>FCGX_Free\<close> it dangles, and nothing reads it.

  The static variables of \<open>fcgiapp.c\<close> are the record \<open>fcgiapp\<close>.
\<close>

record Request =
  reqData :: FCGX_Request
  in_ptr :: "stream option"
  out_ptr :: "stream option"
  err_ptr :: "stream option"
  paramsPtr :: "Params option"
  envp :: "slot list option"

record fcgiapp =
  libInitialized :: bool
  isFastCGI :: int
  webServerAddressList :: "byte list option"
  the_request :: Request

abbreviation (input) FCGI_LISTENSOCK_FILENO :: int where "FCGI_LISTENSOCK_FILENO \<equiv> 0"
abbreviation (input) FCGI_FAIL_ACCEPT_ON_INTR :: int where "FCGI_FAIL_ACCEPT_ON_INTR \<equiv> 1"

section \<open>Code\<close>

text \<open>\<open>StringCopy\<close> of a terminated string: a block of its bytes and a zero.\<close>

definition StringCopy :: "byte list \<Rightarrow> byte list option" where
  "StringCopy str = do { strLen \<leftarrow> strlen str; bs \<leftarrow> memread 0 strLen str; Some (bs @ [0]) }"

definition FCGX_ShutdownPending :: "os \<Rightarrow> os" where
  "FCGX_ShutdownPending k = OS_ShutdownPending k"

text \<open>\<open>FCGX_FClose\<close> of a pointer that may be null.\<close>

definition FClose_opt ::
  "stream option \<Rightarrow> FCGX_Request \<Rightarrow> os \<Rightarrow> (int \<times> stream option \<times> FCGX_Request \<times> os) option" where
  "FClose_opt p r k =
     (case p of
        None \<Rightarrow> Some (0, None, r, k)
      | Some s \<Rightarrow> do { (v, s, r, k) \<leftarrow> FCGX_FClose EmptyBuffProc s r k; Some (v, Some s, r, k) })"

definition FCGX_Free :: "Request \<Rightarrow> bool \<Rightarrow> os \<Rightarrow> (Request \<times> os) option" where
  "FCGX_Free q close k =
     do { let q = q\<lparr>in_ptr := FCGX_FreeStream (in_ptr q), out_ptr := FCGX_FreeStream (out_ptr q),
                     err_ptr := FCGX_FreeStream (err_ptr q)\<rparr>;
          p \<leftarrow> FreeParams (paramsPtr q);
          let q = q\<lparr>paramsPtr := p\<rparr>;
          if close then
            do { (_, k) \<leftarrow> OS_IpcClose (ipcFd (reqData q)) (\<not> detached (reqData q)) k;
                 Some (q\<lparr>reqData := (reqData q)\<lparr>ipcFd := -1, detached := False\<rparr>\<rparr>, k) }
          else Some (q, k) }"

definition FCGX_Finish_r :: "Request \<Rightarrow> os \<Rightarrow> (Request \<times> os) option" where
  "FCGX_Finish_r q k =
     do { let close = (keepConnection (reqData q) = 0);
          (close, q, k) \<leftarrow>
            (case in_ptr q of
               None \<Rightarrow> Some (close, q, k)
             | Some s \<Rightarrow>
                 do { (e, err, r, k) \<leftarrow> FClose_opt (err_ptr q) (reqData q) k;
                      let q = q\<lparr>err_ptr := err, reqData := r\<rparr>;
                      (v, out, r, k) \<leftarrow> FClose_opt (out_ptr q) (reqData q) k;
                      let q = q\<lparr>out_ptr := out, reqData := r\<rparr>;
                      Some (close \<or> e \<noteq> 0 \<or> v \<noteq> 0 \<or> FCGX_GetError s \<noteq> 0, q, k) });
          FCGX_Free q close k }"

definition FCGX_InitRequest :: "int \<Rightarrow> int \<Rightarrow> int \<times> Request" where
  "FCGX_InitRequest sock fl =
     (0, \<lparr>reqData = \<lparr>requestId = 0, role = 0, ipcFd = -1, isBeginProcessed = False, keepConnection = 0,
            appStatus = 0, nWriters = 0, flags = fl, listen_sock = sock, detached = False\<rparr>,
          in_ptr = None, out_ptr = None, err_ptr = None, paramsPtr = None, envp = None\<rparr>)"

definition FCGX_Init :: "fcgiapp \<Rightarrow> os \<Rightarrow> (int \<times> fcgiapp \<times> os) option" where
  "FCGX_Init a k =
     (if libInitialized a then Some (0, a, k)
      else
        let a = a\<lparr>the_request := snd (FCGX_InitRequest FCGI_LISTENSOCK_FILENO 0)\<rparr>;
            (rc, k) = OS_LibInit k in
        if rc = -1 then Some (if errno k \<noteq> 0 then errno k else -9997, a, k)
        else
          do { l \<leftarrow> (case environ k (bytes_of ''FCGI_WEB_SERVER_ADDRS'') of
                       None \<Rightarrow> Some None
                     | Some p \<Rightarrow> do { c \<leftarrow> StringCopy p; Some (Some c) });
               Some (0, a\<lparr>webServerAddressList := l, libInitialized := True\<rparr>, k) })"

text \<open>\<open>FCGX_IsCGI\<close>: an initialisation that fails ends the process (\<open>None\<close>).\<close>

definition FCGX_IsCGI :: "fcgiapp \<Rightarrow> os \<Rightarrow> (bool \<times> fcgiapp \<times> os) option" where
  "FCGX_IsCGI a k =
     (if isFastCGI a \<noteq> -1 then Some (isFastCGI a = 0, a, k)
      else
        do { (a, k) \<leftarrow> (if \<not> libInitialized a then
                          do { (rc, a, k) \<leftarrow> FCGX_Init a k; ASSERT (rc = 0); Some (a, k) }
                        else Some (a, k));
             let (fcgi, k) = OS_IsFcgi FCGI_LISTENSOCK_FILENO k;
             Some (\<not> fcgi, a\<lparr>isFastCGI := of_bool fcgi\<rparr>, k) })"

text \<open>The strings of the roles; other roles are refused.\<close>

definition role_string :: "int \<Rightarrow> byte list option" where
  "role_string r =
     (if r = FCGI_RESPONDER then Some (bytes_of ''FCGI_ROLE=RESPONDER'')
      else if r = FCGI_AUTHORIZER then Some (bytes_of ''FCGI_ROLE=AUTHORIZER'')
      else if r = FCGI_FILTER then Some (bytes_of ''FCGI_ROLE=FILTER'')
      else None)"

text \<open>
  The body of the loop of \<open>FCGX_Accept_r\<close> on an open connection: whether the role and the
  environment could be read; if not, the code goes to \<open>TryAgain\<close>.
\<close>

definition Accept_try :: "Request \<Rightarrow> os \<Rightarrow> (bool \<times> Request \<times> os) option" where
  "Accept_try q k =
     do { let r = (reqData q)\<lparr>isBeginProcessed := False\<rparr>;
          s \<leftarrow> NewReader 8192 0 k;
          (s, r, k) \<leftarrow> FillBuffProc s r k;
          let q = q\<lparr>reqData := r, in_ptr := Some s\<rparr>;
          if \<not> isBeginProcessed r then Some (False, q, k)
          else
            case role_string (role r) of
              None \<Rightarrow> Some (False, q, k)
            | Some roleStr \<Rightarrow>
                do { p \<leftarrow> NewParams 30;
                     e \<leftarrow> StringCopy (roleStr @ [0]);
                     p \<leftarrow> PutParam e p;
                     s \<leftarrow> SetReaderType FCGI_PARAMS s;
                     (v, p, s, r, k) \<leftarrow> ReadParams FillBuffProc p s r k;
                     Some (v \<ge> 0, q\<lparr>reqData := r, in_ptr := Some s, paramsPtr := Some p\<rparr>, k) } }"

text \<open>A connection is accepted when none is open; an error code ends the loop.\<close>

definition Accept_connect ::
  "byte list option \<Rightarrow> Request \<Rightarrow> os \<Rightarrow> (int option \<times> Request \<times> os) option" where
  "Accept_connect addrs q k =
     (if ipcFd (reqData q) < 0 then
        do { let fail_on_intr = (flags (reqData q) AND FCGI_FAIL_ACCEPT_ON_INTR \<noteq> 0);
             (fd, k) \<leftarrow> OS_Accept (listen_sock (reqData q)) fail_on_intr addrs k;
             let q = q\<lparr>reqData := (reqData q)\<lparr>ipcFd := fd\<rparr>\<rparr>;
             Some (if fd < 0 then Some (if errno k > 0 then 0 - errno k else -9999) else None, q, k) }
      else Some (None, q, k))"

partial_function (option) Accept_loop ::
  "byte list option \<Rightarrow> Request \<Rightarrow> os \<Rightarrow> (int option \<times> Request \<times> os) option" where
  "Accept_loop addrs q k =
     do { (rc, q, k) \<leftarrow> Accept_connect addrs q k;
          if rc \<noteq> None then Some (rc, q, k)
          else
            do { (ready, q, k) \<leftarrow> Accept_try q k;
                 if ready then Some (None, q, k)
                 else do { (q, k) \<leftarrow> FCGX_Free q True k; Accept_loop addrs q k } } }"

text \<open>The streams and the environment of an accepted request.\<close>

definition Accept_build :: "Request \<Rightarrow> os \<Rightarrow> Request option" where
  "Accept_build q k =
     do { s \<leftarrow> in_ptr q;
          s \<leftarrow> SetReaderType FCGI_STDIN s;
          out \<leftarrow> NewWriter 8192 FCGI_STDOUT k;
          err \<leftarrow> NewWriter 512 FCGI_STDERR k;
          p \<leftarrow> paramsPtr q;
          Some (q\<lparr>in_ptr := Some s, out_ptr := Some out, err_ptr := Some err,
                  reqData := (reqData q)\<lparr>nWriters := 2\<rparr>, envp := Some (vec p)\<rparr>) }"

definition FCGX_Accept_r :: "fcgiapp \<Rightarrow> Request \<Rightarrow> os \<Rightarrow> (int \<times> Request \<times> os) option" where
  "FCGX_Accept_r a q k =
     (if \<not> libInitialized a then Some (-9998, q, k)
      else
        do { (q, k) \<leftarrow> FCGX_Finish_r q k;
             (rc, q, k) \<leftarrow> Accept_loop (webServerAddressList a) q k;
             case rc of
               Some e \<Rightarrow> Some (e, q, k)
             | None \<Rightarrow> do { q \<leftarrow> Accept_build q k; Some (0, q, k) } })"

text \<open>\<open>FCGX_Accept\<close>: the four pointers it stores are those of \<open>the_request\<close>.\<close>

definition FCGX_Accept ::
  "fcgiapp \<Rightarrow> os
     \<Rightarrow> (int \<times> (stream option \<times> stream option \<times> stream option \<times> slot list option) option
          \<times> fcgiapp \<times> os) option" where
  "FCGX_Accept a k =
     do { (rc, a, k) \<leftarrow> (if \<not> libInitialized a then FCGX_Init a k else Some (0, a, k));
          if rc \<noteq> 0 then Some (rc, None, a, k)
          else
            do { (rc, q, k) \<leftarrow> FCGX_Accept_r a (the_request a) k;
                 Some (rc, Some (in_ptr q, out_ptr q, err_ptr q, envp q), a\<lparr>the_request := q\<rparr>, k) } }"

definition FCGX_Finish :: "fcgiapp \<Rightarrow> os \<Rightarrow> (fcgiapp \<times> os) option" where
  "FCGX_Finish a k =
     do { (q, k) \<leftarrow> FCGX_Finish_r (the_request a) k; Some (a\<lparr>the_request := q\<rparr>, k) }"

definition FCGX_StartFilterData :: "stream \<Rightarrow> FCGX_Request \<Rightarrow> (int \<times> stream) option" where
  "FCGX_StartFilterData s r =
     (if role r \<noteq> FCGI_FILTER \<or> \<not> isReader s \<or> \<not> isClosed s \<or> strtype s \<noteq> FCGI_STDIN
      then Some (-1, SetError FCGX_CALL_SEQ_ERROR s)
      else do { s \<leftarrow> SetReaderType FCGI_DATA s; Some (0, s) })"

definition FCGX_SetExitStatus :: "int \<Rightarrow> FCGX_Request \<Rightarrow> FCGX_Request" where
  "FCGX_SetExitStatus status r = r\<lparr>appStatus := status\<rparr>"

definition FCGX_Attach :: "FCGX_Request \<Rightarrow> int \<times> FCGX_Request" where
  "FCGX_Attach r = (0, r\<lparr>detached := False\<rparr>)"

definition FCGX_Detach :: "FCGX_Request \<Rightarrow> int \<times> FCGX_Request" where
  "FCGX_Detach r = (if ipcFd r \<le> 0 then (-1, r) else (0, r\<lparr>detached := True\<rparr>))"

end
