(* ===== verification/Respond.thy ===== *)
theory Respond
  imports Request
begin

text \<open>
  The response of a request: a client writes to \<open>out\<close> and \<open>err\<close> in any order, both streams share
  the connection, and \<open>FCGX_Finish_r\<close> closes them. \<open>peer\<close> is what the web server makes of the
  records; \<open>Finish_response\<close> says that it gets exactly what the client wrote to either stream,
  and the exit status.
\<close>

section \<open>Specification\<close>

text \<open>The peer's view of an output stream of the request.\<close>

datatype peer_stream = Unused | Open | Ended

text \<open>
  \<open>peer i oo ee rs\<close> reads the records \<open>rs\<close> of request \<open>i\<close>: the contents of the two streams and the
  body of the end record, or \<open>None\<close> when the records break the protocol: data after the end of
  its stream, a stream that has begun but not ended, an unfinished \<open>FCGI_STDOUT\<close>, or a record
  after the end record.
\<close>

fun peer ::
  "int \<Rightarrow> peer_stream \<Rightarrow> peer_stream \<Rightarrow> (int \<times> int \<times> byte list) list
     \<Rightarrow> (byte list \<times> byte list \<times> byte list) option" where
  "peer i oo ee [] = None"
| "peer i oo ee ((t, j, c) # rs) =
     (if j \<noteq> i then None
      else if t = FCGI_STDOUT \<and> oo \<noteq> Ended then
        map_option (\<lambda>(x, y, z). (c @ x, y, z)) (peer i (if c = [] then Ended else Open) ee rs)
      else if t = FCGI_STDERR \<and> ee \<noteq> Ended then
        map_option (\<lambda>(x, y, z). (x, c @ y, z)) (peer i oo (if c = [] then Ended else Open) rs)
      else if t = FCGI_END_REQUEST \<and> oo = Ended \<and> ee \<noteq> Open \<and> rs = [] then Some ([], [], c)
      else None)"

text \<open>A client of the two output streams.\<close>

datatype out_call = Out write_call | Err write_call

fun do_out :: "out_call \<Rightarrow> Request \<Rightarrow> os \<Rightarrow> (int \<times> Request \<times> os) option" where
  "do_out (Out c) q k =
     do { s \<leftarrow> out_ptr q;
          (v, s, r, k) \<leftarrow> do_write EmptyBuffProc c s (reqData q) k;
          Some (v, q\<lparr>out_ptr := Some s, reqData := r\<rparr>, k) }"
| "do_out (Err c) q k =
     do { s \<leftarrow> err_ptr q;
          (v, s, r, k) \<leftarrow> do_write EmptyBuffProc c s (reqData q) k;
          Some (v, q\<lparr>err_ptr := Some s, reqData := r\<rparr>, k) }"

fun run_out :: "out_call list \<Rightarrow> Request \<Rightarrow> os \<Rightarrow> (bool \<times> Request \<times> os) option" where
  "run_out [] q k = Some (True, q, k)"
| "run_out (c # cs) q k =
     do { (v, q, k) \<leftarrow> do_out c q k; if v < 0 then Some (False, q, k) else run_out cs q k }"

text \<open>What the client means to write to each.\<close>

fun out_of :: "out_call \<Rightarrow> byte list" where
  "out_of (Out c) = written_by c" | "out_of (Err c) = []"

fun err_of :: "out_call \<Rightarrow> byte list" where
  "err_of (Out c) = []" | "err_of (Err c) = written_by c"

definition outs :: "out_call list \<Rightarrow> byte list" where
  "outs cs = concat (map out_of cs)"

definition errs :: "out_call list \<Rightarrow> byte list" where
  "errs cs = concat (map err_of cs)"

section \<open>Two writers on one connection\<close>

type_synonym rec = "int \<times> int \<times> byte list"

definition enc_rec :: "rec \<Rightarrow> byte list" where
  "enc_rec = (\<lambda>(t, i, c). enc_record t i c)"

definition recs :: "int \<Rightarrow> int \<Rightarrow> byte list list \<Rightarrow> rec list" where
  "recs t i chunks = map (\<lambda>c. (t, i, c)) chunks"

lemma enc_recs: "concat (map enc_rec (recs t i chunks)) = concat (map (enc_record t i) chunks)"
  by (simp add: recs_def enc_rec_def comp_def)

definition rec_ok :: "rec \<Rightarrow> bool" where
  "rec_ok = (\<lambda>(t, i, c). 0 \<le> t \<and> t < 256 \<and> 0 \<le> i \<and> i < 65536 \<and> length c \<le> 65535)"

lemma parse_enc_recs: "list_all rec_ok rs \<Longrightarrow> parse_records (concat (map enc_rec rs)) = Some rs"
proof (induction rs)
  case (Cons x rs)
  then show ?case
    by (cases x) (simp add: enc_rec_def rec_ok_def parse_records_enc_append)
qed simp

text \<open>The content of one stream in a list of records, and whether it has sent any.\<close>

definition content :: "int \<Rightarrow> rec list \<Rightarrow> byte list" where
  "content t rs = concat (map (snd \<circ> snd) (filter (\<lambda>x. fst x = t) rs))"

definition sends :: "int \<Rightarrow> rec list \<Rightarrow> bool" where
  "sends t rs \<longleftrightarrow> (\<exists>x \<in> set rs. fst x = t)"

lemma content_simps [simp]:
  "content t [] = []" "content t (rs @ rs') = content t rs @ content t rs'"
  "content t (recs t' i chunks) = (if t = t' then concat chunks else [])"
  "sends t [] = False" "sends t (rs @ rs') = (sends t rs \<or> sends t rs')"
  "sends t (recs t' i chunks) = (t = t' \<and> chunks \<noteq> [])"
  by (cases chunks; auto simp: content_def sends_def recs_def comp_def)+

text \<open>Data records only: non-empty, of the two streams.\<close>

definition data_rec :: "int \<Rightarrow> rec \<Rightarrow> bool" where
  "data_rec i = (\<lambda>(t, j, c). (t = FCGI_STDOUT \<or> t = FCGI_STDERR) \<and> j = i \<and> c \<noteq> [] \<and> length c \<le> 65535)"

lemma data_recs:
  "t = FCGI_STDOUT \<or> t = FCGI_STDERR \<Longrightarrow> list_all (\<lambda>c. c \<noteq> [] \<and> length c \<le> 65535) chunks \<Longrightarrow>
     list_all (data_rec i) (recs t i chunks)"
  by (auto simp: data_rec_def recs_def list_all_iff)

lemma data_rec_ok: "list_all (data_rec i) rs \<Longrightarrow> 0 \<le> i \<Longrightarrow> i < 65536 \<Longrightarrow> list_all rec_ok rs"
  by (auto simp: list_all_iff data_rec_def rec_ok_def)

text \<open>The peer reads data records as the contents of the streams.\<close>

lemma peer_data:
  assumes "list_all (data_rec i) rs"
    "sends FCGI_STDOUT rs \<Longrightarrow> oo \<noteq> Ended" "sends FCGI_STDERR rs \<Longrightarrow> ee \<noteq> Ended"
  shows "peer i oo ee (rs @ rs') = map_option (\<lambda>(x, y, z). (content FCGI_STDOUT rs @ x, content FCGI_STDERR rs @ y, z))
     (peer i (if sends FCGI_STDOUT rs then Open else oo) (if sends FCGI_STDERR rs then Open else ee) rs')"
  using assms
proof (induction rs arbitrary: oo ee)
  case Nil
  then show ?case by (simp add: content_def sends_def option.map_ident split_def)
next
  case (Cons x rs)
  obtain t j c where x: "x = (t, j, c)" by (cases x) auto
  with Cons.prems have c: "t = FCGI_STDOUT \<or> t = FCGI_STDERR" "j = i" "c \<noteq> []"
    and rs: "list_all (data_rec i) rs" by (auto simp: data_rec_def)
  from c(1) show ?case
  proof
    assume t: "t = FCGI_STDOUT"
    with Cons.IH [OF rs, of Open ee] Cons.prems c show ?thesis
      by (auto simp: x content_def sends_def option.map_comp comp_def split_def split: if_splits)
  next
    assume t: "t = FCGI_STDERR"
    with Cons.IH [OF rs, of oo Open] Cons.prems c show ?thesis
      by (auto simp: x content_def sends_def option.map_comp comp_def split_def)
  qed
qed

lemma wire_append:
  assumes "wire clean fd k0 bs k1" "wire clean fd k1 cs k2"
  shows "wire clean fd k0 (bs @ cs) k2"
proof -
  obtain es e es' e' where "fd_ok fd k0" "k1 = sent_on fd bs es e k0" "clean \<longrightarrow> wx_clean es \<and> e = errno k0"
    "k2 = sent_on fd cs es' e' k1" "clean \<longrightarrow> wx_clean es' \<and> e' = errno k1"
    using assms unfolding wire_def by blast
  then show ?thesis unfolding wire_def by (intro conjI exI [of _ "es'"] exI [of _ "e'"]) auto
qed

lemma wire_again: "wire True fd k0 bs k \<Longrightarrow> wire True fd k [] k"
  by (rule wire_start) (auto simp: wire_def)

text \<open>
  A writer seen from a later state of the connection: only its buffer and whether it has sent
  anything matter.
\<close>

definition writer_at :: "int \<Rightarrow> byte list \<Rightarrow> bool \<Rightarrow> stream \<Rightarrow> bool" where
  "writer_at t p sent s \<longleftrightarrow> wr_shape s \<and> \<not> rawWrite s \<and> \<not> isClosed s \<and> \<not> wasFCloseCalled s
     \<and> FCGI_errno s = 0 \<and> strtype s = t \<and> pending_out s = p \<and> isAnythingWritten s = sent"

lemma writer_at_acc:
  "writer_at t p sent s \<Longrightarrow> wire True (ipcFd r) k0 bs k \<Longrightarrow> wr_acc sent True k r t p s r k"
  using wire_again [of "ipcFd r" k0 bs k]
  by (auto simp: wr_acc_def writer_at_def intro!: exI [of _ "[]"])

lemma wr_acc_writer_at:
  assumes "wr_acc sent clean k r t xs s' r' k'"
  shows "\<exists>chunks p. r' = r \<and> list_all (\<lambda>c. c \<noteq> [] \<and> length c \<le> 65535) chunks \<and> xs = concat chunks @ p
    \<and> writer_at t p (sent \<or> chunks \<noteq> []) s'
    \<and> wire clean (ipcFd r) k (concat (map enc_rec (recs t (requestId r) chunks))) k'"
  using assms unfolding wr_acc_def writer_at_def enc_recs by blast

lemma writer_at_write:
  assumes "writer_at t p sent s" "wire True (ipcFd r) k0 bs k"
  shows "\<exists>v s' k' chunks p'. do_write EmptyBuffProc c s r k = Some (v, s', r, k') \<and> 0 \<le> v
    \<and> list_all (\<lambda>c. c \<noteq> [] \<and> length c \<le> 65535) chunks \<and> p @ written_by c = concat chunks @ p'
    \<and> writer_at t p' (sent \<or> chunks \<noteq> []) s'
    \<and> wire True (ipcFd r) k0 (bs @ concat (map enc_rec (recs t (requestId r) chunks))) k'"
proof -
  have a: "wr_acc sent True k r t p s r k" using writer_at_acc [OF assms] by simp
  from cooked.do_write_acc [OF this, of c] obtain v s' r' k' where
    d: "do_write EmptyBuffProc c s r k = Some (v, s', r', k')" "0 \<le> v"
    and a': "wr_acc sent True k r t (p @ written_by c) s' r' k'" by (auto simp: wr_failed_def)
  from wr_acc_writer_at [OF a'] d wire_append [OF assms(2)] show ?thesis by blast
qed

lemma writer_at_close:
  assumes "writer_at t p sent s" "wire True (ipcFd r) k0 bs k"
  shows "\<exists>s' k' chunks. FClose_opt (Some s) r k = Some (0, Some s', r\<lparr>nWriters := nWriters r - 1\<rparr>, k')
    \<and> list_all (\<lambda>c. c \<noteq> [] \<and> length c \<le> 65535) chunks \<and> concat chunks = p
    \<and> wire True (ipcFd r) k0 (bs @ concat (map enc_rec (recs t (requestId r) chunks @ closing t r (\<not> sent \<and> p = [])))) k'"
proof -
  have a: "wr_acc sent True k r t p s r k" using writer_at_acc [OF assms] by simp
  have cl: "close_records t r b = concat (map enc_rec (closing t r b))" for b
    by (simp add: close_records_def closing_def enc_rec_def)
  from FClose_acc [OF a] obtain s' k' chunks where
    "FCGX_FClose EmptyBuffProc s r k = Some (0, s', r\<lparr>nWriters := nWriters r - 1\<rparr>, k')"
    "list_all (\<lambda>c. c \<noteq> [] \<and> length c \<le> 65535) chunks" "concat chunks = p"
    "wire True (ipcFd r) k (concat (map enc_rec (recs t (requestId r) chunks @ closing t r (\<not> sent \<and> p = [])))) k'"
    by (auto simp: enc_recs cl)
  with wire_append [OF assms(2)] show ?thesis by (auto simp: FClose_opt_def)
qed

section \<open>A response\<close>

text \<open>
  The request \<open>q\<close> while the client writes: the records \<open>rs\<close> are on the wire since state \<open>k0\<close>, the
  client has written \<open>o'\<close> and \<open>e'\<close>, and apart from the two streams \<open>q\<close> is \<open>q0\<close>.
\<close>

definition responding ::
  "os \<Rightarrow> Request \<Rightarrow> rec list \<Rightarrow> byte list \<Rightarrow> byte list \<Rightarrow> Request \<Rightarrow> os \<Rightarrow> bool" where
  "responding k0 q0 rs o' e' q k \<longleftrightarrow>
     (\<exists>so se po pe. q = q0\<lparr>out_ptr := Some so, err_ptr := Some se\<rparr>
       \<and> writer_at FCGI_STDOUT po (sends FCGI_STDOUT rs) so
       \<and> writer_at FCGI_STDERR pe (sends FCGI_STDERR rs) se
       \<and> list_all (data_rec (requestId (reqData q0))) rs
       \<and> o' = content FCGI_STDOUT rs @ po \<and> e' = content FCGI_STDERR rs @ pe
       \<and> wire True (ipcFd (reqData q0)) k0 (concat (map enc_rec rs)) k)"

lemma responding_do_out:
  assumes "responding k0 q0 rs o' e' q k"
  shows "\<exists>v q' k' rs'. do_out c q k = Some (v, q', k') \<and> 0 \<le> v
    \<and> responding k0 q0 rs' (o' @ out_of c) (e' @ err_of c) q' k'"
proof -
  let ?r = "reqData q0"
  obtain so se po pe where q: "q = q0\<lparr>out_ptr := Some so, err_ptr := Some se\<rparr>"
    and so: "writer_at FCGI_STDOUT po (sends FCGI_STDOUT rs) so"
    and se: "writer_at FCGI_STDERR pe (sends FCGI_STDERR rs) se"
    and da: "list_all (data_rec (requestId ?r)) rs"
    and oe: "o' = content FCGI_STDOUT rs @ po" "e' = content FCGI_STDERR rs @ pe"
    and wi: "wire True (ipcFd ?r) k0 (concat (map enc_rec rs)) k"
    using assms by (auto simp: responding_def)
  show ?thesis
  proof (cases c)
    case (Out w)
    from writer_at_write [OF so wi, of w] obtain v s' k' chunks p' where
      d: "do_write EmptyBuffProc w so ?r k = Some (v, s', ?r, k')" "0 \<le> v"
      and ch: "list_all (\<lambda>c. c \<noteq> [] \<and> length c \<le> 65535) chunks" "po @ written_by w = concat chunks @ p'"
      and s': "writer_at FCGI_STDOUT p' (sends FCGI_STDOUT rs \<or> chunks \<noteq> []) s'"
      and wi': "wire True (ipcFd ?r) k0 (concat (map enc_rec (rs @ recs FCGI_STDOUT (requestId ?r) chunks))) k'"
      by auto
    have "responding k0 q0 (rs @ recs FCGI_STDOUT (requestId ?r) chunks) (o' @ out_of c) (e' @ err_of c)
        (q0\<lparr>out_ptr := Some s', err_ptr := Some se\<rparr>) k'"
      using s' se da wi' oe ch data_recs [OF _ ch(1), of FCGI_STDOUT] unfolding responding_def Out
      by (intro exI [of _ s'] exI [of _ se] exI [of _ p'] exI [of _ pe]) simp
    moreover have "do_out c q k = Some (v, q0\<lparr>out_ptr := Some s', err_ptr := Some se\<rparr>, k')"
      using d by (simp add: Out q)
    ultimately show ?thesis using d(2) by blast
  next
    case (Err w)
    from writer_at_write [OF se wi, of w] obtain v s' k' chunks p' where
      d: "do_write EmptyBuffProc w se ?r k = Some (v, s', ?r, k')" "0 \<le> v"
      and ch: "list_all (\<lambda>c. c \<noteq> [] \<and> length c \<le> 65535) chunks" "pe @ written_by w = concat chunks @ p'"
      and s': "writer_at FCGI_STDERR p' (sends FCGI_STDERR rs \<or> chunks \<noteq> []) s'"
      and wi': "wire True (ipcFd ?r) k0 (concat (map enc_rec (rs @ recs FCGI_STDERR (requestId ?r) chunks))) k'"
      by auto
    have "responding k0 q0 (rs @ recs FCGI_STDERR (requestId ?r) chunks) (o' @ out_of c) (e' @ err_of c)
        (q0\<lparr>out_ptr := Some so, err_ptr := Some s'\<rparr>) k'"
      using s' so da wi' oe ch data_recs [OF _ ch(1), of FCGI_STDERR] unfolding responding_def Err
      by (intro exI [of _ so] exI [of _ s'] exI [of _ po] exI [of _ p']) simp
    moreover have "do_out c q k = Some (v, q0\<lparr>out_ptr := Some so, err_ptr := Some s'\<rparr>, k')"
      using d by (simp add: Err q)
    ultimately show ?thesis using d(2) by blast
  qed
qed

lemma responding_run_out:
  "responding k0 q0 rs o' e' q k \<Longrightarrow> \<exists>q' k' rs'. run_out cs q k = Some (True, q', k')
    \<and> responding k0 q0 rs' (o' @ outs cs) (e' @ errs cs) q' k'"
proof (induction cs arbitrary: rs o' e' q k)
  case Nil
  then show ?case by (auto simp: outs_def errs_def)
next
  case (Cons c cs)
  from responding_do_out [OF Cons.prems, of c] obtain v q1 k1 rs1 where
    "do_out c q k = Some (v, q1, k1)" "0 \<le> v"
    and r1: "responding k0 q0 rs1 (o' @ out_of c) (e' @ err_of c) q1 k1" by blast
  moreover from Cons.IH [OF r1] obtain q' k' rs' where "run_out cs q1 k1 = Some (True, q', k')"
    "responding k0 q0 rs' ((o' @ out_of c) @ outs cs) ((e' @ err_of c) @ errs cs) q' k'" by blast
  ultimately show ?case by (auto simp: outs_def errs_def)
qed

text \<open>
  Closing \<open>err\<close> and then \<open>out\<close>, as \<open>FCGX_Finish_r\<close> does: the peer has the whole response.
\<close>

lemma responding_close:
  assumes "responding k0 q0 rs o' e' q k" "nWriters (reqData q0) = 2"
    "0 \<le> requestId (reqData q0)" "requestId (reqData q0) < 65536"
  shows "\<exists>se se' so' k1 k2 rs'. err_ptr q = Some se
    \<and> FClose_opt (err_ptr q) (reqData q) k = Some (0, Some se', (reqData q0)\<lparr>nWriters := 1\<rparr>, k1)
    \<and> FClose_opt (out_ptr q) ((reqData q0)\<lparr>nWriters := 1\<rparr>) k1 = Some (0, Some so', (reqData q0)\<lparr>nWriters := 0\<rparr>, k2)
    \<and> wire True (ipcFd (reqData q0)) k0 (concat (map enc_rec rs')) k2 \<and> list_all rec_ok rs'
    \<and> peer (requestId (reqData q0)) Unused Unused rs'
        = Some (o', e', end_body_bytes (MakeEndRequestBody (appStatus (reqData q0)) FCGI_REQUEST_COMPLETE))"
proof -
  let ?r = "reqData q0" and ?i = "requestId (reqData q0)"
  let ?r1 = "?r\<lparr>nWriters := 1\<rparr>"
  let ?fin = "end_body_bytes (MakeEndRequestBody (appStatus ?r) FCGI_REQUEST_COMPLETE)"
  obtain so se po pe where q: "q = q0\<lparr>out_ptr := Some so, err_ptr := Some se\<rparr>"
    and so: "writer_at FCGI_STDOUT po (sends FCGI_STDOUT rs) so"
    and se: "writer_at FCGI_STDERR pe (sends FCGI_STDERR rs) se"
    and da: "list_all (data_rec ?i) rs"
    and oe: "o' = content FCGI_STDOUT rs @ po" "e' = content FCGI_STDERR rs @ pe"
    and wi: "wire True (ipcFd ?r) k0 (concat (map enc_rec rs)) k"
    using assms(1) by (auto simp: responding_def)
  let ?silent = "\<not> sends FCGI_STDERR rs \<and> pe = []"
  from writer_at_close [OF se wi] obtain se' k1 ce where
    c1: "FClose_opt (Some se) ?r k = Some (0, Some se', ?r1, k1)"
    and ce: "list_all (\<lambda>c. c \<noteq> [] \<and> length c \<le> 65535) ce" "concat ce = pe"
    and w1: "wire True (ipcFd ?r) k0 (concat (map enc_rec (rs @ recs FCGI_STDERR ?i ce @ closing FCGI_STDERR ?r ?silent))) k1"
    by (auto simp: assms(2))
  have w1': "wire True (ipcFd ?r1) k0 (concat (map enc_rec (rs @ recs FCGI_STDERR ?i ce @ closing FCGI_STDERR ?r ?silent))) k1"
    using w1 by simp
  from writer_at_close [OF so w1'] obtain so' k2 co where
    c2: "FClose_opt (Some so) ?r1 k1 = Some (0, Some so', ?r\<lparr>nWriters := 0\<rparr>, k2)"
    and co: "list_all (\<lambda>c. c \<noteq> [] \<and> length c \<le> 65535) co" "concat co = po"
    and w2: "wire True (ipcFd ?r) k0 (concat (map enc_rec ((rs @ recs FCGI_STDERR ?i ce @ closing FCGI_STDERR ?r ?silent)
      @ recs FCGI_STDOUT ?i co @ closing FCGI_STDOUT ?r1 (\<not> sends FCGI_STDOUT rs \<and> po = [])))) k2"
    by auto
  let ?d1 = "rs @ recs FCGI_STDERR ?i ce" and ?d2 = "recs FCGI_STDOUT ?i co"
  let ?x1 = "if ?silent then [] else [(FCGI_STDERR, ?i, [])]"
  let ?x2 = "[(FCGI_STDOUT, ?i, []), (FCGI_END_REQUEST, ?i, ?fin)]"
  let ?rs = "?d1 @ ?x1 @ ?d2 @ ?x2"
  have rs: "(rs @ recs FCGI_STDERR ?i ce @ closing FCGI_STDERR ?r ?silent)
      @ recs FCGI_STDOUT ?i co @ closing FCGI_STDOUT ?r1 (\<not> sends FCGI_STDOUT rs \<and> po = []) = ?rs"
    using assms(2) by (simp add: closing_def)
  have d1: "list_all (data_rec ?i) ?d1" and d2: "list_all (data_rec ?i) ?d2"
    using da data_recs [OF _ ce(1), of FCGI_STDERR] data_recs [OF _ co(1), of FCGI_STDOUT] by simp_all
  have cne: "ce = [] \<longleftrightarrow> pe = []" "co = [] \<longleftrightarrow> po = []"
    using ce co by (auto simp: list_all_iff)
  have ok: "list_all rec_ok ?rs"
    using data_rec_ok [OF d1 assms(3,4)] data_rec_ok [OF d2 assms(3,4)] assms(3,4)
    by (auto simp: rec_ok_def)
  have p2: "oo \<noteq> Ended \<Longrightarrow> ee \<noteq> Open \<Longrightarrow> peer ?i oo ee (?d2 @ ?x2) = Some (po, [], ?fin)" for oo ee
    using peer_data [OF d2, of oo ee ?x2] co by auto
  have p: "peer ?i Unused Unused ?rs = Some (o', e', ?fin)"
    using peer_data [OF d1, of Unused Unused "?x1 @ ?d2 @ ?x2"] p2 ce cne oe by auto
  have "\<exists>rs'. wire True (ipcFd ?r) k0 (concat (map enc_rec rs')) k2 \<and> list_all rec_ok rs'
      \<and> peer ?i Unused Unused rs' = Some (o', e', ?fin)"
    using w2 p ok unfolding rs by blast
  with c1 c2 show ?thesis unfolding q by auto
qed
section \<open>Freeing and finishing\<close>

text \<open>What \<open>FCGX_Free\<close> leaves of a request.\<close>

definition freed :: "bool \<Rightarrow> Request \<Rightarrow> Request" where
  "freed close q = q\<lparr>in_ptr := None, out_ptr := None, err_ptr := None, paramsPtr := None,
     reqData := (if close then (reqData q)\<lparr>ipcFd := -1, detached := False\<rparr> else reqData q)\<rparr>"

lemma freed_sel [simp]:
  "in_ptr (freed c q) = None" "out_ptr (freed c q) = None" "err_ptr (freed c q) = None"
  "paramsPtr (freed c q) = None"
  "ipcFd (reqData (freed c q)) = (if c then -1 else ipcFd (reqData q))"
  "flags (reqData (freed c q)) = flags (reqData q)"
  "listen_sock (reqData (freed c q)) = listen_sock (reqData q)"
  by (simp_all add: freed_def)

text \<open>A request that can be freed: its parameters, if any, are well-formed.\<close>

definition freeable :: "Request \<Rightarrow> bool" where
  "freeable q \<longleftrightarrow> (\<forall>p. paramsPtr q = Some p \<longrightarrow> (\<exists>es. params_ok es p))"

lemma FreeStream_None [simp]: "FCGX_FreeStream p = None"
  by (simp add: FCGX_FreeStream_def split: option.split)

lemma FreeParams_freeable: "freeable q \<Longrightarrow> FreeParams (paramsPtr q) = Some None"
  using FreeParams_ok by (cases "paramsPtr q") (auto simp: freeable_def FreeParams_def)

lemma Free_keep: "freeable q \<Longrightarrow> FCGX_Free q False k = Some (freed False q, k)"
  by (simp add: FCGX_Free_def Let_def FreeParams_freeable [unfolded freeable_def] freeable_def freed_def)

lemma Free_closed:
  "freeable q \<Longrightarrow> ipcFd (reqData q) = -1 \<Longrightarrow> FCGX_Free q True k = Some (freed True q, k)"
  by (simp add: FCGX_Free_def Let_def FreeParams_freeable [unfolded freeable_def] freeable_def freed_def
      OS_IpcClose_def OS_Close_def)

text \<open>A descriptor that \<open>OS_Close\<close> can handle.\<close>

definition closable :: "int \<Rightarrow> os \<Rightarrow> bool" where
  "closable fd k \<longleftrightarrow> fd \<in> open_fds k \<and> 0 \<le> fd \<and> fd < 1024 \<and> \<not> asyncIoInUse k"

lemma Free_close:
  assumes "freeable q" "closable (ipcFd (reqData q)) k"
  shows "\<exists>k1. FCGX_Free q True k = Some (freed True q,
      k1\<lparr>open_fds := open_fds k - {ipcFd (reqData q)}, locks := locks k - {ipcFd (reqData q)}\<rparr>)
    \<and> close_frame (ipcFd (reqData q)) k k1"
proof -
  from OS_Close_ok [of "ipcFd (reqData q)" k "\<not> detached (reqData q)"] assms(2) obtain k1 where
    "OS_Close (ipcFd (reqData q)) (\<not> detached (reqData q)) k = Some (0,
      k1\<lparr>open_fds := open_fds k - {ipcFd (reqData q)}, locks := locks k - {ipcFd (reqData q)}\<rparr>)"
    "close_frame (ipcFd (reqData q)) k k1" unfolding closable_def by blast
  then show ?thesis
    using assms(1)
    by (intro exI [of _ k1]) (simp add: FCGX_Free_def Let_def
        FreeParams_freeable [unfolded freeable_def] freeable_def freed_def OS_IpcClose_def)
qed

lemma wire_fds: "wire clean fd k0 bs k \<Longrightarrow> open_fds k = open_fds k0 \<and> asyncIoInUse k = asyncIoInUse k0"
  by (auto simp: wire_def sent_on_def)

text \<open>
  \<open>FCGX_Finish_r\<close>: the peer gets the two streams and the exit status, the memory is freed, and the
  connection is closed unless the peer asked to keep it and the input had no error.
\<close>

lemma Finish_response:
  assumes "responding k0 q0 rs o' e' q k" "nWriters (reqData q0) = 2"
    "0 \<le> requestId (reqData q0)" "requestId (reqData q0) < 65536"
    "in_ptr q0 = Some s" "freeable q0" "closable (ipcFd (reqData q0)) k0"
  shows "\<exists>q' k' out rs'. FCGX_Finish_r q k = Some (q', k')
    \<and> tx k' (ipcFd (reqData q0)) = tx k0 (ipcFd (reqData q0)) @ out \<and> parse_records out = Some rs'
    \<and> peer (requestId (reqData q0)) Unused Unused rs'
        = Some (o', e', end_body_bytes (MakeEndRequestBody (appStatus (reqData q0)) FCGI_REQUEST_COMPLETE))
    \<and> (let close = (keepConnection (reqData q0) = 0 \<or> FCGI_errno s \<noteq> 0) in
        q' = freed close (q0\<lparr>reqData := (reqData q0)\<lparr>nWriters := 0\<rparr>\<rparr>)
        \<and> open_fds k' = (if close then open_fds k0 - {ipcFd (reqData q0)} else open_fds k0))"
proof -
  let ?r = "reqData q0"
  let ?fd = "ipcFd ?r" and ?close = "keepConnection (reqData q0) = 0 \<or> FCGI_errno s \<noteq> 0"
  from responding_close [OF assms(1-4)] obtain se' so' k1 k2 rs' where
    c1: "FClose_opt (err_ptr q) (reqData q) k = Some (0, Some se', ?r\<lparr>nWriters := 1\<rparr>, k1)"
    and c2: "FClose_opt (out_ptr q) (?r\<lparr>nWriters := 1\<rparr>) k1 = Some (0, Some so', ?r\<lparr>nWriters := 0\<rparr>, k2)"
    and wi: "wire True ?fd k0 (concat (map enc_rec rs')) k2" and ok: "list_all rec_ok rs'"
    and p: "peer (requestId ?r) Unused Unused rs'
      = Some (o', e', end_body_bytes (MakeEndRequestBody (appStatus ?r) FCGI_REQUEST_COMPLETE))"
    by blast
  let ?q = "q0\<lparr>out_ptr := Some so', err_ptr := Some se', reqData := ?r\<lparr>nWriters := 0\<rparr>\<rparr>"
  have q: "in_ptr q = Some s" "keepConnection (reqData q) = keepConnection ?r"
    "q\<lparr>err_ptr := Some se', out_ptr := Some so', reqData := ?r\<lparr>nWriters := 0\<rparr>\<rparr> = ?q"
    using assms(1,5) by (auto simp: responding_def)
  have f: "FCGX_Finish_r q k = FCGX_Free ?q ?close k2"
    by (simp add: FCGX_Finish_r_def q c1 c2 FCGX_GetError_def)
  have fr: "freeable ?q" "freed c ?q = freed c (q0\<lparr>reqData := ?r\<lparr>nWriters := 0\<rparr>\<rparr>)" for c
    using assms(6) by (simp_all add: freeable_def freed_def)
  have cl: "closable ?fd k2" using assms(7) wire_fds [OF wi] by (simp add: closable_def)
  have parse: "parse_records (concat (map enc_rec rs')) = Some rs'" using ok by (rule parse_enc_recs)
  show ?thesis
  proof (cases ?close)
    case True
    from Free_close [OF fr(1)] cl obtain k3 where
      "FCGX_Free ?q True k2 = Some (freed True ?q,
        k3\<lparr>open_fds := open_fds k2 - {?fd}, locks := locks k2 - {?fd}\<rparr>)" "close_frame ?fd k2 k3" by auto
    with True f parse p wire_tx [OF wi] wire_fds [OF wi] close_frame_sel(2) [of ?fd k2 k3] fr(2) [of True]
    show ?thesis by auto
  next
    case False
    with f Free_keep [OF fr(1)] parse p wire_tx [OF wi] wire_fds [OF wi] fr(2) [of False]
    show ?thesis by auto
  qed
qed
end
