(* ===== verification/Handshake.thy ===== *)
theory Handshake
  imports Respond
begin

text \<open>
  How a connection becomes a request: \<open>handshake\<close> reads the begin record and the parameters off
  the bytes of the connection, and \<open>Accept_try_handshake\<close> shows that the body of the loop of
  \<open>FCGX_Accept_r\<close> does what it says, however the bytes arrive.
\<close>

section \<open>What a connection must begin with\<close>

text \<open>
  \<open>handshake\<close> is the beginning of a connection as a function on its bytes \<open>bs\<close>: \<open>HsReady\<close> is a
  record that begins a request, with a role the library knows, followed by parameters; it gives the request id,
  the begin body, the name-value pairs, the bytes the library answers with and the way the
  parameter stream ends. \<open>HsRetry\<close> is anything the library gives up on; \<open>HsFault\<close> a run that may
  have no defined result (see \<open>demux\<close> and \<open>decode_pairs\<close>).
\<close>

datatype handshake =
    HsRetry
  | HsFault
  | HsReady int FCGI_BeginRequestBody "(byte list \<times> byte list) list" "byte list" dend

definition body_role :: "FCGI_BeginRequestBody \<Rightarrow> int" where
  "body_role body = be16 (roleB1 body) (roleB0 body)"

definition hs_params ::
  "(nat \<Rightarrow> byte) \<Rightarrow> int \<Rightarrow> int \<Rightarrow> FCGI_BeginRequestBody \<Rightarrow> byte list \<Rightarrow> byte list \<Rightarrow> handshake" where
  "hs_params jk e rid body w rest =
     (case demux \<lparr>d_junk = jk, d_type = FCGI_PARAMS, d_id = rid, d_begun = True, d_err = e\<rparr>
             0 0 False rest of
        (c, w', E) \<Rightarrow>
          if E = DFault then HsFault
          else case decode_pairs c of
            (ps, PEnd) \<Rightarrow> HsReady rid body ps (w @ w') E
          | (ps, PCut) \<Rightarrow> HsRetry
          | (ps, PTooLong) \<Rightarrow> HsFault)"

definition handshake :: "(nat \<Rightarrow> byte) \<Rightarrow> int \<Rightarrow> int \<Rightarrow> byte list \<Rightarrow> handshake" where
  "handshake jk e i bs =
     (case demux \<lparr>d_junk = jk, d_type = 0, d_id = i, d_begun = False, d_err = e\<rparr> 0 0 False bs of
        (c, w, E) \<Rightarrow>
          (case E of
             DFault \<Rightarrow> HsFault
           | DBegin rid body rest \<Rightarrow>
               if c \<noteq> [] \<or> role_string (body_role body) = None then HsRetry
               else hs_params jk e rid body w rest
           | _ \<Rightarrow> HsRetry))"

section \<open>Accept\_try refines it\<close>

text \<open>\<open>demux\<close> only takes bytes away.\<close>

lemma on_header_begin_length: "on_header d sk h ys = HStop (DBegin i b zs) \<Longrightarrow> length zs \<le> length ys"
  by (auto simp: on_header_def on_begin_def on_get_values_def Let_def
      split: if_splits option.splits prod.splits pairs_end.splits)

lemma demux_length:
  "length (fst (demux d cl pl sk xs)) \<le> length xs \<and>
     (\<forall>i b ys. snd (snd (demux d cl pl sk xs)) = DBegin i b ys \<longrightarrow> length ys \<le> length xs)"
proof (induction d cl pl sk xs rule: demux.induct)
  case (1 d cl pl sk xs)
  show ?case
  proof (cases "0 < cl")
    case True
    with 1(1) show ?thesis
      by (subst (1 2) demux.simps) (force simp: min_def not_less)
  next
    case c: False
    show ?thesis
    proof (cases "length xs < pl + 8 \<or> header_of (take 8 (drop pl xs)) = None")
      case True
      with c show ?thesis by (subst (1 2) demux.simps) auto
    next
      case False
      then obtain h where h: "header_of (take 8 (drop pl xs)) = Some h" by auto
      show ?thesis
      proof (cases "on_header d sk h (drop (pl + 8) xs)")
        case (HStop E)
        have "demux d cl pl sk xs = ([], [], E)"
          using c False h HStop by (subst demux.simps) simp
        moreover have "E = DBegin i b zs \<Longrightarrow> length zs \<le> length xs" for i b zs
          using on_header_begin_length [of d sk h "drop (pl + 8) xs" i b zs] HStop by simp
        ultimately show ?thesis by simp
      next
        case (HGo w n p sk' ys)
        then have e: "demux d cl pl sk xs = before [] w (demux d n p sk' ys)"
          using c False h by (subst demux.simps) simp
        have "length ys \<le> length xs" using on_header_shrinks [OF HGo] by simp
        with 1(2) [OF c _ h HGo] False show ?thesis unfolding e by fastforce
      qed
    qed
  qed
qed

lemma chan_append:
  assumes "chan k0 fd w k1" "chan k1 fd w' k2"
  shows "chan k0 fd (w @ w') k2"
proof -
  obtain es ws e where k1: "k1 = sent_on fd w ws e (recvd_on fd es e k0)" "fd_ok fd k0"
    using assms(1) by (auto simp: chan_def)
  obtain es' ws' e' where k2: "k2 = sent_on fd w' ws' e' (recvd_on fd es' e' k1)" "wx_clean ws'"
    using assms(2) by (auto simp: chan_def)
  have "k2 = sent_on fd (w @ w') ws' e' (recvd_on fd es' e' k0)"
    by (simp add: k1(1) k2(1) sent_on_def recvd_on_def)
  with k1(2) k2(2) show ?thesis unfolding chan_def by blast
qed

lemma chan_clean: "chan k0 fd w k \<Longrightarrow> wx_clean (wx k fd)"
  by (auto simp: chan_def)

lemma NewReader_shape:
  assumes "malloc_fits k"
  shows "\<exists>s. NewReader len t k = Some s \<and> rd_shape s \<and> \<not> isClosed s \<and> FCGI_errno s = 0
    \<and> \<not> eorStop s \<and> \<not> skip s \<and> contentLen s = 0 \<and> paddingLen s = 0 \<and> strtype s = t
    \<and> left s r k' = rx_bytes (rx k' (ipcFd r))"
proof -
  from NewStream_ok [OF assms] obtain s where s: "NewStream len True t k = Some s" "buff_ok s"
    by blast
  from NewStream_fields [OF s(1)] s(2) show ?thesis
    unfolding NewReader_def rd_shape_def left_def by (intro exI [of _ s]) (auto simp: s(1) buff_ok_def)
qed

text \<open>The first record that matters: what \<open>FillBuffProc\<close> makes of a new connection.\<close>

lemma Accept_fill:
  assumes "malloc_fits k" "fd_ok (ipcFd r) k" "wx_clean (wx k (ipcFd r))"
    "rx_error (rx k (ipcFd r)) = re" "re \<noteq> Some 0" "\<not> isBeginProcessed r"
    "demux \<lparr>d_junk = junk k, d_type = 0, d_id = requestId r, d_begun = False, d_err = rerr re\<rparr>
       0 0 False (rx_bytes (rx k (ipcFd r))) = (c, w, E)" "E \<noteq> DFault"
  shows "\<exists>s0 s r' k'. NewReader 8192 0 k = Some s0 \<and> FillBuffProc s0 r k = Some (s, r', k')
    \<and> rd_shape s \<and> \<not> eorStop s \<and> strtype s = 0
    \<and> (c = [] \<and> chan k (ipcFd r) w k' \<and> ended re r E s r' k'
       \<or> c \<noteq> [] \<and> (\<exists>w'. chan k (ipcFd r) w' k') \<and> r' = r)"
proof -
  from NewReader_shape [OF assms(1)] obtain s0 where n: "NewReader 8192 0 k = Some s0"
    and s0: "rd_shape s0" "\<not> isClosed s0" "FCGI_errno s0 = 0" "\<not> eorStop s0" "\<not> skip s0"
      "contentLen s0 = 0" "paddingLen s0 = 0" "strtype s0 = 0" "left s0 r k = rx_bytes (rx k (ipcFd r))"
    by blast
  have dp: "dpar k re s0 r = \<lparr>d_junk = junk k, d_type = 0, d_id = requestId r, d_begun = False,
      d_err = rerr re\<rparr>"
    using s0(8) assms(6) by (simp add: dpar_def)
  have "rd_open k [] re s0 r k"
    using s0 assms(4) chan_start [OF assms(2,3)] by (simp add: rd_open_def)
  from FillBuff_loop_demux [OF this assms(5), of "[]"] s0(5-9) assms(7,8) dp
  obtain s r' k' where "FillBuffProc s0 r k = Some (s, r', k')" "filled k [] re s0 r (c, w, E) s r' k'"
    unfolding FillBuffProc_def by auto
  moreover have "rdNext s < stop s \<Longrightarrow> stop s \<le> buffStop s \<Longrightarrow> rd_shape s \<Longrightarrow> pend s \<noteq> []"
    using rd_shape_bounds(3) [of s] by (auto simp: pend_def seg_eq_Nil)
  ultimately show ?thesis using n s0(8) unfolding filled_def by fastforce
qed

text \<open>The parameters: \<open>ReadParams\<close> on the begun request.\<close>

lemma Accept_params:
  assumes s: "rd_shape s" "\<not> eorStop s" "FCGI_errno s = 0" "rdNext s = stop s" "left s r k = rest"
    and r: "isBeginProcessed r" "chan k0 (ipcFd r) w k" "rx_error (rx k (ipcFd r)) = re" "re \<noteq> Some 0"
    and d: "demux \<lparr>d_junk = junk k0, d_type = FCGI_PARAMS, d_id = requestId r, d_begun = True, d_err = rerr re\<rparr>
      0 0 False rest = (c, w', E)" "E \<noteq> DFault"
    and p: "params_ok es p" "length es + length c < 2 ^ 29"
    and ps: "decode_pairs c = (ps, e)" "e \<noteq> PTooLong"
  shows "\<exists>s0 v p' s' r' k'. SetReaderType FCGI_PARAMS s = Some s0
    \<and> ReadParams FillBuffProc p s0 r k = Some (v, p', s', r', k')
    \<and> params_ok (es @ map entry ps) p' \<and> chan k0 (ipcFd r) (w @ w') k' \<and> ipcFd r' = ipcFd r
    \<and> (e = PCut \<longrightarrow> v = -1)
    \<and> (e = PEnd \<longrightarrow> v = 0 \<and> rd_shape s' \<and> \<not> eorStop s' \<and> ended re r E s' r' k')
    \<and> (\<exists>i. r' = r\<lparr>requestId := i\<rparr>)"
proof -
  define s0 where "s0 = s\<lparr>strtype := FCGI_PARAMS, eorStop := False, skip := False, contentLen := 0,
                  paddingLen := 0, wrNext := rdNext s, stop := rdNext s, isClosed := False\<rparr>"
  have st: "SetReaderType FCGI_PARAMS s = Some s0"
    using rd_shape_bounds(1) [OF s(1)] by (simp add: SetReaderType_def s0_def)
  have dp: "dpar k re s0 r = \<lparr>d_junk = junk k0, d_type = FCGI_PARAMS, d_id = requestId r, d_begun = True,
      d_err = rerr re\<rparr>"
    using chan_junk [OF r(2)] r(1) by (simp add: dpar_def s0_def)
  have "rd_shape s0" using s(1) by (auto simp: s0_def rd_shape_def buff_ok_def)
  moreover have "left s0 r k = rest" using s(5) by (simp add: s0_def left_def)
  ultimately have src: "rd_src k r re w' E c s0 r k"
    using rd_src_start [of s0 r k re c w' E] chan_fd_ok [OF r(2)] chan_clean [OF r(2)] s r d dp
    by (simp add: s0_def)
  show ?thesis
  proof (cases e)
    case PEnd
    with reader.ReadParams_src [OF src p ps(1)] obtain p' s' r' k' where
      "ReadParams FillBuffProc p s0 r k = Some (0, p', s', r', k')" "params_ok (es @ map entry ps) p'"
      and s': "rd_src k r re w' E [] s' r' k'" "isClosed s'" by auto
    moreover have en: "rd_shape s'" "\<not> eorStop s'" "ended re r E s' r' k'" "chan k (ipcFd r) w' k'"
      using s' by (auto simp: rd_src_def)
    moreover have "\<exists>i. r' = r\<lparr>requestId := i\<rparr>" using en(3) s' same_request [of r] unfolding rd_src_def
      by (cases E) auto
    ultimately show ?thesis using st chan_append [OF r(2)] PEnd by fastforce
  next
    case PCut
    with reader.ReadParams_src [OF src p ps(1)] obtain p' s' r' k' where
      "ReadParams FillBuffProc p s0 r k = Some (-1, p', SetError FCGX_PARAMS_ERROR s', r', k')"
      "params_ok (es @ map entry ps) p'" and s': "rd_src k r re w' E [] s' r' k'" "isClosed s'" by auto
    moreover have en: "ended re r E s' r' k'" "chan k (ipcFd r) w' k'"
      using s' by (auto simp: rd_src_def)
    moreover have "\<exists>i. r' = r\<lparr>requestId := i\<rparr>" using en(1) s' same_request [of r] unfolding rd_src_def
      by (cases E) auto
    ultimately show ?thesis using st chan_append [OF r(2)] PCut by fastforce
  next
    case PTooLong
    with ps show ?thesis by simp
  qed
qed

text \<open>The first parameter is the role.\<close>

definition role_pair :: "int \<Rightarrow> byte list \<times> byte list" where
  "role_pair r = (bytes_of ''FCGI_ROLE'',
     bytes_of (if r = FCGI_RESPONDER then ''RESPONDER''
               else if r = FCGI_AUTHORIZER then ''AUTHORIZER'' else ''FILTER''))"

lemma role_string_entry:
  assumes "role_string r = Some str"
  shows "StringCopy (str @ [0]) = Some (entry (role_pair r))"
proof -
  have "0 \<notin> set str" "str @ [0] = entry (role_pair r)"
    using assms by (auto simp: role_string_def role_pair_def entry_def bytes_of_def split: if_splits)
  moreover from this(1) have "StringCopy (str @ [0]) = Some (str @ [0])"
    by (simp add: StringCopy_def strlen_terminated memread_def)
  ultimately show ?thesis by simp
qed

lemma begun_request_again:
  "begun_request rid body (r\<lparr>isBeginProcessed := b\<rparr>) = begun_request rid body r"
  by (simp add: begun_request_def)

text \<open>What a failed attempt may change of the request.\<close>

definition tried :: "Request \<Rightarrow> Request \<Rightarrow> bool" where
  "tried q q' \<longleftrightarrow> freeable q' \<and> out_ptr q' = out_ptr q \<and> err_ptr q' = err_ptr q
     \<and> ipcFd (reqData q') = ipcFd (reqData q) \<and> flags (reqData q') = flags (reqData q)
     \<and> listen_sock (reqData q') = listen_sock (reqData q) \<and> detached (reqData q') = detached (reqData q)"

lemma ended_request:
  assumes "ended re r E s r' k" "isBeginProcessed r \<longrightarrow> b" "\<forall>i b xs. E \<noteq> DBegin i b xs"
  shows "\<exists>i. r' = r\<lparr>requestId := i\<rparr>"
  using assms same_request [of r] by (cases E) auto

lemma Accept_try_handshake:
  assumes "malloc_fits k" "fd_ok (ipcFd (reqData q)) k" "wx_clean (wx k (ipcFd (reqData q)))"
    "rx_error (rx k (ipcFd (reqData q))) = re" "re \<noteq> Some 0" "freeable q"
    "length (rx_bytes (rx k (ipcFd (reqData q)))) < 2 ^ 28"
  shows "case handshake (junk k) (rerr re) (requestId (reqData q)) (rx_bytes (rx k (ipcFd (reqData q)))) of
      HsRetry \<Rightarrow> \<exists>q' k' w. Accept_try q k = Some (False, q', k')
        \<and> chan k (ipcFd (reqData q)) w k' \<and> tried q q'
    | HsReady rid body ps w E \<Rightarrow> \<exists>p s r' k'.
        Accept_try q k = Some (True, q\<lparr>reqData := r', in_ptr := Some s, paramsPtr := Some p\<rparr>, k')
        \<and> chan k (ipcFd (reqData q)) w k' \<and> params_ok (map entry (role_pair (body_role body) # ps)) p
        \<and> rd_shape s \<and> \<not> eorStop s \<and> ended re (begun_request rid body (reqData q)) E s r' k'
    | HsFault \<Rightarrow> True"
proof -
  let ?r = "(reqData q)\<lparr>isBeginProcessed := False\<rparr>" and ?fd = "ipcFd (reqData q)"
  let ?bs = "rx_bytes (rx k ?fd)"
  obtain c w E where d: "demux \<lparr>d_junk = junk k, d_type = 0, d_id = requestId (reqData q), d_begun = False,
      d_err = rerr re\<rparr> 0 0 False ?bs = (c, w, E)" by (metis prod_cases3)
  show ?thesis
  proof (cases "E = DFault")
    case True
    then show ?thesis by (simp add: handshake_def d)
  next
    case nf: False
    have "\<exists>s0 s r' k'. NewReader 8192 0 k = Some s0 \<and> FillBuffProc s0 ?r k = Some (s, r', k')
        \<and> rd_shape s \<and> \<not> eorStop s \<and> strtype s = 0
        \<and> (c = [] \<and> chan k ?fd w k' \<and> ended re ?r E s r' k'
           \<or> c \<noteq> [] \<and> (\<exists>w'. chan k ?fd w' k') \<and> r' = ?r)"
      using Accept_fill [of k ?r re c w E] assms d nf by simp
    then obtain s0 s r1 k1 where
      n: "NewReader 8192 0 k = Some s0" and f: "FillBuffProc s0 ?r k = Some (s, r1, k1)"
      and s: "rd_shape s" "\<not> eorStop s"
      and out: "c = [] \<and> chan k ?fd w k1 \<and> ended re ?r E s r1 k1
        \<or> c \<noteq> [] \<and> (\<exists>w'. chan k ?fd w' k1) \<and> r1 = ?r" by blast
    let ?q = "q\<lparr>reqData := r1, in_ptr := Some s\<rparr>"
    have retry: "Accept_try q k = Some (False, ?q, k1) \<Longrightarrow> \<exists>i. r1 = ?r\<lparr>requestId := i\<rparr> \<or> r1 = begun_request i0 b0 ?r
        \<Longrightarrow> \<exists>q' k' w. Accept_try q k = Some (False, q', k') \<and> chan k ?fd w k' \<and> tried q q'" for i0 b0
      using out assms(6) by (auto simp: tried_def freeable_def begun_request_def)
    show ?thesis
    proof (cases "\<exists>rid body rest. c = [] \<and> E = DBegin rid body rest \<and> role_string (body_role body) \<noteq> None")
      case False
      have "\<not> isBeginProcessed r1 \<and> (\<exists>i. r1 = ?r\<lparr>requestId := i\<rparr>)
          \<or> (\<exists>i b. r1 = begun_request i b ?r \<and> role_string (role r1) = None)"
        using out False nf same_request [of ?r]
        by (cases E) (auto simp: begun_request_def body_role_def)
      then have "Accept_try q k = Some (False, ?q, k1)
          \<and> (\<exists>i i0 b0. r1 = ?r\<lparr>requestId := i\<rparr> \<or> r1 = begun_request i0 b0 ?r)"
        using n f by (auto simp: Accept_try_def begun_request_def)
      moreover have "handshake (junk k) (rerr re) (requestId (reqData q)) ?bs = HsRetry"
        using False nf by (cases E) (auto simp: handshake_def d)
      ultimately show ?thesis using retry by auto
    next
      case True
      then obtain rid body rest str where E: "c = []" "E = DBegin rid body rest"
        and str: "role_string (body_role body) = Some str" by auto
      let ?b = "begun_request rid body (reqData q)"
      have r1: "r1 = ?b" and e1: "FCGI_errno s = 0" "rdNext s = stop s" "left s r1 k1 = rest"
        "rx_error (rx k1 ?fd) = re" and ch: "chan k ?fd w k1"
        using out E by (auto simp: begun_request_again) (auto simp: begun_request_def)
      let ?d = "\<lparr>d_junk = junk k, d_type = FCGI_PARAMS, d_id = rid, d_begun = True, d_err = rerr re\<rparr>"
      obtain c2 w2 E2 where d2: "demux ?d 0 0 False rest = (c2, w2, E2)" by (metis prod_cases3)
      obtain ps e where ps: "decode_pairs c2 = (ps, e)" by fastforce
      have hs: "handshake (junk k) (rerr re) (requestId (reqData q)) ?bs
          = hs_params (junk k) (rerr re) rid body w rest"
        using E str by (simp add: handshake_def d)
      show ?thesis
      proof (cases "E2 = DFault \<or> e = PTooLong")
        case True
        then show ?thesis by (auto simp: hs hs_params_def d2 ps)
      next
        case False
        have len: "length [entry (role_pair (body_role body))] + length c2 < 2 ^ 29"
          using demux_length [of ?d 0 0 False rest] assms(7) d2 E(2)
            demux_length [of "\<lparr>d_junk = junk k, d_type = 0, d_id = requestId (reqData q), d_begun = False,
              d_err = rerr re\<rparr>" 0 0 False ?bs] d by auto
        from NewParams_ok [of 30] obtain p0 where p0: "NewParams 30 = Some p0" "params_ok [] p0" by auto
        from PutParam_ok [OF p0(2), of "entry (role_pair (body_role body))"] obtain p1 where
          p1: "PutParam (entry (role_pair (body_role body))) p0 = Some p1"
            "params_ok [entry (role_pair (body_role body))] p1" by auto
        have b: "isBeginProcessed ?b" "ipcFd ?b = ?fd" "requestId ?b = rid" "role ?b = body_role body"
          by (simp_all add: begun_request_def body_role_def)
        from Accept_params [OF s(1) s(2) e1(1,2) e1(3) [unfolded r1] b(1), unfolded b,
            OF ch e1(4) assms(5) d2 _ p1(2) len ps] False obtain s2 v p' s' r' k' where
          st: "SetReaderType FCGI_PARAMS s = Some s2"
          and rp: "ReadParams FillBuffProc p1 s2 ?b k1 = Some (v, p', s', r', k')"
          and p': "params_ok ([entry (role_pair (body_role body))] @ map entry ps) p'"
          and ch': "chan k ?fd (w @ w2) k'"
          and cut: "e = PCut \<longrightarrow> v = -1"
          and fin: "e = PEnd \<longrightarrow> v = 0 \<and> rd_shape s' \<and> \<not> eorStop s' \<and> ended re ?b E2 s' r' k'"
          and r': "\<exists>i. r' = ?b\<lparr>requestId := i\<rparr>" by blast
        let ?q = "q\<lparr>reqData := r', in_ptr := Some s', paramsPtr := Some p'\<rparr>"
        have "role_string (role ?b) = Some str" using str b by simp
        then have run: "Accept_try q k = Some (v \<ge> 0, ?q, k')"
          using n f p0(1) p1(1) st rp role_string_entry [OF str]
          by (simp add: Accept_try_def r1 b)
        show ?thesis
        proof (cases e)
          case PEnd
          then show ?thesis using run fin p' ch' False by (auto simp: hs hs_params_def d2 ps)
        next
          case PCut
          have "tried q ?q" using p' r' by (auto simp: tried_def freeable_def begun_request_def)
          then show ?thesis using run cut ch' False PCut by (auto simp: hs hs_params_def d2 ps)
        next
          case PTooLong
          with False show ?thesis by simp
        qed
      qed
    qed
  qed
qed
end
