(* ===== verification/Serve.thy ===== *)
theory Serve
  imports Handshake Examples
begin

text \<open>
  The loop of \<open>FCGX_Accept_r\<close> and the life of a request: connections that give no request are
  closed and skipped (\<open>Accept_loop_retry\<close>), one that does is returned with its environment
  (\<open>Accept_r_ready\<close>), its input is what \<open>demux\<close> finds after the parameters, and finishing it
  sends the response and closes or keeps the connection (\<open>serve_request\<close>).
\<close>

section \<open>Accepting\<close>

text \<open>Selectors that survive \<open>OS_Accept\<close>.\<close>

lemma accept_frame_sel:
  assumes "accept_frame ls k k'"
  shows "shutdownNow k' = shutdownNow k" "junk k' = junk k" "malloc_at k' = malloc_at k"
    "asyncIoInUse k' = asyncIoInUse k"
  using assms unfolding accept_frame_def by (cases k, cases k', simp)+

lemma malloc_fits_cong: "malloc_at k' = malloc_at k \<Longrightarrow> malloc_fits k' = malloc_fits k"
  by (simp add: malloc_fits_def)

lemma chan_sel:
  assumes "chan k0 fd w k"
  shows "open_fds k = open_fds k0" "malloc_at k = malloc_at k0" "asyncIoInUse k = asyncIoInUse k0"
    "accq k = accq k0" "lockq k = lockq k0" "selq k = selq k0" "shutdownPending k = shutdownPending k0"
    "shutdownNow k = shutdownNow k0"
  using assms by (auto simp: chan_def sent_on_def recvd_on_def)

text \<open>A request without a connection, and an operating system ready to accept one.\<close>

definition idle :: "Request \<Rightarrow> bool" where
  "idle q \<longleftrightarrow> in_ptr q = None \<and> ipcFd (reqData q) = -1 \<and> freeable q"

definition os_ready :: "os \<Rightarrow> bool" where
  "os_ready k \<longleftrightarrow> \<not> shutdownPending k \<and> lockq k = [] \<and> \<not> shutdownNow k \<and> malloc_fits k
     \<and> \<not> asyncIoInUse k"

text \<open>The connection \<open>FCGX_Accept_r\<close> gets next.\<close>

definition next_for ::
  "fcgiapp \<Rightarrow> Request \<Rightarrow> os \<Rightarrow> (outcome \<times> acc_event list \<times> int list) option" where
  "next_for a q k =
     next_conn (flags (reqData q) AND FCGI_FAIL_ACCEPT_ON_INTR \<noteq> 0)
       (\<lambda>addr. ClientAddrOK (inet_addr k) addr (webServerAddressList a)) (open_fds k) (accq k) (selq k)"

lemma Finish_idle:
  assumes "idle q"
  shows "\<exists>c. FCGX_Finish_r q k = Some (freed c q, k)"
  using assms Free_keep [of q k] Free_closed [of q k]
  by (cases "keepConnection (reqData q) = 0") (auto simp: FCGX_Finish_r_def idle_def Let_def)

lemma freed_more [simp]:
  "requestId (reqData (freed c q)) = requestId (reqData q)"
  "envp (freed c q) = envp q"
  by (simp_all add: freed_def)

lemma idle_freed: "idle q \<Longrightarrow> idle (freed c q)"
  by (auto simp: idle_def freeable_def)

lemma freeable_freed [simp]: "freeable (freed c q)"
  by (simp add: freeable_def)

text \<open>Connecting.\<close>

lemma Accept_connect_ok:
  assumes "idle q" "os_ready k" "next_for a q k = Some (Conn fd rxs txs, aq, sq)" "wx_clean txs"
  shows "\<exists>k1. Accept_connect (webServerAddressList a) q k
      = Some (None, q\<lparr>reqData := (reqData q)\<lparr>ipcFd := fd\<rparr>\<rparr>, k1)
    \<and> fd_ok fd k1 \<and> malloc_fits k1 \<and> junk k1 = junk k \<and> wx_clean (wx k1 fd) \<and> rx k1 fd = rxs
    \<and> tx k1 fd = [] \<and> open_fds k1 = insert fd (open_fds k) \<and> 0 \<le> fd \<and> fd \<notin> open_fds k
    \<and> os_ready k1 \<and> accq k1 = aq \<and> selq k1 = sq"
proof -
  have "accept_outcome (listen_sock (reqData q)) k (next_for a q k)
      (OS_Accept (listen_sock (reqData q)) (flags (reqData q) AND 1 \<noteq> 0) (webServerAddressList a) k)"
    using OS_Accept_next [of k "listen_sock (reqData q)" "flags (reqData q) AND 1 \<noteq> 0" "webServerAddressList a"]
      assms(2) by (simp add: next_for_def os_ready_def)
  then obtain k1 where
    acc: "OS_Accept (listen_sock (reqData q)) (flags (reqData q) AND 1 \<noteq> 0) (webServerAddressList a) k = Some (fd, k1)"
    and fr: "accept_frame (listen_sock (reqData q)) k k1"
    and k1: "\<not> shutdownPending k1" "0 \<le> fd" "fd \<notin> open_fds k" "open_fds k1 = insert fd (open_fds k)"
      "rx k1 fd = rxs" "wx k1 fd = txs" "tx k1 fd = []" "accq k1 = aq" "selq k1 = sq" "lockq k1 = []"
    unfolding assms(3) by auto
  have c: "Accept_connect (webServerAddressList a) q k
      = Some (None, q\<lparr>reqData := (reqData q)\<lparr>ipcFd := fd\<rparr>\<rparr>, k1)"
    using assms(1) acc k1(2) by (simp add: Accept_connect_def idle_def)
  then show ?thesis
    using k1 accept_frame_sel [OF fr] assms(2,4) malloc_fits_cong [of k1 k]
    by (simp add: os_ready_def fd_ok_def)
qed

lemma Accept_connect_refused:
  assumes "idle q" "os_ready k" "next_for a q k = Some (Refused e, aq, sq)"
  shows "\<exists>k1. Accept_connect (webServerAddressList a) q k
      = Some (Some (if e > 0 then - e else -9999), q, k1) \<and> open_fds k1 = open_fds k"
proof -
  have "accept_outcome (listen_sock (reqData q)) k (next_for a q k)
      (OS_Accept (listen_sock (reqData q)) (flags (reqData q) AND 1 \<noteq> 0) (webServerAddressList a) k)"
    using OS_Accept_next [of k "listen_sock (reqData q)" "flags (reqData q) AND 1 \<noteq> 0" "webServerAddressList a"]
      assms(2) by (simp add: next_for_def os_ready_def)
  then obtain k1 where
    "OS_Accept (listen_sock (reqData q)) (flags (reqData q) AND 1 \<noteq> 0) (webServerAddressList a) k = Some (-1, k1)"
    "errno k1 = e" "open_fds k1 = open_fds k"
    unfolding assms(3) by auto
  moreover have "q\<lparr>reqData := (reqData q)\<lparr>ipcFd := -1\<rparr>\<rparr> = q"
    using assms(1) by (cases q, cases "reqData q") (simp add: idle_def)
  ultimately show ?thesis
    using assms(1) by (simp add: Accept_connect_def idle_def)
qed

text \<open>A connection that gives no request is closed, and the loop goes on as if it had not come.\<close>

lemma Accept_loop_retry:
  assumes "idle q" "os_ready k" "next_for a q k = Some (Conn fd rxs txs, aq, sq)" "wx_clean txs" "fd < 1024"
    "rx_error rxs \<noteq> Some 0" "length (rx_bytes rxs) < 2 ^ 28"
    "handshake (junk k) (rerr (rx_error rxs)) (requestId (reqData q)) (rx_bytes rxs) = HsRetry"
  shows "\<exists>q1 k1. Accept_loop (webServerAddressList a) q k = Accept_loop (webServerAddressList a) q1 k1
    \<and> idle q1 \<and> os_ready k1 \<and> open_fds k1 = open_fds k \<and> accq k1 = aq
    \<and> flags (reqData q1) = flags (reqData q) \<and> listen_sock (reqData q1) = listen_sock (reqData q)"
proof -
  let ?q = "q\<lparr>reqData := (reqData q)\<lparr>ipcFd := fd\<rparr>\<rparr>"
  from Accept_connect_ok [OF assms(1-4)] obtain k1 where
    c: "Accept_connect (webServerAddressList a) q k = Some (None, ?q, k1)"
    and k1: "fd_ok fd k1" "malloc_fits k1" "junk k1 = junk k" "wx_clean (wx k1 fd)" "rx k1 fd = rxs"
      "open_fds k1 = insert fd (open_fds k)" "0 \<le> fd" "fd \<notin> open_fds k" "os_ready k1" "accq k1 = aq"
    by blast
  have fq: "freeable ?q" using assms(1) by (simp add: idle_def freeable_def)
  from Accept_try_handshake [of k1 ?q "rx_error rxs"] k1 assms(6-8) fq obtain q2 k2 w where
    t: "Accept_try ?q k1 = Some (False, q2, k2)" "chan k1 fd w k2" "tried ?q q2" by auto
  have "closable fd k2"
    using k1 assms(5) chan_sel [OF t(2)] by (simp add: closable_def os_ready_def)
  with Free_close [of q2 k2] t(3) obtain k3 where
    f: "FCGX_Free q2 True k2 = Some (freed True q2, k3\<lparr>open_fds := open_fds k2 - {fd}, locks := locks k2 - {fd}\<rparr>)"
    and fr: "close_frame fd k2 k3" by (auto simp: tried_def)
  have "Accept_loop (webServerAddressList a) q k = Accept_loop (webServerAddressList a) (freed True q2)
      (k3\<lparr>open_fds := open_fds k2 - {fd}, locks := locks k2 - {fd}\<rparr>)"
    by (subst Accept_loop.simps) (simp add: c t f)
  moreover have "idle (freed True q2)" by (simp add: idle_def)
  moreover have "os_ready (k3\<lparr>open_fds := open_fds k2 - {fd}, locks := locks k2 - {fd}\<rparr>)" "accq k3 = aq"
    using fr chan_sel [OF t(2)] k1(9,10) malloc_fits_cong [of k3 k2] malloc_fits_cong [of k2 k1]
    unfolding close_frame_def os_ready_def malloc_fits_def by (cases k3, cases k2, simp)+
  moreover have "open_fds k2 - {fd} = open_fds k"
    "flags (reqData q2) = flags (reqData q)" "listen_sock (reqData q2) = listen_sock (reqData q)"
    using t(3) chan_sel(1) [OF t(2)] k1(6,8) by (auto simp: tried_def)
  ultimately show ?thesis
    by (intro exI [of _ "freed True q2"]
        exI [of _ "k3\<lparr>open_fds := open_fds k2 - {fd}, locks := locks k2 - {fd}\<rparr>"]) simp
qed

text \<open>A connection that does is kept.\<close>

lemma Accept_loop_ready:
  assumes "idle q" "os_ready k" "next_for a q k = Some (Conn fd rxs txs, aq, sq)" "wx_clean txs"
    "rx_error rxs \<noteq> Some 0" "length (rx_bytes rxs) < 2 ^ 28"
    "handshake (junk k) (rerr (rx_error rxs)) (requestId (reqData q)) (rx_bytes rxs) = HsReady rid body ps w E"
  shows "\<exists>p s r' k1 k2. Accept_loop (webServerAddressList a) q k
      = Some (None, q\<lparr>reqData := r', in_ptr := Some s, paramsPtr := Some p\<rparr>, k2)
    \<and> chan k1 fd w k2 \<and> tx k1 fd = [] \<and> junk k1 = junk k \<and> os_ready k2 \<and> open_fds k2 = insert fd (open_fds k)
    \<and> 0 \<le> fd \<and> fd \<notin> open_fds k
    \<and> params_ok (map entry (role_pair (body_role body) # ps)) p
    \<and> rd_shape s \<and> \<not> eorStop s
    \<and> ended (rx_error rxs) (begun_request rid body ((reqData q)\<lparr>ipcFd := fd\<rparr>)) E s r' k2"
proof -
  let ?q = "q\<lparr>reqData := (reqData q)\<lparr>ipcFd := fd\<rparr>\<rparr>"
  from Accept_connect_ok [OF assms(1-4)] obtain k1 where
    c: "Accept_connect (webServerAddressList a) q k = Some (None, ?q, k1)"
    and k1: "fd_ok fd k1" "malloc_fits k1" "junk k1 = junk k" "wx_clean (wx k1 fd)" "rx k1 fd = rxs"
      "tx k1 fd = []" "open_fds k1 = insert fd (open_fds k)" "0 \<le> fd" "fd \<notin> open_fds k" "os_ready k1"
    by blast
  have fq: "freeable ?q" using assms(1) by (simp add: idle_def freeable_def)
  from Accept_try_handshake [of k1 ?q "rx_error rxs"] k1 assms(5-7) fq obtain p s r' k2 where
    t: "Accept_try ?q k1 = Some (True, ?q\<lparr>reqData := r', in_ptr := Some s, paramsPtr := Some p\<rparr>, k2)"
      "chan k1 fd w k2" "params_ok (map entry (role_pair (body_role body) # ps)) p" "rd_shape s" "\<not> eorStop s"
      "ended (rx_error rxs) (begun_request rid body ((reqData q)\<lparr>ipcFd := fd\<rparr>)) E s r' k2" by auto
  have "Accept_loop (webServerAddressList a) q k
      = Some (None, q\<lparr>reqData := r', in_ptr := Some s, paramsPtr := Some p\<rparr>, k2)"
    by (subst Accept_loop.simps) (simp add: c t)
  moreover have "os_ready k2"
    using k1(10) chan_sel [OF t(2)] malloc_fits_cong [of k2 k1] by (simp add: os_ready_def)
  ultimately show ?thesis using t(2-) k1 chan_sel(1) [OF t(2)] by blast
qed

section \<open>The accepted request\<close>

text \<open>The reader after \<open>SetReaderType\<close>.\<close>

definition reset_reader :: "int \<Rightarrow> stream \<Rightarrow> stream" where
  "reset_reader t s = s\<lparr>strtype := t, eorStop := False, skip := False, contentLen := 0,
     paddingLen := 0, wrNext := rdNext s, stop := rdNext s, isClosed := False\<rparr>"

lemma SetReaderType_reset: "isReader s \<Longrightarrow> SetReaderType t s = Some (reset_reader t s)"
  by (simp add: SetReaderType_def reset_reader_def)

text \<open>The next stream begins where the previous one has ended.\<close>

lemma reset_reader_src:
  assumes "rd_shape s" "ended re r0 (DEof rest) s r k" "chan k0 (ipcFd r) w k" "isBeginProcessed r"
    "re \<noteq> Some 0" "demux \<lparr>d_junk = junk k0, d_type = t, d_id = requestId r, d_begun = True, d_err = rerr re\<rparr>
      0 0 False rest = (xs, W, E)" "E \<noteq> DFault"
  shows "rd_src k (r\<lparr>nWriters := n\<rparr>) re W E xs (reset_reader t s) (r\<lparr>nWriters := n\<rparr>) k"
proof (rule rd_src_start)
  show "rd_shape (reset_reader t s)"
    using assms(1) by (auto simp: reset_reader_def rd_shape_def buff_ok_def)
  have "left (reset_reader t s) (r\<lparr>nWriters := n\<rparr>) k = rest"
    using assms(2) by (auto simp: reset_reader_def left_def)
  moreover have "dpar k re (reset_reader t s) (r\<lparr>nWriters := n\<rparr>)
      = \<lparr>d_junk = junk k0, d_type = t, d_id = requestId r, d_begun = True, d_err = rerr re\<rparr>"
    using assms(4) chan_junk [OF assms(3)] by (simp add: dpar_def reset_reader_def)
  ultimately show "demux (dpar k re (reset_reader t s) (r\<lparr>nWriters := n\<rparr>)) 0 0 False
      (left (reset_reader t s) (r\<lparr>nWriters := n\<rparr>) k) = (xs, W, E)"
    using assms(6) by simp
qed (use assms chan_fd_ok [OF assms(3)] chan_clean [OF assms(3)] in \<open>auto simp: reset_reader_def\<close>)

text \<open>The environment is the vector of the strings \<open>name=value\<close> of the pairs, in order, ended by \<open>NULL\<close>.\<close>

definition env_is :: "(byte list \<times> byte list) list \<Rightarrow> Request \<Rightarrow> bool" where
  "env_is pairs q \<longleftrightarrow> (\<exists>p. paramsPtr q = Some p \<and> envp q = Some (vec p) \<and> params_ok (map entry pairs) p)"

text \<open>\<open>FCGX_GetParam\<close> answers with the value of the first pair of that name.\<close>

lemma env_lookup:
  assumes "env_is pairs q" "0 \<notin> set name" "61 \<notin> set name" "\<forall>nv \<in> set pairs. 61 \<notin> set (fst nv)"
  shows "FCGX_GetParam (Some (name @ [0])) (envp q) = Some (map_option (\<lambda>v. v @ [0]) (map_of pairs name))"
proof -
  from assms(1) obtain p where p: "envp q = Some (vec p)" "params_ok (map entry pairs) p"
    by (auto simp: env_is_def)
  have "FCGX_GetParam (Some (name @ 0 # [])) (Some (vec p)) = Some (lookup_entry name (map entry pairs))"
    by (rule FCGX_GetParam_entries [OF p(2) _ assms(2)]) simp
  then show ?thesis using lookup_entry_pairs [OF assms(3,4)] p(1) by simp
qed

lemma NewWriter_at:
  assumes "malloc_fits k"
  shows "\<exists>s. NewWriter len t k = Some s \<and> writer_at t [] False s"
proof -
  from NewWriter_shape [OF assms, of len t] show ?thesis
    by (auto simp: writer_at_def pending_out_def)
qed

lemma Accept_build_ok:
  assumes "in_ptr q = Some s" "rd_shape s" "paramsPtr q = Some p" "malloc_fits k"
    "fd_ok (ipcFd (reqData q)) k" "wx_clean (wx k (ipcFd (reqData q)))"
  shows "\<exists>q'. Accept_build q k = Some q' \<and> in_ptr q' = Some (reset_reader FCGI_STDIN s)
    \<and> reqData q' = (reqData q)\<lparr>nWriters := 2\<rparr> \<and> paramsPtr q' = Some p \<and> envp q' = Some (vec p)
    \<and> responding k q' [] [] [] q' k"
proof -
  from NewWriter_at [OF assms(4)] obtain so se where
    w: "NewWriter 8192 FCGI_STDOUT k = Some so" "writer_at FCGI_STDOUT [] False so"
      "NewWriter 512 FCGI_STDERR k = Some se" "writer_at FCGI_STDERR [] False se" by blast
  have st: "SetReaderType FCGI_STDIN s = Some (reset_reader FCGI_STDIN s)"
    using rd_shape_bounds(1) [OF assms(2)] by (rule SetReaderType_reset)
  let ?q = "q\<lparr>in_ptr := Some (reset_reader FCGI_STDIN s), out_ptr := Some so, err_ptr := Some se,
      reqData := (reqData q)\<lparr>nWriters := 2\<rparr>, envp := Some (vec p)\<rparr>"
  have "Accept_build q k = Some ?q"
    using assms w st by (simp add: Accept_build_def)
  moreover have "responding k ?q [] [] [] ?q k"
    unfolding responding_def using w wire_start [OF assms(5), of True] assms(6)
    by (intro exI [of _ so] exI [of _ se] exI [of _ "[]"]) simp
  ultimately show ?thesis using assms(3) by auto
qed

lemma ended_ipcFd: "ended re r0 E s r k \<Longrightarrow> ipcFd r = ipcFd r0"
  by (cases E) (auto simp: begun_request_def)

lemma freed_ipcFd:
  "\<exists>d. (reqData (freed c q))\<lparr>ipcFd := fd\<rparr> = (reqData q)\<lparr>ipcFd := fd, detached := d\<rparr>"
  by (cases "reqData q", cases c) (auto simp: freed_def)

text \<open>\<open>FCGX_Accept_r\<close> on an idle request, when the next connection gives a request.\<close>

lemma Accept_r_ready:
  assumes "libInitialized a" "idle q" "os_ready k" "next_for a q k = Some (Conn fd rxs txs, aq, sq)"
    "wx_clean txs" "rx_error rxs \<noteq> Some 0" "length (rx_bytes rxs) < 2 ^ 28"
    "handshake (junk k) (rerr (rx_error rxs)) (requestId (reqData q)) (rx_bytes rxs) = HsReady rid body ps w E"
  shows "\<exists>q' s r' k1 k' d. FCGX_Accept_r a q k = Some (0, q', k')
    \<and> in_ptr q' = Some (reset_reader FCGI_STDIN s) \<and> reqData q' = r'\<lparr>nWriters := 2\<rparr>
    \<and> freeable q' \<and> env_is (role_pair (body_role body) # ps) q'
    \<and> responding k' q' [] [] [] q' k'
    \<and> chan k1 fd w k' \<and> tx k1 fd = [] \<and> junk k1 = junk k \<and> os_ready k' \<and> open_fds k' = insert fd (open_fds k)
    \<and> 0 \<le> fd \<and> fd \<notin> open_fds k \<and> rd_shape s
    \<and> ended (rx_error rxs) (begun_request rid body ((reqData q)\<lparr>ipcFd := fd, detached := d\<rparr>)) E s r' k'"
proof -
  from Finish_idle [OF assms(2)] obtain c where fin: "FCGX_Finish_r q k = Some (freed c q, k)" by blast
  have nx: "next_for a (freed c q) k = Some (Conn fd rxs txs, aq, sq)" "idle (freed c q)"
    using assms(2,4) idle_freed by (auto simp: next_for_def)
  from Accept_loop_ready [OF nx(2) assms(3) nx(1) assms(5-7)] assms(8) obtain p s r' k1 k2 where
    l: "Accept_loop (webServerAddressList a) (freed c q) k
      = Some (None, (freed c q)\<lparr>reqData := r', in_ptr := Some s, paramsPtr := Some p\<rparr>, k2)"
    and ch: "chan k1 fd w k2" "tx k1 fd = []" "junk k1 = junk k" "os_ready k2"
      "open_fds k2 = insert fd (open_fds k)" "0 \<le> fd" "fd \<notin> open_fds k"
    and p: "params_ok (map entry (role_pair (body_role body) # ps)) p"
    and s: "rd_shape s" and en0: "ended (rx_error rxs)
      (begun_request rid body ((reqData (freed c q))\<lparr>ipcFd := fd\<rparr>)) E s r' k2" by auto
  let ?q = "(freed c q)\<lparr>reqData := r', in_ptr := Some s, paramsPtr := Some p\<rparr>"
  have fd: "ipcFd r' = fd" using ended_ipcFd [OF en0] by (simp add: begun_request_def)
  have "malloc_fits k2" using ch(4) by (simp add: os_ready_def)
  from Accept_build_ok [of ?q s p k2, OF _ s _ this] fd chan_fd_ok [OF ch(1)] chan_clean [OF ch(1)]
  obtain q' where b: "Accept_build ?q k2 = Some q'" "in_ptr q' = Some (reset_reader FCGI_STDIN s)"
    "reqData q' = r'\<lparr>nWriters := 2\<rparr>" "paramsPtr q' = Some p" "envp q' = Some (vec p)"
    "responding k2 q' [] [] [] q' k2" by auto
  have "FCGX_Accept_r a q k = Some (0, q', k2)"
    using assms(1) by (simp add: FCGX_Accept_r_def fin l b(1))
  moreover have "freeable q'" using b(4) p by (auto simp: freeable_def)
  moreover have "env_is (role_pair (body_role body) # ps) q'" using p b(4,5) by (auto simp: env_is_def)
  moreover from freed_ipcFd obtain d where
    d: "(reqData (freed c q))\<lparr>ipcFd := fd\<rparr> = (reqData q)\<lparr>ipcFd := fd, detached := d\<rparr>" by blast
  ultimately show ?thesis using b ch s en0 unfolding d by blast
qed
lemma on_header_begin_id: "on_header d sk h ys = HStop (DBegin i b zs) \<Longrightarrow> 0 < i \<and> i < 65536"
  using be16_range [of "requestIdB1 h" "requestIdB0 h"]
  by (auto simp: on_header_def on_begin_def on_get_values_def Let_def hdr_requestId_def
      split: if_splits option.splits prod.splits pairs_end.splits)

lemma demux_begin_id: "snd (snd (demux d cl pl sk xs)) = DBegin i b ys \<Longrightarrow> 0 < i \<and> i < 65536"
proof (induction d cl pl sk xs rule: demux.induct)
  case (1 d cl pl sk xs)
  show ?case
  proof (cases "0 < cl")
    case True
    with 1(1,3) show ?thesis by (subst (asm) demux.simps) (auto split: if_splits)
  next
    case c: False
    show ?thesis
    proof (cases "length xs < pl + 8 \<or> header_of (take 8 (drop pl xs)) = None")
      case True
      with c 1(3) show ?thesis by (subst (asm) demux.simps) (auto split: if_splits)
    next
      case False
      then obtain h where h: "header_of (take 8 (drop pl xs)) = Some h" by auto
      have e: "demux d cl pl sk xs = (case on_header d sk h (drop (pl + 8) xs) of
            HStop E \<Rightarrow> ([], [], E)
          | HGo w cl' pl' sk' ys \<Rightarrow> before [] w (demux d cl' pl' sk' ys))"
        using c False h by (subst demux.simps) simp
      show ?thesis
        using 1(3) on_header_begin_id 1(2) [OF c _ h] False unfolding e
        by (auto split: after_header.splits)
    qed
  qed
qed

lemma handshake_id:
  assumes "handshake jk e i bs = HsReady rid body ps w E"
  shows "0 < rid \<and> rid < 65536"
proof -
  let ?d = "\<lparr>d_junk = jk, d_type = 0, d_id = i, d_begun = False, d_err = e\<rparr>"
  obtain c w0 E0 where d: "demux ?d 0 0 False bs = (c, w0, E0)" by (metis prod_cases3)
  have "\<exists>b rest. E0 = DBegin rid b rest"
    using assms unfolding handshake_def d hs_params_def
    by (auto split: dend.splits if_splits prod.splits pairs_end.splits)
  with demux_begin_id [of ?d 0 0 False bs] d show ?thesis by auto
qed

section \<open>Serving a request\<close>

text \<open>The client reads up to \<open>n\<close> bytes of its input.\<close>

definition get_input :: "int \<Rightarrow> Request \<Rightarrow> os \<Rightarrow> (byte list \<times> Request \<times> os) option" where
  "get_input n q k =
     do { s \<leftarrow> in_ptr q;
          (_, bs, s, r, k) \<leftarrow> FCGX_GetStr FillBuffProc n s (reqData q) k;
          Some (bs, q\<lparr>in_ptr := Some s, reqData := r\<rparr>, k) }"

text \<open>What the client writes to does not depend on what it has read.\<close>

lemma responding_move:
  assumes "responding k q [] [] [] q k" "chan k (ipcFd (reqData q)) w k2"
  shows "responding k2 (q\<lparr>in_ptr := p\<rparr>) [] [] [] (q\<lparr>in_ptr := p\<rparr>) k2"
proof -
  obtain so se where eq: "q = q\<lparr>out_ptr := Some so, err_ptr := Some se\<rparr>"
    and w: "writer_at FCGI_STDOUT [] False so" "writer_at FCGI_STDERR [] False se"
    using assms(1) unfolding responding_def by auto
  have "out_ptr q = Some so" "err_ptr q = Some se" by (subst eq, simp)+
  moreover note w
  moreover have "wire True (ipcFd (reqData q)) k2 [] k2"
    using chan_fd_ok [OF assms(2)] chan_clean [OF assms(2)] by (simp add: wire_start)
  ultimately show ?thesis
    unfolding responding_def
    by (intro exI [of _ so] exI [of _ se] exI [of _ "[]"]) simp
qed

text \<open>An accepted request: what the handshake leaves behind for the input, the output and the end.\<close>

definition accepted :: "int \<Rightarrow> int \<Rightarrow> int \<Rightarrow> int \<Rightarrow> Request \<Rightarrow> os \<Rightarrow> bool" where
  "accepted fd rid st keep q k \<longleftrightarrow> freeable q \<and> closable fd k \<and> responding k q [] [] [] q k
     \<and> ipcFd (reqData q) = fd \<and> requestId (reqData q) = rid \<and> nWriters (reqData q) = 2
     \<and> appStatus (reqData q) = st \<and> keepConnection (reqData q) = keep \<and> 0 < rid \<and> rid < 65536"

lemma Accept_r_accepted:
  assumes "libInitialized a" "idle q" "os_ready k" "next_for a q k = Some (Conn fd rxs txs, aq, sq)" "fd < 1024"
    "wx_clean txs" "rx_error rxs \<noteq> Some 0" "length (rx_bytes rxs) < 2 ^ 28"
    "handshake (junk k) (rerr (rx_error rxs)) (requestId (reqData q)) (rx_bytes rxs)
      = HsReady rid body ps w (DEof rest)"
    "demux \<lparr>d_junk = junk k, d_type = FCGI_STDIN, d_id = rid, d_begun = True, d_err = rerr (rx_error rxs)\<rparr>
      0 0 False rest = (xs, w2, DEof rest2)"
  shows "\<exists>q1 k1 s. FCGX_Accept_r a q k = Some (0, q1, k1) \<and> env_is (role_pair (body_role body) # ps) q1
    \<and> accepted fd rid (appStatus (reqData q)) (uint (bflags body) AND FCGI_KEEP_CONN) q1 k1
    \<and> in_ptr q1 = Some s \<and> rd_src k1 (reqData q1) (rx_error rxs) w2 (DEof rest2) xs s (reqData q1) k1
    \<and> tx k1 fd = w \<and> fd \<notin> open_fds k \<and> open_fds k1 = insert fd (open_fds k)"
proof -
  from Accept_r_ready [OF assms(1-4,6-9)] obtain q1 s r' k0 k1 d where
    acc: "FCGX_Accept_r a q k = Some (0, q1, k1)"
    and q1: "in_ptr q1 = Some (reset_reader FCGI_STDIN s)" "reqData q1 = r'\<lparr>nWriters := 2\<rparr>" "freeable q1"
      "env_is (role_pair (body_role body) # ps) q1" "responding k1 q1 [] [] [] q1 k1"
    and k1: "chan k0 fd w k1" "tx k0 fd = []" "junk k0 = junk k" "os_ready k1" "open_fds k1 = insert fd (open_fds k)"
      "0 \<le> fd" "fd \<notin> open_fds k"
    and s: "rd_shape s"
    and en: "ended (rx_error rxs) (begun_request rid body ((reqData q)\<lparr>ipcFd := fd, detached := d\<rparr>)) (DEof rest) s r' k1"
    by blast
  have "r' = begun_request rid body ((reqData q)\<lparr>ipcFd := fd, detached := d\<rparr>)" using en by simp
  then have b: "ipcFd r' = fd" "isBeginProcessed r'" "requestId r' = rid" "appStatus r' = appStatus (reqData q)"
    "keepConnection r' = uint (bflags body) AND FCGI_KEEP_CONN"
    by (simp_all add: begun_request_def)
  have "rd_src k1 (r'\<lparr>nWriters := 2\<rparr>) (rx_error rxs) w2 (DEof rest2) xs (reset_reader FCGI_STDIN s) (r'\<lparr>nWriters := 2\<rparr>) k1"
    by (rule reset_reader_src [OF s en, of k0 w]) (use k1(1,3) b assms(7,10) in auto)
  moreover have "closable fd k1"
    using k1(4-6) assms(5) by (simp add: closable_def os_ready_def)
  ultimately show ?thesis
    using acc q1 k1 b handshake_id [OF assms(9)] chan_tx [OF k1(1)] by (simp add: accepted_def)
qed

text \<open>The response of an accepted request, after the client has read as much of its input as it wants.\<close>

lemma accepted_response:
  assumes "accepted fd rid st keep q k" "chan k fd w k2" "FCGI_errno s = 0"
  shows "\<exists>q3 k3 q4 k4 out rs. run_out cs (q\<lparr>in_ptr := Some s\<rparr>) k2 = Some (True, q3, k3)
    \<and> FCGX_Finish_r q3 k3 = Some (q4, k4) \<and> tx k4 fd = tx k2 fd @ out \<and> parse_records out = Some rs
    \<and> peer rid Unused Unused rs = Some (outs cs, errs cs, end_body_bytes (MakeEndRequestBody st FCGI_REQUEST_COMPLETE))
    \<and> open_fds k4 = (if keep = 0 then open_fds k - {fd} else open_fds k)"
proof -
  let ?q = "q\<lparr>in_ptr := Some s\<rparr>"
  have q: "ipcFd (reqData ?q) = fd" "requestId (reqData ?q) = rid" "nWriters (reqData ?q) = 2"
    "appStatus (reqData ?q) = st" "keepConnection (reqData ?q) = keep" "in_ptr ?q = Some s" "freeable ?q"
    "0 < rid" "rid < 65536" and r: "responding k q [] [] [] q k" and cl: "closable fd k"
    using assms(1) by (simp_all add: accepted_def freeable_def)
  have "responding k2 ?q [] [] [] ?q k2"
    using responding_move [OF r, of w k2 "Some s"] assms(2) q(1) by simp
  from responding_run_out [OF this, of cs] obtain q3 k3 rs3 where
    ro: "run_out cs ?q k2 = Some (True, q3, k3)" and r3: "responding k2 ?q rs3 (outs cs) (errs cs) q3 k3"
    by auto
  have "closable fd k2" using chan_sel [OF assms(2)] cl by (simp add: closable_def)
  from Finish_response [OF r3] q this obtain q4 k4 out rs where
    "FCGX_Finish_r q3 k3 = Some (q4, k4)" "tx k4 fd = tx k2 fd @ out" "parse_records out = Some rs"
    "peer rid Unused Unused rs = Some (outs cs, errs cs, end_body_bytes (MakeEndRequestBody st 0))"
    "open_fds k4 = (if keep = 0 then open_fds k2 - {fd} else open_fds k2)"
    unfolding Let_def by (auto simp: assms(3))
  with ro chan_sel(1) [OF assms(2)] show ?thesis by auto
qed

text \<open>
  C1: one whole request, from the bytes of the connection to the response: when the next
  connection's bytes are a begin record with a known role, parameters that decode to \<open>ps\<close> and a
  standard input \<open>xs\<close> (as \<open>handshake\<close> and \<open>demux\<close> define, whatever chunks the reads deliver),
  \<open>FCGX_Accept_r\<close> returns 0, the environment is the role and \<open>ps\<close>, \<open>FCGX_GetStr\<close> returns
  exactly \<open>xs\<close>, every write succeeds, and after \<open>FCGX_Finish_r\<close> the connection holds the
  library's answers and a response from which the peer decodes exactly what was written to
  either stream and the exit status; the descriptor is closed unless the web server asked to
  keep it, and no other descriptor is touched.
\<close>

theorem serve_request:
  assumes "libInitialized a" "idle q" "os_ready k" "next_for a q k = Some (Conn fd rxs txs, aq, sq)" "fd < 1024"
    "wx_clean txs" "rx_error rxs \<noteq> Some 0" "length (rx_bytes rxs) < 2 ^ 28"
    "handshake (junk k) (rerr (rx_error rxs)) (requestId (reqData q)) (rx_bytes rxs)
      = HsReady rid body ps w (DEof rest)"
    "demux \<lparr>d_junk = junk k, d_type = FCGI_STDIN, d_id = rid, d_begun = True, d_err = rerr (rx_error rxs)\<rparr>
      0 0 False rest = (xs, w2, DEof rest2)" "int (length xs) < n"
  shows "\<exists>q1 k1 q2 k2 q3 k3 q4 k4 out rs.
      FCGX_Accept_r a q k = Some (0, q1, k1) \<and> env_is (role_pair (body_role body) # ps) q1
    \<and> get_input n q1 k1 = Some (xs, q2, k2)
    \<and> run_out cs q2 k2 = Some (True, q3, k3)
    \<and> FCGX_Finish_r q3 k3 = Some (q4, k4)
    \<and> tx k4 fd = w @ w2 @ out \<and> parse_records out = Some rs
    \<and> peer rid Unused Unused rs
        = Some (outs cs, errs cs, end_body_bytes (MakeEndRequestBody (appStatus (reqData q)) FCGI_REQUEST_COMPLETE))
    \<and> open_fds k4 = (if uint (bflags body) AND FCGI_KEEP_CONN = 0 then open_fds k else insert fd (open_fds k))"
proof -
  from Accept_r_accepted [OF assms(1-10)] obtain q1 k1 s where
    acc: "FCGX_Accept_r a q k = Some (0, q1, k1)" "env_is (role_pair (body_role body) # ps) q1"
    and a: "accepted fd rid (appStatus (reqData q)) (uint (bflags body) AND FCGI_KEEP_CONN) q1 k1"
    and s: "in_ptr q1 = Some s" "rd_src k1 (reqData q1) (rx_error rxs) w2 (DEof rest2) xs s (reqData q1) k1"
    and k1: "tx k1 fd = w" "fd \<notin> open_fds k" "open_fds k1 = insert fd (open_fds k)" by blast
  have fd: "ipcFd (reqData q1) = fd" using a by (simp add: accepted_def)
  from reader.GetStr_src [OF s(2), of n] assms(11) obtain s2 r2 k2 where
    g: "FCGX_GetStr FillBuffProc n s (reqData q1) k1 = Some (int (length xs), xs, s2, r2, k2)"
    and s2: "rd_src k1 (reqData q1) (rx_error rxs) w2 (DEof rest2) [] s2 r2 k2" "isClosed s2" by auto
  have e2: "r2 = reqData q1" "FCGI_errno s2 = 0" "chan k1 fd w2 k2"
    using s2 fd by (auto simp: rd_src_def)
  from accepted_response [OF a e2(3,2), of cs] obtain q3 k3 q4 k4 out rs where
    r: "run_out cs (q1\<lparr>in_ptr := Some s2\<rparr>) k2 = Some (True, q3, k3)" "FCGX_Finish_r q3 k3 = Some (q4, k4)"
    "tx k4 fd = tx k2 fd @ out" "parse_records out = Some rs"
    "peer rid Unused Unused rs
      = Some (outs cs, errs cs, end_body_bytes (MakeEndRequestBody (appStatus (reqData q)) FCGI_REQUEST_COMPLETE))"
    "open_fds k4 = (if uint (bflags body) AND FCGI_KEEP_CONN = 0 then open_fds k1 - {fd} else open_fds k1)" by blast
  have "get_input n q1 k1 = Some (xs, q1\<lparr>in_ptr := Some s2\<rparr>, k2)"
    using g s(1) by (simp add: get_input_def e2(1))
  moreover have "tx k4 fd = w @ w2 @ out" using r(3) chan_tx [OF e2(3)] k1(1) by simp
  ultimately show ?thesis using acc r k1 by auto
qed

section \<open>An example\<close>

text \<open>A request as it arrives: its begin record, a parameter, the end of the parameters, and the input.\<close>

definition ex_bytes :: "byte list" where
  "ex_bytes = [1, 1, 0, 1, 0, 8, 0, 0, 0, 1, 0, 0, 0, 0, 0, 0] @ [1, 4, 0, 1, 0, 4, 0, 0, 1, 1, 65, 66]
     @ [1, 4, 0, 1, 0, 0, 0, 0] @ [1, 5, 0, 1, 0, 2, 0, 0, 104, 105] @ [1, 5, 0, 1, 0, 0, 0, 0]"

definition ex_rest :: "byte list" where
  "ex_rest = [1, 5, 0, 1, 0, 2, 0, 0, 104, 105] @ [1, 5, 0, 1, 0, 0, 0, 0]"

definition ex_body :: FCGI_BeginRequestBody where
  "ex_body = the (begin_body_of [0, 1, 0, 0, 0, 0, 0, 0])"

lemma ex_handshake: "handshake (\<lambda>i. 0xAA) (-3) 0 ex_bytes = HsReady 1 ex_body [([65], [66])] [] (DEof ex_rest)"
  by code_simp

lemma ex_input: "demux \<lparr>d_junk = (\<lambda>i. 0xAA), d_type = FCGI_STDIN, d_id = 1, d_begun = True, d_err = -3\<rparr> 0 0 False ex_rest
   = ([104, 105], [], DEof [])"
  by code_simp


definition ex_app :: fcgiapp where
  "ex_app = \<lparr>libInitialized = True, isFastCGI = 1, webServerAddressList = None, the_request = snd (FCGX_InitRequest 0 0)\<rparr>"

definition ex_listening :: os where
  "ex_listening = (ex_os [] [])\<lparr>accq := [AccOk 7 AF_INET 0 [Data (take 5 ex_bytes), Data (drop 5 ex_bytes)] [TxLimit 3]]\<rparr>"

lemma ex_rx: "rx_bytes [Data (take 5 ex_bytes), Data (drop 5 ex_bytes)] = ex_bytes"
  "rx_error [Data (take 5 ex_bytes), Data (drop 5 ex_bytes)] = None" "length ex_bytes < 2 ^ 28"
  by (simp_all add: ex_bytes_def)

lemma ex_ready: "libInitialized ex_app" "idle (the_request ex_app)" "os_ready ex_listening"
    "junk ex_listening = (\<lambda>i. 0xAA)" "requestId (reqData (the_request ex_app)) = 0" "open_fds ex_listening = {5}"
  by (simp_all add: ex_app_def FCGX_InitRequest_def idle_def freeable_def os_ready_def ex_listening_def ex_os_def
      malloc_fits_def)

lemma ex_next: "next_for ex_app (the_request ex_app) ex_listening
    = Some (Conn 7 [Data (take 5 ex_bytes), Data (drop 5 ex_bytes)] [TxLimit 3], [], [])"
  by (simp add: next_for_def ex_app_def ex_listening_def ex_os_def FCGX_InitRequest_def ClientAddrOK_def)

lemma serve_request_witness:
  "\<exists>q1 k1 q2 k2 q3 k3 q4 k4 out rs.
      FCGX_Accept_r ex_app (the_request ex_app) ex_listening = Some (0, q1, k1)
    \<and> env_is [role_pair FCGI_RESPONDER, ([65], [66])] q1
    \<and> get_input 100 q1 k1 = Some ([104, 105], q2, k2)
    \<and> run_out [Out (WStr [72, 105]), Err (WChar 33)] q2 k2 = Some (True, q3, k3)
    \<and> FCGX_Finish_r q3 k3 = Some (q4, k4)
    \<and> tx k4 7 = out \<and> parse_records out = Some rs
    \<and> peer 1 Unused Unused rs = Some ([72, 105], [33], [0, 0, 0, 0, 0, 0, 0, 0])
    \<and> open_fds k4 = {5}"
proof -
  have b: "body_role ex_body = FCGI_RESPONDER" "uint (bflags ex_body) AND FCGI_KEEP_CONN = 0"
    "appStatus (reqData (the_request ex_app)) = 0"
    "end_body_bytes (MakeEndRequestBody 0 FCGI_REQUEST_COMPLETE) = [0, 0, 0, 0, 0, 0, 0, 0]"
    by code_simp+
  from serve_request [OF ex_ready(1-3) ex_next, of 1 ex_body "[([65], [66])]" "[]" ex_rest "[104, 105]" "[]" "[]" 100 "[Out (WStr [72, 105]), Err (WChar 33)]"]
  show ?thesis
    using ex_handshake ex_input ex_rx ex_ready b by (simp add: rerr_def wx_clean_def outs_def errs_def uchar_def)
qed

text \<open>A source to try streams on: a fresh reader on the bytes of request 1, and one that delivers \<open>hi\<close>.\<close>

lemma ex_source:
  assumes "demux \<lparr>d_junk = (\<lambda>i. 0xAA), d_type = t, d_id = 1, d_begun = True, d_err = -3\<rparr> 0 0 False (b # bs) = (xs, W, E)"
    "E \<noteq> DFault"
  shows "\<exists>s. NewReader 8192 t (ex_os [Data (b # bs)] []) = Some s
    \<and> rd_src (ex_os [Data (b # bs)] []) ex_req None W E xs s ex_req (ex_os [Data (b # bs)] [])"
proof -
  let ?k = "ex_os [Data (b # bs)] []"
  from NewReader_shape [of ?k 8192 t ex_req ?k] obtain s where
    s: "NewReader 8192 t ?k = Some s" "rd_shape s" "\<not> isClosed s" "FCGI_errno s = 0" "\<not> eorStop s" "\<not> skip s"
      "contentLen s = 0" "paddingLen s = 0" "strtype s = t" "left s ex_req ?k = b # bs" by auto
  have "rdNext s = stop s"
    using s(1) by (auto simp: NewReader_def NewStream_def Let_def bind_Some_iff)
  with s assms have "rd_src ?k ex_req None W E xs s ex_req ?k"
    by (intro rd_src_start) (auto simp: dpar_def rerr_def wx_clean_def)
  with s(1) show ?thesis by blast
qed

lemma ex_source_hi:
  "\<exists>s. NewReader 8192 FCGI_STDIN (ex_os [Data (1 # [5, 0, 1, 0, 3, 0, 0, 104, 10, 105])] []) = Some s
    \<and> rd_src (ex_os [Data (1 # [5, 0, 1, 0, 3, 0, 0, 104, 10, 105])] []) ex_req None [] (DFail (-3)) [104, 10, 105] s ex_req
        (ex_os [Data (1 # [5, 0, 1, 0, 3, 0, 0, 104, 10, 105])] [])"
  by (rule ex_source) code_simp+

end
