(* ===== verification/Numerals.thy ===== *)
theory Numerals
  imports Prelude
begin

text \<open>
  Decimal numerals as C reads and writes them: \<open>strtol\<close>, the conversion of a \<open>long\<close> to an \<open>int\<close>, and the
  digits of a number, which are read back as that number.
\<close>

text \<open>
  \<open>strtol(s, NULL, 10)\<close>: leading white space, a sign, the digits up to the first other character,
  clamped to 64 bits.
\<close>

definition is_digit :: "byte \<Rightarrow> bool" where
  "is_digit c \<longleftrightarrow> 48 \<le> c \<and> c \<le> 57"

definition is_space :: "byte \<Rightarrow> bool" where
  "is_space c \<longleftrightarrow> c = 32 \<or> (9 \<le> c \<and> c \<le> 13)"

definition digits_value :: "byte list \<Rightarrow> nat" where
  "digits_value ds = foldl (\<lambda>n c. 10 * n + (unat c - 48)) 0 ds"

definition strtol10 :: "byte list \<Rightarrow> int" where
  "strtol10 s =
     (let s = dropWhile is_space s;
          neg = (s \<noteq> [] \<and> hd s = 45);
          s = (if s \<noteq> [] \<and> (hd s = 45 \<or> hd s = 43) then tl s else s);
          n = int (digits_value (takeWhile is_digit s)) in
      if neg then max (- (2 ^ 63)) (- n) else min (2 ^ 63 - 1) n)"

text \<open>The assignment of a \<open>long\<close> to an \<open>int\<close> keeps the low 32 bits.\<close>

definition int_of_long :: "int \<Rightarrow> int" where
  "int_of_long n = sint (word_of_int n :: 32 word)"

text \<open>The decimal digits of a number.\<close>

fun decimal :: "nat \<Rightarrow> byte list" where
  "decimal n = (if n < 10 then [48 + of_nat n] else decimal (n div 10) @ [48 + of_nat (n mod 10)])"

declare decimal.simps [simp del]

lemma digit_byte:
  assumes "n < 10"
  shows "is_digit (48 + of_nat n)" "unat (48 + of_nat n :: byte) - 48 = n"
proof -
  have "list_all (\<lambda>n. is_digit (48 + of_nat n) \<and> unat (48 + of_nat n :: byte) - 48 = n) [0..<10]"
    by code_simp
  with assms show "is_digit (48 + of_nat n)" "unat (48 + of_nat n :: byte) - 48 = n"
    by (auto simp: list_all_iff)
qed

lemma decimal_digits: "list_all is_digit (decimal n)"
proof (induction n rule: decimal.induct)
  case (1 n)
  then show ?case by (cases "n < 10") (auto simp: decimal.simps [of n] digit_byte)
qed

lemma digits_value_decimal: "digits_value (decimal n) = n"
proof (induction n rule: decimal.induct)
  case (1 n)
  then show ?case
    by (cases "n < 10") (auto simp: decimal.simps [of n] digit_byte(2) digits_value_def)
qed

lemma decimal_ne: "decimal n \<noteq> []"
  by (simp add: decimal.simps)

lemma is_digit_not:
  assumes "is_digit c" shows "\<not> is_space c" "c \<noteq> 45" "c \<noteq> 43" "c \<noteq> 0" "c \<noteq> 61"
  using assms unfolding is_digit_def is_space_def by (auto simp: word_le_nat_alt)

lemma strtol10_decimal: "strtol10 (decimal n) = min (2 ^ 63 - 1) (int n)"
proof -
  have "is_digit (hd (decimal n))" "takeWhile is_digit (decimal n) = decimal n"
    using decimal_digits [of n] decimal_ne [of n] by (auto simp: takeWhile_eq_all_conv list_all_iff)
  moreover from this(1) have "dropWhile is_space (decimal n) = decimal n"
    using decimal_ne [of n] by (cases "decimal n") (auto dest: is_digit_not)
  moreover from calculation(2) have "digits_value (takeWhile is_digit (decimal n)) = n"
    by (metis digits_value_decimal)
  ultimately show ?thesis
    using is_digit_not [of "hd (decimal n)"]
    by (simp add: strtol10_def Let_def)
qed

lemma int_of_long_id: "- (2 ^ 31) \<le> n \<Longrightarrow> n \<le> INT_MAX \<Longrightarrow> int_of_long n = n"
  unfolding int_of_long_def sint_sbintrunc' INT_MAX_def by (intro signed_take_bit_int_eq_self) simp_all

lemma decimal_no_zero: "0 \<notin> set (decimal n)"
  using decimal_digits [of n] by (auto simp: list_all_iff dest: is_digit_not)

end
