(* ===== verification/HbFcgi.thy ===== *)
theory HbFcgi
  imports Serve Numerals
begin

text \<open>
  The functions \<open>hb_fcgi/hb_fcgi_c.c\<close> offers to Harbour programs: waiting for a request, its
  environment and input, output, and the program's file name. They are the clients of the
  library's \<open>FCGX_Accept\<close>, \<open>FCGX_GetParam\<close>, \<open>FCGX_GetStr\<close>, \<open>FCGX_PutStr\<close> and \<open>FCGX_Finish\<close>.

  The static pointers \<open>g_in\<close>, \<open>g_out\<close>, \<open>g_err\<close> and \<open>g_envp\<close> are stored by \<open>FCGX_Accept\<close> alone and
  point into \<open>the_request\<close>, so they are read from there: a stream that has been freed and a
  pointer that has never been stored are both \<open>None\<close>, and every use of either is invalid.
  \<open>g_envp\<close> needs the difference, since \<open>FCGX_GetParam\<close> accepts \<open>NULL\<close> and \<open>FCGX_Free\<close> leaves the
  pointer as it is: \<open>env_block\<close>.

  What the functions use of Harbour's runtime, \<open>hb_strAt\<close> and the hash, is a parameter.
\<close>

section \<open>State\<close>

text \<open>
  The library's state, \<open>cAP_FileName\<close>, and the number of blocks the functions have allocated and
  not released.
\<close>

record hb_fcgi =
  app :: fcgiapp
  cAP_FileName :: "byte list"
  hb_blocks :: nat

abbreviation (input) AP_FILENAMEMAXLENGTH :: nat where "AP_FILENAMEMAXLENGTH \<equiv> 512"

text \<open>What \<open>g_envp\<close> points to; \<open>None\<close> when that has been freed, \<open>Some None\<close> for the null pointer.\<close>

definition env_block :: "Request \<Rightarrow> slot list option option" where
  "env_block q =
     (case envp q of
        None \<Rightarrow> Some None
      | Some v \<Rightarrow> if paramsPtr q = None then None else Some (Some v))"

section \<open>Code\<close>

definition HB_FCGX_WAIT :: "hb_fcgi \<Rightarrow> os \<Rightarrow> (int \<times> hb_fcgi \<times> os) option" where
  "HB_FCGX_WAIT h k =
     do { (iReturn, _, a, k) \<leftarrow> FCGX_Accept (app h) k;
          Some (iReturn, h\<lparr>app := a\<rparr>, k) }"

definition HB_FCGX_GETCONTENTLENGTH :: "hb_fcgi \<Rightarrow> int option" where
  "HB_FCGX_GETCONTENTLENGTH h =
     do { g_envp \<leftarrow> env_block (the_request (app h));
          contentLength \<leftarrow> FCGX_GetParam (Some (bytes_of ''CONTENT_LENGTH'' @ [0])) g_envp;
          case contentLength of
            None \<Rightarrow> Some 0
          | Some s \<Rightarrow> do { n \<leftarrow> strlen s; Some (int_of_long (strtol10 (take n s))) } }"

text \<open>
  The buffer is allocated, which is taken to succeed, and never released. A negative length asks for no buffer that is used, and
  \<open>FCGX_GetStr\<close> then reads nothing.
\<close>

definition HB_FCGX_GETINPUT :: "int \<Rightarrow> hb_fcgi \<Rightarrow> os \<Rightarrow> (byte list \<times> hb_fcgi \<times> os) option" where
  "HB_FCGX_GETINPUT iInputLength h k =
     do { sz \<leftarrow> int_checked (iInputLength + 1);
          let h = h\<lparr>hb_blocks := hb_blocks h + (if 0 \<le> iInputLength then 1 else 0)\<rparr>;
          let q = the_request (app h);
          g_in \<leftarrow> in_ptr q;
          (n, szBuffer, s, r, k) \<leftarrow> FCGX_GetStr FillBuffProc iInputLength g_in (reqData q) k;
          let h = h\<lparr>app := (app h)\<lparr>the_request := q\<lparr>in_ptr := Some s, reqData := r\<rparr>\<rparr>\<rparr>;
          Some (if n \<noteq> iInputLength then [] else szBuffer, h, k) }"

text \<open>\<open>pParameterName\<close> is \<open>None\<close> when it is missing or no string; a Harbour string ends with a zero.\<close>

definition HB_FCGX_GETENVIRONMENT :: "byte list option \<Rightarrow> hb_fcgi \<Rightarrow> byte list option" where
  "HB_FCGX_GETENVIRONMENT pParameterName h =
     (case pParameterName of
        None \<Rightarrow> Some []
      | Some name \<Rightarrow>
          do { g_envp \<leftarrow> env_block (the_request (app h));
               v \<leftarrow> FCGX_GetParam (Some (name @ [0])) g_envp;
               case v of None \<Rightarrow> Some [] | Some s \<Rightarrow> do { n \<leftarrow> strlen s; Some (take n s) } })"

definition HB_FCGX_BPRINT :: "byte list option \<Rightarrow> hb_fcgi \<Rightarrow> os \<Rightarrow> (int \<times> hb_fcgi \<times> os) option" where
  "HB_FCGX_BPRINT par h k =
     (case par of
        None \<Rightarrow> Some (-1, h, k)
      | Some str \<Rightarrow>
          do { let q = the_request (app h);
               g_out \<leftarrow> out_ptr q;
               (_, s, r, k) \<leftarrow> FCGX_PutStr EmptyBuffProc str (int_of_long (int (length str))) g_out (reqData q) k;
               Some (1, h\<lparr>app := (app h)\<lparr>the_request := q\<lparr>out_ptr := Some s, reqData := r\<rparr>\<rparr>\<rparr>, k) })"

text \<open>\<open>HB_FCGX_PRINT\<close> is the same code.\<close>

definition HB_FCGX_PRINT :: "byte list option \<Rightarrow> hb_fcgi \<Rightarrow> os \<Rightarrow> (int \<times> hb_fcgi \<times> os) option" where
  "HB_FCGX_PRINT par h k =
     (case par of
        None \<Rightarrow> Some (-1, h, k)
      | Some str \<Rightarrow>
          do { let q = the_request (app h);
               g_out \<leftarrow> out_ptr q;
               (_, s, r, k) \<leftarrow> FCGX_PutStr EmptyBuffProc str (int_of_long (int (length str))) g_out (reqData q) k;
               Some (1, h\<lparr>app := (app h)\<lparr>the_request := q\<lparr>out_ptr := Some s, reqData := r\<rparr>\<rparr>\<rparr>, k) })"

definition HB_FCGX_FINISH :: "hb_fcgi \<Rightarrow> os \<Rightarrow> (hb_fcgi \<times> os) option" where
  "HB_FCGX_FINISH h k = do { (a, k) \<leftarrow> FCGX_Finish (app h) k; Some (h\<lparr>app := a\<rparr>, k) }"

text \<open>
  \<open>strAt s n\<close> is the position from 1 of \<open>=\<close> in the \<open>n\<close> bytes of \<open>s\<close>, or 0; \<open>hashAdd\<close> adds a pair to a
  hash.
\<close>

fun Variables_loop ::
  "(byte list \<Rightarrow> nat \<Rightarrow> nat) \<Rightarrow> ('h \<Rightarrow> byte list \<Rightarrow> byte list \<Rightarrow> 'h) \<Rightarrow> slot list \<Rightarrow> 'h \<Rightarrow> 'h option" where
  "Variables_loop strAt hashAdd [] attributes = None"
| "Variables_loop strAt hashAdd (NULL # env) attributes = Some attributes"
| "Variables_loop strAt hashAdd (Uninit # env) attributes = None"
| "Variables_loop strAt hashAdd (Str p # env) attributes =
     do { nLen \<leftarrow> strlen p;
          let nPos = strAt p nLen;
          attributes \<leftarrow>
            (if nPos > 0 then
               do { hbName \<leftarrow> memread 0 (nPos - 1) p;
                    hbValue \<leftarrow> memread nPos (nLen - nPos) p;
                    Some (hashAdd attributes hbName hbValue) }
             else Some attributes);
          Variables_loop strAt hashAdd env attributes }"

definition HB_FCGI_GET_REQUEST_VARIABLES ::
  "(byte list \<Rightarrow> nat \<Rightarrow> nat) \<Rightarrow> ('h \<Rightarrow> byte list \<Rightarrow> byte list \<Rightarrow> 'h) \<Rightarrow> 'h \<Rightarrow> hb_fcgi \<Rightarrow> 'h option" where
  "HB_FCGI_GET_REQUEST_VARIABLES strAt hashAdd hashNew h =
     do { g_envp \<leftarrow> env_block (the_request (app h));
          env \<leftarrow> g_envp;
          Variables_loop strAt hashAdd env hashNew }"

text \<open>A parameter that is no string leaves the file name; a missing one is not modelled.\<close>

definition SET_AP_FILENAME :: "byte list option \<Rightarrow> hb_fcgi \<Rightarrow> hb_fcgi option" where
  "SET_AP_FILENAME par h =
     (case par of
        None \<Rightarrow> Some h
      | Some str \<Rightarrow>
          if length str < AP_FILENAMEMAXLENGTH then
            do { m \<leftarrow> memwrite 0 (str @ [0]) (cAP_FileName h); Some (h\<lparr>cAP_FileName := m\<rparr>) }
          else Some h)"

definition AP_FILENAME :: "hb_fcgi \<Rightarrow> byte list option" where
  "AP_FILENAME h = do { n \<leftarrow> strlen (cAP_FileName h); Some (take n (cAP_FileName h)) }"

text \<open>The state when the program starts: static variables are zero.\<close>

definition hb_start :: hb_fcgi where
  "hb_start =
     \<lparr>app = \<lparr>libInitialized = False, isFastCGI = -1, webServerAddressList = None,
             the_request = \<lparr>reqData = \<lparr>requestId = 0, role = 0, ipcFd = 0, isBeginProcessed = False,
                 keepConnection = 0, appStatus = 0, nWriters = 0, flags = 0, listen_sock = 0, detached = False\<rparr>,
               in_ptr = None, out_ptr = None, err_ptr = None, paramsPtr = None, envp = None\<rparr>\<rparr>,
      cAP_FileName = concat (replicate 29 (bytes_of ''0123456789'')) @ replicate 222 0,
      hb_blocks = 0\<rparr>"

section \<open>Environment\<close>

lemma env_block_is: "env_is ps q \<Longrightarrow> env_block q = Some (envp q) \<and> envp q \<noteq> None"
  by (auto simp: env_is_def env_block_def)

text \<open>What \<open>strAt\<close> must do for the string \<open>"="\<close>: the position of the first one, from 1, or 0.\<close>

definition finds_equals :: "(byte list \<Rightarrow> nat \<Rightarrow> nat) \<Rightarrow> bool" where
  "finds_equals strAt \<longleftrightarrow>
     (\<forall>a b n. 61 \<notin> set a \<longrightarrow> length a < n \<longrightarrow> strAt (a @ 61 # b) n = length a + 1)"

lemma strlen_entry:
  assumes "0 \<notin> set (fst nv)" "0 \<notin> set (snd nv)"
  shows "strlen (entry nv) = Some (length (fst nv) + 1 + length (snd nv))"
  using strlen_terminated [of "fst nv @ 61 # snd nv" "[]"] assms by (simp add: entry_def)

lemma Variables_loop_entries:
  assumes "finds_equals strAt"
    "\<forall>nv \<in> set ps. 0 \<notin> set (fst nv) \<and> 61 \<notin> set (fst nv) \<and> 0 \<notin> set (snd nv)"
  shows "Variables_loop strAt hashAdd (map (Str \<circ> entry) ps @ NULL # rest) h
    = Some (foldl (\<lambda>h nv. hashAdd h (fst nv) (snd nv)) h ps)"
  using assms(2)
proof (induction ps arbitrary: h)
  case (Cons nv ps)
  obtain a b where nv: "nv = (a, b)" by fastforce
  have n: "0 \<notin> set a" "61 \<notin> set a" "0 \<notin> set b" using Cons.prems nv by auto
  have "strAt (entry nv) (length a + 1 + length b) = length a + 1"
    using assms(1) n(2) by (simp add: finds_equals_def entry_def nv)
  moreover have "memread 0 (length a) (entry nv) = Some a"
    "memread (Suc (length a)) (length b) (entry nv) = Some b"
    by (simp_all add: memread_def entry_def nv)
  ultimately show ?case
    using Cons strlen_entry [of nv] n by (simp add: nv Let_def)
qed simp

text \<open>
  C20: on the environment of an accepted request the loop of \<open>HB_FCGI_GET_REQUEST_VARIABLES\<close> ends and
  adds every pair to the hash once, in order, with its name and its value, and nothing else.
\<close>
theorem request_variables:
  assumes "finds_equals strAt" "env_is ps (the_request (app h))"
    "\<forall>nv \<in> set ps. 0 \<notin> set (fst nv) \<and> 61 \<notin> set (fst nv) \<and> 0 \<notin> set (snd nv)"
  shows "HB_FCGI_GET_REQUEST_VARIABLES strAt hashAdd hashNew h
    = Some (foldl (\<lambda>a nv. hashAdd a (fst nv) (snd nv)) hashNew ps)"
proof -
  from assms(2) obtain p rest where p: "envp (the_request (app h)) = Some (vec p)"
    "paramsPtr (the_request (app h)) = Some p" "vec p = map (Str \<circ> entry) ps @ NULL # rest"
    by (auto simp: env_is_def params_ok_def)
  with Variables_loop_entries [OF assms(1,3), of hashAdd rest hashNew] show ?thesis
    by (simp add: HB_FCGI_GET_REQUEST_VARIABLES_def env_block_def)
qed

lemma hb_getenv:
  assumes "env_is ps (the_request (app h))" "0 \<notin> set name" "61 \<notin> set name"
    "\<forall>nv \<in> set ps. 61 \<notin> set (fst nv)"
  shows "HB_FCGX_GETENVIRONMENT (Some name) h = Some (case map_of ps name of None \<Rightarrow> [] | Some v \<Rightarrow> c_str v)"
proof -
  have "strlen (v @ [0]) = Some (length (c_str v)) \<and> take (length (c_str v)) v = c_str v
    \<and> length (c_str v) \<le> length v" for v
    by (induction v) (auto simp: c_str_def)
  with env_lookup [OF assms] env_block_is [OF assms(1)] show ?thesis
    by (auto simp: HB_FCGX_GETENVIRONMENT_def split: option.split)
qed

section \<open>The length of the content\<close>

text \<open>
  A decimal \<open>CONTENT_LENGTH\<close> in the environment is read as its value modulo 2 to the 32, as an
  \<open>int\<close>: exactly that value up to \<open>INT_MAX\<close>.
\<close>
theorem content_length:
  assumes "env_is ps (the_request (app h))" "\<forall>nv \<in> set ps. 61 \<notin> set (fst nv)"
    "map_of ps (bytes_of ''CONTENT_LENGTH'') = Some (decimal n)" "n < 2 ^ 63"
  shows "HB_FCGX_GETCONTENTLENGTH h = Some (int_of_long (int n))
    \<and> (int n \<le> INT_MAX \<longrightarrow> HB_FCGX_GETCONTENTLENGTH h = Some (int n))"
proof -
  have "0 \<notin> set (bytes_of ''CONTENT_LENGTH'')" "61 \<notin> set (bytes_of ''CONTENT_LENGTH'')"
    by (simp_all add: bytes_of_def)
  from env_lookup [OF assms(1) this assms(2)] env_block_is [OF assms(1)] assms(3)
    strlen_terminated [OF decimal_no_zero, of n "[]"] strtol10_decimal [of n] assms(4)
  have l: "HB_FCGX_GETCONTENTLENGTH h = Some (int_of_long (int n))"
    by (auto simp: HB_FCGX_GETCONTENTLENGTH_def)
  moreover have "int n \<le> INT_MAX \<Longrightarrow> int_of_long (int n) = int n"
    by (simp add: int_of_long_id)
  ultimately show ?thesis by simp
qed

section \<open>Input and output\<close>

text \<open>
  C22: \<open>HB_FCGX_GETINPUT n\<close>, \<open>n\<close> at least 0, on a request whose input still delivers \<open>xs\<close>, returns the
  first \<open>n\<close> bytes of \<open>xs\<close>, and the empty string when there are fewer, although they have been taken
  from the input; and each such call keeps one more block of memory than before.
\<close>
theorem hb_get_input:
  assumes "in_ptr (the_request (app h)) = Some s" "rd_src k0 r0 re W E xs s (reqData (the_request (app h))) k"
    "0 \<le> n" "n < INT_MAX"
  shows "\<exists>h' k' s'. HB_FCGX_GETINPUT n h k = Some (if nat n \<le> length xs then take (nat n) xs else [], h', k')
    \<and> in_ptr (the_request (app h')) = Some s'
    \<and> rd_src k0 r0 re W E (drop (nat n) xs) s' (reqData (the_request (app h'))) k'
    \<and> hb_blocks h' = hb_blocks h + 1"
proof -
  from reader.GetStr_src [OF assms(2), of n] obtain s' r' k' where
    "FCGX_GetStr FillBuffProc n s (reqData (the_request (app h))) k
      = Some (int (min (nat n) (length xs)), take (nat n) xs, s', r', k')"
    "rd_src k0 r0 re W E (drop (nat n) xs) s' r' k'" by blast
  with assms show ?thesis
    by (simp add: HB_FCGX_GETINPUT_def int_checked_def fits_int_def INT_MAX_def min_def)
qed

section \<open>After the request\<close>

lemma Free_no_params: "FCGX_Free q c k = Some (q', k') \<Longrightarrow> paramsPtr q' = None"
  by (auto simp: FCGX_Free_def FreeParams_def bind_Some_iff Let_def split: if_splits option.splits)

text \<open>
  C21: once \<open>HB_FCGX_FINISH\<close> has been called, reading the environment has no defined result: the
  vector has been freed, and \<open>g_envp\<close> still points to it or is \<open>NULL\<close>.
\<close>
theorem variables_after_finish:
  assumes "HB_FCGX_FINISH h k = Some (h', k')"
  shows "HB_FCGI_GET_REQUEST_VARIABLES strAt hashAdd hashNew h' = None"
proof -
  from assms have "paramsPtr (the_request (app h')) = None"
    by (auto simp: HB_FCGX_FINISH_def FCGX_Finish_def FCGX_Finish_r_def bind_Some_iff Let_def dest: Free_no_params)
  then show ?thesis
    by (simp add: HB_FCGI_GET_REQUEST_VARIABLES_def env_block_def split: option.split)
qed

text \<open>
  C30: \<open>HB_FCGX_FINISH\<close> before the first \<open>HB_FCGX_WAIT\<close> closes descriptor 0, the socket the server listens on:
  the request has not been initialised and its \<open>ipcFd\<close> is 0.
\<close>
theorem finish_before_wait:
  assumes "0 \<in> open_fds k" "\<not> asyncIoInUse k"
  shows "\<exists>h' k'. HB_FCGX_FINISH hb_start k = Some (h', k') \<and> open_fds k' = open_fds k - {0}"
proof -
  let ?q = "the_request (app hb_start)"
  have "freeable ?q" "closable (ipcFd (reqData ?q)) k" "ipcFd (reqData ?q) = 0"
    using assms by (simp_all add: hb_start_def freeable_def closable_def)
  from Free_close [OF this(1,2)] this(3) show ?thesis
    by (auto simp: HB_FCGX_FINISH_def FCGX_Finish_def FCGX_Finish_r_def hb_start_def)
qed

section \<open>The file name\<close>

text \<open>
  The name that has been set is returned, up to its first zero; one of 512 bytes or more is ignored.
\<close>
theorem ap_filename:
  assumes "length (cAP_FileName h) = 512" "0 \<in> set (cAP_FileName h)"
  shows "\<exists>h'. SET_AP_FILENAME (Some str) h = Some h' \<and> length (cAP_FileName h') = 512 \<and> 0 \<in> set (cAP_FileName h')
    \<and> AP_FILENAME h' = (if length str < 512 then Some (c_str str) else AP_FILENAME h)"
proof (cases "length str < 512")
  case True
  have "strlen (str @ 0 # m) = Some (length (c_str str)) \<and> take (length (c_str str)) (str @ 0 # m) = c_str str" for m
    by (induction str) (auto simp: c_str_def)
  with True assms show ?thesis
    by (auto simp: SET_AP_FILENAME_def AP_FILENAME_def memwrite_def)
qed (use assms in \<open>simp add: SET_AP_FILENAME_def\<close>)


section \<open>Examples\<close>

definition ex_hb :: "(byte list \<times> byte list) list \<Rightarrow> hb_fcgi" where
  "ex_hb ps = hb_start\<lparr>app := (app hb_start)\<lparr>the_request := (snd (FCGX_InitRequest 0 0))
     \<lparr>paramsPtr := Some \<lparr>vec = map (Str \<circ> entry) ps @ [NULL], plength = int (length ps) + 1, cur = length ps\<rparr>,
      envp := Some (map (Str \<circ> entry) ps @ [NULL])\<rparr>\<rparr>\<rparr>"

lemma ex_hb_env: "length ps < 30 \<Longrightarrow> env_is ps (the_request (app (ex_hb ps)))"
  by (simp add: env_is_def ex_hb_def params_ok_def)

fun ex_at :: "byte list \<Rightarrow> nat \<Rightarrow> nat" where
  "ex_at (c # s) (Suc n) = (if c = 61 then 1 else if ex_at s n = 0 then 0 else ex_at s n + 1)"
| "ex_at _ _ = 0"

lemma ex_at_finds: "finds_equals ex_at"
  unfolding finds_equals_def
proof (intro allI impI)
  fix a b :: "byte list" and n
  show "61 \<notin> set a \<Longrightarrow> length a < n \<Longrightarrow> ex_at (a @ 61 # b) n = length a + 1"
  proof (induction a arbitrary: n)
    case Nil
    then show ?case by (cases n) auto
  next
    case (Cons c a)
    then show ?case by (cases n) auto
  qed
qed

lemma request_variables_witness:
  "HB_FCGI_GET_REQUEST_VARIABLES ex_at (\<lambda>h a b. h @ [(a, b)]) [] (ex_hb [([65], [66]), ([67, 68], [])])
    = Some [([65], [66]), ([67, 68], [])]"
  using request_variables [OF ex_at_finds ex_hb_env, of "[([65], [66]), ([67, 68], [])]"
    "\<lambda>h a b. h @ [(a, b)]" "[]"] by simp

lemma content_length_witness:
  "HB_FCGX_GETCONTENTLENGTH (ex_hb [(bytes_of ''CONTENT_LENGTH'', decimal 1042)]) = Some 1042
   \<and> HB_FCGX_GETCONTENTLENGTH (ex_hb [(bytes_of ''CONTENT_LENGTH'', decimal (2 ^ 32 + 5))]) = Some 5"
proof -
  have nz: "61 \<notin> set (bytes_of ''CONTENT_LENGTH'')" by (simp add: bytes_of_def)
  have "int_of_long (int (2 ^ 32 + 5)) = 5" "int_of_long 1042 = 1042" by (simp_all add: int_of_long_def)
  with content_length [OF ex_hb_env, of "[(bytes_of ''CONTENT_LENGTH'', decimal 1042)]" 1042]
    content_length [OF ex_hb_env, of "[(bytes_of ''CONTENT_LENGTH'', decimal (2 ^ 32 + 5))]" "2 ^ 32 + 5"]
  show ?thesis using nz by (simp add: INT_MAX_def)
qed

lemma ap_filename_witness:
  "\<exists>h'. SET_AP_FILENAME (Some [97, 46, 104]) hb_start = Some h' \<and> AP_FILENAME h' = Some [97, 46, 104]"
proof -
  have "length (cAP_FileName hb_start) = 512" "0 \<in> set (cAP_FileName hb_start)"
    by (simp_all add: hb_start_def bytes_of_def length_concat sum_list_replicate)
  from ap_filename [OF this, of "[97, 46, 104]"] show ?thesis by (auto simp: c_str_def)
qed


lemma variables_after_finish_witness:
  "\<exists>h' k'. HB_FCGX_FINISH (ex_hb []) (ex_os [] []) = Some (h', k')
     \<and> HB_FCGI_GET_REQUEST_VARIABLES ex_at (\<lambda>h a b. h @ [(a, b)]) [] h' = None"
proof -
  have "\<exists>h' k'. HB_FCGX_FINISH (ex_hb []) (ex_os [] []) = Some (h', k')"
    by (simp add: HB_FCGX_FINISH_def FCGX_Finish_def FCGX_Finish_r_def FCGX_Free_def ex_hb_def FCGX_InitRequest_def
        FreeParams_def memread_def OS_IpcClose_def OS_Close_def Let_def)
  then show ?thesis by (auto dest: variables_after_finish)
qed

lemma finish_before_wait_witness:
  "\<exists>h' k'. HB_FCGX_FINISH hb_start ((ex_os [] [])\<lparr>open_fds := {0, 5}\<rparr>) = Some (h', k') \<and> open_fds k' = {5}"
  using finish_before_wait [of "(ex_os [] [])\<lparr>open_fds := {0, 5}\<rparr>"] by (simp add: ex_os_def)

section \<open>A whole request of a Harbour program\<close>

fun hb_prints :: "byte list list \<Rightarrow> hb_fcgi \<Rightarrow> os \<Rightarrow> (hb_fcgi \<times> os) option" where
  "hb_prints [] h k = Some (h, k)"
| "hb_prints (str # ss) h k = do { (_, h, k) \<leftarrow> HB_FCGX_PRINT (Some str) h k; hb_prints ss h k }"

definition on_request :: "Request \<Rightarrow> hb_fcgi \<Rightarrow> hb_fcgi" where
  "on_request q h = h\<lparr>app := (app h)\<lparr>the_request := q\<rparr>\<rparr>"

lemma on_request_sel [simp]:
  "the_request (app (on_request q h)) = q" "on_request q (on_request q' h) = on_request q h"
  "hb_blocks (on_request q h) = hb_blocks h" "libInitialized (app (on_request q h)) = libInitialized (app h)"
  by (simp_all add: on_request_def)

lemma HB_FCGX_PRINT_do_out:
  assumes "int (length str) \<le> INT_MAX"
  shows "HB_FCGX_PRINT (Some str) h k =
    map_option (\<lambda>(v, q, k). (1, on_request q h, k)) (do_out (Out (WStr str)) (the_request (app h)) k)"
  using assms by (auto simp: HB_FCGX_PRINT_def Let_def int_of_long_id on_request_def bind_eq_None_conv
      split: option.split bind_splits)

lemma hb_prints_run_out:
  assumes "run_out (map (\<lambda>x. Out (WStr x)) ss) (the_request (app h)) k = Some (True, q, k')"
    "\<forall>str \<in> set ss. int (length str) \<le> INT_MAX"
  shows "\<exists>h'. hb_prints ss h k = Some (h', k') \<and> the_request (app h') = q"
  using assms
proof (induction ss arbitrary: h k)
  case (Cons str ss)
  from Cons.prems(1) obtain v q1 k1 where
    d: "do_out (Out (WStr str)) (the_request (app h)) k = Some (v, q1, k1)"
    and r: "run_out (map (\<lambda>x. Out (WStr x)) ss) q1 k1 = Some (True, q, k')"
    by (auto simp: bind_Some_iff simp del: do_out.simps split: if_splits)
  with Cons.IH [of "on_request q1 h" k1] Cons.prems(2) show ?case
    by (simp add: HB_FCGX_PRINT_do_out)
qed simp

text \<open>
  C3: a request as a Harbour program handles it: \<open>HB_FCGX_WAIT\<close> returns 0 with the environment of the
  request, \<open>HB_FCGX_GETINPUT\<close> of the length of the input returns the input, and what
  \<open>HB_FCGX_PRINT\<close> is given, in order, is what the web server decodes as the response once
  \<open>HB_FCGX_FINISH\<close> has been called.
\<close>
theorem hb_request:
  assumes "libInitialized (app h)" "idle (the_request (app h))" "os_ready k"
    "next_for (app h) (the_request (app h)) k = Some (Conn fd rxs txs, aq, sq)" "fd < 1024"
    "wx_clean txs" "rx_error rxs \<noteq> Some 0" "length (rx_bytes rxs) < 2 ^ 28"
    "handshake (junk k) (rerr (rx_error rxs)) (requestId (reqData (the_request (app h)))) (rx_bytes rxs)
      = HsReady rid body ps w (DEof rest)"
    "demux \<lparr>d_junk = junk k, d_type = FCGI_STDIN, d_id = rid, d_begun = True, d_err = rerr (rx_error rxs)\<rparr>
      0 0 False rest = (xs, w2, DEof rest2)" "int (length xs) < INT_MAX"
    "\<forall>str \<in> set ss. int (length str) \<le> INT_MAX"
  shows "\<exists>h1 k1 h2 k2 h3 k3 h4 k4 w3 out rs.
      HB_FCGX_WAIT h k = Some (0, h1, k1)
    \<and> env_is (role_pair (body_role body) # ps) (the_request (app h1))
    \<and> HB_FCGX_GETINPUT (int (length xs)) h1 k1 = Some (xs, h2, k2)
    \<and> hb_prints ss h2 k2 = Some (h3, k3)
    \<and> HB_FCGX_FINISH h3 k3 = Some (h4, k4)
    \<and> tx k4 fd = w @ w3 @ out \<and> parse_records out = Some rs
    \<and> peer rid Unused Unused rs = Some (concat ss, [],
        end_body_bytes (MakeEndRequestBody (appStatus (reqData (the_request (app h)))) FCGI_REQUEST_COMPLETE))"
proof -
  from Accept_r_accepted [OF assms(1-10)] obtain q1 k1 s where
    acc: "FCGX_Accept_r (app h) (the_request (app h)) k = Some (0, q1, k1)" "env_is (role_pair (body_role body) # ps) q1"
    and a: "accepted fd rid (appStatus (reqData (the_request (app h)))) (uint (bflags body) AND FCGI_KEEP_CONN) q1 k1"
    and s: "in_ptr q1 = Some s" "rd_src k1 (reqData q1) (rx_error rxs) w2 (DEof rest2) xs s (reqData q1) k1"
    and tx1: "tx k1 fd = w" by blast
  have fd: "ipcFd (reqData q1) = fd" using a by (simp add: accepted_def)
  let ?h1 = "on_request q1 h"
  have wait: "HB_FCGX_WAIT h k = Some (0, ?h1, k1)"
    using assms(1) acc(1) by (simp add: HB_FCGX_WAIT_def FCGX_Accept_def on_request_def)
  from reader.GetStr_src [OF s(2), of "int (length xs)"] obtain s2 r2 k2 where
    g: "FCGX_GetStr FillBuffProc (int (length xs)) s (reqData q1) k1 = Some (int (length xs), xs, s2, r2, k2)"
    and s2: "rd_src k1 (reqData q1) (rx_error rxs) w2 (DEof rest2) [] s2 r2 k2" by auto
  obtain w3 where e2: "r2 = reqData q1" "FCGI_errno s2 = 0" "chan k1 fd w3 k2"
    using s2 fd by (auto simp: rd_src_def split: if_splits)
  let ?q2 = "q1\<lparr>in_ptr := Some s2\<rparr>"
  obtain h2 where h2: "HB_FCGX_GETINPUT (int (length xs)) ?h1 k1 = Some (xs, h2, k2)" "the_request (app h2) = ?q2"
    using g s(1) assms(11) by (simp add: HB_FCGX_GETINPUT_def int_checked_def fits_int_def INT_MAX_def Let_def e2(1))
  from accepted_response [OF a e2(3,2), of "map (\<lambda>x. Out (WStr x)) ss"] obtain q3 k3 q4 k4 out rs where
    r: "run_out (map (\<lambda>x. Out (WStr x)) ss) ?q2 k2 = Some (True, q3, k3)" "FCGX_Finish_r q3 k3 = Some (q4, k4)"
    "tx k4 fd = tx k2 fd @ out" "parse_records out = Some rs"
    "peer rid Unused Unused rs = Some (outs (map (\<lambda>x. Out (WStr x)) ss), errs (map (\<lambda>x. Out (WStr x)) ss),
      end_body_bytes (MakeEndRequestBody (appStatus (reqData (the_request (app h)))) FCGI_REQUEST_COMPLETE))" by blast
  have o: "outs (map (\<lambda>x. Out (WStr x)) ss) = concat ss" "errs (map (\<lambda>x. Out (WStr x)) ss) = []"
    by (induction ss) (auto simp: outs_def errs_def)
  from hb_prints_run_out [of ss h2 k2 q3 k3] r(1) h2(2) assms(12) obtain h3 where
    h3: "hb_prints ss h2 k2 = Some (h3, k3)" "the_request (app h3) = q3" by auto
  have "HB_FCGX_FINISH h3 k3 = Some (on_request q4 h3, k4)"
    using h3(2) r(2) by (simp add: HB_FCGX_FINISH_def FCGX_Finish_def on_request_def)
  moreover have "tx k4 fd = w @ w3 @ out" using r(3) chan_tx [OF e2(3)] tx1 by simp
  ultimately show ?thesis
    using wait acc(2) h2(1) h3(1) r(4,5) o by (intro exI [of _ ?h1]) auto
qed


definition ex_hb_listening :: hb_fcgi where
  "ex_hb_listening = hb_start\<lparr>app := ex_app\<rparr>"

lemma hb_request_witness:
  "\<exists>h1 k1 h2 k2 h3 k3 h4 k4 w3 out rs.
      HB_FCGX_WAIT ex_hb_listening ex_listening = Some (0, h1, k1)
    \<and> env_is [role_pair FCGI_RESPONDER, ([65], [66])] (the_request (app h1))
    \<and> HB_FCGX_GETINPUT 2 h1 k1 = Some ([104, 105], h2, k2)
    \<and> hb_prints [[72], [105, 33]] h2 k2 = Some (h3, k3)
    \<and> HB_FCGX_FINISH h3 k3 = Some (h4, k4)
    \<and> tx k4 7 = w3 @ out \<and> parse_records out = Some rs
    \<and> peer 1 Unused Unused rs = Some ([72, 105, 33], [], [0, 0, 0, 0, 0, 0, 0, 0])"
proof -
  have h: "app ex_hb_listening = ex_app" by (simp add: ex_hb_listening_def)
  have b: "body_role ex_body = FCGI_RESPONDER" "appStatus (reqData (the_request ex_app)) = 0"
    "end_body_bytes (MakeEndRequestBody 0 FCGI_REQUEST_COMPLETE) = [0, 0, 0, 0, 0, 0, 0, 0]"
    by code_simp+
  from hb_request [of ex_hb_listening, unfolded h, OF ex_ready(1-3) ex_next, of 1 ex_body "[([65], [66])]" "[]" ex_rest "[104, 105]" "[]" "[]"
      "[[72], [105, 33]]"]
  show ?thesis
    using ex_handshake ex_input ex_rx ex_ready b by (simp add: rerr_def wx_clean_def INT_MAX_def)
qed

lemma hb_get_input_witness:
  "\<exists>h k h2 k2 h3 k3. HB_FCGX_GETINPUT 1 h k = Some ([104], h2, k2) \<and> hb_blocks h2 = hb_blocks h + 1
     \<and> HB_FCGX_GETINPUT 5 h k = Some ([], h3, k3)"
proof -
  from Accept_r_accepted [OF ex_ready(1-3) ex_next, of 1 ex_body "[([65], [66])]" "[]" ex_rest "[104, 105]" "[]" "[]"]
  obtain q1 :: Request and k1 s where "in_ptr q1 = Some s"
    "rd_src k1 (reqData q1) None [] (DEof []) [104, 105] s (reqData q1) k1"
    using ex_handshake ex_input ex_rx ex_ready by (auto simp: rerr_def wx_clean_def)
  then have "in_ptr (the_request (app (on_request q1 hb_start))) = Some s"
    "rd_src k1 (reqData q1) None [] (DEof []) [104, 105] s (reqData (the_request (app (on_request q1 hb_start)))) k1"
    by simp_all
  from hb_get_input [OF this, of 1] hb_get_input [OF this, of 5]
  have "\<exists>h2 k2 h3 k3. HB_FCGX_GETINPUT 1 (on_request q1 hb_start) k1 = Some ([104], h2, k2)
      \<and> hb_blocks h2 = hb_blocks (on_request q1 hb_start) + 1
      \<and> HB_FCGX_GETINPUT 5 (on_request q1 hb_start) k1 = Some ([], h3, k3)"
    by (simp add: INT_MAX_def) blast
  then show ?thesis by blast
qed

end
