(* ===== verification/Printf.thy ===== *)
theory Printf
  imports Closing Numerals "HOL-Library.Sublist"
begin

text \<open>
  Formatted output: \<open>FCGX_VFPrintF\<close>, \<open>FCGX_FPrintF\<close> and \<open>CopyAndAdvance\<close> of \<open>fcgiapp.c\<close>, with the
  part of the C library's \<open>sprintf\<close> they use, and \<open>fprintf\<close> of the C standard as their specification.

  The specifier of a conversion is scanned twice: optimistically, for specifiers without flags, width
  and precision (\<open>Fast_scan\<close>), and otherwise piece by piece (\<open>Slow_scan\<close>), building the format
  \<open>fmtBuff\<close> for \<open>sprintf\<close> and an upper bound for its output (\<open>Slow_bound\<close>). \<open>Perform\<close> is the switch
  on the conversion, \<open>VFPrintF_loop\<close> the loop over the format.

  The variable arguments are a list; reading one with another type than it was passed with is
  undefined. What \<open>sprintf\<close> prints of a floating-point number or a pointer and the exponent \<open>frexp\<close>
  returns are parameters (\<open>libc\<close>): C leaves them to the implementation.
\<close>

section \<open>sprintf\<close>

definition is_op :: "string \<Rightarrow> byte \<Rightarrow> bool" where
  "is_op cs c \<longleftrightarrow> c \<in> set (bytes_of cs)"

abbreviation (input) is_flag :: "byte \<Rightarrow> bool" where "is_flag \<equiv> is_op ''-0+ #''"
abbreviation (input) is_size :: "byte \<Rightarrow> bool" where "is_size \<equiv> is_op ''lLh''"

text \<open>A conversion specification; the size is a space when there is none.\<close>

record conv =
  conv_flags :: "byte list"
  conv_width :: nat
  conv_precision :: "nat option"
  conv_size :: byte
  conv_op :: byte

text \<open>
  The arguments: \<open>int\<close> or \<open>unsigned\<close>, \<open>long\<close> or \<open>unsigned long\<close>, the block a \<open>char *\<close> points to (\<open>None\<close>
  for \<open>NULL\<close>), \<open>void *\<close>, \<open>double\<close>, \<open>long double\<close>, and the addresses \<open>%n\<close> stores at.
\<close>

datatype 'd varg =
    AInt "32 word" | ALong "64 word" | AStr "byte list option" | APtr "64 word"
  | ADouble 'd | ALongDouble 'd | AIntRef nat | ALongRef nat | AShortRef nat

record 'd libc =
  fmt_double :: "conv \<Rightarrow> 'd \<Rightarrow> byte list"
  fmt_pointer :: "conv \<Rightarrow> 64 word \<Rightarrow> byte list"
  frexp_exp :: "'d \<Rightarrow> int"

text \<open>The digits of a number in base 8, 10 or 16.\<close>

definition digit_char :: "bool \<Rightarrow> nat \<Rightarrow> byte" where
  "digit_char upper d = (if d < 10 then 48 else if upper then 55 else 87) + of_nat d"

function numeral_in :: "nat \<Rightarrow> bool \<Rightarrow> nat \<Rightarrow> byte list" where
  "numeral_in b upper n =
     (if b \<le> 1 \<or> n < b then [digit_char upper n]
      else numeral_in b upper (n div b) @ [digit_char upper (n mod b)])"
  by auto
termination by (relation "measure (\<lambda>(b, upper, n). n)") (auto intro!: div_less_dividend)

declare numeral_in.simps [simp del]

text \<open>\<open>pre\<close> is a sign or a base prefix; zeros go between it and the digits.\<close>

definition pad_field :: "bool \<Rightarrow> bool \<Rightarrow> nat \<Rightarrow> byte list \<Rightarrow> byte list \<Rightarrow> byte list" where
  "pad_field left zero w pre body =
     (let n = w - length pre - length body in
      if left then pre @ body @ replicate n 32
      else if zero then pre @ replicate n 48 @ body
      else replicate n 32 @ pre @ body)"

definition int_digits :: "conv \<Rightarrow> nat \<Rightarrow> byte list" where
  "int_digits c n =
     (let base = (if is_op ''o'' (conv_op c) then 8 else if is_op ''xX'' (conv_op c) then 16 else 10);
          ds = (if n = 0 \<and> conv_precision c = Some 0 then []
                else numeral_in base (is_op ''X'' (conv_op c)) n);
          ds = replicate (case_option 1 id (conv_precision c) - length ds) 48 @ ds in
      if is_op ''o'' (conv_op c) \<and> 35 \<in> set (conv_flags c) \<and> (ds = [] \<or> hd ds \<noteq> 48) then 48 # ds else ds)"

definition int_prefix :: "conv \<Rightarrow> int \<Rightarrow> byte list" where
  "int_prefix c i =
     (if is_op ''di'' (conv_op c) then
        if i < 0 then [45] else if 43 \<in> set (conv_flags c) then [43]
        else if 32 \<in> set (conv_flags c) then [32] else []
      else if is_op ''xX'' (conv_op c) \<and> 35 \<in> set (conv_flags c) \<and> i \<noteq> 0 then [48, conv_op c]
      else [])"

definition render_int :: "conv \<Rightarrow> int \<Rightarrow> byte list option" where
  "render_int c i =
     (if 35 \<in> set (conv_flags c) \<and> is_op ''diu'' (conv_op c) then None
      else Some (pad_field (45 \<in> set (conv_flags c))
                  (48 \<in> set (conv_flags c) \<and> conv_precision c = None)
                  (conv_width c) (int_prefix c i) (int_digits c (nat \<bar>i\<bar>))))"

text \<open>The number an integer conversion prints of its argument.\<close>

definition int_arg :: "conv \<Rightarrow> 'd varg \<Rightarrow> int option" where
  "int_arg c a =
     (let signed = is_op ''di'' (conv_op c) in
      case a of
        AInt w \<Rightarrow>
          if is_op '' '' (conv_size c) then Some (if signed then sint w else uint w)
          else if is_op ''h'' (conv_size c) then
            Some (if signed then sint (ucast w :: 16 word) else uint (ucast w :: 16 word))
          else None
      | ALong w \<Rightarrow> if is_op ''l'' (conv_size c) then Some (if signed then sint w else uint w) else None
      | _ \<Rightarrow> None)"

text \<open>
  At most \<open>p\<close> bytes of a string; without a terminating zero among them the block must hold as many.
\<close>

definition str_upto :: "nat \<Rightarrow> byte list \<Rightarrow> byte list option" where
  "str_upto p m =
     (let s = c_str (take p m) in if length s < length m \<or> p \<le> length m then Some s else None)"

definition render_str :: "conv \<Rightarrow> byte list \<Rightarrow> byte list option" where
  "render_str c m =
     do { s \<leftarrow> (case conv_precision c of
                 None \<Rightarrow> do { n \<leftarrow> strlen m; Some (take n m) }
               | Some p \<Rightarrow> str_upto p m);
          Some (pad_field (45 \<in> set (conv_flags c)) False (conv_width c) [] s) }"

text \<open>
  What one conversion prints. The flag \<open>0\<close> for \<open>c\<close> and \<open>s\<close> and the flag \<open>#\<close> for \<open>d\<close>, \<open>i\<close>, \<open>u\<close>, \<open>c\<close> and
  \<open>s\<close>, a precision for \<open>c\<close> and \<open>p\<close>, a size that does not fit and a null pointer for \<open>s\<close> are undefined.
\<close>

definition render :: "'d libc \<Rightarrow> conv \<Rightarrow> 'd varg \<Rightarrow> byte list option" where
  "render L c a =
     (let none = is_op '' '' (conv_size c); fl = set (conv_flags c) in
      if is_op ''diuoxX'' (conv_op c) then do { i \<leftarrow> int_arg c a; render_int c i }
      else if is_op ''c'' (conv_op c) then
        (case a of
           AInt w \<Rightarrow>
             if none \<and> conv_precision c = None \<and> 48 \<notin> fl \<and> 35 \<notin> fl
             then Some (pad_field (45 \<in> fl) False (conv_width c) [] [ucast w]) else None
         | _ \<Rightarrow> None)
      else if is_op ''s'' (conv_op c) then
        (case a of
           AStr (Some m) \<Rightarrow> if none \<and> 48 \<notin> fl \<and> 35 \<notin> fl then render_str c m else None
         | _ \<Rightarrow> None)
      else if is_op ''p'' (conv_op c) then
        (case a of
           APtr x \<Rightarrow> if none \<and> conv_precision c = None then Some (fmt_pointer L c x) else None
         | _ \<Rightarrow> None)
      else if is_op ''feEgG'' (conv_op c) then
        (case a of
           ADouble d \<Rightarrow> if none then Some (fmt_double L c d) else None
         | ALongDouble d \<Rightarrow> if is_op ''L'' (conv_size c) then Some (fmt_double L c d) else None
         | _ \<Rightarrow> None)
      else None)"

text \<open>
  A format of one conversion without \<open>*\<close>, as \<open>FCGX_VFPrintF\<close> hands it to \<open>sprintf\<close>.
\<close>

definition parse_conv :: "byte list \<Rightarrow> conv option" where
  "parse_conv fmt =
     do { pc \<leftarrow> deref fmt 0;
          ASSERT (pc = 37);
          let fl = takeWhile is_flag (tl fmt);
          let p = dropWhile is_flag (tl fmt);
          let w = takeWhile is_digit p;
          let p = dropWhile is_digit p;
          let (prec, p) =
            (if p \<noteq> [] \<and> hd p = 46
             then (Some (digits_value (takeWhile is_digit (tl p))), dropWhile is_digit (tl p))
             else (None, p));
          let (size, p) = (if p \<noteq> [] \<and> is_size (hd p) then (hd p, tl p) else (32, p));
          ASSERT (length p = 1);
          Some \<lparr>conv_flags = fl, conv_width = digits_value w, conv_precision = prec,
                conv_size = size, conv_op = hd p\<rparr> }"

definition c_sprintf :: "'d libc \<Rightarrow> byte list \<Rightarrow> 'd varg \<Rightarrow> byte list option" where
  "c_sprintf L fmt a = do { c \<leftarrow> parse_conv fmt; render L c a }"

text \<open>\<open>sprintf\<close> into an array of \<open>n\<close> bytes, with its terminating zero, and the \<open>strlen\<close> of the result.\<close>

definition sprintf_to :: "'d libc \<Rightarrow> nat \<Rightarrow> byte list \<Rightarrow> 'd varg \<Rightarrow> byte list option" where
  "sprintf_to L n fmt a =
     do { s \<leftarrow> c_sprintf L fmt a;
          ASSERT (length s < n);
          Some (c_str s) }"

text \<open>\<open>sprintf(p, "%lld", n)\<close>.\<close>

definition show_int :: "int \<Rightarrow> byte list" where
  "show_int n = (if n < 0 then [45] else []) @ decimal (nat \<bar>n\<bar>)"


section \<open>Code\<close>

text \<open>
  A function that may take the jump to \<open>ErrorReturn\<close> returns \<open>Some None\<close> when it does; \<open>proceed\<close>
  goes on with the value when it does not. Texts and formats are blocks with their terminating zero;
  \<open>fmtBuff\<close> is what has been written into that array.
\<close>

definition proceed :: "'a option option \<Rightarrow> ('a \<Rightarrow> 'b option option) \<Rightarrow> 'b option option" where
  "proceed x f = do { r \<leftarrow> x; case r of None \<Rightarrow> Some None | Some v \<Rightarrow> f v }"

abbreviation (input) ErrorReturn :: "'a option option" where "ErrorReturn \<equiv> Some None"
abbreviation (input) PRINTF_BUFFLEN :: int where "PRINTF_BUFFLEN \<equiv> 100"
abbreviation (input) FMT_BUFFLEN :: nat where "FMT_BUFFLEN \<equiv> 25"

type_synonym cells = "nat \<Rightarrow> int"

fun va_int :: "'d varg list \<Rightarrow> (32 word \<times> 'd varg list) option" where
  "va_int (AInt w # arg) = Some (w, arg)"
| "va_int _ = None"

fun va_long :: "'d varg list \<Rightarrow> (64 word \<times> 'd varg list) option" where
  "va_long (ALong w # arg) = Some (w, arg)"
| "va_long _ = None"

fun va_str :: "'d varg list \<Rightarrow> (byte list option \<times> 'd varg list) option" where
  "va_str (AStr m # arg) = Some (m, arg)"
| "va_str _ = None"

fun va_ptr :: "'d varg list \<Rightarrow> (64 word \<times> 'd varg list) option" where
  "va_ptr (APtr x # arg) = Some (x, arg)"
| "va_ptr _ = None"

fun va_double :: "'d varg list \<Rightarrow> ('d \<times> 'd varg list) option" where
  "va_double (ADouble d # arg) = Some (d, arg)"
| "va_double _ = None"

fun va_long_double :: "'d varg list \<Rightarrow> ('d \<times> 'd varg list) option" where
  "va_long_double (ALongDouble d # arg) = Some (d, arg)"
| "va_long_double _ = None"

definition CopyAndAdvance :: "byte list \<Rightarrow> byte list \<Rightarrow> nat \<Rightarrow> (byte list \<times> byte list) option" where
  "CopyAndAdvance dest src n =
     (if n \<le> length src \<and> length dest + n \<le> FMT_BUFFLEN
      then Some (dest @ take n src, drop n src) else None)"

text \<open>\<open>sprintf(fmtBuffPtr, "%lld", n)\<close>, which also writes a terminating zero.\<close>

definition Fmt_number :: "byte list \<Rightarrow> int \<Rightarrow> byte list option" where
  "Fmt_number fmtBuff n =
     (if length fmtBuff + length (show_int n) < FMT_BUFFLEN then Some (fmtBuff @ show_int n) else None)"

text \<open>The optimistic scan: \<open>op\<close>, \<open>sizeModifier\<close>, \<open>fmtBuff\<close> and \<open>specifierLength\<close>.\<close>

definition Fast_scan :: "byte list \<Rightarrow> (byte \<times> byte \<times> byte list \<times> nat) option" where
  "Fast_scan percentPtr =
     do { op \<leftarrow> deref percentPtr 1;
          if is_size op then
            do { sizeModifier \<leftarrow> Some op;
                 op \<leftarrow> deref percentPtr 2;
                 Some (op, sizeModifier, [37, sizeModifier, op], 3) }
          else Some (op, 32, [37, op], 2) }"

text \<open>The minimum field width, or the precision after its dot.\<close>

definition Scan_width ::
  "byte list \<Rightarrow> byte list \<Rightarrow> 'd varg list \<Rightarrow> (int \<times> byte list \<times> byte list \<times> 'd varg list) option option" where
  "Scan_width fmtBuff p arg =
     (let n = length (takeWhile is_digit p) in
      if n = 0 then
        do { c \<leftarrow> deref p 0;
             if c = 42 then
               do { (w, arg) \<leftarrow> va_int arg;
                    let minWidth = sint w;
                    a \<leftarrow> int_checked \<bar>minWidth\<bar>;
                    if a > 999999 then ErrorReturn
                    else do { fmtBuff \<leftarrow> Fmt_number fmtBuff minWidth;
                              Some (Some (minWidth, fmtBuff, tl p, arg)) } }
             else Some (Some (0, fmtBuff, p, arg)) }
      else if n \<le> 6 then
        do { let minWidth = strtol10 p;
             (fmtBuff, p) \<leftarrow> CopyAndAdvance fmtBuff p n;
             Some (Some (minWidth, fmtBuff, p, arg)) }
      else ErrorReturn)"

definition Scan_precision ::
  "byte list \<Rightarrow> byte list \<Rightarrow> 'd varg list \<Rightarrow> (int \<times> byte list \<times> byte list \<times> 'd varg list) option option" where
  "Scan_precision fmtBuff p arg =
     do { c \<leftarrow> deref p 0;
          if c = 46 then
            do { (fmtBuff, p) \<leftarrow> CopyAndAdvance fmtBuff p 1;
                 let n = length (takeWhile is_digit p);
                 if n = 0 then
                   do { c \<leftarrow> deref p 0;
                        if c = 42 then
                          do { (w, arg) \<leftarrow> va_int arg;
                               let precision = (if sint w < 0 then 0 else sint w);
                               if precision > 999999 then ErrorReturn
                               else do { fmtBuff \<leftarrow> Fmt_number fmtBuff precision;
                                         Some (Some (precision, fmtBuff, tl p, arg)) } }
                        else Some (Some (0, fmtBuff, p, arg)) }
                 else if n \<le> 6 then
                   do { let precision = strtol10 p;
                        (fmtBuff, p) \<leftarrow> CopyAndAdvance fmtBuff p n;
                        Some (Some (precision, fmtBuff, p, arg)) }
                 else ErrorReturn }
          else Some (Some (-1, fmtBuff, p, arg)) }"

text \<open>
  The whole scan: \<open>minWidth\<close>, \<open>precision\<close>, \<open>sizeModifier\<close>, \<open>op\<close>, \<open>fmtBuff\<close> and \<open>specifierLength\<close>.
\<close>

definition Slow_scan ::
  "byte list \<Rightarrow> 'd varg list \<Rightarrow> ((int \<times> int \<times> byte \<times> byte \<times> byte list \<times> nat) \<times> 'd varg list) option option" where
  "Slow_scan percentPtr arg =
     (let p = tl percentPtr; n = length (takeWhile is_flag p) in
      if n > 5 then ErrorReturn
      else do {
        (fmtBuff, p) \<leftarrow> CopyAndAdvance [37] p n;
        proceed (Scan_width fmtBuff p arg) (\<lambda>(minWidth, fmtBuff, p, arg).
        proceed (Scan_precision fmtBuff p arg) (\<lambda>(precision, fmtBuff, p, arg).
          do { c \<leftarrow> deref p 0;
               (sizeModifier, fmtBuff, p) \<leftarrow>
                 (if is_size c then
                    do { (fmtBuff, p) \<leftarrow> CopyAndAdvance fmtBuff p 1; Some (c, fmtBuff, p) }
                  else Some (32, fmtBuff, p));
               op \<leftarrow> deref p 0;
               (fmtBuff, p) \<leftarrow> CopyAndAdvance fmtBuff p 1;
               ASSERT (length fmtBuff < FMT_BUFFLEN);
               Some (Some ((minWidth, precision, sizeModifier, op, fmtBuff,
                            length percentPtr - length p), arg)) })) })"

text \<open>
  The bound \<open>buffReqd\<close> on the output; for \<open>s\<close> and \<open>f\<close> this reads the argument, which is returned.
\<close>

definition Slow_bound ::
  "'d libc \<Rightarrow> byte \<Rightarrow> byte \<Rightarrow> int \<Rightarrow> 'd varg list \<Rightarrow> (int \<times> 'd varg option \<times> 'd varg list) option option" where
  "Slow_bound L sizeModifier op precision arg =
     (if is_op ''diuoxXcp'' op then Some (Some (max precision 46, None, arg))
      else if is_op ''s'' op then
        do { (charPtrArg, arg) \<leftarrow> va_str arg;
             let m = (case charPtrArg of None \<Rightarrow> bytes_of ''(null)'' @ [0] | Some m \<Rightarrow> m);
             n \<leftarrow> (if precision = -1 then strlen m else map_option length (str_upto (nat precision) m));
             Some (Some (int n, Some (AStr (Some m)), arg)) }
      else if is_op ''f'' op then
        (let buffReqd = (\<lambda>exp. (if precision = -1 then 6 else precision) + 3
               + (if exp > 0 then exp div 3 else 0)) in
         if is_op '' '' sizeModifier then
           do { (d, arg) \<leftarrow> va_double arg;
                Some (Some (buffReqd (frexp_exp L d), Some (ADouble d), arg)) }
         else if is_op ''L'' sizeModifier then
           do { (d, arg) \<leftarrow> va_long_double arg;
                Some (Some (buffReqd (frexp_exp L d), Some (ALongDouble d), arg)) }
         else ErrorReturn)
      else if is_op ''eEgG'' op then
        Some (Some ((if precision = -1 then 6 else precision) + 8, None, arg))
      else ErrorReturn)"

text \<open>The size of the buffer \<open>sprintf\<close> is given, and of \<open>auxBuffPtr\<close> if that has been allocated.\<close>

definition Slow_buffer :: "int \<Rightarrow> int \<Rightarrow> int option \<Rightarrow> int \<times> int option" where
  "Slow_buffer buffReqd minWidth auxBuff =
     (let buffReqd = max (buffReqd + 10) minWidth in
      if buffReqd \<le> PRINTF_BUFFLEN then (PRINTF_BUFFLEN, auxBuff)
      else case auxBuff of
             None \<Rightarrow> (buffReqd, Some buffReqd)
           | Some auxBuffLen \<Rightarrow>
               if buffReqd > auxBuffLen then (buffReqd, Some buffReqd)
               else (auxBuffLen, Some auxBuffLen))"

text \<open>
  The switch on the conversion: not performed, or performed with the bytes and the size of the buffer
  they are in, the arguments left and the variables \<open>%n\<close> stores into.
\<close>

datatype 'd performed = Not_performed | Performed "byte list" int "'d varg list" cells


definition Perform_sprintf ::
  "'d libc \<Rightarrow> int \<Rightarrow> byte list \<Rightarrow> 'd varg \<Rightarrow> 'd varg list \<Rightarrow> cells \<Rightarrow> 'd performed option option" where
  "Perform_sprintf L buffLen fmtBuff a arg m =
     do { bs \<leftarrow> sprintf_to L (nat buffLen) fmtBuff a; Some (Some (Performed bs buffLen arg m)) }"

definition Perform_int ::
  "'d libc \<Rightarrow> byte \<Rightarrow> byte \<Rightarrow> int \<Rightarrow> byte list \<Rightarrow> 'd varg list \<Rightarrow> cells \<Rightarrow> 'd performed option option" where
  "Perform_int L sizeModifier op buffLen fmtBuff arg m =
     (if is_op '' '' sizeModifier then
        do { (w, arg) \<leftarrow> va_int arg; Perform_sprintf L buffLen fmtBuff (AInt w) arg m }
      else if is_op ''l'' sizeModifier then
        do { (w, arg) \<leftarrow> va_long arg; Perform_sprintf L buffLen fmtBuff (ALong w) arg m }
      else if is_op ''h'' sizeModifier then
        do { (w, arg) \<leftarrow> va_int arg;
             let h = (ucast w :: 16 word);
             Perform_sprintf L buffLen fmtBuff
               (AInt (if is_op ''di'' op then scast h else ucast h)) arg m }
      else ErrorReturn)"

definition Perform_str ::
  "'d libc \<Rightarrow> bool \<Rightarrow> byte \<Rightarrow> int \<Rightarrow> byte list \<Rightarrow> 'd varg option \<Rightarrow> 'd varg list \<Rightarrow> cells
     \<Rightarrow> 'd performed option option" where
  "Perform_str L fastPath sizeModifier buffLen fmtBuff saved arg m =
     (if is_op '' '' sizeModifier then
        if fastPath then
          do { (charPtrArg, arg) \<leftarrow> va_str arg;
               str \<leftarrow> charPtrArg;
               n \<leftarrow> strlen str;
               Some (Some (Performed (take n str) (int n + 1) arg m)) }
        else do { a \<leftarrow> saved; Perform_sprintf L buffLen fmtBuff a arg m }
      else ErrorReturn)"

definition Perform_count ::
  "byte \<Rightarrow> int \<Rightarrow> 'd varg list \<Rightarrow> cells \<Rightarrow> int \<Rightarrow> 'd performed option option" where
  "Perform_count sizeModifier buffLen arg m streamCount =
     (case arg of
        AIntRef x # arg \<Rightarrow>
          if is_op '' '' sizeModifier then
            do { ASSERT (fits_int streamCount);
                 Some (Some (Performed [] buffLen arg (m(x := streamCount)))) }
          else if is_op ''lh'' sizeModifier then None else ErrorReturn
      | ALongRef x # arg \<Rightarrow>
          if is_op ''l'' sizeModifier then
            do { ASSERT (- (2 ^ 63) \<le> streamCount \<and> streamCount < 2 ^ 63);
                 Some (Some (Performed [] buffLen arg (m(x := streamCount)))) }
          else if is_op '' h'' sizeModifier then None else ErrorReturn
      | AShortRef x # arg \<Rightarrow>
          if is_op ''h'' sizeModifier then
            Some (Some (Performed [] buffLen arg (m(x := sint (word_of_int streamCount :: 16 word)))))
          else if is_op '' l'' sizeModifier then None else ErrorReturn
      | _ \<Rightarrow> if is_op '' lh'' sizeModifier then None else ErrorReturn)"

definition Perform ::
  "'d libc \<Rightarrow> bool \<Rightarrow> byte \<Rightarrow> byte \<Rightarrow> byte list \<Rightarrow> int \<Rightarrow> 'd varg option \<Rightarrow> 'd varg list \<Rightarrow> cells \<Rightarrow> int
     \<Rightarrow> 'd performed option option" where
  "Perform L fastPath op sizeModifier fmtBuff buffLen saved arg m streamCount =
     (if is_op ''diuoxX'' op then Perform_int L sizeModifier op buffLen fmtBuff arg m
      else if is_op ''c'' op then
        if is_op '' '' sizeModifier then
          do { (w, arg) \<leftarrow> va_int arg; Perform_sprintf L buffLen fmtBuff (AInt w) arg m }
        else ErrorReturn
      else if is_op ''s'' op then Perform_str L fastPath sizeModifier buffLen fmtBuff saved arg m
      else if is_op ''p'' op then
        if \<not> is_op '' '' sizeModifier then ErrorReturn
        else do { (x, arg) \<leftarrow> va_ptr arg; Perform_sprintf L buffLen fmtBuff (APtr x) arg m }
      else if is_op ''n'' op then Perform_count sizeModifier buffLen arg m streamCount
      else if is_op ''f'' op then
        if fastPath then Some (Some Not_performed)
        else if is_op '' L'' sizeModifier then
          do { a \<leftarrow> saved; Perform_sprintf L buffLen fmtBuff a arg m }
        else ErrorReturn
      else if is_op ''eEgG'' op then
        if is_op '' '' sizeModifier then
          do { (d, arg) \<leftarrow> va_double arg; Perform_sprintf L buffLen fmtBuff (ADouble d) arg m }
        else if is_op ''L'' sizeModifier then
          do { (d, arg) \<leftarrow> va_long_double arg; Perform_sprintf L buffLen fmtBuff (ALongDouble d) arg m }
        else ErrorReturn
      else if is_op ''%'' op then
        if \<not> is_op '' '' sizeModifier then ErrorReturn
        else Some (Some (Performed [37] buffLen arg m))
      else if op = 0 then ErrorReturn
      else Some (Some Not_performed))"

text \<open>
  One conversion: the optimistic scan, and if that does not perform it the slow one. The result is what
  to write, the size of its buffer, the arguments left, the variables, \<open>auxBuffPtr\<close> and
  \<open>specifierLength\<close>.
\<close>

definition Convert_slow ::
  "'d libc \<Rightarrow> byte list \<Rightarrow> 'd varg list \<Rightarrow> cells \<Rightarrow> int \<Rightarrow> int option
     \<Rightarrow> (byte list \<times> int \<times> 'd varg list \<times> cells \<times> int option \<times> nat) option option" where
  "Convert_slow L percentPtr arg m streamCount auxBuff =
     proceed (Slow_scan percentPtr arg)
       (\<lambda>((minWidth, precision, sizeModifier, op, fmtBuff, specifierLength), arg).
     proceed (Slow_bound L sizeModifier op precision arg) (\<lambda>(buffReqd, saved, arg).
       let (buffLen, auxBuff) = Slow_buffer buffReqd minWidth auxBuff in
     proceed (Perform L False op sizeModifier fmtBuff buffLen saved arg m streamCount) (\<lambda>r.
       case r of
         Not_performed \<Rightarrow> ErrorReturn
       | Performed bs buffLen arg m \<Rightarrow> Some (Some (bs, buffLen, arg, m, auxBuff, specifierLength)))))"

definition Convert ::
  "'d libc \<Rightarrow> byte list \<Rightarrow> 'd varg list \<Rightarrow> cells \<Rightarrow> int \<Rightarrow> int option
     \<Rightarrow> (byte list \<times> int \<times> 'd varg list \<times> cells \<times> int option \<times> nat) option option" where
  "Convert L percentPtr arg m streamCount auxBuff =
     do { (op, sizeModifier, fmtBuff, specifierLength) \<leftarrow> Fast_scan percentPtr;
          proceed (Perform L True op sizeModifier fmtBuff PRINTF_BUFFLEN None arg m streamCount) (\<lambda>r.
            case r of
              Not_performed \<Rightarrow> Convert_slow L percentPtr arg m streamCount auxBuff
            | Performed bs buffLen arg m \<Rightarrow> Some (Some (bs, buffLen, arg, m, auxBuff, specifierLength))) }"

text \<open>
  The loop: \<open>f\<close> is the rest of the format up to \<open>fStop\<close>, so \<open>percentPtr\<close> with the zero after it is what
  the scans may read.
\<close>

partial_function (option) VFPrintF_loop ::
  "(bool \<Rightarrow> filler) \<Rightarrow> 'd libc \<Rightarrow> byte list \<Rightarrow> 'd varg list \<Rightarrow> cells \<Rightarrow> int \<Rightarrow> int option
     \<Rightarrow> stream \<Rightarrow> FCGX_Request \<Rightarrow> os \<Rightarrow> (int \<times> cells \<times> stream \<times> FCGX_Request \<times> os) option" where
  "VFPrintF_loop emp L f arg m streamCount auxBuff s r k =
     (if f = [] then do { ASSERT (fits_int streamCount); Some (streamCount, m, s, r, k) }
      else
        do { let lit = takeWhile (\<lambda>c. c \<noteq> 37) f;
             let percentPtr = dropWhile (\<lambda>c. c \<noteq> 37) f;
             (v, s, r, k) \<leftarrow>
               (if lit \<noteq> [] then
                  do { ASSERT (int (length lit) < INT_MAX);
                       FCGX_PutStr emp lit (int (length lit)) s r k }
                else Some (0, s, r, k));
             if v < 0 then Some (-1, m, s, r, k)
             else
               let streamCount = streamCount + int (length lit) in
               if percentPtr = [] then VFPrintF_loop emp L [] arg m streamCount auxBuff s r k
               else
                 do { c \<leftarrow> Convert L (percentPtr @ [0]) arg m streamCount auxBuff;
                      case c of
                        None \<Rightarrow> Some (-1, m, s, r, k)
                      | Some (bs, buffLen, arg, m, auxBuff, specifierLength) \<Rightarrow>
                          do { ASSERT (int (length bs) < buffLen);
                               (v, s, r, k) \<leftarrow>
                                 (if bs \<noteq> [] then
                                    do { ASSERT (int (length bs) \<le> INT_MAX);
                                         FCGX_PutStr emp bs (int (length bs)) s r k }
                                  else Some (0, s, r, k));
                               if v < 0 then Some (-1, m, s, r, k)
                               else if specifierLength > length percentPtr then None
                               else VFPrintF_loop emp L (drop specifierLength percentPtr) arg m
                                      (streamCount + int (length bs)) auxBuff s r k } } })"

declare VFPrintF_loop.simps [code]

definition FCGX_VFPrintF ::
  "(bool \<Rightarrow> filler) \<Rightarrow> 'd libc \<Rightarrow> byte list \<Rightarrow> 'd varg list \<Rightarrow> cells \<Rightarrow> stream \<Rightarrow> FCGX_Request \<Rightarrow> os
     \<Rightarrow> (int \<times> cells \<times> stream \<times> FCGX_Request \<times> os) option" where
  "FCGX_VFPrintF emp L format arg m s r k =
     do { n \<leftarrow> strlen format;
          VFPrintF_loop emp L (take n format) arg m 0 None s r k }"

definition FCGX_FPrintF ::
  "(bool \<Rightarrow> filler) \<Rightarrow> 'd libc \<Rightarrow> stream \<Rightarrow> byte list \<Rightarrow> 'd varg list \<Rightarrow> cells \<Rightarrow> FCGX_Request \<Rightarrow> os
     \<Rightarrow> (int \<times> cells \<times> stream \<times> FCGX_Request \<times> os) option" where
  "FCGX_FPrintF emp L stream format arg m r k = FCGX_VFPrintF emp L format arg m stream r k"

section \<open>Specification\<close>

text \<open>
  \<open>fprintf\<close> as the C standard has it, within the limits \<open>FCGX_VFPrintF\<close> can keep: at most five flags,
  a width below 100 and not given as a zero argument, a precision below a million and not given as a
  negative argument, nothing undefined, and no zero byte in what is printed.
\<close>

definition spec_width :: "byte list \<Rightarrow> 'd varg list \<Rightarrow> (bool \<times> nat \<times> byte list \<times> 'd varg list) option" where
  "spec_width p arg =
     (let ds = takeWhile is_digit p in
      if ds \<noteq> [] then
        if length ds \<le> 6 \<and> digits_value ds < 100
        then Some (False, digits_value ds, dropWhile is_digit p, arg) else None
      else if p \<noteq> [] \<and> hd p = 42 then
        do { (w, arg) \<leftarrow> va_int arg;
             if sint w \<noteq> 0 \<and> \<bar>sint w\<bar> < 100 then Some (sint w < 0, nat \<bar>sint w\<bar>, tl p, arg) else None }
      else Some (False, 0, p, arg))"

definition spec_precision :: "byte list \<Rightarrow> 'd varg list \<Rightarrow> (nat option \<times> byte list \<times> 'd varg list) option" where
  "spec_precision p arg =
     (if p \<noteq> [] \<and> hd p = 46 then
        let p = tl p; ds = takeWhile is_digit p in
        if ds \<noteq> [] then
          if length ds \<le> 6 then Some (Some (digits_value ds), dropWhile is_digit p, arg) else None
        else if p \<noteq> [] \<and> hd p = 42 then
          do { (w, arg) \<leftarrow> va_int arg;
               if 0 \<le> sint w \<and> sint w \<le> 999999 then Some (Some (nat (sint w)), tl p, arg) else None }
        else Some (Some 0, p, arg)
      else Some (None, p, arg))"

definition spec_conv :: "byte list \<Rightarrow> 'd varg list \<Rightarrow> (conv \<times> byte list \<times> 'd varg list) option" where
  "spec_conv p arg =
     do { let fl = takeWhile is_flag p;
          ASSERT (length fl \<le> 5);
          (neg, w, p, arg) \<leftarrow> spec_width (dropWhile is_flag p) arg;
          (prec, p, arg) \<leftarrow> spec_precision p arg;
          let (sz, p) = (if p \<noteq> [] \<and> is_size (hd p) then (hd p, tl p) else (32, p));
          ASSERT (p \<noteq> []);
          Some (\<lparr>conv_flags = fl @ (if neg then [45] else []), conv_width = w, conv_precision = prec,
                  conv_size = sz, conv_op = hd p\<rparr>, tl p, arg) }"

text \<open>
  What a format prints: texts, and the variables that get the number of bytes printed so far, through
  a pointer to an \<open>int\<close> or \<open>long\<close> or to a \<open>short\<close>.
\<close>

datatype piece = Text "byte list" | Count nat bool

definition plain :: "byte \<Rightarrow> byte \<Rightarrow> conv" where
  "plain sz op = \<lparr>conv_flags = [], conv_width = 0, conv_precision = None, conv_size = sz, conv_op = op\<rparr>"

fun spec_count :: "byte \<Rightarrow> 'd varg list \<Rightarrow> (piece \<times> 'd varg list) option" where
  "spec_count sz (AIntRef x # arg) = (if is_op '' '' sz then Some (Count x False, arg) else None)"
| "spec_count sz (ALongRef x # arg) = (if is_op ''l'' sz then Some (Count x False, arg) else None)"
| "spec_count sz (AShortRef x # arg) = (if is_op ''h'' sz then Some (Count x True, arg) else None)"
| "spec_count sz _ = None"

definition spec_piece :: "'d libc \<Rightarrow> conv \<Rightarrow> 'd varg list \<Rightarrow> (piece \<times> 'd varg list) option" where
  "spec_piece L c arg =
     (if is_op ''%'' (conv_op c) then if c = plain 32 37 then Some (Text [37], arg) else None
      else if is_op ''n'' (conv_op c) then
        if c = plain (conv_size c) (conv_op c) then spec_count (conv_size c) arg else None
      else
        case arg of
          [] \<Rightarrow> None
        | a # arg \<Rightarrow> do { bs \<leftarrow> render L c a; if 0 \<notin> set bs then Some (Text bs, arg) else None })"

lemma spec_width_shorter: "spec_width p arg = Some (neg, w, p', arg') \<Longrightarrow> length p' \<le> length p"
  by (auto simp: spec_width_def Let_def bind_Some_iff length_dropWhile_le split: if_splits)

lemma spec_precision_shorter: "spec_precision p arg = Some (prec, p', arg') \<Longrightarrow> length p' \<le> length p"
  using length_dropWhile_le [of is_digit "tl p"]
  by (auto simp: spec_precision_def Let_def bind_Some_iff split: if_splits)

lemma spec_conv_shorter: "spec_conv p arg = Some (c, p', arg') \<Longrightarrow> length p' < length p"
  using length_dropWhile_le [of is_flag p]
  by (fastforce simp: spec_conv_def Let_def bind_Some_iff neq_Nil_conv
      dest!: spec_width_shorter spec_precision_shorter split: if_splits)

lemma after_percent_shorter:
  assumes "spec_conv (tl (dropWhile P f)) arg = Some (c, rest, arg')" "dropWhile P f \<noteq> []"
  shows "length rest < length f"
  using spec_conv_shorter [OF assms(1)] assms(2) length_dropWhile_le [of P f]
  by (cases "dropWhile P f") auto

function c_printf :: "'d libc \<Rightarrow> byte list \<Rightarrow> 'd varg list \<Rightarrow> piece list option" where
  "c_printf L f arg =
     (if f = [] then Some []
      else
        let lit = takeWhile (\<lambda>c. c \<noteq> 37) f; pc = dropWhile (\<lambda>c. c \<noteq> 37) f in
        if pc = [] then Some [Text lit]
        else
          case spec_conv (tl pc) arg of
            None \<Rightarrow> None
          | Some (c, rest, arg) \<Rightarrow>
              do { (piece, arg) \<leftarrow> spec_piece L c arg;
                   ps \<leftarrow> c_printf L rest arg;
                   Some (Text lit # piece # ps) })"
  by auto

termination
  by (relation "measure (\<lambda>(L, f, arg). length f)") (auto intro!: after_percent_shorter)

declare c_printf.simps [simp del]

text \<open>Writing the pieces, with the count so far; it ends at the first text that cannot be written.\<close>

fun run_pieces ::
  "(bool \<Rightarrow> filler) \<Rightarrow> int \<Rightarrow> cells \<Rightarrow> piece list \<Rightarrow> stream \<Rightarrow> FCGX_Request \<Rightarrow> os
     \<Rightarrow> (int \<times> cells \<times> stream \<times> FCGX_Request \<times> os) option" where
  "run_pieces emp n m [] s r k = Some (n, m, s, r, k)"
| "run_pieces emp n m (Text bs # ps) s r k =
     (if bs = [] then run_pieces emp n m ps s r k
      else do { (v, s, r, k) \<leftarrow> FCGX_PutStr emp bs (int (length bs)) s r k;
                if v < 0 then Some (-1, m, s, r, k)
                else run_pieces emp (n + int (length bs)) m ps s r k })"
| "run_pieces emp n m (Count x short # ps) s r k =
     run_pieces emp n (m(x := if short then sint (word_of_int n :: 16 word) else n)) ps s r k"

fun text_of :: "piece list \<Rightarrow> byte list" where
  "text_of [] = []"
| "text_of (Text bs # ps) = bs @ text_of ps"
| "text_of (Count x short # ps) = text_of ps"

section \<open>Scanning a specifier\<close>

lemma digit_not_flag: "is_digit c \<Longrightarrow> c \<noteq> 48 \<Longrightarrow> \<not> is_flag c"
  by (auto simp: is_op_def bytes_of_def is_digit_def)

lemma not_zero_class [simp]: "\<not> is_flag 0" "\<not> is_digit 0" "\<not> is_size 0" "\<not> is_flag 46" "\<not> is_digit 46"
  by (simp_all add: is_op_def bytes_of_def is_digit_def)

lemma is_digit_45 [simp]: "\<not> is_digit 45" "\<not> is_digit 42" "is_flag 45"
  by (simp_all add: is_op_def bytes_of_def is_digit_def)

lemma strtol10_digits:
  assumes "takeWhile is_digit p = ds" "ds \<noteq> []" "length ds \<le> 6"
  shows "strtol10 (p @ [0]) = int (digits_value ds)"
proof -
  have b: "digits_value ds < 10 ^ length ds" if "list_all is_digit ds" for ds
    using that
  proof (induction ds rule: rev_induct)
    case (snoc c ds)
    then have "unat c - 48 < 10" by (auto simp: is_digit_def word_le_nat_alt)
    with snoc show ?case by (simp add: digits_value_def)
  qed (simp add: digits_value_def)
  have "list_all is_digit ds" using assms(1) by (auto simp: list_all_iff dest: set_takeWhileD)
  from b [OF this] have "digits_value ds < 10 ^ 6"
    using assms(3) power_increasing [of "length ds" 6 "10 :: nat"] by linarith
  moreover obtain c q where p: "p = c # q" "is_digit c"
    using assms(1,2) by (cases p) (auto split: if_splits)
  moreover have "takeWhile is_digit (p @ [0]) = ds"
    using assms(1) by (simp add: takeWhile_tail)
  ultimately show ?thesis
    using is_digit_not [of c] by (simp add: strtol10_def Let_def)
qed

lemma length_decimal: "n < 10 ^ k \<Longrightarrow> 0 < k \<Longrightarrow> length (decimal n) \<le> k"
proof (induction k arbitrary: n)
  case (Suc k)
  show ?case
  proof (cases "n < 10")
    case False
    then have "n div 10 < 10 ^ k" "0 < k" using Suc.prems by (auto intro!: Nat.gr0I)
    with Suc.IH [of "n div 10"] False show ?thesis by (simp add: decimal.simps [of n])
  qed (simp add: decimal.simps)
qed simp

lemma hd_decimal: "0 < n \<Longrightarrow> hd (decimal n) \<noteq> 48"
proof (induction n rule: decimal.induct)
  case (1 n)
  show ?case
  proof (cases "n < 10")
    case True
    then have "list_all (\<lambda>n. 48 + of_nat n \<noteq> (48 :: byte)) [1..<10]" by code_simp
    with True 1 show ?thesis by (auto simp: decimal.simps [of n] list_all_iff)
  next
    case False
    then have "hd (decimal (n div 10)) \<noteq> 48" using 1 by simp
    with False decimal_ne [of "n div 10"] show ?thesis by (simp add: decimal.simps [of n])
  qed
qed

text \<open>A width that is scanned: its digits, behind a minus sign for a negative argument.\<close>

lemma Scan_width_spec:
  assumes "spec_width p arg = Some (neg, w, p', arg')" "p = [] \<or> \<not> is_flag (hd p)" "length buf \<le> 6"
  shows "\<exists>mw ds. Scan_width buf (p @ [0]) arg
      = Some (Some (mw, buf @ (if neg then [45] else []) @ ds, p' @ [0], arg'))
    \<and> mw \<le> int w \<and> w < 100 \<and> list_all is_digit ds \<and> digits_value ds = w
    \<and> (ds = [] \<or> hd ds \<noteq> 48) \<and> length ds \<le> 6 \<and> (neg \<longrightarrow> ds \<noteq> [])"
proof -
  have tk: "takeWhile is_digit (p @ [0]) = takeWhile is_digit p" by (simp add: takeWhile_tail)
  consider (digits) "takeWhile is_digit p \<noteq> []" | (star) "takeWhile is_digit p = []" "p \<noteq> []" "hd p = 42"
    | (none) "takeWhile is_digit p = []" "p = [] \<or> hd p \<noteq> 42" by blast
  then show ?thesis
  proof cases
    case digits
    let ?ds = "takeWhile is_digit p"
    from digits assms(1) have d: "length ?ds \<le> 6" "digits_value ?ds < 100" "neg = False"
      "w = digits_value ?ds" "p' = dropWhile is_digit p" "arg' = arg"
      by (auto simp: spec_width_def Let_def split: if_splits)
    have "hd ?ds \<noteq> 48" using digits assms(2)
      by (cases p) (auto simp: is_op_def bytes_of_def split: if_splits)
    moreover have "take (length ?ds) (p @ [0]) = ?ds" "drop (length ?ds) (p @ [0]) = p' @ [0]"
      using d(5) takeWhile_dropWhile_id [of is_digit p]
      by (metis append_eq_conv_conj append.assoc)+
    moreover have "length ?ds \<le> length p" by (rule length_takeWhile_le)
    moreover have "list_all is_digit ?ds" by (auto simp: list_all_iff dest: set_takeWhileD)
    ultimately show ?thesis
      using digits d assms(3) strtol10_digits [OF refl digits d(1)]
      by (intro exI [of _ "int w"] exI [of _ ?ds])
        (auto simp: Scan_width_def Let_def tk CopyAndAdvance_def)
  next
    case star
    then obtain wd arg1 where a: "arg = AInt wd # arg1" "sint wd \<noteq> 0" "\<bar>sint wd\<bar> < 100"
      "neg = (sint wd < 0)" "w = nat \<bar>sint wd\<bar>" "p' = tl p" "arg' = arg1"
      using assms(1) by (auto simp: spec_width_def Let_def bind_Some_iff elim!: va_int.elims split: if_splits)
    have w: "0 < w" "w < 100" using a by auto
    then have "length (decimal w) \<le> 2" using length_decimal [of w 2] by simp
    moreover have "fits_int \<bar>sint wd\<bar>" using a(3) by (simp add: fits_int_def INT_MAX_def)
    ultimately show ?thesis
      using star a w assms(3) hd_decimal [of w] decimal_digits [of w] digits_value_decimal [of w] decimal_ne [of w]
      by (intro exI [of _ "sint wd"] exI [of _ "decimal w"])
        (cases p, auto simp: Scan_width_def Let_def Fmt_number_def show_int_def int_checked_def takeWhile_tail)
  next
    case none
    with assms(1) have "neg = False" "w = 0" "p' = p" "arg' = arg"
      by (auto simp: spec_width_def Let_def)
    with none show ?thesis
      by (intro exI [of _ 0] exI [of _ "[]"])
        (cases p, auto simp: Scan_width_def Let_def takeWhile_tail digits_value_def)
  qed
qed

text \<open>The same for the precision, with its dot.\<close>

definition prec_text :: "nat option \<Rightarrow> byte list \<Rightarrow> bool" where
  "prec_text prec pd \<longleftrightarrow>
     (prec = None \<and> pd = []
      \<or> (\<exists>ds. prec = Some (digits_value ds) \<and> pd = 46 # ds \<and> list_all is_digit ds \<and> length ds \<le> 6))"

lemma digits_value_bound: "list_all is_digit ds \<Longrightarrow> digits_value ds < 10 ^ length ds"
proof (induction ds rule: rev_induct)
  case (snoc c ds)
  then have "unat c - 48 < 10" by (auto simp: is_digit_def word_le_nat_alt)
  with snoc show ?case by (simp add: digits_value_def)
qed (simp add: digits_value_def)

lemma list_all_takeWhile: "list_all P (takeWhile P xs)"
  by (auto simp: list_all_iff dest: set_takeWhileD)

lemma split_class:
  "take (length (takeWhile P xs)) (xs @ ys) = takeWhile P xs"
  "drop (length (takeWhile P xs)) (xs @ ys) = dropWhile P xs @ ys"
  "take (length (takeWhile P xs)) xs = takeWhile P xs"
  "drop (length (takeWhile P xs)) xs = dropWhile P xs"
  by (induction xs) auto

lemma Scan_precision_spec:
  assumes "spec_precision p arg = Some (prec, p', arg')" "length buf \<le> 13"
  shows "\<exists>pd. Scan_precision buf (p @ [0]) arg
      = Some (Some (case_option (-1) int prec, buf @ pd, p' @ [0], arg'))
    \<and> prec_text prec pd \<and> length pd \<le> 7"
proof (cases "p \<noteq> [] \<and> hd p = 46")
  case False
  with assms(1) have "prec = None" "p' = p" "arg' = arg" by (auto simp: spec_precision_def)
  with False show ?thesis
    by (intro exI [of _ "[]"]) (cases p, auto simp: Scan_precision_def prec_text_def)
next
  case True
  then obtain q where p: "p = 46 # q" by (cases p) auto
  have tk: "takeWhile is_digit (q @ [0]) = takeWhile is_digit q" by (simp add: takeWhile_tail)
  consider (digits) "takeWhile is_digit q \<noteq> []" | (star) "takeWhile is_digit q = []" "q \<noteq> []" "hd q = 42"
    | (none) "takeWhile is_digit q = []" "q = [] \<or> hd q \<noteq> 42" by blast
  then show ?thesis
  proof cases
    case digits
    let ?ds = "takeWhile is_digit q"
    from digits assms(1) have d: "length ?ds \<le> 6" "prec = Some (digits_value ?ds)"
      "p' = dropWhile is_digit q" "arg' = arg"
      by (auto simp: p spec_precision_def Let_def split: if_splits)
    then show ?thesis
      using digits assms(2) strtol10_digits [OF refl digits d(1)] length_takeWhile_le [of is_digit q]
      by (intro exI [of _ "46 # ?ds"])
        (auto simp: p Scan_precision_def Let_def tk CopyAndAdvance_def prec_text_def split_class
          intro: list_all_takeWhile)
  next
    case star
    then obtain w arg1 where a: "arg = AInt w # arg1" "0 \<le> sint w" "sint w \<le> 999999"
      "prec = Some (nat (sint w))" "p' = tl q" "arg' = arg1"
      using assms(1) by (auto simp: p spec_precision_def Let_def bind_Some_iff elim!: va_int.elims split: if_splits)
    have l: "length (decimal (nat (sint w))) \<le> 6" using a(3) length_decimal [of "nat (sint w)" 6] by simp
    show ?thesis
      using star a assms(2) l decimal_digits [of "nat (sint w)"] digits_value_decimal [of "nat (sint w)"]
      by (intro exI [of _ "46 # decimal (nat (sint w))"])
        (cases q, auto simp: p Scan_precision_def Let_def Fmt_number_def show_int_def takeWhile_tail
          CopyAndAdvance_def prec_text_def)
  next
    case none
    with assms(1) have "prec = Some 0" "p' = q" "arg' = arg"
      by (auto simp: p spec_precision_def Let_def)
    with none assms(2) show ?thesis
      by (intro exI [of _ "[46]"])
        (cases q, auto simp: p Scan_precision_def Let_def takeWhile_tail CopyAndAdvance_def prec_text_def
          digits_value_def)
  qed
qed

text \<open>The format put together is read as the conversion it stands for.\<close>

definition ops :: string where "ops = ''diuoxXcspfeEgG''"

lemma op_class:
  "is_op ops c \<Longrightarrow> \<not> is_flag c \<and> \<not> is_digit c \<and> c \<noteq> 46 \<and> \<not> is_size c"
  "is_size c \<Longrightarrow> \<not> is_flag c \<and> \<not> is_digit c \<and> c \<noteq> 46"
  by (auto simp: ops_def is_op_def bytes_of_def is_digit_def)

definition size_text :: "byte \<Rightarrow> byte list \<Rightarrow> bool" where
  "size_text sz st \<longleftrightarrow> sz = 32 \<and> st = [] \<or> is_size sz \<and> st = [sz]"

lemma takeWhile_class:
  assumes "list_all P xs" "ys = [] \<or> \<not> P (hd ys)"
  shows "takeWhile P (xs @ ys) = xs" "dropWhile P (xs @ ys) = ys"
  using assms by (induction xs) (auto, (cases ys; simp)+)

lemma parse_conv_text:
  assumes "list_all is_flag fl" "list_all is_digit ds" "ds = [] \<or> hd ds \<noteq> 48" "prec_text prec pd"
    "size_text sz st" "is_op ops op"
  shows "parse_conv (37 # fl @ ds @ pd @ st @ [op])
    = Some \<lparr>conv_flags = fl, conv_width = digits_value ds, conv_precision = prec, conv_size = sz, conv_op = op\<rparr>"
proof -
  note c = op_class(1) [OF assms(6)]
  have st: "takeWhile is_flag (st @ [op]) = []" "takeWhile is_digit (st @ [op]) = []" "hd (st @ [op]) \<noteq> 46"
    "\<not> is_flag (hd (st @ [op]))" "\<not> is_digit (hd (st @ [op]))"
    using assms(5) c op_class(2) [of sz] by (auto simp: size_text_def)
  have pd: "\<not> is_flag (hd (pd @ st @ [op]))" "\<not> is_digit (hd (pd @ st @ [op]))"
    using assms(4) st by (auto simp: prec_text_def)
  have "\<not> is_flag (hd (ds @ pd @ st @ [op]))"
    using assms(2,3) pd digit_not_flag [of "hd ds"] by (cases ds) auto
  then have f: "takeWhile is_flag (fl @ ds @ pd @ st @ [op]) = fl"
    "dropWhile is_flag (fl @ ds @ pd @ st @ [op]) = ds @ pd @ st @ [op]"
    using takeWhile_class [OF assms(1)] by auto
  have d: "takeWhile is_digit (ds @ pd @ st @ [op]) = ds"
    "dropWhile is_digit (ds @ pd @ st @ [op]) = pd @ st @ [op]"
    using takeWhile_class [OF assms(2)] pd(2) by auto
  have p: "takeWhile is_digit (ds @ st @ [op]) = ds" "dropWhile is_digit (ds @ st @ [op]) = st @ [op]"
    if "list_all is_digit ds" for ds
    using takeWhile_class [OF that] st(5) by auto
  have sz: "st = [] \<and> sz = 32 \<or> st = [sz] \<and> is_size sz" using assms(5) by (auto simp: size_text_def)
  show ?thesis
  proof (cases prec)
    case None
    with assms(4) have pd0: "pd = []" by (simp add: prec_text_def)
    have "takeWhile is_flag (fl @ ds @ st @ [op]) = fl" "dropWhile is_flag (fl @ ds @ st @ [op]) = ds @ st @ [op]"
      "takeWhile is_digit (ds @ st @ [op]) = ds" "dropWhile is_digit (ds @ st @ [op]) = st @ [op]"
      using f d unfolding pd0 by simp_all
    with sz c st(3) show ?thesis
      unfolding None pd0 by (elim disjE conjE) (simp_all add: parse_conv_def)
  next
    case (Some n)
    with assms(4) obtain es where pd1: "n = digits_value es" "pd = 46 # es" "list_all is_digit es"
      by (auto simp: prec_text_def)
    have "takeWhile is_flag (fl @ ds @ 46 # es @ st @ [op]) = fl"
      "dropWhile is_flag (fl @ ds @ 46 # es @ st @ [op]) = ds @ 46 # es @ st @ [op]"
      "takeWhile is_digit (ds @ 46 # es @ st @ [op]) = ds"
      "dropWhile is_digit (ds @ 46 # es @ st @ [op]) = 46 # es @ st @ [op]"
      using f d unfolding pd1 by simp_all
    with sz c p [OF pd1(3)] show ?thesis
      unfolding Some pd1 by (elim disjE conjE) (simp_all add: parse_conv_def)
  qed
qed

lemma spec_convE:
  assumes "spec_conv p arg = Some (c, rest, arg')"
  obtains neg w p1 arg1 prec p2 sz p3 where
    "length (takeWhile is_flag p) \<le> 5" "spec_width (dropWhile is_flag p) arg = Some (neg, w, p1, arg1)"
    "spec_precision p1 arg1 = Some (prec, p2, arg')"
    "(if p2 \<noteq> [] \<and> is_size (hd p2) then (hd p2, tl p2) else (32, p2)) = (sz, p3)" "p3 \<noteq> []" "rest = tl p3"
    "c = \<lparr>conv_flags = takeWhile is_flag p @ (if neg then [45] else []), conv_width = w,
      conv_precision = prec, conv_size = sz, conv_op = hd p3\<rparr>"
proof -
  let ?fl = "takeWhile is_flag p" and ?p = "dropWhile is_flag p"
  obtain neg w p1 arg1 where w: "spec_width ?p arg = Some (neg, w, p1, arg1)" and fl: "length ?fl \<le> 5"
    using assms by (cases "spec_width ?p arg") (auto simp: spec_conv_def Let_def bind_Some_iff)
  obtain prec p2 arg2 where pr: "spec_precision p1 arg1 = Some (prec, p2, arg2)"
    using assms w fl by (cases "spec_precision p1 arg1") (auto simp: spec_conv_def Let_def)
  obtain sz p3 where sz: "(if p2 \<noteq> [] \<and> is_size (hd p2) then (hd p2, tl p2) else (32, p2)) = (sz, p3)"
    by (rule prod.exhaust)
  from assms w fl pr have c: "c = \<lparr>conv_flags = ?fl @ (if neg then [45] else []), conv_width = w,
      conv_precision = prec, conv_size = sz, conv_op = hd p3\<rparr>" "arg2 = arg'"
    and p3: "p3 \<noteq> []" "rest = tl p3"
    by (simp_all add: spec_conv_def Let_def sz bind_Some_iff split del: if_split)
  from that [OF fl w pr [unfolded c(2)] sz p3 c(1)] show thesis .
qed

lemma Slow_scan_spec:
  assumes "spec_conv p arg = Some (c, rest, arg')" "is_op ops (conv_op c)"
  shows "\<exists>mw fmtBuff. Slow_scan (37 # p @ [0]) arg
      = Some (Some ((mw, case_option (-1) int (conv_precision c), conv_size c, conv_op c, fmtBuff,
          length p + 1 - length rest), arg'))
    \<and> parse_conv fmtBuff = Some c \<and> mw \<le> int (conv_width c) \<and> conv_width c < 100"
proof -
  let ?fl = "takeWhile is_flag p" and ?p = "dropWhile is_flag p"
  from assms(1) obtain neg w p1 arg1 prec p2 sz p3 where fl: "length ?fl \<le> 5"
    and w: "spec_width ?p arg = Some (neg, w, p1, arg1)"
    and pr: "spec_precision p1 arg1 = Some (prec, p2, arg')"
    and sz: "(if p2 \<noteq> [] \<and> is_size (hd p2) then (hd p2, tl p2) else (32, p2)) = (sz, p3)"
    and p3: "p3 \<noteq> []" "rest = tl p3"
    and c: "c = \<lparr>conv_flags = ?fl @ (if neg then [45] else []), conv_width = w, conv_precision = prec,
      conv_size = sz, conv_op = hd p3\<rparr>" by (rule spec_convE)
  have "?p = [] \<or> \<not> is_flag (hd ?p)" using hd_dropWhile [of is_flag p] by blast
  from Scan_width_spec [OF w this, of "37 # ?fl"] fl obtain mw ds where
    W: "Scan_width (37 # ?fl) (?p @ [0]) arg
        = Some (Some (mw, (37 # ?fl) @ (if neg then [45] else []) @ ds, p1 @ [0], arg1))"
    and mw: "mw \<le> int w" "w < 100" "list_all is_digit ds" "digits_value ds = w"
      "ds = [] \<or> hd ds \<noteq> 48" "length ds \<le> 6" by auto
  let ?buf = "37 # ?fl @ (if neg then [45] else []) @ ds"
  have lb: "length ?buf \<le> 13" using fl mw(6) by auto
  from Scan_precision_spec [OF pr lb] obtain pd where
    P: "Scan_precision ?buf (p1 @ [0]) arg1
      = Some (Some (case_option (-1) int prec, ?buf @ pd, p2 @ [0], arg'))"
    and pd: "prec_text prec pd" "length pd \<le> 7" by auto
  define st where "st = (if p2 \<noteq> [] \<and> is_size (hd p2) then [hd p2] else [])"
  have st: "size_text sz st" "p2 = st @ p3" "length st \<le> 1"
    using sz by (cases p2; auto simp: st_def size_text_def split: if_splits)+
  obtain op q where p3': "p3 = op # q" using p3(1) by (cases p3) auto
  then have op: "is_op ops op" "rest = q" "conv_op c = op" using assms(2) p3(2) by (simp_all add: c)
  let ?bp = "37 # ?fl @ (if neg then [45] else []) @ ds @ pd"
  have S: "(do { s \<leftarrow> deref (p2 @ [0]) 0;
         (if is_size s then do { (fmtBuff, p) \<leftarrow> CopyAndAdvance ?bp (p2 @ [0]) 1; Some (s, fmtBuff, p) }
          else Some (32, ?bp, p2 @ [0])) }) = Some (sz, ?buf @ pd @ st, p3 @ [0])"
    using st(1) fl mw(6) pd(2) op_class(1) [OF op(1)]
    by (auto simp: size_text_def st(2) p3' CopyAndAdvance_def)
  have C: "CopyAndAdvance (?buf @ pd @ st) (p3 @ [0]) 1 = Some (?buf @ pd @ st @ [op], q @ [0])"
    using fl mw(6) pd(2) st(3) by (simp add: p3' CopyAndAdvance_def)
  have F: "CopyAndAdvance [37] (p @ [0]) (length ?fl) = Some (37 # ?fl, ?p @ [0])"
    using fl length_takeWhile_le [of is_flag p] by (simp add: CopyAndAdvance_def split_class)
  have tk: "takeWhile is_flag (p @ [0]) = ?fl" by (simp add: takeWhile_tail)
  have ln: "length ?buf + length pd + length st < 24" using fl mw(6) pd(2) st(3) by auto
  have "list_all is_flag (?fl @ (if neg then [45] else []))" by (simp add: list_all_takeWhile)
  from parse_conv_text [OF this mw(3,5) pd(1) st(1) op(1)] have
    "parse_conv (?buf @ pd @ st @ [op]) = Some c"
    using op(3) mw(4) by (simp add: c)
  moreover have "Slow_scan (37 # p @ [0]) arg
    = Some (Some ((mw, case_option (-1) int prec, sz, op, ?buf @ pd @ st @ [op], length p + 1 - length q), arg'))"
    using fl W P S C ln
    by (simp add: Slow_scan_def tk F proceed_def Let_def bind_assoc [symmetric] p3' del: bind_assoc split del: if_split)
  ultimately show ?thesis using mw(1,2) op(2,3) by (auto simp: c)
qed

section \<open>The output of a conversion fits its buffer\<close>

text \<open>
  What the parameters promise: a floating-point number is printed with at most a sign, a point, the digits
  of the precision, an exponent of four digits with its letter and sign, and for \<open>f\<close> the digits before
  the point of a number below two to the exponent that \<open>frexp\<close> returns; a pointer with at most 20
  characters; and both are padded to the width.
\<close>

definition prints_within :: "'d libc \<Rightarrow> bool" where
  "prints_within L \<longleftrightarrow>
     (\<forall>c d. length (fmt_double L c d) \<le> max (conv_width c)
        (case_option 6 id (conv_precision c) + 9
          + (if is_op ''f'' (conv_op c) \<and> 0 < frexp_exp L d then nat (frexp_exp L d div 3) else 0)))
     \<and> (\<forall>c x. length (fmt_pointer L c x) \<le> max (conv_width c) 20)"

lemma length_numeral_in: "1 < b \<Longrightarrow> n < b ^ k \<Longrightarrow> 0 < k \<Longrightarrow> length (numeral_in b u n) \<le> k"
proof (induction k arbitrary: n)
  case (Suc k)
  show ?case
  proof (cases "n < b")
    case False
    then have "n div b < b ^ k" using Suc.prems by (simp add: less_mult_imp_div_less mult.commute)
    moreover have "0 < k" using Suc.prems False by (auto intro!: Nat.gr0I)
    ultimately show ?thesis using Suc.IH [of "n div b"] False Suc.prems(1) by (simp add: numeral_in.simps [of b u n])
  qed (simp add: numeral_in.simps)
qed simp

lemma length_pad_field [simp]: "length (pad_field l z w pre body) = max w (length pre + length body)"
  by (auto simp: pad_field_def Let_def max_def)

lemma int_arg_bound:
  assumes "int_arg c a = Some i" shows "nat \<bar>i\<bar> < 2 ^ 64"
proof -
  have u: "uint (w :: 32 word) < 2 ^ 64" "uint (w' :: 64 word) < 2 ^ 64" "uint (h :: 16 word) < 2 ^ 64" for w w' h
    using uint_bounded [of w] uint_bounded [of w'] uint_bounded [of h] by simp_all
  have s: "\<bar>sint (w :: 32 word)\<bar> < 2 ^ 64" "\<bar>sint (w' :: 64 word)\<bar> < 2 ^ 64" "\<bar>sint (h :: 16 word)\<bar> < 2 ^ 64" for w w' h
    using sint_range_size [of w] sint_range_size [of w'] sint_range_size [of h]
    by (auto simp: word_size abs_less_iff)
  have "\<bar>i\<bar> < 2 ^ 64"
    using assms u s by (auto simp: int_arg_def Let_def split: varg.splits if_splits)
  then show ?thesis by simp
qed

lemma length_int_digits:
  assumes "n < 2 ^ 64"
  shows "length (int_digits c n) \<le> max 22 (case_option 0 id (conv_precision c)) + 1"
proof -
  let ?base = "if is_op ''o'' (conv_op c) then 8 else if is_op ''xX'' (conv_op c) then 16 else 10 :: nat"
  define ds where "ds = (if n = 0 \<and> conv_precision c = Some 0 then []
    else numeral_in ?base (is_op ''X'' (conv_op c)) n)"
  define es where "es = replicate (case_option 1 id (conv_precision c) - length ds) (48 :: byte) @ ds"
  have "length (numeral_in ?base u n) \<le> 22" for u
    by (rule length_numeral_in) (use assms in auto)
  then have "length ds \<le> 22" by (simp add: ds_def)
  then have "length es \<le> max 22 (case_option 0 id (conv_precision c))"
    by (cases "conv_precision c") (auto simp: es_def)
  moreover have "length (int_digits c n) \<le> length es + 1"
    unfolding int_digits_def Let_def ds_def [symmetric] es_def [symmetric] by simp
  ultimately show ?thesis by linarith
qed

lemma render_int_length:
  assumes "render_int c i = Some bs" "nat \<bar>i\<bar> < 2 ^ 64"
  shows "length bs \<le> max (conv_width c) (max 22 (case_option 0 id (conv_precision c)) + 3)"
proof -
  have "length (int_prefix c i) \<le> 2" by (auto simp: int_prefix_def)
  with assms(1) length_int_digits [OF assms(2), of c] show ?thesis
    by (auto simp: render_int_def split: if_splits)
qed

lemma length_str_upto: "str_upto p m = Some s \<Longrightarrow> length s \<le> p"
  using length_takeWhile_le [of "\<lambda>b. b \<noteq> 0" "take p m"]
  by (auto simp: str_upto_def c_str_def Let_def split: if_splits)

lemma Slow_buffer_size:
  assumes "Slow_buffer r mw aux = (buffLen, aux')"
  shows "PRINTF_BUFFLEN \<le> buffLen" "r + 10 \<le> buffLen"
  using assms by (auto simp: Slow_buffer_def Let_def split: if_splits option.splits)

lemma ucast_scast_16 [simp]: "ucast (scast (h :: 16 word) :: 32 word) = h" "ucast (ucast h :: 32 word) = h"
  by (rule bit_word_eqI; simp add: bit_simps)+

text \<open>The argument of an integer conversion is read and printed as the standard says.\<close>

lemma Perform_int_spec:
  assumes "int_arg c a = Some i" "render_int c i = Some bs" "0 \<notin> set bs" "is_op ''diuoxX'' (conv_op c)"
    "parse_conv fmtBuff = Some c" "int (length bs) < buffLen"
  shows "Perform_int L (conv_size c) (conv_op c) buffLen fmtBuff (a # arg) m
    = Some (Some (Performed bs buffLen arg m))"
proof -
  have n: "length bs < nat buffLen" using assms(6) by simp
  have r: "int_arg c a' = Some i \<Longrightarrow> sprintf_to L (nat buffLen) fmtBuff a' = Some bs" for a'
    using assms(2-5) n by (simp add: sprintf_to_def c_sprintf_def render_def)
  have h: "is_op ''h'' (conv_size c) \<Longrightarrow> \<not> is_op '' '' (conv_size c)"
    "is_op ''l'' (conv_size c) \<Longrightarrow> \<not> is_op '' '' (conv_size c) \<and> \<not> is_op ''h'' (conv_size c)"
    by (auto simp: is_op_def bytes_of_def)
  from assms(1) consider w where "a = AInt w" "is_op '' '' (conv_size c)"
    | w where "a = AInt w" "is_op ''h'' (conv_size c)" "\<not> is_op '' '' (conv_size c)"
    | w where "a = ALong w" "is_op ''l'' (conv_size c)"
    by (auto simp: int_arg_def Let_def split: varg.splits if_splits)
  then show ?thesis
  proof cases
    case 1
    then show ?thesis using r [OF assms(1)] by (simp add: Perform_int_def Perform_sprintf_def)
  next
    case 3
    then show ?thesis using r [OF assms(1)] h by (simp add: Perform_int_def Perform_sprintf_def)
  next
    case 2
    let ?a = "AInt (if is_op ''di'' (conv_op c) then scast (ucast w :: 16 word) else ucast (ucast w :: 16 word))"
    have "int_arg c ?a = Some i" using 2 assms(1) by (simp add: int_arg_def Let_def split: if_splits)
    from r [OF this] show ?thesis using 2 h by (auto simp: Perform_int_def Perform_sprintf_def)
  qed
qed

text \<open>
  The conversions whose argument is read in the switch, on both paths; \<open>s\<close> and \<open>f\<close> on the slow path get
  it from \<open>Slow_bound\<close>.
\<close>

lemma sprintf_to_render:
  "parse_conv fmtBuff = Some c \<Longrightarrow> render L c a = Some bs \<Longrightarrow> 0 \<notin> set bs \<Longrightarrow> int (length bs) < buffLen
    \<Longrightarrow> sprintf_to L (nat buffLen) fmtBuff a = Some bs"
  by (simp add: sprintf_to_def c_sprintf_def)

lemma is_op_cases:
  "is_op ''diuoxXcpeEgG'' op \<Longrightarrow> is_op ''diuoxX'' op \<or> op = 99 \<or> op = 112 \<or> op = 101 \<or> op = 69 \<or> op = 103 \<or> op = 71"
  "is_op ops op \<Longrightarrow> is_op ''diuoxXcpeEgG'' op \<or> op = 115 \<or> op = 102"
  "is_op '' '' sz \<longleftrightarrow> sz = 32" "is_op ''L'' sz \<longleftrightarrow> sz = 76"
  by (auto simp: is_op_def bytes_of_def ops_def)

lemma Perform_common:
  assumes "render L c a = Some bs" "0 \<notin> set bs" "is_op ''diuoxXcpeEgG'' (conv_op c)"
    "parse_conv fmtBuff = Some c" "int (length bs) < buffLen"
  shows "Perform L fast (conv_op c) (conv_size c) fmtBuff buffLen saved (a # arg) m n
    = Some (Some (Performed bs buffLen arg m))"
proof -
  note sp = sprintf_to_render [OF assms(4,1,2,5)]
  from is_op_cases(1) [OF assms(3)] show ?thesis
  proof
    assume i: "is_op ''diuoxX'' (conv_op c)"
    with assms(1) obtain x where "int_arg c a = Some x" "render_int c x = Some bs"
      by (auto simp: render_def Let_def bind_Some_iff)
    from Perform_int_spec [OF this assms(2) i assms(4,5)] i show ?thesis by (simp add: Perform_def)
  next
    assume "conv_op c = 99 \<or> conv_op c = 112 \<or> conv_op c = 101 \<or> conv_op c = 69 \<or> conv_op c = 103 \<or> conv_op c = 71"
    then show ?thesis
      using assms(1) sp
      by (elim disjE; cases a)
        (auto simp: Perform_def Perform_sprintf_def render_def Let_def is_op_def bytes_of_def split: if_splits)
  qed
qed

text \<open>The bound computed for the slow path covers the output, and the width alone stays below 100.\<close>

lemma render_common_length:
  assumes "prints_within L" "render L c a = Some bs" "is_op ''diuoxXcpeEgG'' (conv_op c)"
  shows "length bs \<le> max (conv_width c) (max 22 (case_option 6 id (conv_precision c)) + 9)"
proof -
  from is_op_cases(1) [OF assms(3)] show ?thesis
  proof
    assume "is_op ''diuoxX'' (conv_op c)"
    with assms(2) obtain x where x: "int_arg c a = Some x" "render_int c x = Some bs"
      by (auto simp: render_def Let_def bind_Some_iff)
    from render_int_length [OF x(2) int_arg_bound [OF x(1)]] show ?thesis
      by (auto split: option.splits)
  next
    assume "conv_op c = 99 \<or> conv_op c = 112 \<or> conv_op c = 101 \<or> conv_op c = 69 \<or> conv_op c = 103 \<or> conv_op c = 71"
    then consider (c) "conv_op c = 99" | (p) "conv_op c = 112"
      | (e) "conv_op c \<in> {101, 69, 103, 71}" by blast
    then show ?thesis
    proof cases
      case c
      then show ?thesis using assms(2)
        by (cases a) (auto simp: render_def Let_def is_op_def bytes_of_def split: if_splits)
    next
      case p
      then obtain x where "bs = fmt_pointer L c x" using assms(2)
        by (cases a) (auto simp: render_def Let_def is_op_def bytes_of_def split: if_splits)
      with assms(1) [unfolded prints_within_def, THEN conjunct2, rule_format, of c x] show ?thesis by auto
    next
      case e
      then have "\<not> is_op ''f'' (conv_op c)" by (auto simp: is_op_def bytes_of_def)
      moreover obtain d where "bs = fmt_double L c d" using assms(2) e
        by (cases a) (auto simp: render_def Let_def is_op_def bytes_of_def split: if_splits)
      ultimately show ?thesis
        using assms(1) [unfolded prints_within_def, THEN conjunct1, rule_format, of c d] by auto
    qed
  qed
qed

lemma Slow_bound_common:
  assumes "prints_within L" "render L c a = Some bs" "is_op ''diuoxXcpeEgG'' (conv_op c)" "conv_width c < 100"
  shows "\<exists>r. Slow_bound L (conv_size c) (conv_op c) (case_option (-1) int (conv_precision c)) arg
    = Some (Some (r, None, arg)) \<and> int (length bs) < max 100 (r + 10)"
proof -
  have "Slow_bound L (conv_size c) (conv_op c) (case_option (-1) int (conv_precision c)) arg
      = Some (Some (if is_op ''diuoxXcp'' (conv_op c) then max (case_option (-1) int (conv_precision c)) 46
          else int (case_option 6 id (conv_precision c)) + 8, None, arg))"
    using assms(3) by (auto simp: Slow_bound_def is_op_def bytes_of_def split: option.splits)
  with render_common_length [OF assms(1-3)] assms(4) show ?thesis
    by (auto split: option.splits)
qed

lemma Slow_bound_s:
  assumes "render L c a = Some bs" "conv_op c = 115" "conv_width c < 100"
  shows "\<exists>r. Slow_bound L (conv_size c) (conv_op c) (case_option (-1) int (conv_precision c)) (a # arg)
    = Some (Some (r, Some a, arg)) \<and> int (length bs) < max 100 (r + 10)"
proof -
  from assms(1,2) obtain b where a: "a = AStr (Some b)" "render_str c b = Some bs"
    by (cases a) (auto simp: render_def Let_def is_op_def bytes_of_def split: option.splits if_splits)
  show ?thesis
  proof (cases "conv_precision c")
    case None
    with a obtain n where "strlen b = Some n" "length bs \<le> max (conv_width c) n"
      by (auto simp: render_str_def bind_Some_iff)
    with assms(2,3) a None show ?thesis by (auto simp: Slow_bound_def is_op_def bytes_of_def)
  next
    case (Some p)
    with a obtain s where "str_upto p b = Some s" "length bs = max (conv_width c) (length s)"
      by (auto simp: render_str_def bind_Some_iff)
    with assms(2,3) a Some show ?thesis by (auto simp: Slow_bound_def is_op_def bytes_of_def)
  qed
qed

lemma Slow_bound_f:
  assumes "prints_within L" "render L c a = Some bs" "conv_op c = 102" "conv_width c < 100"
  shows "\<exists>r. Slow_bound L (conv_size c) (conv_op c) (case_option (-1) int (conv_precision c)) (a # arg)
    = Some (Some (r, Some a, arg)) \<and> int (length bs) < max 100 (r + 10)"
proof -
  from assms(2,3) obtain d where d: "bs = fmt_double L c d"
    "a = ADouble d \<and> is_op '' '' (conv_size c) \<or> a = ALongDouble d \<and> is_op ''L'' (conv_size c)"
    by (cases a) (auto simp: render_def Let_def is_op_def bytes_of_def split: if_splits)
  have f: "is_op ''f'' (conv_op c)" using assms(3) by (simp add: is_op_def bytes_of_def)
  let ?r = "int (case_option 6 id (conv_precision c)) + 3
    + (if frexp_exp L d > 0 then frexp_exp L d div 3 else 0)"
  have "Slow_bound L (conv_size c) (conv_op c) (case_option (-1) int (conv_precision c)) (a # arg)
    = Some (Some (?r, Some a, arg))"
    using d(2) assms(3) by (auto simp: Slow_bound_def is_op_def bytes_of_def Let_def split: option.splits)
  moreover have "length bs \<le> max (conv_width c) (case_option 6 id (conv_precision c) + 9
      + (if 0 < frexp_exp L d then nat (frexp_exp L d div 3) else 0))"
    using assms(1) [unfolded prints_within_def, THEN conjunct1, rule_format, of c d] f by (simp add: d(1))
  ultimately show ?thesis using assms(4) by (intro exI [of _ ?r]) (auto split: if_splits)
qed

section \<open>One conversion\<close>

lemma render_ops: "render L c a = Some bs \<Longrightarrow> is_op ops (conv_op c)"
  by (auto simp: render_def Let_def ops_def is_op_def bytes_of_def split: if_splits)

lemma Convert_slow_spec:
  assumes "prints_within L" "spec_conv p arg = Some (c, rest, a # arg')" "render L c a = Some bs" "0 \<notin> set bs"
  shows "\<exists>buffLen aux'. Convert_slow L (37 # p @ [0]) arg m n aux
      = Some (Some (bs, buffLen, arg', m, aux', length p + 1 - length rest)) \<and> int (length bs) < buffLen"
proof -
  note op = render_ops [OF assms(3)]
  from Slow_scan_spec [OF assms(2) op] obtain mw fmtBuff where
    scan: "Slow_scan (37 # p @ [0]) arg = Some (Some ((mw, case_option (-1) int (conv_precision c),
      conv_size c, conv_op c, fmtBuff, length p + 1 - length rest), a # arg'))"
    and fmt: "parse_conv fmtBuff = Some c" and w: "conv_width c < 100" by blast
  have "\<exists>r saved rest_arg. Slow_bound L (conv_size c) (conv_op c) (case_option (-1) int (conv_precision c)) (a # arg')
        = Some (Some (r, saved, rest_arg)) \<and> int (length bs) < max 100 (r + 10)
      \<and> (\<forall>buffLen. int (length bs) < buffLen \<longrightarrow>
          Perform L False (conv_op c) (conv_size c) fmtBuff buffLen saved rest_arg m n
            = Some (Some (Performed bs buffLen arg' m)))"
    using is_op_cases(2) [OF op]
  proof (elim disjE)
    assume "is_op ''diuoxXcpeEgG'' (conv_op c)"
    with Slow_bound_common [OF assms(1,3) this w] Perform_common [OF assms(3,4) this fmt] show ?thesis
      by blast
  next
    assume o: "conv_op c = 115"
    then obtain b where "a = AStr (Some b)" "is_op '' '' (conv_size c)" using assms(3)
      by (cases a) (auto simp: render_def Let_def is_op_def bytes_of_def split: option.splits if_splits)
    with o have "Perform L False (conv_op c) (conv_size c) fmtBuff buffLen (Some a) arg' m n
        = Some (Some (Performed bs buffLen arg' m))" if "int (length bs) < buffLen" for buffLen
      using sprintf_to_render [OF fmt assms(3,4) that]
      by (simp add: Perform_def Perform_str_def Perform_sprintf_def is_op_def bytes_of_def)
    with Slow_bound_s [OF assms(3) o w] show ?thesis by blast
  next
    assume o: "conv_op c = 102"
    then have "is_op '' L'' (conv_size c)" using assms(3)
      by (cases a) (auto simp: render_def Let_def is_op_def bytes_of_def split: if_splits)
    with o have "Perform L False (conv_op c) (conv_size c) fmtBuff buffLen (Some a) arg' m n
        = Some (Some (Performed bs buffLen arg' m))" if "int (length bs) < buffLen" for buffLen
      using sprintf_to_render [OF fmt assms(3,4) that]
      by (simp add: Perform_def Perform_sprintf_def is_op_def bytes_of_def)
    with Slow_bound_f [OF assms(1,3) o w] show ?thesis by blast
  qed
  then obtain r saved rest_arg where
    bound: "Slow_bound L (conv_size c) (conv_op c) (case_option (-1) int (conv_precision c)) (a # arg')
        = Some (Some (r, saved, rest_arg))" "int (length bs) < max 100 (r + 10)"
    and perf: "\<And>buffLen. int (length bs) < buffLen \<Longrightarrow>
      Perform L False (conv_op c) (conv_size c) fmtBuff buffLen saved rest_arg m n
        = Some (Some (Performed bs buffLen arg' m))" by blast
  obtain buffLen aux' where b: "Slow_buffer r mw aux = (buffLen, aux')" by (rule prod.exhaust)
  from Slow_buffer_size [OF b] bound(2) have "int (length bs) < buffLen" by linarith
  with scan bound(1) b perf show ?thesis by (simp add: Convert_slow_def proceed_def)
qed

text \<open>
  The first character decides: a flag, a digit, a star or a dot is left to the slow path, any other is
  the size or the operation, and the conversion is plain.
\<close>

definition special :: "byte \<Rightarrow> bool" where
  "special c \<longleftrightarrow> is_flag c \<or> is_digit c \<or> c = 42 \<or> c = 46"

lemma Perform_special:
  "special c \<Longrightarrow> \<not> is_size c" "special c \<Longrightarrow> Perform L True c 32 fmtBuff buffLen saved arg m n = Some (Some Not_performed)"
  by (auto simp: special_def Perform_def is_op_def bytes_of_def is_digit_def)

lemma spec_conv_special:
  assumes "spec_conv (h # q) arg = Some (c, rest, arg')" "special h"
  shows "c \<noteq> plain (conv_size c) (conv_op c)"
proof -
  have mono: "n \<le> foldl (\<lambda>n c. 10 * n + (unat c - 48)) n ds" for n and ds :: "byte list"
  proof (induction ds arbitrary: n)
    case (Cons b ds)
    have "n \<le> 10 * n + (unat b - 48)" by simp
    also note Cons.IH
    finally show ?case by simp
  qed simp
  have d: "0 < digits_value (h # ds)" if "is_digit h" "h \<noteq> 48" for ds
  proof -
    have "48 \<le> unat h" using that(1) by (simp add: is_digit_def word_le_nat_alt)
    moreover have "unat h \<noteq> 48" using that(2) by (simp add: word_unat_eq_iff)
    ultimately show ?thesis using mono [of "unat h - 48" ds] by (auto simp: digits_value_def)
  qed
  show ?thesis
  proof
    assume pl: "c = plain (conv_size c) (conv_op c)"
    from assms(1) obtain neg w p1 arg1 prec p2 sz p3 where
      w: "spec_width (dropWhile is_flag (h # q)) arg = Some (neg, w, p1, arg1)"
      and pr: "spec_precision p1 arg1 = Some (prec, p2, arg')"
      and c: "c = \<lparr>conv_flags = takeWhile is_flag (h # q) @ (if neg then [45] else []), conv_width = w,
        conv_precision = prec, conv_size = sz, conv_op = hd p3\<rparr>" by (rule spec_convE)
    from pl c have n: "takeWhile is_flag (h # q) = []" "w = 0" "prec = None" by (auto simp: plain_def)
    then have h: "\<not> is_flag h" "h \<noteq> 48" by (auto simp: is_op_def bytes_of_def split: if_splits)
    show False
    proof (cases "is_digit h \<or> h = 42")
      case True
      with w h n(2) d [of "takeWhile is_digit q"] show False
        by (auto simp: spec_width_def Let_def bind_Some_iff split: if_splits)
    next
      case False
      with w h have "p1 = h # q" by (auto simp: spec_width_def Let_def)
      with pr n(3) False h assms(2) show False
        by (auto simp: spec_precision_def Let_def bind_Some_iff special_def split: if_splits)
    qed
  qed
qed

lemma spec_conv_plain:
  assumes "spec_conv (h # q) arg = Some (c, rest, arg')" "\<not> special h"
  shows "arg' = arg" "c = plain (conv_size c) (conv_op c)"
    "\<exists>st. size_text (conv_size c) st \<and> h # q = st @ conv_op c # rest"
proof -
  from assms(1) obtain neg w p1 arg1 prec p2 sz p3 where
    w: "spec_width (dropWhile is_flag (h # q)) arg = Some (neg, w, p1, arg1)"
    and pr: "spec_precision p1 arg1 = Some (prec, p2, arg')"
    and sz: "(if p2 \<noteq> [] \<and> is_size (hd p2) then (hd p2, tl p2) else (32, p2)) = (sz, p3)"
    and p3: "p3 \<noteq> []" "rest = tl p3"
    and c: "c = \<lparr>conv_flags = takeWhile is_flag (h # q) @ (if neg then [45] else []), conv_width = w,
      conv_precision = prec, conv_size = sz, conv_op = hd p3\<rparr>" by (rule spec_convE)
  from assms(2) have h: "\<not> is_flag h" "\<not> is_digit h" "h \<noteq> 42" "h \<noteq> 46" by (auto simp: special_def)
  with w have 1: "neg = False" "w = 0" "p1 = h # q" "arg1 = arg" by (auto simp: spec_width_def Let_def)
  with pr h have 2: "prec = None" "p2 = h # q" "arg' = arg" by (auto simp: spec_precision_def)
  with c 1 h show "arg' = arg" "c = plain (conv_size c) (conv_op c)" by (auto simp: plain_def)
  show "\<exists>st. size_text (conv_size c) st \<and> h # q = st @ conv_op c # rest"
    using sz p3 unfolding 2 by (cases p3) (auto simp: c size_text_def split: if_splits)
qed

text \<open>A plain conversion on the optimistic path.\<close>

lemma Fast_scan_plain:
  assumes "spec_conv (h # q) arg = Some (c, rest, arg')" "\<not> special h"
  shows "\<exists>fmtBuff. Fast_scan (37 # (h # q) @ [0])
      = Some (conv_op c, conv_size c, fmtBuff, length (h # q) + 1 - length rest)
    \<and> (is_op ops (conv_op c) \<longrightarrow> parse_conv fmtBuff = Some c) \<and> (conv_size c = 32 \<longrightarrow> \<not> is_size (conv_op c))"
proof -
  from spec_conv_plain [OF assms] obtain st where st: "size_text (conv_size c) st" "h # q = st @ conv_op c # rest"
    and c: "c = plain (conv_size c) (conv_op c)" by auto
  have sz: "st = [] \<Longrightarrow> \<not> is_size (conv_op c)"
  proof -
    assume "st = []"
    with st have "h = conv_op c" "q = rest" "conv_size c = 32" by (auto simp: size_text_def is_op_def bytes_of_def)
    moreover from assms(1) obtain neg w p1 arg1 prec p2 sz p3 where
      "spec_width (dropWhile is_flag (h # q)) arg = Some (neg, w, p1, arg1)"
      "spec_precision p1 arg1 = Some (prec, p2, arg')"
      "(if p2 \<noteq> [] \<and> is_size (hd p2) then (hd p2, tl p2) else (32, p2)) = (sz, p3)" "rest = tl p3"
      "c = \<lparr>conv_flags = takeWhile is_flag (h # q) @ (if neg then [45] else []), conv_width = w,
        conv_precision = prec, conv_size = sz, conv_op = hd p3\<rparr>" by (rule spec_convE)
    ultimately show ?thesis
      using assms(2) by (auto simp: special_def spec_width_def spec_precision_def Let_def is_op_def bytes_of_def split: if_splits)
  qed
  have pc: "parse_conv (37 # st @ [conv_op c]) = Some c" if "is_op ops (conv_op c)"
    using parse_conv_text [of "[]" "[]" None "[]" "conv_size c" st "conv_op c"] st(1) that
      c [unfolded plain_def] by (simp add: prec_text_def digits_value_def)
  show ?thesis
    using st sz pc by (intro exI [of _ "37 # st @ [conv_op c]"])
      (cases st, auto simp: Fast_scan_def size_text_def is_op_def bytes_of_def)
qed

definition piece_done :: "piece \<Rightarrow> int \<Rightarrow> cells \<Rightarrow> byte list \<Rightarrow> cells \<Rightarrow> bool" where
  "piece_done pc n m bs m' \<longleftrightarrow>
     (case pc of
        Text t \<Rightarrow> bs = t \<and> m' = m
      | Count x short \<Rightarrow> bs = [] \<and> m' = m(x := if short then sint (word_of_int n :: 16 word) else n))"

lemma Perform_count_spec:
  assumes "spec_count sz arg = Some (pc, arg')" "0 \<le> n" "n < INT_MAX"
  shows "\<exists>m'. Perform_count sz buffLen arg m n = Some (Some (Performed [] buffLen arg' m'))
    \<and> piece_done pc n m [] m'"
  using assms(1,2) assms(3) [unfolded INT_MAX_def]
  by (induction sz arg rule: spec_count.induct)
    (auto simp: Perform_count_def piece_done_def fits_int_def INT_MAX_def split: if_splits)

lemma Convert_text:
  assumes "prints_within L" "spec_conv p arg = Some (c, rest, a # arg')" "render L c a = Some bs" "0 \<notin> set bs"
  shows "\<exists>buffLen aux'. Convert L (37 # p @ [0]) arg m n aux
      = Some (Some (bs, buffLen, arg', m, aux', length p + 1 - length rest)) \<and> int (length bs) < buffLen"
proof -
  note op = render_ops [OF assms(3)]
  note slow = Convert_slow_spec [OF assms]
  obtain h q where p: "p = h # q" using spec_conv_shorter [OF assms(2)] by (cases p) auto
  show ?thesis
  proof (cases "special h")
    case True
    then have "Fast_scan (37 # p @ [0]) = Some (h, 32, [37, h], 2)"
      using Perform_special(1) by (simp add: p Fast_scan_def)
    with slow True show ?thesis by (simp add: Convert_def proceed_def Perform_special(2))
  next
    case False
    from Fast_scan_plain [OF assms(2) [unfolded p] False] op obtain fmtBuff where
      scan: "Fast_scan (37 # p @ [0]) = Some (conv_op c, conv_size c, fmtBuff, length p + 1 - length rest)"
      and fmt: "parse_conv fmtBuff = Some c" by (auto simp: p)
    from spec_conv_plain [OF assms(2) [unfolded p] False] have arg: "arg = a # arg'"
      and c: "conv_flags c = []" "conv_width c = 0" "conv_precision c = None"
      by (auto simp: plain_def) (metis conv.select_convs)+
    show ?thesis
      using is_op_cases(2) [OF op]
    proof (elim disjE)
      assume o: "is_op ''diuoxXcpeEgG'' (conv_op c)"
      from render_common_length [OF assms(1,3) o] have "length bs < 100" by (simp add: c)
      with Perform_common [OF assms(3,4) o fmt, of 100] scan show ?thesis
        by (simp add: Convert_def proceed_def arg)
    next
      assume o: "conv_op c = 115"
      then obtain b where a: "a = AStr (Some b)" "is_op '' '' (conv_size c)" "render_str c b = Some bs" using assms(3)
        by (cases a) (auto simp: render_def Let_def is_op_def bytes_of_def split: option.splits if_splits)
      then obtain k where "strlen b = Some k" "bs = take k b"
        by (auto simp: render_str_def c bind_Some_iff pad_field_def)
      then show ?thesis using o a scan
        by (simp add: Convert_def proceed_def arg Perform_def Perform_str_def is_op_def bytes_of_def)
    next
      assume "conv_op c = 102"
      with slow scan show ?thesis
        by (simp add: Convert_def proceed_def Perform_def is_op_def bytes_of_def)
    qed
  qed
qed

lemma Convert_spec:
  assumes "prints_within L" "spec_conv p arg = Some (c, rest, arg1)" "spec_piece L c arg1 = Some (pc, arg2)"
    "0 \<le> n" "n < INT_MAX"
  shows "\<exists>bs buffLen m' aux'. Convert L (37 # p @ [0]) arg m n aux
      = Some (Some (bs, buffLen, arg2, m', aux', length p + 1 - length rest))
    \<and> int (length bs) < buffLen \<and> piece_done pc n m bs m'"
proof -
  obtain h q where p: "p = h # q" using spec_conv_shorter [OF assms(2)] by (cases p) auto
  have plain: "\<exists>fmtBuff. Fast_scan (37 # p @ [0])
      = Some (conv_op c, conv_size c, fmtBuff, length p + 1 - length rest)" "arg1 = arg"
    if "c = plain (conv_size c) (conv_op c)"
    using Fast_scan_plain [OF assms(2) [unfolded p]] spec_conv_plain [OF assms(2) [unfolded p]]
      spec_conv_special [OF assms(2) [unfolded p]] that unfolding p by blast+
  consider (percent) "is_op ''%'' (conv_op c)" | (count) "is_op ''n'' (conv_op c)"
    | (out) "\<not> is_op ''%'' (conv_op c)" "\<not> is_op ''n'' (conv_op c)" by blast
  then show ?thesis
  proof cases
    case percent
    with assms(3) have c: "c = plain 32 37" "pc = Text [37]" "arg2 = arg1"
      by (auto simp: spec_piece_def split: if_splits)
    from plain [unfolded c, OF _] c obtain fmtBuff where
      "Fast_scan (37 # p @ [0]) = Some (37, 32, fmtBuff, length p + 1 - length rest)" "arg1 = arg"
      by (auto simp: plain_def)
    with c show ?thesis
      by (simp add: Convert_def proceed_def Perform_def is_op_def bytes_of_def piece_done_def)
  next
    case count
    then have o: "conv_op c = 110" "\<not> is_op ''%'' (conv_op c)" by (auto simp: is_op_def bytes_of_def)
    with count assms(3) have c: "c = plain (conv_size c) (conv_op c)"
      "spec_count (conv_size c) arg1 = Some (pc, arg2)"
      by (auto simp: spec_piece_def split: if_splits)
    from plain [OF c(1)] obtain fmtBuff where
      "Fast_scan (37 # p @ [0]) = Some (110, conv_size c, fmtBuff, length p + 1 - length rest)" "arg1 = arg"
      using o by auto
    with Perform_count_spec [OF c(2) assms(4,5), of 100 m] show ?thesis
      by (auto simp: Convert_def proceed_def Perform_def is_op_def bytes_of_def)
  next
    case out
    with assms(3) obtain a bs where "arg1 = a # arg2" "render L c a = Some bs" "0 \<notin> set bs" "pc = Text bs"
      by (auto simp: spec_piece_def bind_Some_iff split: list.splits if_splits)
    with Convert_text [of L p arg c rest a arg2 bs m n aux] assms(1,2) show ?thesis
      by (auto simp: piece_done_def)
  qed
qed

section \<open>The whole format\<close>

lemma spec_conv_rest:
  assumes "spec_conv p arg = Some (c, rest, arg')"
  shows "drop (length p + 1 - length rest) (37 # p) = rest"
proof -
  from assms obtain neg w p1 arg1 prec p2 sz p3 where
    w: "spec_width (dropWhile is_flag p) arg = Some (neg, w, p1, arg1)"
    and pr: "spec_precision p1 arg1 = Some (prec, p2, arg')"
    and sz: "(if p2 \<noteq> [] \<and> is_size (hd p2) then (hd p2, tl p2) else (32, p2)) = (sz, p3)"
    and p3: "rest = tl p3" by (rule spec_convE)
  have "suffix p1 (dropWhile is_flag p)" using w
    by (auto simp: spec_width_def Let_def bind_Some_iff suffix_dropWhile split: if_splits)
  moreover have "suffix p2 p1" using pr suffix_dropWhile [of is_digit "tl p1"] suffix_tl [of p1]
    by (auto simp: spec_precision_def Let_def bind_Some_iff split: if_splits intro: suffix_order.trans suffix_tl)
  moreover have "suffix p3 p2" using sz by (auto split: if_splits)
  moreover have "suffix rest p3" by (simp add: p3)
  ultimately have "suffix rest p" using suffix_dropWhile [of is_flag p] by (meson suffix_order.trans)
  moreover have "length rest < length p" by (rule spec_conv_shorter [OF assms])
  ultimately show ?thesis by (auto simp: suffix_def)
qed

lemma run_pieces_Text:
  "run_pieces emp n m (Text bs # ps) s r k =
     do { (v, s, r, k) \<leftarrow> (if bs \<noteq> [] then FCGX_PutStr emp bs (int (length bs)) s r k else Some (0, s, r, k));
          if v < 0 then Some (-1, m, s, r, k) else run_pieces emp (n + int (length bs)) m ps s r k }"
  by simp

text \<open>What follows a conversion: its output, then the rest of the format.\<close>

lemma run_pieces_done:
  assumes "piece_done pc n m bs m'"
  shows "run_pieces emp n m (pc # ps) s r k =
     do { (v, s, r, k) \<leftarrow> (if bs \<noteq> [] then FCGX_PutStr emp bs (int (length bs)) s r k else Some (0, s, r, k));
          if v < 0 then Some (-1, m', s, r, k) else run_pieces emp (n + int (length bs)) m' ps s r k }"
  using assms by (cases pc) (auto simp: piece_done_def)

lemma VFPrintF_loop_spec:
  "prints_within L \<Longrightarrow> c_printf L f arg = Some ps \<Longrightarrow> 0 \<le> n \<Longrightarrow> n + int (length (text_of ps)) < INT_MAX
    \<Longrightarrow> VFPrintF_loop emp L f arg m n aux s r k = run_pieces emp n m ps s r k"
proof (induction L f arg arbitrary: ps n m aux s r k rule: c_printf.induct)
  case (1 L f arg)
  note E = VFPrintF_loop.simps [of emp L]
  let ?lit = "takeWhile (\<lambda>c. c \<noteq> 37) f" and ?pc = "dropWhile (\<lambda>c. c \<noteq> 37) f"
  have end_of: "VFPrintF_loop emp L [] arg m n aux s r k = Some (n, m, s, r, k)"
    if "0 \<le> n" "n < INT_MAX" for arg m n aux s r k
    using that by (subst E) (simp add: fits_int_def)
  show ?case
  proof (cases "f = []")
    case True
    with 1 end_of show ?thesis by (simp add: c_printf.simps)
  next
    case f: False
    show ?thesis
    proof (cases "?pc = []")
      case True
      then have ps: "ps = [Text f]" and lit: "?lit = f"
        using 1(3) f by (auto simp: c_printf.simps [of L f] takeWhile_eq_all_conv)
      with 1(4,5) True f end_of show ?thesis
        by (subst E) (simp add: lit run_pieces_Text Let_def cong: if_cong del: run_pieces.simps(2))
    next
      case pct: False
      then obtain q where pc: "?pc = 37 # q" using hd_dropWhile [of "\<lambda>c. c \<noteq> 37" f] by (cases ?pc) auto
      define lit where "lit = ?lit"
      have tl: "tl ?pc = q" by (simp add: pc)
      have "(case spec_conv q arg of None \<Rightarrow> None | Some (c, rest, arg) \<Rightarrow>
          do { (piece, arg) \<leftarrow> spec_piece L c arg; ps \<leftarrow> c_printf L rest arg;
               Some (Text lit # piece # ps) }) = Some ps"
        using 1(3) f pct unfolding c_printf.simps [of L f arg] Let_def tl lit_def by (simp only: if_False)
      then obtain c rest arg1 piece arg2 ps1 where
        sc: "spec_conv q arg = Some (c, rest, arg1)" and sp: "spec_piece L c arg1 = Some (piece, arg2)"
        and rec: "c_printf L rest arg2 = Some ps1" and ps: "ps = Text lit # piece # ps1"
        by (auto simp: bind_Some_iff split: option.splits)
      have small: "n + int (length lit) + int (length (text_of (piece # ps1))) < INT_MAX"
        using 1(5) by (simp add: ps)
      from Convert_spec [OF 1(2) sc sp, of "n + int (length lit)" m aux] 1(4) small obtain bs buffLen m' aux' where
        cv: "Convert L (37 # q @ [0]) arg m (n + int (length lit)) aux
          = Some (Some (bs, buffLen, arg2, m', aux', length q + 1 - length rest))"
        and bs: "int (length bs) < buffLen" "piece_done piece (n + int (length lit)) m bs m'" by auto
      have lb: "n + int (length lit) + int (length bs) + int (length (text_of ps1)) < INT_MAX"
        using bs(2) small by (cases piece) (auto simp: piece_done_def)
      have ih: "VFPrintF_loop emp L rest arg2 m' (n + int (length lit) + int (length bs)) aux' s r k
          = run_pieces emp (n + int (length lit) + int (length bs)) m' ps1 s r k" for s r k
        using 1(1) [OF f refl refl pct sc [folded tl] refl refl sp refl 1(2) rec] 1(4) lb by simp
      define d where "d = length q + 1 - length rest"
      note E1 = E [of f arg m n aux s r k, unfolded pc Let_def lit_def [symmetric] append_Cons cv [unfolded append_Cons]]
      have "d \<le> length (37 # q)" "drop d (37 # q) = rest"
        using spec_conv_rest [OF sc] by (simp_all add: d_def)
      then show ?thesis
        unfolding ps run_pieces_Text run_pieces_done [OF bs(2)] E1 d_def [symmetric]
        using f lb bs(1) 1(4) ih by (simp cong: if_cong)
    qed
  qed
qed

end
