(* ===== verification/Formatted.thy ===== *)
theory Formatted
  imports Printf Examples
begin

text \<open>
  What \<open>FCGX_VFPrintF\<close> and \<open>FCGX_FPrintF\<close> do: they print what C's \<open>fprintf\<close> does, the peer receives it,
  and where they do not.
\<close>

text \<open>
  C10: for every format and arguments that the standard defines within the limits of \<open>c_printf\<close>,
  \<open>FCGX_VFPrintF\<close> makes exactly the writes the standard's \<open>fprintf\<close> asks for, on any stream, stores
  what \<open>%n\<close> asks for, and returns the number of bytes, or -1 at the first write that fails. Neither of
  the buffers is overrun.
\<close>

theorem printf_spec:
  assumes "prints_within L" "strlen format = Some n" "c_printf L (take n format) arg = Some ps"
    "int (length (text_of ps)) < INT_MAX"
  shows "FCGX_VFPrintF emp L format arg m s r k = run_pieces emp 0 m ps s r k"
  using VFPrintF_loop_spec [OF assms(1,3), of 0] assms(2,4) by (simp add: FCGX_VFPrintF_def)

context byte_sink
begin

text \<open>Writing pieces to a sink: all of the text is accepted and counted, or the output has failed.\<close>

lemma run_pieces_acc:
  assumes "acc xs s r k" "0 \<le> n"
  shows "\<exists>v m' s' r' k'. run_pieces emp n m ps s r k = Some (v, m', s', r', k')
    \<and> (v = n + int (length (text_of ps)) \<and> acc (xs @ text_of ps) s' r' k' \<or> v = -1 \<and> failed s' r' k')"
  using assms
proof (induction ps arbitrary: xs n m s r k)
  case (Cons pc ps)
  show ?case
  proof (cases pc)
    case (Text bs)
    show ?thesis
    proof (cases "bs = []")
      case True
      with Cons Text show ?thesis by simp
    next
      case False
      from PutStr_acc [OF Cons.prems(1), of bs] obtain v s' r' k' where
        p: "FCGX_PutStr emp bs (int (length bs)) s r k = Some (v, s', r', k')"
        and out: "v = int (length bs) \<and> acc (xs @ bs) s' r' k' \<or> v = -1 \<and> failed s' r' k'" by blast
      from out show ?thesis
      proof
        assume v: "v = int (length bs) \<and> acc (xs @ bs) s' r' k'"
        with Cons.IH [of "xs @ bs" s' r' k' "n + int (length bs)" m] Cons.prems(2) p False show ?thesis
          by (auto simp: Text add.assoc)
      next
        assume "v = -1 \<and> failed s' r' k'"
        with p False show ?thesis by (auto simp: Text)
      qed
    qed
  next
    case (Count x short)
    with Cons show ?thesis by simp
  qed
qed auto

end


text \<open>
  C31: what \<open>FCGX_FPrintF\<close> prints to a new stream is what the peer decodes once the stream is closed.
\<close>

theorem printf_output:
  assumes "malloc_fits k" "fd_ok (ipcFd r) k" "wx_clean (wx k (ipcFd r))"
    and "0 \<le> t" "t < 256" "0 \<le> requestId r" "requestId r < 65536"
    and "prints_within L" "strlen format = Some n" "c_printf L (take n format) arg = Some ps"
    "int (length (text_of ps)) < INT_MAX"
  shows "\<exists>s m1 s1 k1 s2 k2 out chunks.
    NewWriter len t k = Some s
    \<and> FCGX_FPrintF EmptyBuffProc L s format arg m r k = Some (int (length (text_of ps)), m1, s1, r, k1)
    \<and> FCGX_FClose EmptyBuffProc s1 r k1 = Some (0, s2, r\<lparr>nWriters := nWriters r - 1\<rparr>, k2)
    \<and> tx k2 (ipcFd r) = tx k (ipcFd r) @ out
    \<and> parse_records out = Some (map (\<lambda>c. (t, requestId r, c)) chunks @ closing t r (text_of ps = []))
    \<and> concat chunks = text_of ps"
proof -
  from wr_acc_start [of k r True] assms(1-3) obtain s where
    s: "NewWriter len t k = Some s" "wr_acc False True k r t [] s r k" by blast
  from cooked.run_pieces_acc [OF s(2), of 0 m ps] obtain m1 s1 r1 k1 where
    w: "run_pieces EmptyBuffProc 0 m ps s r k = Some (int (length (text_of ps)), m1, s1, r1, k1)"
    and a: "wr_acc False True k r t (text_of ps) s1 r1 k1" by (auto simp: wr_failed_def)
  have "r1 = r" using a by (simp add: wr_acc_def)
  with FClose_decodes [OF a assms(4-7)] s(1) w
    VFPrintF_loop_spec [OF assms(8,10), of 0 EmptyBuffProc m None s r k] assms(9,11)
  show ?thesis by (fastforce simp: FCGX_FPrintF_def FCGX_VFPrintF_def)
qed

section \<open>Wide fields\<close>

lemma decimal_all: "takeWhile is_digit (decimal n @ c # cs) = decimal n" if "\<not> is_digit c"
  using decimal_digits [of n] that by (simp add: takeWhile_append list_all_iff)

lemma wide_sprintf:
  assumes "parse_conv fmt = Some c" "conv_op c = 100" "conv_size c = 32" "nat N \<le> conv_width c"
  shows "sprintf_to L (nat N) fmt (AInt v) = None"
proof -
  have "sprintf_to L (nat N) fmt (AInt v) = Some bs \<Longrightarrow> False" for bs
    using assms by (auto simp: sprintf_to_def c_sprintf_def render_def render_int_def is_op_def bytes_of_def
        Let_def bind_Some_iff split: if_splits)
  then show ?thesis by fastforce
qed

lemma Convert_wide:
  assumes "Slow_scan pc arg = Some (Some ((w, -1, 32, 100, fmt, len), [AInt v]))" "parse_conv fmt = Some c"
    "conv_op c = 100" "conv_size c = 32" "w = int (conv_width c) \<or> w < 0" "100 \<le> conv_width c"
  shows "Convert_slow L pc arg m n None = None"
proof -
  obtain N aux where b: "Slow_buffer 46 w None = (N, aux)" by (rule prod.exhaust)
  then have "nat N \<le> conv_width c"
    using assms(5,6) by (auto simp: Slow_buffer_def Let_def split: if_splits)
  from wide_sprintf [OF assms(2-4) this, where L = L and v = v] show ?thesis
    using assms(1) b by (simp add: Convert_slow_def proceed_def Slow_bound_def Perform_def Perform_int_def
        Perform_sprintf_def is_op_def bytes_of_def)
qed

lemma Slow_scan_wide:
  assumes "100 \<le> w" "w \<le> 999999"
  shows "\<exists>c. Slow_scan (37 # decimal w @ [100, 0]) [AInt v]
      = Some (Some ((int w, -1, 32, 100, 37 # decimal w @ [100], length (decimal w) + 2), [AInt v]))
    \<and> parse_conv (37 # decimal w @ [100]) = Some c \<and> conv_op c = 100 \<and> conv_size c = 32 \<and> conv_width c = w"
proof -
  have l: "length (decimal w) \<le> 6" "decimal w \<noteq> []"
    using assms(2) length_decimal [of w 6] decimal_ne by auto
  have h: "hd (decimal w) \<noteq> 48" "is_digit (hd (decimal w))"
    using hd_decimal [of w] assms(1) decimal_digits [of w] l(2) by (auto simp: list_all_iff)
  from digit_not_flag [OF h(2,1)] l(2) have f: "takeWhile is_flag (decimal w @ cs) = []" for cs
    by (cases "decimal w") auto
  have d: "\<not> is_digit 100" "\<not> is_flag 100" "\<not> is_size 100" "is_op ops 100"
    by (simp_all add: is_digit_def is_op_def bytes_of_def ops_def)
  have tk: "takeWhile is_digit (decimal w @ [100, 0]) = decimal w" by (rule decimal_all [OF d(1)])
  have "strtol10 ((decimal w @ [100]) @ [0]) = int w"
    using strtol10_digits [of "decimal w @ [100]"] decimal_all [OF d(1), of w "[]"] l digits_value_decimal [of w] by simp
  then have n: "strtol10 (decimal w @ [100, 0]) = int w" by simp
  have "parse_conv (37 # [] @ decimal w @ [] @ [] @ [100])
    = Some \<lparr>conv_flags = [], conv_width = digits_value (decimal w), conv_precision = None, conv_size = 32, conv_op = 100\<rparr>"
    using h(1) d(4) by (intro parse_conv_text) (auto simp: decimal_digits prec_text_def size_text_def)
  then show ?thesis using l tk n d
    by (simp add: Slow_scan_def f Scan_width_def Scan_precision_def CopyAndAdvance_def proceed_def Let_def
        digits_value_decimal)
qed

lemma Slow_scan_star:
  assumes "100 \<le> w" "w \<le> 999999"
  shows "\<exists>c. Slow_scan (bytes_of ''%*d'' @ [0]) [AInt (word_of_int (- int w)), AInt v]
      = Some (Some ((- int w, -1, 32, 100, 37 # 45 # decimal w @ [100], 3), [AInt v]))
    \<and> parse_conv (37 # 45 # decimal w @ [100]) = Some c \<and> conv_op c = 100 \<and> conv_size c = 32 \<and> conv_width c = w"
proof -
  have l: "length (decimal w) \<le> 6" "decimal w \<noteq> []"
    using assms(2) length_decimal [of w 6] decimal_ne by auto
  have h: "hd (decimal w) \<noteq> 48" using hd_decimal [of w] assms(1) by auto
  have d: "\<not> is_digit 100" "\<not> is_flag 100" "\<not> is_size 100" "is_op ops 100" "\<not> is_flag 42" "\<not> is_digit 42"
    by (simp_all add: is_digit_def is_op_def bytes_of_def ops_def)
  have "sint (word_of_int (- int w) :: 32 word) = - int w"
    using assms by (simp only: sint_sbintrunc') (intro signed_take_bit_int_eq_self, simp_all)
  moreover have "parse_conv (37 # [45] @ decimal w @ [] @ [] @ [100])
    = Some \<lparr>conv_flags = [45], conv_width = digits_value (decimal w), conv_precision = None, conv_size = 32, conv_op = 100\<rparr>"
    using h d(4) by (intro parse_conv_text) (auto simp: decimal_digits prec_text_def size_text_def)
  ultimately show ?thesis using l d assms
    by (simp add: Slow_scan_def Scan_width_def Scan_precision_def CopyAndAdvance_def proceed_def Let_def
        digits_value_decimal Fmt_number_def show_int_def int_checked_def fits_int_def INT_MAX_def bytes_of_def)
qed

lemma VFPrintF_conversion:
  assumes "Convert L (37 # q @ [0]) arg m 0 None = None" "0 \<notin> set q"
  shows "FCGX_VFPrintF emp L (37 # q @ [0]) arg m s r k = None"
  using assms strlen_terminated [of "37 # q" "[]"]
  by (simp add: FCGX_VFPrintF_def) (subst VFPrintF_loop.simps, simp)

lemma Convert_special:
  assumes "special h" "Convert_slow L (37 # h # q @ [0]) arg m n aux = None"
  shows "Convert L (37 # h # q @ [0]) arg m n aux = None"
  using assms by (simp add: Convert_def Fast_scan_def proceed_def Perform_special)

text \<open>
  C11: a field at least 100 wide has no defined result: the buffer \<open>FCGX_VFPrintF\<close> chooses has room for
  the field and not for its terminating zero, or, for a negative width passed as argument, is the array
  of 100 bytes however wide the field is.
\<close>

theorem printf_wide:
  fixes L :: "'d libc"
  assumes "100 \<le> w" "w \<le> 999999"
  shows "FCGX_VFPrintF emp L (37 # decimal w @ [100, 0]) [AInt v] m s r k = None
    \<and> FCGX_VFPrintF emp L (bytes_of ''%*d'' @ [0]) [AInt (word_of_int (- int w)), AInt v] m s r k = None"
proof
  obtain h q where d: "decimal w = h # q" using decimal_ne [of w] by (cases "decimal w") auto
  then have "is_digit h" using decimal_digits [of w] by simp
  then have h: "special h" by (simp add: special_def)
  from Slow_scan_wide [OF assms, of v] obtain c where c:
    "Slow_scan (37 # h # (q @ [100]) @ [0]) [AInt v :: 'd varg]
      = Some (Some ((int w, -1, 32, 100, 37 # decimal w @ [100], length (decimal w) + 2), [AInt v]))"
    "parse_conv (37 # decimal w @ [100]) = Some c" "conv_op c = 100" "conv_size c = 32" "conv_width c = w"
    by (auto simp: d)
  from Convert_wide [OF c(1-4), of L m 0] c(5) assms(1)
  have "Convert_slow L (37 # h # (q @ [100]) @ [0]) [AInt v] m 0 None = None" by simp
  from VFPrintF_conversion [of L "h # q @ [100]"] Convert_special [OF h this]
  show "FCGX_VFPrintF emp L (37 # decimal w @ [100, 0]) [AInt v] m s r k = None"
    using decimal_no_zero [of w] by (simp add: d)
next
  have h: "special 42" by (simp add: special_def)
  let ?arg = "[AInt (word_of_int (- int w)), AInt v :: 'd varg]"
  from Slow_scan_star [OF assms, of v] obtain c where c:
    "Slow_scan (37 # 42 # [100] @ [0]) ?arg
      = Some (Some ((- int w, -1, 32, 100, 37 # 45 # decimal w @ [100], 3), [AInt v]))"
    "parse_conv (37 # 45 # decimal w @ [100]) = Some c" "conv_op c = 100" "conv_size c = 32" "conv_width c = w"
    by (auto simp: bytes_of_def)
  from Convert_wide [OF c(1-4), of L m 0] c(5) assms(1)
  have "Convert_slow L (37 # 42 # [100] @ [0]) ?arg m 0 None = None" by simp
  from VFPrintF_conversion [of L "[42, 100]" ?arg] Convert_special [OF h this]
  show "FCGX_VFPrintF emp L (bytes_of ''%*d'' @ [0]) ?arg m s r k = None"
    by (simp add: bytes_of_def)
qed

section \<open>A negative precision, a zero byte\<close>

text \<open>One conversion, then a format that keeps to the standard.\<close>

lemma VFPrintF_first:
  assumes "Convert L (37 # u @ g @ [0]) arg m 0 None = Some (Some (bs, buffLen, arg', m, aux, length u + 1))"
    "0 \<notin> set u" "0 \<notin> set g" "int (length bs) < buffLen"
    "prints_within L" "c_printf L g arg' = Some ps" "int (length bs + length (text_of ps)) < INT_MAX"
  shows "FCGX_VFPrintF emp L (37 # u @ g @ [0]) arg m s r k = run_pieces emp 0 m (Text bs # ps) s r k"
proof -
  have rest: "VFPrintF_loop emp L g arg' m (int (length bs)) aux s r k = run_pieces emp (int (length bs)) m ps s r k" for s r k
    using VFPrintF_loop_spec [OF assms(5,6)] assms(7) by simp
  have "strlen (37 # u @ g @ [0]) = Some (Suc (length u + length g))"
    using strlen_terminated [of "37 # u @ g" "[]"] assms(2,3) by simp
  then show ?thesis
    using assms(1,4,7) rest
    by (cases "bs = []") (simp_all add: FCGX_VFPrintF_def VFPrintF_loop.simps [of emp L "37 # u @ g"] cong: if_cong)
qed

text \<open>A negative precision passed as argument is scanned as if it were zero.\<close>

lemma Convert_negative:
  assumes "sint p < 0"
  shows "Convert L (37 # 46 # 42 # q) (AInt p # arg) m n aux = Convert L (37 # 46 # 42 # q) (AInt 0 # arg) m n aux"
proof -
  have "Scan_precision buf (46 # 42 # q) (AInt p # arg) = Scan_precision buf (46 # 42 # q) (AInt 0 # arg)" for buf
    using assms by (cases buf) (simp_all add: Scan_precision_def CopyAndAdvance_def)
  then have "Slow_scan (37 # 46 # 42 # q) (AInt p # arg) = Slow_scan (37 # 46 # 42 # q) (AInt 0 # arg)"
    by (simp add: Slow_scan_def Scan_width_def CopyAndAdvance_def proceed_def)
  moreover have "special 46" by (simp add: special_def)
  ultimately show ?thesis
    by (simp add: Convert_def Fast_scan_def proceed_def Perform_special Convert_slow_def)
qed

lemma numeral_in_ne: "numeral_in b u n \<noteq> []"
  by (subst numeral_in.simps) simp

lemma numeral_in_zero: "1 < b \<Longrightarrow> b \<le> 16 \<Longrightarrow> numeral_in b u n = [48] \<longleftrightarrow> n = 0"
proof -
  assume b: "1 < b" "b \<le> 16"
  have "list_all (\<lambda>n. digit_char True n = 48 \<longleftrightarrow> n = 0) [0..<16]" "list_all (\<lambda>n. digit_char False n = 48 \<longleftrightarrow> n = 0) [0..<16]"
    by code_simp+
  then have "list_all (\<lambda>n. digit_char u n = 48 \<longleftrightarrow> n = 0) [0..<16]" by (cases u) simp_all
  then have "n < 16 \<Longrightarrow> digit_char u n = 48 \<longleftrightarrow> n = 0" by (auto simp: list_all_iff)
  moreover note numeral_in_ne
  ultimately show ?thesis using b by (subst numeral_in.simps) auto
qed

text \<open>What a precision of zero makes of a conversion: no string at all, and no digit for the number zero.\<close>

lemma render_precision_0:
  assumes "render L (plain sz op) a = Some std" "is_op ''diuoxXs'' op"
  shows "render L ((plain sz op)\<lparr>conv_precision := Some 0\<rparr>) a = Some (if op = 115 \<or> std = [48] then [] else std)"
proof (cases "op = 115")
  case True
  with assms(1) show ?thesis
    by (auto simp: plain_def render_def is_op_def bytes_of_def render_str_def str_upto_def pad_field_def c_str_def
        split: option.splits varg.splits if_splits)
next
  case False
  with assms(2) have o: "is_op ''diuoxX'' op" by (auto simp: is_op_def bytes_of_def)
  let ?c = "plain sz op"
  let ?b = "if is_op ''o'' op then 8 else if is_op ''xX'' op then 16 else 10 :: nat"
  from assms(1) o obtain i where i: "int_arg ?c a = Some i" "render_int ?c i = Some std"
    by (auto simp: render_def plain_def Let_def bind_Some_iff)
  then have std: "std = int_prefix ?c i @ numeral_in ?b (is_op ''X'' op) (nat \<bar>i\<bar>)"
    by (cases "numeral_in ?b (is_op ''X'' op) (nat \<bar>i\<bar>)")
      (auto simp: numeral_in_ne render_int_def plain_def pad_field_def int_digits_def Let_def)
  have "std = [48] \<longleftrightarrow> i = 0"
    using numeral_in_zero [of ?b "is_op ''X'' op" "nat \<bar>i\<bar>"] by (auto simp: std int_prefix_def plain_def)
  moreover have "int_arg (?c\<lparr>conv_precision := Some 0\<rparr>) a = Some i"
    using i(1) by (cases a) (auto simp: int_arg_def Let_def split: if_splits)
  ultimately show ?thesis
    using o False std
    by (auto simp: render_def plain_def render_int_def pad_field_def int_digits_def int_prefix_def Let_def)
qed

lemma spec_conv_negative:
  assumes "size_text sz st" "is_op ops op"
  shows "spec_conv (46 # 42 # st @ op # g) (AInt 0 # arg) = Some ((plain sz op)\<lparr>conv_precision := Some 0\<rparr>, g, arg)"
    "spec_conv (st @ op # g) arg = Some (plain sz op, g, arg)"
proof -
  note c = op_class(1) [OF assms(2)] op_class(2) [of sz]
  have no: "op \<noteq> 42" "is_size sz \<Longrightarrow> sz \<noteq> 42" using assms(2) by (auto simp: is_op_def bytes_of_def ops_def)
  have st: "st = [] \<and> sz = 32 \<or> st = [sz] \<and> is_size sz" using assms(1) by (auto simp: size_text_def)
  have h: "takeWhile is_flag (st @ op # g) = []" "takeWhile is_digit (st @ op # g) = []"
    "hd (st @ op # g) \<noteq> 46" "hd (st @ op # g) \<noteq> 42"
    using st c no by auto
  then have d: "dropWhile is_flag (st @ op # g) = st @ op # g"
    by (metis append_Nil takeWhile_dropWhile_id)
  have s: "(if st @ op # g \<noteq> [] \<and> is_size (hd (st @ op # g)) then (hd (st @ op # g), tl (st @ op # g))
      else (32, st @ op # g)) = (sz, op # g)"
    using st c(1) by auto
  show "spec_conv (st @ op # g) arg = Some (plain sz op, g, arg)"
    using h d s by (simp add: spec_conv_def spec_width_def spec_precision_def plain_def Let_def del: append_is_Nil_conv)
  show "spec_conv (46 # 42 # st @ op # g) (AInt 0 # arg) = Some ((plain sz op)\<lparr>conv_precision := Some 0\<rparr>, g, arg)"
    using s by (simp add: spec_conv_def spec_width_def spec_precision_def plain_def Let_def del: append_is_Nil_conv)
qed

text \<open>
  C33: a negative precision passed for \<open>*\<close> counts as zero, where the standard has it count as none: whatever defined conversions follow in the
  format, the text printed for the conversion is not the standard's \<open>std\<close>, but empty, for every string and for the number zero.
  And \<open>%c\<close> of a zero byte prints nothing, where the standard prints the byte.
\<close>

theorem printf_divergences:
  assumes "prints_within L" "c_printf L g arg = Some ps" "0 \<notin> set g"
    and "sint p < 0" "size_text sz st" "is_op ''diuoxXs'' op" "render L (plain sz op) a = Some std" "0 \<notin> set std"
    and "ucast w = (0 :: byte)" "int (length std + length (text_of ps)) < INT_MAX"
  shows "c_printf L (37 # st @ op # g) (a # arg) = Some (Text [] # Text std # ps)
    \<and> FCGX_VFPrintF emp L (37 # 46 # 42 # st @ op # g @ [0]) (AInt p # a # arg) m s r k
        = run_pieces emp 0 m (Text (if op = 115 \<or> std = [48] then [] else std) # ps) s r k
    \<and> render L (plain 32 99) (AInt w) = Some [0]
    \<and> FCGX_VFPrintF emp L (37 # 99 # g @ [0]) (AInt w # arg) m s r k = run_pieces emp 0 m (Text [] # ps) s r k"
proof (intro conjI)
  have op: "is_op ops op" using assms(6) by (auto simp: is_op_def bytes_of_def ops_def)
  note sc = spec_conv_negative [OF assms(5) op]
  have no: "op \<noteq> 37" "op \<noteq> 110" "op \<noteq> 0" using assms(6) by (auto simp: is_op_def bytes_of_def)
  then show "c_printf L (37 # st @ op # g) (a # arg) = Some (Text [] # Text std # ps)"
    using assms(2,7,8) by (subst c_printf.simps) (simp add: sc(2) spec_piece_def plain_def is_op_def bytes_of_def)
  let ?t = "if op = 115 \<or> std = [48] then [] else std"
  have "0 \<notin> set ?t" using assms(8) by simp
  from Convert_text [OF assms(1) sc(1) render_precision_0 [OF assms(7,6)] this,
      where m = m and n = 0 and aux = None] obtain buffLen aux where
    c: "Convert L (37 # (46 # 42 # st @ op # g) @ [0]) (AInt 0 # a # arg) m 0 None
      = Some (Some (?t, buffLen, arg, m, aux, length (46 # 42 # st @ op # g) + 1 - length g))"
      "int (length ?t) < buffLen" by blast
  have "0 \<notin> set (46 # 42 # st @ [op])" using assms(5) no by (auto simp: size_text_def is_op_def bytes_of_def)
  with c VFPrintF_first [of L "46 # 42 # st @ [op]" g "AInt p # a # arg" m ?t buffLen arg aux ps emp s r k] assms(1-3,10)
  show "FCGX_VFPrintF emp L (37 # 46 # 42 # st @ op # g @ [0]) (AInt p # a # arg) m s r k
      = run_pieces emp 0 m (Text ?t # ps) s r k"
    by (simp add: Convert_negative [OF assms(4)] del: run_pieces.simps)
next
  show r: "render L (plain 32 99) (AInt w) = Some [0]"
    using assms(9) by (simp add: render_def plain_def is_op_def bytes_of_def pad_field_def)
  have "parse_conv [37, 99] = Some (plain 32 99)"
    by (simp add: parse_conv_def plain_def is_op_def bytes_of_def is_digit_def digits_value_def)
  with r have "Convert L (37 # [99] @ g @ [0]) (AInt w # arg) m 0 None = Some (Some ([], 100, arg, m, None, length [99 :: byte] + 1))"
    by (simp add: Convert_def Fast_scan_def proceed_def Perform_def Perform_sprintf_def sprintf_to_def c_sprintf_def
        is_op_def bytes_of_def c_str_def)
  with VFPrintF_first [OF this, of ps emp s r k] assms(1-3,10)
  show "FCGX_VFPrintF emp L (37 # 99 # g @ [0]) (AInt w # arg) m s r k = run_pieces emp 0 m (Text [] # ps) s r k"
    by simp
qed

section \<open>Witnesses\<close>

definition ex_libc :: "unit libc" where
  "ex_libc = \<lparr>fmt_double = (\<lambda>c d. [48]), fmt_pointer = (\<lambda>c x. [48]), frexp_exp = (\<lambda>d. 0)\<rparr>"

lemma ex_libc_within: "prints_within ex_libc"
  by (auto simp: prints_within_def ex_libc_def le_max_iff_disj split: option.splits)

lemma ex_format:
  "strlen (bytes_of ''%5d|%s%n'' @ [0]) = Some 8"
  "c_printf ex_libc (take 8 (bytes_of ''%5d|%s%n'' @ [0])) [AInt (- 42), AStr (Some [104, 105, 0]), AIntRef 7]
    = Some [Text [], Text [32, 32, 45, 52, 50], Text [124], Text [104, 105], Text [], Count 7 False]"
  by code_simp+

theorem printf_spec_witness:
  "\<forall>s r k. FCGX_VFPrintF EmptyBuffProc ex_libc (bytes_of ''%5d|%s%n'' @ [0])
      [AInt (- 42), AStr (Some [104, 105, 0]), AIntRef 7] (\<lambda>_. 0) s r k
    = run_pieces EmptyBuffProc 0 (\<lambda>_. 0)
        [Text [], Text [32, 32, 45, 52, 50], Text [124], Text [104, 105], Text [], Count 7 False] s r k"
  using printf_spec [OF ex_libc_within ex_format, of EmptyBuffProc] by (simp add: INT_MAX_def del: run_pieces.simps)

theorem printf_output_witness:
  "\<exists>s m1 s1 k1 s2 k2 out chunks.
    NewWriter 8192 FCGI_STDOUT (ex_os [] [TxLimit 3]) = Some s
    \<and> FCGX_FPrintF EmptyBuffProc ex_libc s (bytes_of ''%5d|%s%n'' @ [0])
        [AInt (- 42), AStr (Some [104, 105, 0]), AIntRef 7] (\<lambda>_. 0) ex_req (ex_os [] [TxLimit 3])
        = Some (8, m1, s1, ex_req, k1)
    \<and> FCGX_FClose EmptyBuffProc s1 ex_req k1 = Some (0, s2, ex_req\<lparr>nWriters := 0\<rparr>, k2)
    \<and> tx k2 5 = out
    \<and> parse_records out = Some (map (\<lambda>c. (FCGI_STDOUT, 1, c)) chunks @
        [(FCGI_STDOUT, 1, []), (FCGI_END_REQUEST, 1, [0, 0, 0, 0, 0, 0, 0, 0])])
    \<and> concat chunks = [32, 32, 45, 52, 50, 124, 104, 105]"
proof -
  have e: "end_body_bytes (MakeEndRequestBody 0 0) = [0, 0, 0, 0, 0, 0, 0, 0]"
    by (simp add: end_body_bytes_def MakeEndRequestBody_def uchar_def numeral_3_eq_3)
  have "wx_clean (wx (ex_os [] [TxLimit 3]) (ipcFd ex_req))" by (simp add: wx_clean_def)
  from printf_output [OF _ _ this _ _ _ _ ex_libc_within ex_format, of FCGI_STDOUT 8192 "\<lambda>_. 0"]
  show ?thesis by (simp add: closing_def e INT_MAX_def)
qed

theorem printf_wide_witness:
  "\<forall>s. FCGX_VFPrintF EmptyBuffProc ex_libc (37 # decimal 100 @ [100, 0]) [AInt 5] (\<lambda>_. 0) s ex_req (ex_os [] []) = None
    \<and> FCGX_VFPrintF EmptyBuffProc ex_libc (bytes_of ''%*d'' @ [0]) [AInt (word_of_int (- 100)), AInt 5] (\<lambda>_. 0)
        s ex_req (ex_os [] []) = None"
  using printf_wide [of 100 EmptyBuffProc ex_libc 5 "\<lambda>_. 0" _ ex_req "ex_os [] []"] by simp

theorem printf_divergences_witness:
  "\<forall>s r k. FCGX_VFPrintF EmptyBuffProc ex_libc (bytes_of ''%.*s!'' @ [0])
      [AInt (- 1), AStr (Some [104, 105, 0])] (\<lambda>_. 0) s r k
    = run_pieces EmptyBuffProc 0 (\<lambda>_. 0) [Text [], Text [33]] s r k
    \<and> c_printf ex_libc (bytes_of ''%s!'') [AStr (Some [104, 105, 0])] = Some [Text [], Text [104, 105], Text [33]]"
proof -
  have "c_printf ex_libc [33] [] = Some [Text [33]]" "render ex_libc (plain 32 115) (AStr (Some [104, 105, 0])) = Some [104, 105]"
    by code_simp+
  from printf_divergences [OF ex_libc_within this(1) _ _ _ _ this(2), of "- 1" "[]" 256 EmptyBuffProc "\<lambda>_. 0"]
  show ?thesis by (simp add: size_text_def is_op_def bytes_of_def INT_MAX_def del: run_pieces.simps)
qed

end
