(* ===== verification/PrintEnv.thy ===== *)
theory PrintEnv
  imports HbFcgi Formatted
begin

text \<open>
  \<open>HB_FCGI_PRINTENVIRONMENT\<close> and \<open>PrintEnv\<close> of \<open>hb_fcgi_c.c\<close>: the environment of the request and that of
  the process as formatted output. The process's \<open>environ\<close> is an argument.
\<close>

section \<open>Code\<close>

fun PrintEnv_loop ::
  "'d libc \<Rightarrow> slot list \<Rightarrow> stream \<Rightarrow> FCGX_Request \<Rightarrow> os \<Rightarrow> (stream \<times> FCGX_Request \<times> os) option" where
  "PrintEnv_loop L [] s r k = None"
| "PrintEnv_loop L (NULL # par_envp) s r k = Some (s, r, k)"
| "PrintEnv_loop L (Uninit # par_envp) s r k = None"
| "PrintEnv_loop L (Str e # par_envp) s r k =
     do { (_, _, s, r, k) \<leftarrow> FCGX_FPrintF EmptyBuffProc L s (bytes_of ''%s'' @ [10, 0]) [AStr (Some e)] (\<lambda>_. 0) r k;
          PrintEnv_loop L par_envp s r k }"

definition PrintEnv ::
  "'d libc \<Rightarrow> stream \<Rightarrow> byte list \<Rightarrow> slot list \<Rightarrow> FCGX_Request \<Rightarrow> os \<Rightarrow> (stream \<times> FCGX_Request \<times> os) option" where
  "PrintEnv L par_out par_label par_envp r k =
     do { (_, _, s, r, k) \<leftarrow> FCGX_FPrintF EmptyBuffProc L par_out
            (bytes_of ''<p>%s:<p>'' @ 10 # bytes_of ''<pre>'' @ [10, 0]) [AStr (Some par_label)] (\<lambda>_. 0) r k;
          (s, r, k) \<leftarrow> PrintEnv_loop L par_envp s r k;
          (_, _, s, r, k) \<leftarrow> FCGX_FPrintF EmptyBuffProc L s (bytes_of ''</pre><p>'' @ [10, 0]) [] (\<lambda>_. 0) r k;
          Some (s, r, k) }"

definition HB_FCGI_PRINTENVIRONMENT ::
  "'d libc \<Rightarrow> slot list \<Rightarrow> hb_fcgi \<Rightarrow> os \<Rightarrow> (int \<times> hb_fcgi \<times> os) option" where
  "HB_FCGI_PRINTENVIRONMENT L process_env h k =
     do { let q = the_request (app h);
          g_out \<leftarrow> out_ptr q;
          g_envp \<leftarrow> env_block q;
          env \<leftarrow> g_envp;
          (s, r, k) \<leftarrow> PrintEnv L g_out (bytes_of ''Request environment'' @ [0]) env (reqData q) k;
          (s, r, k) \<leftarrow> PrintEnv L s (bytes_of ''Initial environment'' @ [0]) process_env r k;
          Some (0, h\<lparr>app := (app h)\<lparr>the_request := q\<lparr>out_ptr := Some s, reqData := r\<rparr>\<rparr>\<rparr>, k) }"

section \<open>What it prints\<close>

definition env_page :: "byte list \<Rightarrow> byte list list \<Rightarrow> byte list list" where
  "env_page label es =
     [bytes_of ''<p>'', label, bytes_of '':<p>'' @ 10 # bytes_of ''<pre>'' @ [10]]
     @ concat (map (\<lambda>e. [[], e, [10]]) es) @ [bytes_of ''</pre><p>'' @ [10]]"

abbreviation (input) texts :: "byte list list \<Rightarrow> write_call list" where
  "texts ts \<equiv> map WStr (filter (\<lambda>b. b \<noteq> []) ts)"

lemma run_writes_append:
  "run_writes emp (cs @ ds) s r k = Some (True, s2, r2, k2) \<longleftrightarrow>
     (\<exists>s1 r1 k1. run_writes emp cs s r k = Some (True, s1, r1, k1) \<and> run_writes emp ds s1 r1 k1 = Some (True, s2, r2, k2))"
proof (induction cs arbitrary: s r k)
  case (Cons c cs)
  then show ?case by (cases "do_write emp c s r k") auto
qed simp

lemma run_pieces_texts:
  "run_writes emp (texts ts) s r k = Some (True, s', r', k')
    \<Longrightarrow> run_pieces emp n m (map Text ts) s r k = Some (n + int (length (concat ts)), m, s', r', k')"
  by (induction ts arbitrary: n s r k) (auto simp: bind_Some_iff add.assoc split: if_splits)

lemma text_of_texts [simp]: "text_of (map Text ts) = concat ts"
  by (induction ts) auto

lemma FPrintF_texts:
  assumes "prints_within L" "0 \<notin> set f" "c_printf L f arg = Some (map Text ts)" "int (length (concat ts)) < INT_MAX"
    "run_writes emp (texts ts) s r k = Some (True, s', r', k')"
  shows "FCGX_FPrintF emp L s (f @ [0]) arg m r k = Some (int (length (concat ts)), m, s', r', k')"
  using VFPrintF_loop_spec [OF assms(1,3), of 0] run_pieces_texts [OF assms(5), of 0 m] strlen_terminated [OF assms(2), of "[]"]
    assms(4) by (simp add: FCGX_FPrintF_def FCGX_VFPrintF_def)

text \<open>The three formats.\<close>

lemma c_printf_formats:
  assumes "0 \<notin> set e"
  shows "c_printf L (bytes_of ''%s'' @ [10]) [AStr (Some (e @ [0]))] = Some (map Text [[], e, [10]])"
    "c_printf L (bytes_of ''<p>%s:<p>'' @ 10 # bytes_of ''<pre>'' @ [10]) [AStr (Some (e @ [0]))]
      = Some (map Text [bytes_of ''<p>'', e, bytes_of '':<p>'' @ 10 # bytes_of ''<pre>'' @ [10]])"
    "c_printf L (bytes_of ''</pre><p>'' @ [10]) [] = Some (map Text [bytes_of ''</pre><p>'' @ [10]])"
  using assms strlen_terminated [of e "[]"]
  by (simp_all add: c_printf.simps [of L] bytes_of_def spec_conv_def spec_width_def spec_precision_def spec_piece_def
      is_op_def is_digit_def render_def render_str_def pad_field_def Let_def)

lemma PrintEnv_loop_texts:
  assumes "prints_within L" "\<forall>e \<in> set es. 0 \<notin> set e \<and> int (length e) < INT_MAX - 1"
    "run_writes EmptyBuffProc (texts (concat (map (\<lambda>e. [[], e, [10]]) es))) s r k = Some (True, s', r', k')"
  shows "PrintEnv_loop L (map (\<lambda>e. Str (e @ [0])) es @ NULL # rest) s r k = Some (s', r', k')"
  using assms(2,3)
proof (induction es arbitrary: s r k)
  case (Cons e es)
  from Cons.prems(2) obtain s1 r1 k1 where
    1: "run_writes EmptyBuffProc (texts [[], e, [10]]) s r k = Some (True, s1, r1, k1)"
    and 2: "run_writes EmptyBuffProc (texts (concat (map (\<lambda>e. [[], e, [10]]) es))) s1 r1 k1 = Some (True, s', r', k')"
    unfolding list.map concat.simps filter_append map_append run_writes_append by blast
  have "0 \<notin> set (bytes_of ''%s'' @ [10])" by (simp add: bytes_of_def)
  from FPrintF_texts [OF assms(1) this c_printf_formats(1) _ 1] Cons.IH [OF _ 2] Cons.prems(1)
  show ?case by simp
qed simp

lemma PrintEnv_texts:
  assumes "prints_within L" "\<forall>e \<in> set (label # es). 0 \<notin> set e \<and> int (length e) < INT_MAX - 100"
    "run_writes EmptyBuffProc (texts (env_page label es)) s r k = Some (True, s', r', k')"
  shows "PrintEnv L s (label @ [0]) (map (\<lambda>e. Str (e @ [0])) es @ NULL # rest) r k = Some (s', r', k')"
proof -
  let ?a = "[bytes_of ''<p>'', label, bytes_of '':<p>'' @ 10 # bytes_of ''<pre>'' @ [10]]"
  let ?c = "[bytes_of ''</pre><p>'' @ [10]]"
  from assms(3) obtain s1 r1 k1 s2 r2 k2 where
    1: "run_writes EmptyBuffProc (texts ?a) s r k = Some (True, s1, r1, k1)"
    and 2: "run_writes EmptyBuffProc (texts (concat (map (\<lambda>e. [[], e, [10]]) es))) s1 r1 k1 = Some (True, s2, r2, k2)"
    and 3: "run_writes EmptyBuffProc (texts ?c) s2 r2 k2 = Some (True, s', r', k')"
    unfolding env_page_def filter_append map_append run_writes_append by blast
  have z: "0 \<notin> set (bytes_of ''<p>%s:<p>'' @ 10 # bytes_of ''<pre>'' @ [10])" "0 \<notin> set (bytes_of ''</pre><p>'' @ [10])"
    by (simp_all add: bytes_of_def)
  have l: "0 \<notin> set label" "int (length label) < INT_MAX - 100" using assms(2) by auto
  have es: "\<forall>e \<in> set es. 0 \<notin> set e \<and> int (length e) < INT_MAX - 1" using assms(2) by auto
  show ?thesis
    using FPrintF_texts [OF assms(1) z(1) c_printf_formats(2) _ 1, of "\<lambda>_. 0"] l
      PrintEnv_loop_texts [OF assms(1) es 2, of rest]
      FPrintF_texts [OF assms(1) z(2) c_printf_formats(3) _ 3, of "[]" "\<lambda>_. 0"]
    by (simp add: PrintEnv_def INT_MAX_def)
qed

text \<open>A client that only writes to \<open>out\<close>, seen from the stream.\<close>

lemma run_out_writes:
  "run_out (map Out cs) q k = Some (True, q', k') \<Longrightarrow> out_ptr q = Some s \<Longrightarrow>
    \<exists>s' r'. run_writes EmptyBuffProc cs s (reqData q) k = Some (True, s', r', k')
      \<and> q' = q\<lparr>out_ptr := Some s', reqData := r'\<rparr>"
proof (induction cs arbitrary: q k s)
  case (Cons c cs)
  from Cons.prems(2) have d: "do_out (Out c) q k = do {
      (v, s1, r1, k1) \<leftarrow> do_write EmptyBuffProc c s (reqData q) k;
      Some (v, q\<lparr>out_ptr := Some s1, reqData := r1\<rparr>, k1) }" by simp
  from Cons.prems(1) obtain v s1 r1 k1 where w: "do_write EmptyBuffProc c s (reqData q) k = Some (v, s1, r1, k1)"
    and v: "\<not> v < 0" "run_out (map Out cs) (q\<lparr>out_ptr := Some s1, reqData := r1\<rparr>) k1 = Some (True, q', k')"
    unfolding list.map run_out.simps d by (auto simp: bind_Some_iff split: if_splits)
  from Cons.IH [OF v(2), of s1] w v(1) show ?case by auto
qed (auto simp: Request.equality)

lemma outs_texts: "outs (map Out (texts ts)) = concat ts" "errs (map Out (texts ts)) = []"
  by (induction ts) (auto simp: outs_def errs_def)

text \<open>
  C32: between \<open>HB_FCGX_WAIT\<close> and \<open>HB_FCGX_FINISH\<close>, \<open>HB_FCGI_PRINTENVIRONMENT\<close> prints a page with every
  variable of the request, starting with its role, and then every string of the process's environment,
  one to a line, and that page is the response the web server decodes.
\<close>

theorem print_environment:
  assumes "libInitialized (app h)" "idle (the_request (app h))" "os_ready k"
    "next_for (app h) (the_request (app h)) k = Some (Conn fd rxs txs, aq, sq)" "fd < 1024"
    "wx_clean txs" "rx_error rxs \<noteq> Some 0" "length (rx_bytes rxs) < 2 ^ 28"
    "handshake (junk k) (rerr (rx_error rxs)) (requestId (reqData (the_request (app h)))) (rx_bytes rxs)
      = HsReady rid body ps w (DEof rest)"
    "demux \<lparr>d_junk = junk k, d_type = FCGI_STDIN, d_id = rid, d_begun = True, d_err = rerr (rx_error rxs)\<rparr>
      0 0 False rest = (xs, w2, DEof rest2)"
    "prints_within L" "vars = map (\<lambda>nv. fst nv @ 61 # snd nv) (role_pair (body_role body) # ps)"
    "\<forall>e \<in> set (vars @ es). 0 \<notin> set e \<and> int (length e) < INT_MAX - 100"
  shows "\<exists>h1 k1 h2 k2 h3 k3 out rs.
      HB_FCGX_WAIT h k = Some (0, h1, k1)
    \<and> HB_FCGI_PRINTENVIRONMENT L (map (\<lambda>e. Str (e @ [0])) es @ [NULL]) h1 k1 = Some (0, h2, k2)
    \<and> HB_FCGX_FINISH h2 k2 = Some (h3, k3)
    \<and> tx k3 fd = w @ out \<and> parse_records out = Some rs
    \<and> peer rid Unused Unused rs = Some (concat (env_page (bytes_of ''Request environment'') vars
          @ env_page (bytes_of ''Initial environment'') es), [],
        end_body_bytes (MakeEndRequestBody (appStatus (reqData (the_request (app h)))) FCGI_REQUEST_COMPLETE))"
proof -
  from Accept_r_accepted [OF assms(1-10)] obtain q k1 s where
    acc: "FCGX_Accept_r (app h) (the_request (app h)) k = Some (0, q, k1)" "env_is (role_pair (body_role body) # ps) q"
    and a: "accepted fd rid (appStatus (reqData (the_request (app h)))) (uint (bflags body) AND FCGI_KEEP_CONN) q k1"
    and s: "in_ptr q = Some s" "rd_src k1 (reqData q) (rx_error rxs) w2 (DEof rest2) xs s (reqData q) k1"
    and tx1: "tx k1 fd = w" by blast
  let ?P = "env_page (bytes_of ''Request environment'') vars" and ?Q = "env_page (bytes_of ''Initial environment'') es"
  have fd: "ipcFd (reqData q) = fd" using a by (simp add: accepted_def)
  obtain w3 where s0: "FCGI_errno s = 0" "chan k1 fd w3 k1"
    using s fd by (auto simp: rd_src_def split: if_splits)
  have "q\<lparr>in_ptr := Some s\<rparr> = q" using s(1) by simp
  with accepted_response [OF a s0(2,1), of "map Out (texts (?P @ ?Q))"] obtain q3 k3 q4 k4 out rs where
    run: "run_out (map Out (texts (?P @ ?Q))) q k1 = Some (True, q3, k3)"
    and fin: "FCGX_Finish_r q3 k3 = Some (q4, k4)" "tx k4 fd = tx k1 fd @ out" "parse_records out = Some rs"
    and peer: "peer rid Unused Unused rs = Some (concat (?P @ ?Q), [],
      end_body_bytes (MakeEndRequestBody (appStatus (reqData (the_request (app h)))) FCGI_REQUEST_COMPLETE))"
    unfolding outs_texts by auto
  obtain so where so: "out_ptr q = Some so"
    using run by (cases "out_ptr q") (simp_all add: env_page_def bytes_of_def)
  from run_out_writes [OF run so] obtain s2 r2 where
    "run_writes EmptyBuffProc (texts ?P @ texts ?Q) so (reqData q) k1 = Some (True, s2, r2, k3)"
    and q3: "q3 = q\<lparr>out_ptr := Some s2, reqData := r2\<rparr>" by auto
  then obtain s1 r1 k2 where
    p: "run_writes EmptyBuffProc (texts ?P) so (reqData q) k1 = Some (True, s1, r1, k2)"
      "run_writes EmptyBuffProc (texts ?Q) s1 r1 k2 = Some (True, s2, r2, k3)"
    unfolding run_writes_append by blast
  from acc(2) obtain p0 more where ev: "env_block q = Some (Some (map (\<lambda>e. Str (e @ [0])) vars @ NULL # more))"
    by (auto simp: env_is_def env_block_def params_ok_def entry_def assms(12) comp_def)
  have lab: "0 \<notin> set (bytes_of ''Request environment'')" "0 \<notin> set (bytes_of ''Initial environment'')"
    by (simp_all add: bytes_of_def)
  have "HB_FCGI_PRINTENVIRONMENT L (map (\<lambda>e. Str (e @ [0])) es @ [NULL]) (on_request q h) k1
      = Some (0, on_request q3 h, k3)"
    using PrintEnv_texts [OF assms(11) _ p(1), of more] PrintEnv_texts [OF assms(11) _ p(2), of "[]"] assms(13) lab
    by (simp add: HB_FCGI_PRINTENVIRONMENT_def so ev q3 on_request_def Let_def INT_MAX_def)
  moreover have "HB_FCGX_WAIT h k = Some (0, on_request q h, k1)"
    using assms(1) acc(1) by (simp add: HB_FCGX_WAIT_def FCGX_Accept_def on_request_def)
  moreover have "HB_FCGX_FINISH (on_request q3 h) k3 = Some (on_request q4 h, k4)"
    using fin(1) by (simp add: HB_FCGX_FINISH_def FCGX_Finish_def on_request_def)
  ultimately show ?thesis using fin(2,3) peer tx1 by blast
qed

lemma print_environment_witness:
  "\<exists>h1 k1 h2 k2 h3 k3 out rs.
      HB_FCGX_WAIT ex_hb_listening ex_listening = Some (0, h1, k1)
    \<and> HB_FCGI_PRINTENVIRONMENT ex_libc [Str [72, 61, 47, 0], NULL] h1 k1 = Some (0, h2, k2)
    \<and> HB_FCGX_FINISH h2 k2 = Some (h3, k3)
    \<and> tx k3 7 = out \<and> parse_records out = Some rs
    \<and> peer 1 Unused Unused rs = Some (concat (env_page (bytes_of ''Request environment'')
          [bytes_of ''FCGI_ROLE=RESPONDER'', bytes_of ''A=B'']
        @ env_page (bytes_of ''Initial environment'') [[72, 61, 47]]), [], [0, 0, 0, 0, 0, 0, 0, 0])"
proof -
  have h: "app ex_hb_listening = ex_app" by (simp add: ex_hb_listening_def)
  have b: "body_role ex_body = FCGI_RESPONDER" "appStatus (reqData (the_request ex_app)) = 0"
    "end_body_bytes (MakeEndRequestBody 0 FCGI_REQUEST_COMPLETE) = [0, 0, 0, 0, 0, 0, 0, 0]"
    by code_simp+
  have v: "[bytes_of ''FCGI_ROLE=RESPONDER'', bytes_of ''A=B'']
      = map (\<lambda>nv. fst nv @ 61 # snd nv) (role_pair (body_role ex_body) # [([65], [66])])"
    by (simp add: role_pair_def b(1) bytes_of_def)
  from print_environment [of ex_hb_listening, unfolded h, OF ex_ready(1-3) ex_next, of 1 ex_body "[([65], [66])]" "[]"
      ex_rest "[104, 105]" "[]" "[]" ex_libc, OF _ _ _ _ _ _ ex_libc_within v, of "[[72, 61, 47]]"]
  show ?thesis
    using ex_handshake ex_input ex_rx ex_ready b
    by (simp add: rerr_def wx_clean_def INT_MAX_def) (simp add: bytes_of_def)
qed

end
