(* ===== verification/CStdio.thy ===== *)
theory CStdio
  imports Printf
begin

text \<open>
  The streams of the C library that \<open>fcgi_stdio.c\<close> passes its calls on to: a \<open>FILE\<close> is the contents of
  the file, a position and the flags of the stream; \<open>files\<close> are the open ones, by the number that stands
  for the pointer. What opening a file, a descriptor or a process gives is the answer of the environment,
  in the order of the calls: \<open>openq\<close>, where \<open>None\<close> (and an exhausted script) is a failure. Writing to a
  stream that is open for writing succeeds. Buffering is not observable here, so \<open>fflush\<close>, \<open>setvbuf\<close> and
  \<open>setbuf\<close> change nothing.
\<close>

section \<open>Streams of the C library\<close>

record c_file =
  cdata :: "byte list"
  cpos :: nat
  creadable :: bool
  cwritable :: bool
  cappend :: bool
  ceof :: bool
  cerror :: bool
  cungot :: "byte option"
  cfileno :: int
  cseekable :: bool
  cstatus :: int

record c_stdio =
  files :: "nat \<Rightarrow> c_file option"
  next_file :: nat
  openq :: "c_file option list"

text \<open>A call on an open stream; a stream that has been closed must not be used.\<close>

definition on_file :: "nat \<Rightarrow> (c_file \<Rightarrow> 'a \<times> c_file) \<Rightarrow> 'b c_stdio_scheme \<Rightarrow> ('a \<times> 'b c_stdio_scheme) option" where
  "on_file h f st = do { c \<leftarrow> files st h; let (v, c) = f c; Some (v, st\<lparr>files := (files st)(h \<mapsto> c)\<rparr>) }"

text \<open>What a mode says; \<open>b\<close> and other letters make no difference.\<close>

definition mode_file :: "byte list \<Rightarrow> c_file \<Rightarrow> c_file" where
  "mode_file mode c =
     (let m = set (c_str mode); r = 114 \<in> m; w = 119 \<in> m; a = 97 \<in> m; plus = 43 \<in> m in
      c\<lparr>creadable := (r \<or> plus), cwritable := (w \<or> a \<or> plus), cappend := a, cdata := (if w then [] else cdata c),
        cpos := 0, ceof := False, cerror := False, cungot := None\<rparr>)"

text \<open>\<open>fopen\<close>, \<open>fdopen\<close>, \<open>tmpfile\<close> and \<open>popen\<close>: the answer of the environment in a new stream.\<close>

definition c_open :: "byte list \<Rightarrow> 'b c_stdio_scheme \<Rightarrow> nat option \<times> 'b c_stdio_scheme" where
  "c_open mode st =
     (case openq st of
        [] \<Rightarrow> (None, st)
      | None # q \<Rightarrow> (None, st\<lparr>openq := q\<rparr>)
      | Some c # q \<Rightarrow> (Some (next_file st), st\<lparr>openq := q, next_file := next_file st + 1,
          files := (files st)(next_file st \<mapsto> mode_file mode c)\<rparr>))"

text \<open>\<open>freopen\<close> closes the stream first; when the file cannot be opened it stays closed.\<close>

definition c_freopen :: "byte list \<Rightarrow> nat \<Rightarrow> 'b c_stdio_scheme \<Rightarrow> (bool \<times> 'b c_stdio_scheme) option" where
  "c_freopen mode h st =
     do { _ \<leftarrow> files st h;
          case openq st of
            [] \<Rightarrow> Some (False, st\<lparr>files := (files st)(h := None)\<rparr>)
          | None # q \<Rightarrow> Some (False, st\<lparr>openq := q, files := (files st)(h := None)\<rparr>)
          | Some c # q \<Rightarrow> Some (True, st\<lparr>openq := q, files := (files st)(h \<mapsto> mode_file mode c)\<rparr>) }"

text \<open>\<open>fclose\<close> and \<open>pclose\<close> return what the environment answers.\<close>

definition c_fclose :: "nat \<Rightarrow> 'b c_stdio_scheme \<Rightarrow> (int \<times> 'b c_stdio_scheme) option" where
  "c_fclose h st = do { c \<leftarrow> files st h; Some (cstatus c, st\<lparr>files := (files st)(h := None)\<rparr>) }"

section \<open>Reading\<close>

definition c_fgetc :: "c_file \<Rightarrow> int \<times> c_file" where
  "c_fgetc f =
     (if \<not> creadable f then (EOF, f\<lparr>cerror := True\<rparr>)
      else case cungot f of
        Some b \<Rightarrow> (uint b, f\<lparr>cungot := None\<rparr>)
      | None \<Rightarrow>
          if ceof f then (EOF, f)
          else if cpos f < length (cdata f) then (uint (cdata f ! cpos f), f\<lparr>cpos := cpos f + 1\<rparr>)
          else (EOF, f\<lparr>ceof := True\<rparr>))"

definition c_ungetc :: "int \<Rightarrow> c_file \<Rightarrow> int \<times> c_file" where
  "c_ungetc c f =
     (if c = EOF \<or> cungot f \<noteq> None \<or> \<not> creadable f then (EOF, f)
      else (uint (uchar c), f\<lparr>cungot := Some (uchar c), ceof := False\<rparr>))"

text \<open>Up to \<open>n\<close> bytes; a line of at most \<open>n\<close> bytes.\<close>

fun c_getn :: "nat \<Rightarrow> c_file \<Rightarrow> byte list \<times> c_file" where
  "c_getn 0 f = ([], f)"
| "c_getn (Suc n) f =
     (let (c, f) = c_fgetc f in
      if c = EOF then ([], f) else let (bs, f) = c_getn n f in (uchar c # bs, f))"

fun c_getline :: "nat \<Rightarrow> c_file \<Rightarrow> byte list \<times> c_file" where
  "c_getline 0 f = ([], f)"
| "c_getline (Suc n) f =
     (let (c, f) = c_fgetc f in
      if c = EOF then ([], f)
      else if c = 10 then ([10], f)
      else let (bs, f) = c_getline n f in (uchar c # bs, f))"

text \<open>\<open>fread\<close> returns the number of whole elements and the bytes it has stored.\<close>

definition c_fread :: "nat \<Rightarrow> nat \<Rightarrow> c_file \<Rightarrow> (nat \<times> byte list) \<times> c_file" where
  "c_fread sz nmemb f = (let (bs, f) = c_getn (sz * nmemb) f in ((length bs div sz, bs), f))"

definition c_fgets :: "int \<Rightarrow> c_file \<Rightarrow> byte list option \<times> c_file" where
  "c_fgets sz f =
     (if sz \<le> 0 then (None, f)
      else if sz = 1 then (Some [], f)
      else let (bs, f) = c_getline (nat (sz - 1)) f in (if bs = [] then None else Some bs, f))"

section \<open>Writing\<close>

text \<open>The bytes are stored at the position, or at the end of a stream open for appending.\<close>

definition c_write :: "byte list \<Rightarrow> c_file \<Rightarrow> bool \<times> c_file" where
  "c_write bs f =
     (if bs = [] then (True, f)
      else if \<not> cwritable f then (False, f\<lparr>cerror := True\<rparr>)
      else
        let p = (if cappend f then length (cdata f) else cpos f) in
        (True, f\<lparr>cdata := take p (cdata f) @ replicate (p - length (cdata f)) 0 @ bs @ drop (p + length bs) (cdata f),
                 cpos := p + length bs, cungot := None\<rparr>))"

definition c_fputc :: "int \<Rightarrow> c_file \<Rightarrow> int \<times> c_file" where
  "c_fputc c f = (let (ok, f) = c_write [uchar c] f in (if ok then uint (uchar c) else EOF, f))"

text \<open>\<open>fputs\<close> returns some value that is not negative.\<close>

definition c_fputs :: "byte list \<Rightarrow> c_file \<Rightarrow> int \<times> c_file" where
  "c_fputs str f = (let (ok, f) = c_write (c_str str) f in (if ok then 1 else EOF, f))"

definition c_fwrite :: "byte list \<Rightarrow> nat \<Rightarrow> nat \<Rightarrow> c_file \<Rightarrow> nat \<times> c_file" where
  "c_fwrite bs sz nmemb f =
     (let (ok, f) = c_write (take (sz * nmemb) bs) f in (if ok then sz * nmemb div sz else 0, f))"

text \<open>What \<open>%n\<close> stores while the pieces of a format are printed.\<close>

fun count_pieces :: "int \<Rightarrow> cells \<Rightarrow> piece list \<Rightarrow> cells" where
  "count_pieces n m [] = m"
| "count_pieces n m (Text bs # ps) = count_pieces (n + int (length bs)) m ps"
| "count_pieces n m (Count x short # ps) =
     count_pieces n (m(x := if short then sint (word_of_int n :: 16 word) else n)) ps"

definition c_vfprintf ::
  "'d libc \<Rightarrow> byte list \<Rightarrow> 'd varg list \<Rightarrow> cells \<Rightarrow> c_file \<Rightarrow> ((int \<times> cells) \<times> c_file) option" where
  "c_vfprintf L format arg m f =
     do { n \<leftarrow> strlen format;
          ps \<leftarrow> c_printf L (take n format) arg;
          ASSERT (int (length (text_of ps)) \<le> INT_MAX);
          let (ok, f) = c_write (text_of ps) f;
          Some (if ok then (int (length (text_of ps)), count_pieces 0 m ps) else (-1, m), f) }"

section \<open>Positions and flags\<close>

text \<open>\<open>SEEK_SET\<close>, \<open>SEEK_CUR\<close> and \<open>SEEK_END\<close> are 0, 1 and 2.\<close>

definition c_ftell :: "c_file \<Rightarrow> int \<times> c_file" where
  "c_ftell f =
     (if cseekable f then int (cpos f) - (if cungot f = None then 0 else 1) else -1, f)"

definition c_fseek :: "int \<Rightarrow> int \<Rightarrow> c_file \<Rightarrow> int \<times> c_file" where
  "c_fseek offset whence f =
     (let p = (if whence = 0 then offset
               else if whence = 1 then fst (c_ftell f) + offset
               else int (length (cdata f)) + offset) in
      if \<not> cseekable f \<or> whence \<notin> {0, 1, 2} \<or> p < 0 then (-1, f)
      else (0, f\<lparr>cpos := nat p, ceof := False, cungot := None\<rparr>))"

definition c_rewind :: "c_file \<Rightarrow> unit \<times> c_file" where
  "c_rewind f = ((), (snd (c_fseek 0 0 f))\<lparr>cerror := False\<rparr>)"

definition c_fgetpos :: "c_file \<Rightarrow> (int \<times> int) \<times> c_file" where
  "c_fgetpos f = (let (p, f) = c_ftell f in ((if p < 0 then -1 else 0, p), f))"

definition c_fsetpos :: "int \<Rightarrow> c_file \<Rightarrow> int \<times> c_file" where
  "c_fsetpos p f = c_fseek p 0 f"

definition c_setvbuf :: "int \<Rightarrow> c_file \<Rightarrow> int \<times> c_file" where
  "c_setvbuf bufmode f = (if bufmode \<in> {0, 1, 2} then 0 else -1, f)"

definition c_clearerr :: "c_file \<Rightarrow> unit \<times> c_file" where
  "c_clearerr f = ((), f\<lparr>ceof := False, cerror := False\<rparr>)"

section \<open>What reading delivers\<close>

text \<open>A stream open for reading with nothing pushed back: what is left of it.\<close>

definition c_src :: "byte list \<Rightarrow> c_file \<Rightarrow> bool" where
  "c_src xs f \<longleftrightarrow> creadable f \<and> cungot f = None \<and> xs = drop (cpos f) (cdata f) \<and> (ceof f \<longrightarrow> xs = [])"

lemma c_fgetc_src:
  assumes "c_src xs f"
  shows "\<exists>f'. c_fgetc f = (if xs = [] then EOF else uint (hd xs), f') \<and> c_src (tl xs) f'"
proof (cases "cpos f < length (cdata f)")
  case True
  then have "drop (cpos f) (cdata f) = cdata f ! cpos f # drop (Suc (cpos f)) (cdata f)" by (simp add: Cons_nth_drop_Suc)
  with True assms show ?thesis by (auto simp: c_src_def c_fgetc_def)
qed (use assms in \<open>auto simp: c_src_def c_fgetc_def\<close>)

lemma uint_not_EOF [simp]: "uint (b :: byte) \<noteq> EOF"
  using uint_ge_0 [of b] unfolding EOF_def by linarith

lemma c_getn_src:
  assumes "c_src xs f"
  shows "\<exists>f'. c_getn n f = (take n xs, f') \<and> c_src (drop n xs) f'"
  using assms
proof (induction n arbitrary: xs f)
  case (Suc n)
  from c_fgetc_src [OF Suc.prems] obtain f1 where
    1: "c_fgetc f = (if xs = [] then EOF else uint (hd xs), f1)" "c_src (tl xs) f1" by blast
  show ?case
  proof (cases xs)
    case Nil
    with 1 show ?thesis by auto
  next
    case (Cons x ys)
    with Suc.IH [of ys f1] 1 show ?thesis by auto
  qed
qed simp

lemma c_getline_src:
  assumes "c_src xs f"
  shows "\<exists>f'. c_getline n f = (line_of n xs, f') \<and> c_src (drop (length (line_of n xs)) xs) f'"
  using assms
proof (induction n arbitrary: xs f)
  case (Suc n)
  from c_fgetc_src [OF Suc.prems] obtain f1 where
    1: "c_fgetc f = (if xs = [] then EOF else uint (hd xs), f1)" "c_src (tl xs) f1" by blast
  show ?case
  proof (cases xs)
    case Nil
    with 1 show ?thesis by auto
  next
    case (Cons x ys)
    have "uint x = 10 \<longleftrightarrow> x = 10" by (simp add: word_uint_eq_iff)
    with Cons Suc.IH [of ys f1] 1 show ?thesis by (auto split: if_splits)
  qed
qed simp

end
