(* ===== verification/FcgiStdio.thy ===== *)
theory FcgiStdio
  imports CStdio Serve
begin

text \<open>
  \<open>fcgi_stdio.c\<close>: the functions that stand in for the C library's in a program compiled with
  \<open>fcgi_stdio.h\<close>. Each looks at its \<open>FCGI_FILE\<close> and passes the call on, to the C library when
  \<open>stdio_stream\<close> is set and to the request's stream when \<open>fcgx_stream\<close> is.

  A pointer to a \<open>FILE\<close> is its number in \<open>files\<close>, one to a request's stream says which of the three it is,
  one to an \<open>FCGI_FILE\<close> is a number in \<open>fcgi_sF\<close>, where 0, 1 and 2 are \<open>FCGI_stdin\<close>, \<open>FCGI_stdout\<close> and
  \<open>FCGI_stderr\<close>. Using a stream that has been freed, a closed \<open>FILE\<close> or a freed \<open>FCGI_FILE\<close> has no result.
\<close>

section \<open>State\<close>

datatype fcgx = In_stream | Out_stream | Err_stream

record FCGI_FILE =
  stdio_stream :: "nat option"
  fcgx_stream :: "fcgx option"

text \<open>The environment \<open>getenv\<close> reads: that of the process, a request's vector, or none.\<close>

datatype env_pointer = Process_env | Request_env "slot list option" | Null_env

record fcgi_stdio = c_stdio +
  lib :: fcgiapp
  acceptCalled :: bool
  isCGI :: bool
  at_exit :: bool
  environ_ptr :: env_pointer
  fcgi_sF :: "nat \<Rightarrow> FCGI_FILE option"
  next_fcgi :: nat

abbreviation (input) FCGI_stdin :: nat where "FCGI_stdin \<equiv> 0"
abbreviation (input) FCGI_stdout :: nat where "FCGI_stdout \<equiv> 1"
abbreviation (input) FCGI_stderr :: nat where "FCGI_stderr \<equiv> 2"
abbreviation (input) ESPIPE :: int where "ESPIPE \<equiv> 29"

type_synonym 'a run = "('a \<times> fcgi_stdio \<times> os) option"

section \<open>Passing a call on\<close>

fun request_stream :: "fcgx \<Rightarrow> Request \<Rightarrow> stream option" where
  "request_stream In_stream q = in_ptr q"
| "request_stream Out_stream q = out_ptr q"
| "request_stream Err_stream q = err_ptr q"

fun set_request_stream :: "fcgx \<Rightarrow> stream \<Rightarrow> Request \<Rightarrow> Request" where
  "set_request_stream In_stream s q = q\<lparr>in_ptr := Some s\<rparr>"
| "set_request_stream Out_stream s q = q\<lparr>out_ptr := Some s\<rparr>"
| "set_request_stream Err_stream s q = q\<lparr>err_ptr := Some s\<rparr>"

definition on_fcgx ::
  "fcgx \<Rightarrow> (stream \<Rightarrow> FCGX_Request \<Rightarrow> os \<Rightarrow> ('a \<times> stream \<times> FCGX_Request \<times> os) option)
     \<Rightarrow> fcgi_stdio \<Rightarrow> os \<Rightarrow> 'a run" where
  "on_fcgx p f st k =
     do { let q = the_request (lib st);
          s \<leftarrow> request_stream p q;
          (v, s, r, k) \<leftarrow> f s (reqData q) k;
          Some (v, st\<lparr>lib := (lib st)\<lparr>the_request := (set_request_stream p s q)\<lparr>reqData := r\<rparr>\<rparr>\<rparr>, k) }"

text \<open>The three branches most functions have.\<close>

definition dispatch ::
  "nat \<Rightarrow> (nat \<Rightarrow> fcgi_stdio \<Rightarrow> os \<Rightarrow> 'a run) \<Rightarrow> (fcgx \<Rightarrow> fcgi_stdio \<Rightarrow> os \<Rightarrow> 'a run)
     \<Rightarrow> (fcgi_stdio \<Rightarrow> os \<Rightarrow> 'a run) \<Rightarrow> fcgi_stdio \<Rightarrow> os \<Rightarrow> 'a run" where
  "dispatch fp c x neither st k =
     do { f \<leftarrow> fcgi_sF st fp;
          case stdio_stream f of
            Some h \<Rightarrow> c h st k
          | None \<Rightarrow> (case fcgx_stream f of Some p \<Rightarrow> x p st k | None \<Rightarrow> neither st k) }"

definition by_stdio :: "(c_file \<Rightarrow> 'a \<times> c_file) \<Rightarrow> nat \<Rightarrow> fcgi_stdio \<Rightarrow> os \<Rightarrow> 'a run" where
  "by_stdio f h st k = do { (v, st) \<leftarrow> on_file h f st; Some (v, st, k) }"

definition gives :: "'a \<Rightarrow> fcgi_stdio \<Rightarrow> os \<Rightarrow> 'a run" where
  "gives v st k = Some (v, st, k)"

text \<open>\<open>OS_SetErrno\<close>; with it a function that a request's stream has nothing for.\<close>

definition OS_SetErrno :: "int \<Rightarrow> os \<Rightarrow> os" where
  "OS_SetErrno err k = k\<lparr>errno := err\<rparr>"

definition no_seek :: "'a \<Rightarrow> fcgi_stdio \<Rightarrow> os \<Rightarrow> 'a run" where
  "no_seek v st k = Some (v, st, OS_SetErrno ESPIPE k)"

definition set_sF :: "nat \<Rightarrow> nat option \<Rightarrow> fcgx option \<Rightarrow> fcgi_stdio \<Rightarrow> fcgi_stdio" where
  "set_sF fp h x st = st\<lparr>fcgi_sF := (fcgi_sF st)(fp \<mapsto> \<lparr>stdio_stream = h, fcgx_stream = x\<rparr>)\<rparr>"

section \<open>Requests\<close>

definition FCGI_Accept :: "fcgi_stdio \<Rightarrow> os \<Rightarrow> int run" where
  "FCGI_Accept st k =
     (if acceptCalled st \<and> isCGI st then Some (EOF, st, k)
      else
        do { (st, k) \<leftarrow>
               (if \<not> acceptCalled st then
                  do { (cgi, a, k) \<leftarrow> FCGX_IsCGI (lib st) k;
                       Some (st\<lparr>lib := a, isCGI := cgi, acceptCalled := True, at_exit := True\<rparr>, k) }
                else Some (st, k));
             if isCGI st then
               Some (0, set_sF FCGI_stderr (Some 2) None (set_sF FCGI_stdout (Some 1) None
                          (set_sF FCGI_stdin (Some 0) None st)), k)
             else
               do { (acceptResult, ptrs, a, k) \<leftarrow> FCGX_Accept (lib st) k;
                    let st = st\<lparr>lib := a\<rparr>;
                    if acceptResult < 0 then Some (acceptResult, st, k)
                    else
                      Some (0, (set_sF FCGI_stderr None (Some Err_stream) (set_sF FCGI_stdout None (Some Out_stream)
                                 (set_sF FCGI_stdin None (Some In_stream) st)))
                               \<lparr>environ_ptr := Request_env (case ptrs of None \<Rightarrow> None | Some (_, _, _, e) \<Rightarrow> e)\<rparr>, k) } })"

definition no_fcgx :: "nat \<Rightarrow> fcgi_stdio \<Rightarrow> fcgi_stdio" where
  "no_fcgx fp st = st\<lparr>fcgi_sF := (fcgi_sF st)(fp := map_option (\<lambda>f. f\<lparr>fcgx_stream := None\<rparr>) (fcgi_sF st fp))\<rparr>"

definition FCGI_Finish :: "fcgi_stdio \<Rightarrow> os \<Rightarrow> (fcgi_stdio \<times> os) option" where
  "FCGI_Finish st k =
     (if \<not> acceptCalled st \<or> isCGI st then Some (st, k)
      else
        do { (a, k) \<leftarrow> FCGX_Finish (lib st) k;
             Some ((no_fcgx FCGI_stderr (no_fcgx FCGI_stdout (no_fcgx FCGI_stdin (st\<lparr>lib := a\<rparr>))))
                     \<lparr>environ_ptr := Null_env\<rparr>, k) })"

text \<open>\<open>FCGX_StartFilterData\<close> is called with whatever \<open>fcgx_stream\<close> is, a null pointer included.\<close>

definition FCGI_StartFilterData :: "fcgi_stdio \<Rightarrow> os \<Rightarrow> int run" where
  "FCGI_StartFilterData =
     dispatch FCGI_stdin (\<lambda>_. gives (-1))
       (\<lambda>p. on_fcgx p (\<lambda>s r k. do { (v, s) \<leftarrow> FCGX_StartFilterData s r; Some (v, s, r, k) }))
       (\<lambda>st k. None)"

definition FCGI_SetExitStatus :: "int \<Rightarrow> fcgi_stdio \<Rightarrow> os \<Rightarrow> unit run" where
  "FCGI_SetExitStatus status st k =
     do { f \<leftarrow> fcgi_sF st FCGI_stdin;
          case fcgx_stream f of
            Some p \<Rightarrow> on_fcgx p (\<lambda>s r k. Some ((), s, FCGX_SetExitStatus status r, k)) st k
          | None \<Rightarrow> Some ((), st, k) }"

section \<open>Opening and closing\<close>

text \<open>\<open>FCGI_OpenFromFILE\<close>; \<open>FCGI_FILE\<close> has 16 bytes.\<close>

definition FCGI_OpenFromFILE :: "nat option \<Rightarrow> fcgi_stdio \<Rightarrow> os \<Rightarrow> nat option \<times> fcgi_stdio" where
  "FCGI_OpenFromFILE stream st k =
     (case stream of
        None \<Rightarrow> (None, st)
      | Some h \<Rightarrow>
          if malloc_at k 16 = 0 then (None, st)
          else (Some (next_fcgi st), (set_sF (next_fcgi st) (Some h) None st)\<lparr>next_fcgi := next_fcgi st + 1\<rparr>))"

text \<open>Opening: a \<open>FILE\<close> that cannot be wrapped is closed again, with \<open>fclose\<close> or, by \<open>FCGI_popen\<close>, \<open>pclose\<close>.\<close>

definition open_and_wrap :: "byte list \<Rightarrow> fcgi_stdio \<Rightarrow> os \<Rightarrow> (nat option) run" where
  "open_and_wrap mode st k =
     do { let (file, st) = c_open mode st;
          let (fcgi_file, st) = FCGI_OpenFromFILE file st k;
          case (file, fcgi_file) of
            (Some h, None) \<Rightarrow> do { (_, st) \<leftarrow> c_fclose h st; Some (None, st, k) }
          | _ \<Rightarrow> Some (fcgi_file, st, k) }"

definition FCGI_fopen :: "byte list \<Rightarrow> byte list \<Rightarrow> fcgi_stdio \<Rightarrow> os \<Rightarrow> (nat option) run" where
  "FCGI_fopen path mode = open_and_wrap mode"

definition FCGI_tmpfile :: "fcgi_stdio \<Rightarrow> os \<Rightarrow> (nat option) run" where
  "FCGI_tmpfile = open_and_wrap (bytes_of ''wb+'' @ [0])"

definition FCGI_fdopen :: "int \<Rightarrow> byte list \<Rightarrow> fcgi_stdio \<Rightarrow> os \<Rightarrow> (nat option) run" where
  "FCGI_fdopen fd mode = open_and_wrap mode"

definition FCGI_popen :: "byte list \<Rightarrow> byte list \<Rightarrow> fcgi_stdio \<Rightarrow> os \<Rightarrow> (nat option) run" where
  "FCGI_popen cmd typ = open_and_wrap typ"

text \<open>\<open>free(fp)\<close>, of the files that are not static.\<close>

definition free_fp :: "nat \<Rightarrow> fcgi_stdio \<Rightarrow> fcgi_stdio" where
  "free_fp fp st =
     (if fp \<noteq> FCGI_stdin \<and> fp \<noteq> FCGI_stdout \<and> fp \<noteq> FCGI_stderr
      then st\<lparr>fcgi_sF := (fcgi_sF st)(fp := None)\<rparr> else st)"

definition fclose_fcgx :: "fcgx \<Rightarrow> fcgi_stdio \<Rightarrow> os \<Rightarrow> int run" where
  "fclose_fcgx p = on_fcgx p (FCGX_FClose EmptyBuffProc)"

definition FCGI_fclose :: "nat \<Rightarrow> fcgi_stdio \<Rightarrow> os \<Rightarrow> int run" where
  "FCGI_fclose fp st k =
     do { f \<leftarrow> fcgi_sF st fp;
          (n, st, k) \<leftarrow>
            dispatch fp
              (\<lambda>h st k. do { (n, st) \<leftarrow> c_fclose h st; Some (n, set_sF fp None (fcgx_stream f) st, k) })
              (\<lambda>p st k. do { (n, st, k) \<leftarrow> fclose_fcgx p st k; Some (n, set_sF fp (stdio_stream f) None st, k) })
              (gives EOF) st k;
          Some (n, free_fp fp st, k) }"

definition FCGI_pclose :: "nat \<Rightarrow> fcgi_stdio \<Rightarrow> os \<Rightarrow> int run" where
  "FCGI_pclose fp st k =
     do { f \<leftarrow> fcgi_sF st fp;
          dispatch fp
            (\<lambda>h st k. do { (n, st) \<leftarrow> c_fclose h st; Some (n, free_fp fp (set_sF fp None (fcgx_stream f) st), k) })
            (\<lambda>p. gives EOF)
            (\<lambda>st k. Some (EOF, free_fp fp st, k)) st k }"

text \<open>\<open>FCGI_fflush\<close>; a null pointer flushes the streams of the C library.\<close>

definition FCGI_fflush :: "nat option \<Rightarrow> fcgi_stdio \<Rightarrow> os \<Rightarrow> int run" where
  "FCGI_fflush fp st k =
     (case fp of
        None \<Rightarrow> Some (0, st, k)
      | Some fp \<Rightarrow> dispatch fp (by_stdio (\<lambda>f. (0, f))) (\<lambda>p. on_fcgx p (FCGX_FFlush EmptyBuffProc)) (gives EOF) st k)"

text \<open>\<open>FCGI_freopen\<close> returns \<open>fp\<close> or, for \<open>None\<close>, the null pointer.\<close>

definition FCGI_freopen :: "byte list \<Rightarrow> byte list \<Rightarrow> nat \<Rightarrow> fcgi_stdio \<Rightarrow> os \<Rightarrow> (nat option) run" where
  "FCGI_freopen path mode fp =
     dispatch fp
       (\<lambda>h st k. do { (ok, st) \<leftarrow> c_freopen mode h st; Some (if ok then Some fp else None, st, k) })
       (\<lambda>p st k.
          do { (_, st, k) \<leftarrow> fclose_fcgx p st k;
               let (file, st) = c_open mode st;
               case file of
                 None \<Rightarrow> Some (None, set_sF fp None (Some p) st, k)
               | Some h \<Rightarrow> Some (Some fp, set_sF fp (Some h) None st, k) })
       (gives None)"

section \<open>Buffering and positions\<close>

definition FCGI_setvbuf :: "nat \<Rightarrow> int \<Rightarrow> fcgi_stdio \<Rightarrow> os \<Rightarrow> int run" where
  "FCGI_setvbuf fp bufmode = dispatch fp (by_stdio (c_setvbuf bufmode)) (\<lambda>p. gives (-1)) (gives (-1))"

definition FCGI_setbuf :: "nat \<Rightarrow> fcgi_stdio \<Rightarrow> os \<Rightarrow> unit run" where
  "FCGI_setbuf fp = dispatch fp (by_stdio (\<lambda>f. ((), f))) (\<lambda>p. gives ()) (gives ())"

definition FCGI_fseek :: "nat \<Rightarrow> int \<Rightarrow> int \<Rightarrow> fcgi_stdio \<Rightarrow> os \<Rightarrow> int run" where
  "FCGI_fseek fp offset whence =
     dispatch fp (by_stdio (c_fseek offset whence)) (\<lambda>p. no_seek (-1)) (no_seek (-1))"

text \<open>\<open>FCGI_ftell\<close> returns an \<open>int\<close>, the \<open>long\<close> of \<open>ftell\<close> converted.\<close>

definition FCGI_ftell :: "nat \<Rightarrow> fcgi_stdio \<Rightarrow> os \<Rightarrow> int run" where
  "FCGI_ftell fp =
     dispatch fp (by_stdio (\<lambda>f. let (p, f) = c_ftell f in (int_of_long p, f))) (\<lambda>p. no_seek (-1)) (no_seek (-1))"

definition FCGI_rewind :: "nat \<Rightarrow> fcgi_stdio \<Rightarrow> os \<Rightarrow> unit run" where
  "FCGI_rewind fp = dispatch fp (by_stdio c_rewind) (\<lambda>p. no_seek ()) (no_seek ())"

definition FCGI_fgetpos :: "nat \<Rightarrow> fcgi_stdio \<Rightarrow> os \<Rightarrow> (int \<times> int) run" where
  "FCGI_fgetpos fp = dispatch fp (by_stdio c_fgetpos) (\<lambda>p. no_seek (-1, 0)) (no_seek (-1, 0))"

definition FCGI_fsetpos :: "nat \<Rightarrow> int \<Rightarrow> fcgi_stdio \<Rightarrow> os \<Rightarrow> int run" where
  "FCGI_fsetpos fp pos = dispatch fp (by_stdio (c_fsetpos pos)) (\<lambda>p. no_seek (-1)) (no_seek (-1))"

section \<open>Reading\<close>

definition FCGI_fgetc :: "nat \<Rightarrow> fcgi_stdio \<Rightarrow> os \<Rightarrow> int run" where
  "FCGI_fgetc fp = dispatch fp (by_stdio c_fgetc) (\<lambda>p. on_fcgx p (FCGX_GetChar FillBuffProc)) (gives EOF)"

definition FCGI_getchar :: "fcgi_stdio \<Rightarrow> os \<Rightarrow> int run" where
  "FCGI_getchar = FCGI_fgetc FCGI_stdin"

definition FCGI_ungetc :: "int \<Rightarrow> nat \<Rightarrow> fcgi_stdio \<Rightarrow> os \<Rightarrow> int run" where
  "FCGI_ungetc c fp =
     dispatch fp (by_stdio (c_ungetc c))
       (\<lambda>p. on_fcgx p (\<lambda>s r k. do { (v, s) \<leftarrow> FCGX_UnGetChar c s; Some (v, s, r, k) })) (gives EOF)"

text \<open>\<open>None\<close> for the null pointer, else the bytes stored before the terminating zero.\<close>

definition FCGI_fgets :: "int \<Rightarrow> nat \<Rightarrow> fcgi_stdio \<Rightarrow> os \<Rightarrow> (byte list option) run" where
  "FCGI_fgets sz fp =
     dispatch fp (by_stdio (c_fgets sz)) (\<lambda>p. on_fcgx p (FCGX_GetLine FillBuffProc sz)) (gives None)"

text \<open>The loop of \<open>FCGI_gets\<close>; \<open>acc\<close> is what lies between \<open>str\<close> and \<open>s\<close>.\<close>

partial_function (option) Gets_loop :: "byte list \<Rightarrow> fcgi_stdio \<Rightarrow> os \<Rightarrow> (byte list option) run" where
  "Gets_loop acc st k =
     do { (c, st, k) \<leftarrow> FCGI_getchar st k;
          if c = 10 then Some (Some acc, st, k)
          else if c = EOF then Some (if acc = [] then None else Some acc, st, k)
          else Gets_loop (acc @ [uchar c]) st k }"

declare Gets_loop.simps [code]

definition FCGI_gets :: "fcgi_stdio \<Rightarrow> os \<Rightarrow> (byte list option) run" where
  "FCGI_gets = Gets_loop []"

section \<open>Writing\<close>

definition FCGI_fputc :: "int \<Rightarrow> nat \<Rightarrow> fcgi_stdio \<Rightarrow> os \<Rightarrow> int run" where
  "FCGI_fputc c fp = dispatch fp (by_stdio (c_fputc c)) (\<lambda>p. on_fcgx p (FCGX_PutChar EmptyBuffProc c)) (gives EOF)"

definition FCGI_putchar :: "int \<Rightarrow> fcgi_stdio \<Rightarrow> os \<Rightarrow> int run" where
  "FCGI_putchar c = FCGI_fputc c FCGI_stdout"

definition FCGI_fputs :: "byte list \<Rightarrow> nat \<Rightarrow> fcgi_stdio \<Rightarrow> os \<Rightarrow> int run" where
  "FCGI_fputs str fp = dispatch fp (by_stdio (c_fputs str)) (\<lambda>p. on_fcgx p (FCGX_PutS EmptyBuffProc str)) (gives EOF)"

definition FCGI_puts :: "byte list \<Rightarrow> fcgi_stdio \<Rightarrow> os \<Rightarrow> int run" where
  "FCGI_puts str =
     dispatch FCGI_stdout
       (\<lambda>h st k. do { (n, st, k) \<leftarrow> by_stdio (c_fputs str) h st k;
                      if n < 0 then Some (n, st, k) else by_stdio (c_fputc 10) h st k })
       (\<lambda>p st k. do { (n, st, k) \<leftarrow> on_fcgx p (FCGX_PutS EmptyBuffProc str) st k;
                      if n < 0 then Some (n, st, k) else on_fcgx p (FCGX_PutChar EmptyBuffProc 10) st k })
       (gives EOF)"

text \<open>\<open>strerror\<close> is the C library's.\<close>

definition FCGI_perror :: "(int \<Rightarrow> byte list) \<Rightarrow> byte list \<Rightarrow> fcgi_stdio \<Rightarrow> os \<Rightarrow> unit run" where
  "FCGI_perror strerror str st k =
     do { (_, st, k) \<leftarrow> FCGI_fputs str FCGI_stderr st k;
          (_, st, k) \<leftarrow> FCGI_fputs (bytes_of '': '' @ [0]) FCGI_stderr st k;
          (_, st, k) \<leftarrow> FCGI_fputs (strerror (errno k)) FCGI_stderr st k;
          Some ((), st, k) }"

definition vfprintf_stdio ::
  "'d libc \<Rightarrow> byte list \<Rightarrow> 'd varg list \<Rightarrow> cells \<Rightarrow> nat \<Rightarrow> fcgi_stdio \<Rightarrow> os \<Rightarrow> (int \<times> cells) run" where
  "vfprintf_stdio L format ap m h st k =
     do { f \<leftarrow> files st h;
          (v, f) \<leftarrow> c_vfprintf L format ap m f;
          Some (v, st\<lparr>files := (files st)(h \<mapsto> f)\<rparr>, k) }"

definition vfprintf_fcgx ::
  "'d libc \<Rightarrow> byte list \<Rightarrow> 'd varg list \<Rightarrow> cells \<Rightarrow> fcgx \<Rightarrow> fcgi_stdio \<Rightarrow> os \<Rightarrow> (int \<times> cells) run" where
  "vfprintf_fcgx L format ap m p =
     on_fcgx p (\<lambda>s r k. do { (n, m, s, r, k) \<leftarrow> FCGX_VFPrintF EmptyBuffProc L format ap m s r k; Some ((n, m), s, r, k) })"

definition FCGI_fprintf ::
  "'d libc \<Rightarrow> nat \<Rightarrow> byte list \<Rightarrow> 'd varg list \<Rightarrow> cells \<Rightarrow> fcgi_stdio \<Rightarrow> os \<Rightarrow> (int \<times> cells) run" where
  "FCGI_fprintf L fp format ap m =
     dispatch fp (vfprintf_stdio L format ap m) (vfprintf_fcgx L format ap m) (gives (0, m))"

definition FCGI_vfprintf ::
  "'d libc \<Rightarrow> nat \<Rightarrow> byte list \<Rightarrow> 'd varg list \<Rightarrow> cells \<Rightarrow> fcgi_stdio \<Rightarrow> os \<Rightarrow> (int \<times> cells) run" where
  "FCGI_vfprintf L fp format ap m =
     dispatch fp (vfprintf_stdio L format ap m) (vfprintf_fcgx L format ap m) (gives (EOF, m))"

definition FCGI_printf ::
  "'d libc \<Rightarrow> byte list \<Rightarrow> 'd varg list \<Rightarrow> cells \<Rightarrow> fcgi_stdio \<Rightarrow> os \<Rightarrow> (int \<times> cells) run" where
  "FCGI_printf L format ap m = FCGI_vfprintf L FCGI_stdout format ap m"

definition FCGI_vprintf ::
  "'d libc \<Rightarrow> byte list \<Rightarrow> 'd varg list \<Rightarrow> cells \<Rightarrow> fcgi_stdio \<Rightarrow> os \<Rightarrow> (int \<times> cells) run" where
  "FCGI_vprintf L format ap m =
     dispatch FCGI_stdout (vfprintf_stdio L format ap m) (vfprintf_fcgx L format ap m) (gives (EOF, m))"

section \<open>Blocks\<close>

text \<open>Sizes are \<open>size_t\<close>, whose product may wrap around; the bytes read come back beside the count.\<close>

abbreviation (input) size_EOF :: "64 word" where "size_EOF \<equiv> - 1"

definition FCGI_fread :: "64 word \<Rightarrow> 64 word \<Rightarrow> nat \<Rightarrow> fcgi_stdio \<Rightarrow> os \<Rightarrow> (64 word \<times> byte list) run" where
  "FCGI_fread sz nmemb fp =
     dispatch fp
       (by_stdio (\<lambda>f. let ((n, bs), f) = c_fread (unat sz) (unat nmemb) f in ((of_nat n, bs), f)))
       (\<lambda>p st k.
          if sz * nmemb = 0 then Some ((0, []), st, k)
          else
            do { ASSERT (uint (sz * nmemb) < INT_MAX);
                 ((n, bs), st, k) \<leftarrow>
                   on_fcgx p (\<lambda>s r k. do { (n, bs, s, r, k) \<leftarrow> FCGX_GetStr FillBuffProc (uint (sz * nmemb)) s r k;
                                             Some ((n, bs), s, r, k) }) st k;
                 ASSERT (0 \<le> n);
                 Some ((word_of_int n div sz, bs), st, k) })
       (gives (size_EOF, []))"

definition FCGI_fwrite :: "byte list \<Rightarrow> 64 word \<Rightarrow> 64 word \<Rightarrow> nat \<Rightarrow> fcgi_stdio \<Rightarrow> os \<Rightarrow> (64 word) run" where
  "FCGI_fwrite ptr sz nmemb fp =
     dispatch fp
       (\<lambda>h st k.
          do { ASSERT (unat sz * unat nmemb \<le> length ptr);
               by_stdio (\<lambda>f. let (n, f) = c_fwrite ptr (unat sz) (unat nmemb) f in (of_nat n, f)) h st k })
       (\<lambda>p st k.
          if sz * nmemb = 0 then Some (0, st, k)
          else
            do { ASSERT (uint (sz * nmemb) < INT_MAX);
                 (n, st, k) \<leftarrow> on_fcgx p (FCGX_PutStr EmptyBuffProc ptr (uint (sz * nmemb))) st k;
                 ASSERT (0 \<le> n);
                 Some (word_of_int n div sz, st, k) })
       (gives size_EOF)"

section \<open>Flags and descriptors\<close>

definition FCGI_feof :: "nat \<Rightarrow> fcgi_stdio \<Rightarrow> os \<Rightarrow> int run" where
  "FCGI_feof fp =
     dispatch fp (by_stdio (\<lambda>f. (of_bool (ceof f), f)))
       (\<lambda>p. on_fcgx p (\<lambda>s r k. Some (FCGX_HasSeenEOF s, s, r, k))) (gives (-1))"

definition FCGI_ferror :: "nat \<Rightarrow> fcgi_stdio \<Rightarrow> os \<Rightarrow> int run" where
  "FCGI_ferror fp =
     dispatch fp (by_stdio (\<lambda>f. (of_bool (cerror f), f)))
       (\<lambda>p. on_fcgx p (\<lambda>s r k. Some (FCGX_GetError s, s, r, k))) (gives (-1))"

definition FCGI_clearerr :: "nat \<Rightarrow> fcgi_stdio \<Rightarrow> os \<Rightarrow> unit run" where
  "FCGI_clearerr fp =
     dispatch fp (by_stdio c_clearerr) (\<lambda>p. on_fcgx p (\<lambda>s r k. Some ((), FCGX_ClearError s, r, k))) (gives ())"

definition FCGI_fileno :: "nat \<Rightarrow> fcgi_stdio \<Rightarrow> os \<Rightarrow> int run" where
  "FCGI_fileno fp = dispatch fp (by_stdio (\<lambda>f. (cfileno f, f))) (\<lambda>p. gives (-1)) (gives (-1))"

end
