(* ===== verification/StdioCalls.thy ===== *)
theory StdioCalls
  imports FcgiStdio Formatted
begin

text \<open>
  Programs that use \<open>fcgi_stdio.c\<close>: its functions as a datatype of calls, \<open>perform\<close> that runs one, and
  the table of \<open>FCGI_FILE\<close>s between the calls. \<open>well_formed\<close> is the type of that table: every call but a
  failed \<open>FCGI_freopen\<close> keeps it (\<open>perform_well_formed\<close>), and in a table of that type no function is ever
  called on a \<open>FILE\<close> that has been closed (\<open>perform_progress\<close>).
\<close>

section \<open>Calls\<close>

datatype 'd io_call =
    Accept | Finish | StartFilterData | SetExitStatus int
  | Perror "byte list"
  | Fopen "byte list" "byte list" | Tmpfile | Fdopen int "byte list" | Popen "byte list" "byte list"
  | Fclose nat | Pclose nat | Fflush "nat option" | Freopen "byte list" "byte list" nat
  | Setvbuf nat int | Setbuf nat
  | Fseek nat int int | Ftell nat | Rewind nat | Fgetpos nat | Fsetpos nat int
  | Fgetc nat | Getchar | Ungetc int nat | Fgets int nat | Gets
  | Fputc int nat | Putchar int | Fputs "byte list" nat | Puts "byte list"
  | Fprintf nat "byte list" "'d varg list" cells | Printf "byte list" "'d varg list" cells
  | Vfprintf nat "byte list" "'d varg list" cells | Vprintf "byte list" "'d varg list" cells
  | Fread "64 word" "64 word" nat | Fwrite "byte list" "64 word" "64 word" nat
  | Feof nat | Ferror nat | Clearerr nat | Fileno nat

text \<open>What a call gives the program: the value returned, and what it stores.\<close>

datatype io_result =
    Done | Number int | File "nat option" | Text_read "byte list option" | Block "64 word" "byte list"
  | Position int int | Printed int cells

definition returns :: "('a \<Rightarrow> io_result) \<Rightarrow> 'a run \<Rightarrow> io_result run" where
  "returns g x = do { (v, st, k) \<leftarrow> x; Some (g v, st, k) }"

fun perform ::
  "'d libc \<Rightarrow> (int \<Rightarrow> byte list) \<Rightarrow> 'd io_call \<Rightarrow> fcgi_stdio \<Rightarrow> os \<Rightarrow> io_result run" where
  "perform L se Accept st k = returns Number (FCGI_Accept st k)"
| "perform L se Finish st k = map_option (\<lambda>(st, k). (Done, st, k)) (FCGI_Finish st k)"
| "perform L se StartFilterData st k = returns Number (FCGI_StartFilterData st k)"
| "perform L se (SetExitStatus n) st k = returns (\<lambda>_. Done) (FCGI_SetExitStatus n st k)"
| "perform L se (Perror str) st k = returns (\<lambda>_. Done) (FCGI_perror se str st k)"
| "perform L se (Fopen path mode) st k = returns File (FCGI_fopen path mode st k)"
| "perform L se Tmpfile st k = returns File (FCGI_tmpfile st k)"
| "perform L se (Fdopen fd mode) st k = returns File (FCGI_fdopen fd mode st k)"
| "perform L se (Popen cmd typ) st k = returns File (FCGI_popen cmd typ st k)"
| "perform L se (Fclose fp) st k = returns Number (FCGI_fclose fp st k)"
| "perform L se (Pclose fp) st k = returns Number (FCGI_pclose fp st k)"
| "perform L se (Fflush fp) st k = returns Number (FCGI_fflush fp st k)"
| "perform L se (Freopen path mode fp) st k = returns File (FCGI_freopen path mode fp st k)"
| "perform L se (Setvbuf fp bufmode) st k = returns Number (FCGI_setvbuf fp bufmode st k)"
| "perform L se (Setbuf fp) st k = returns (\<lambda>_. Done) (FCGI_setbuf fp st k)"
| "perform L se (Fseek fp offset whence) st k = returns Number (FCGI_fseek fp offset whence st k)"
| "perform L se (Ftell fp) st k = returns Number (FCGI_ftell fp st k)"
| "perform L se (Rewind fp) st k = returns (\<lambda>_. Done) (FCGI_rewind fp st k)"
| "perform L se (Fgetpos fp) st k = returns (\<lambda>(n, p). Position n p) (FCGI_fgetpos fp st k)"
| "perform L se (Fsetpos fp pos) st k = returns Number (FCGI_fsetpos fp pos st k)"
| "perform L se (Fgetc fp) st k = returns Number (FCGI_fgetc fp st k)"
| "perform L se Getchar st k = returns Number (FCGI_getchar st k)"
| "perform L se (Ungetc c fp) st k = returns Number (FCGI_ungetc c fp st k)"
| "perform L se (Fgets n fp) st k = returns Text_read (FCGI_fgets n fp st k)"
| "perform L se Gets st k = returns Text_read (FCGI_gets st k)"
| "perform L se (Fputc c fp) st k = returns Number (FCGI_fputc c fp st k)"
| "perform L se (Putchar c) st k = returns Number (FCGI_putchar c st k)"
| "perform L se (Fputs str fp) st k = returns Number (FCGI_fputs str fp st k)"
| "perform L se (Puts str) st k = returns Number (FCGI_puts str st k)"
| "perform L se (Fprintf fp fmt ap m) st k = returns (\<lambda>(n, m). Printed n m) (FCGI_fprintf L fp fmt ap m st k)"
| "perform L se (Printf fmt ap m) st k = returns (\<lambda>(n, m). Printed n m) (FCGI_printf L fmt ap m st k)"
| "perform L se (Vfprintf fp fmt ap m) st k = returns (\<lambda>(n, m). Printed n m) (FCGI_vfprintf L fp fmt ap m st k)"
| "perform L se (Vprintf fmt ap m) st k = returns (\<lambda>(n, m). Printed n m) (FCGI_vprintf L fmt ap m st k)"
| "perform L se (Fread sz n fp) st k = returns (\<lambda>(n, bs). Block n bs) (FCGI_fread sz n fp st k)"
| "perform L se (Fwrite str sz n fp) st k = returns (\<lambda>n. Block n []) (FCGI_fwrite str sz n fp st k)"
| "perform L se (Feof fp) st k = returns Number (FCGI_feof fp st k)"
| "perform L se (Ferror fp) st k = returns Number (FCGI_ferror fp st k)"
| "perform L se (Clearerr fp) st k = returns (\<lambda>_. Done) (FCGI_clearerr fp st k)"
| "perform L se (Fileno fp) st k = returns Number (FCGI_fileno fp st k)"

text \<open>A program's calls in sequence, and what each has returned.\<close>

fun perform_all ::
  "'d libc \<Rightarrow> (int \<Rightarrow> byte list) \<Rightarrow> 'd io_call list \<Rightarrow> fcgi_stdio \<Rightarrow> os \<Rightarrow> (io_result list) run" where
  "perform_all L se [] st k = Some ([], st, k)"
| "perform_all L se (c # cs) st k =
     do { (v, st, k) \<leftarrow> perform L se c st k;
          (vs, st, k) \<leftarrow> perform_all L se cs st k;
          Some (v # vs, st, k) }"

section \<open>The type of the table\<close>

primrec index :: "fcgx \<Rightarrow> nat" where
  "index In_stream = 0" | "index Out_stream = 1" | "index Err_stream = 2"

text \<open>
  An \<open>FCGI_FILE\<close> has at most one of its pointers: to a \<open>FILE\<close> that is open and that no other has, the
  standard ones only in their own \<open>FCGI_FILE\<close>, or to its own stream of the request.
\<close>

definition typed :: "fcgi_stdio \<Rightarrow> nat \<Rightarrow> FCGI_FILE \<Rightarrow> bool" where
  "typed st fp f \<longleftrightarrow> fp < next_fcgi st
     \<and> (\<forall>p. fcgx_stream f = Some p \<longrightarrow> fp = index p \<and> stdio_stream f = None)
     \<and> (\<forall>h. stdio_stream f = Some h \<longrightarrow> files st h \<noteq> None \<and> (h < 3 \<longrightarrow> h = fp \<and> acceptCalled st))"

definition well_formed :: "fcgi_stdio \<Rightarrow> bool" where
  "well_formed st \<longleftrightarrow> 3 \<le> next_fcgi st \<and> 3 \<le> next_file st
     \<and> (\<forall>fp < 3. fcgi_sF st fp \<noteq> None)
     \<and> (\<forall>h \<ge> next_file st. files st h = None)
     \<and> (\<not> acceptCalled st \<longrightarrow> (\<forall>h < 3. files st h \<noteq> None))
     \<and> (\<forall>fp f. fcgi_sF st fp = Some f \<longrightarrow> typed st fp f)
     \<and> (\<forall>fp fp' f f' h. fcgi_sF st fp = Some f \<longrightarrow> fcgi_sF st fp' = Some f'
          \<longrightarrow> stdio_stream f = Some h \<longrightarrow> stdio_stream f' = Some h \<longrightarrow> fp = fp')"

text \<open>A program when it starts.\<close>

definition fresh_stdio :: "fcgi_stdio \<Rightarrow> bool" where
  "fresh_stdio st \<longleftrightarrow> \<not> acceptCalled st \<and> next_fcgi st = 3 \<and> 3 \<le> next_file st
     \<and> fcgi_sF st = (\<lambda>fp. if fp < 3 then Some \<lparr>stdio_stream = None, fcgx_stream = None\<rparr> else None)
     \<and> (\<forall>h < 3. files st h \<noteq> None) \<and> (\<forall>h \<ge> 3. files st h = None)"

lemma fresh_well_formed: "fresh_stdio st \<Longrightarrow> well_formed st"
  by (auto simp: fresh_stdio_def well_formed_def typed_def split: if_splits)

section \<open>Calls that leave the table alone\<close>

definition same_table :: "fcgi_stdio \<Rightarrow> fcgi_stdio \<Rightarrow> bool" where
  "same_table st st' \<longleftrightarrow> fcgi_sF st' = fcgi_sF st \<and> next_fcgi st' = next_fcgi st \<and> next_file st' = next_file st
     \<and> acceptCalled st' = acceptCalled st \<and> isCGI st' = isCGI st \<and> dom (files st') = dom (files st)"

lemma same_table_refl [simp]: "same_table st st"
  by (simp add: same_table_def)

lemma same_table_trans: "same_table st st1 \<Longrightarrow> same_table st1 st2 \<Longrightarrow> same_table st st2"
  by (simp add: same_table_def)

lemma same_table_well_formed: "same_table st st' \<Longrightarrow> well_formed st \<Longrightarrow> well_formed st'"
proof -
  assume s: "same_table st st'" and w: "well_formed st"
  from s have f: "files st' h = None \<longleftrightarrow> files st h = None" for h
    by (simp add: same_table_def dom_def set_eq_iff) (metis not_Some_eq)
  from s w show ?thesis by (simp add: well_formed_def typed_def same_table_def f)
qed

definition keeps :: "fcgi_stdio \<Rightarrow> 'a run \<Rightarrow> bool" where
  "keeps st x \<longleftrightarrow> (\<forall>v st' k'. x = Some (v, st', k') \<longrightarrow> same_table st st')"

named_theorems table_keeps

lemma keeps_returns [table_keeps]: "keeps st x \<Longrightarrow> keeps st (returns g x)"
  by (auto simp: keeps_def returns_def bind_eq_Some_conv)

lemma keeps_gives [table_keeps]: "keeps st (gives v st k)" "keeps st (no_seek v st k)" "keeps st (Some (v, st, k))"
  by (simp_all add: keeps_def gives_def no_seek_def)

lemma keeps_fail [table_keeps]: "keeps st None"
  by (simp add: keeps_def)

lemma keeps_by_stdio [table_keeps]: "keeps st (by_stdio f h st k)"
  by (auto simp: keeps_def by_stdio_def on_file_def same_table_def bind_eq_Some_conv split_def Let_def split: if_splits)

lemma keeps_on_fcgx [table_keeps]: "keeps st (on_fcgx p f st k)"
  by (auto simp: keeps_def on_fcgx_def same_table_def bind_eq_Some_conv Let_def)

lemma keeps_printf [table_keeps]:
  "keeps st (vfprintf_stdio L fmt ap m h st k)" "keeps st (vfprintf_fcgx L fmt ap m p st k)"
proof -
  show "keeps st (vfprintf_stdio L fmt ap m h st k)"
    by (auto simp: keeps_def vfprintf_stdio_def same_table_def bind_eq_Some_conv split: if_splits)
qed (simp add: vfprintf_fcgx_def keeps_on_fcgx)

lemma keeps_bind [table_keeps]:
  assumes "keeps st x" "\<And>v st1 k1. same_table st st1 \<Longrightarrow> keeps st1 (f (v, st1, k1))"
  shows "keeps st (x \<bind> f)"
  using assms same_table_trans by (fastforce simp: keeps_def bind_eq_Some_conv)

lemma keeps_option: "(\<And>y. x = Some y \<Longrightarrow> keeps st (f y)) \<Longrightarrow> keeps st (x \<bind> f)"
  by (cases x) (auto simp: table_keeps)

lemma keeps_ASSERT [table_keeps]: "(b \<Longrightarrow> keeps st (f ())) \<Longrightarrow> keeps st (ASSERT b \<bind> f)"
  by (rule keeps_option) (simp add: ASSERT_def split: if_splits)

lemma keeps_lookup [table_keeps]: "(\<And>y. keeps st (f y)) \<Longrightarrow> keeps st (fcgi_sF st fp \<bind> f)"
  by (rule keeps_option)

lemma keeps_dispatch [table_keeps]:
  assumes "\<And>h. keeps st (c h st k)" "\<And>p. keeps st (x p st k)" "keeps st (n st k)"
  shows "keeps st (dispatch fp c x n st k)"
  using assms by (auto simp: dispatch_def intro!: keeps_option split: option.splits)

lemma keeps_getchar [table_keeps]: "keeps st (FCGI_getchar st k)"
  unfolding FCGI_getchar_def FCGI_fgetc_def by (intro table_keeps)

lemma keeps_gets: "keeps st (Gets_loop acc st k)"
proof -
  have "Gets_loop acc st k = Some y \<Longrightarrow> same_table st (fst (snd y))" for y
  proof (rule Gets_loop.raw_induct [where P = "\<lambda>acc st k y. same_table st (fst (snd y))"], goal_cases)
    case (1 loop acc st k y)
    from 1(3) obtain c st1 k1 where g: "FCGI_getchar st k = Some (c, st1, k1)"
      and r: "(if c = 10 then Some (Some acc, st1, k1)
        else if c = EOF then Some (if acc = [] then None else Some acc, st1, k1)
        else loop (acc @ [uchar c]) st1 k1) = Some y" by (auto simp: bind_eq_Some_conv)
    have "same_table st st1" using g keeps_getchar [of st k] by (auto simp: keeps_def)
    moreover have "same_table st1 (fst (snd y))" using r 1(2) by (auto split: if_splits)
    ultimately show ?case by (rule same_table_trans)
  qed
  then show ?thesis by (fastforce simp: keeps_def)
qed

fun table_call :: "'d io_call \<Rightarrow> bool" where
  "table_call Accept = True" | "table_call Finish = True" | "table_call (Fopen path mode) = True"
| "table_call Tmpfile = True" | "table_call (Fdopen fd mode) = True" | "table_call (Popen cmd typ) = True"
| "table_call (Fclose fp) = True" | "table_call (Pclose fp) = True" | "table_call (Freopen path mode fp) = True"
| "table_call c = False"

lemmas stdio_wrappers =
  FCGI_StartFilterData_def FCGI_SetExitStatus_def FCGI_fflush_def FCGI_setvbuf_def FCGI_setbuf_def FCGI_fseek_def
  FCGI_ftell_def FCGI_rewind_def FCGI_fgetpos_def FCGI_fsetpos_def FCGI_fgetc_def FCGI_ungetc_def
  FCGI_fgets_def FCGI_gets_def FCGI_fputc_def FCGI_putchar_def FCGI_fputs_def FCGI_puts_def FCGI_perror_def
  FCGI_fprintf_def FCGI_vfprintf_def FCGI_printf_def FCGI_vprintf_def FCGI_fread_def FCGI_fwrite_def
  FCGI_feof_def FCGI_ferror_def FCGI_clearerr_def FCGI_fileno_def

lemma perform_keeps: "\<not> table_call c \<Longrightarrow> keeps st (perform L se c st k)"
  by (cases c) (auto simp: stdio_wrappers intro!: table_keeps keeps_gets split: option.splits)

section \<open>Calls that change the table\<close>

lemma well_formed_updates [simp]:
  "well_formed (st\<lparr>lib := a\<rparr>) = well_formed st" "well_formed (st\<lparr>environ_ptr := e\<rparr>) = well_formed st"
  "well_formed (st\<lparr>isCGI := b\<rparr>) = well_formed st" "well_formed (st\<lparr>at_exit := b\<rparr>) = well_formed st"
  "well_formed (st\<lparr>openq := q\<rparr>) = well_formed st"
  by (simp_all add: well_formed_def typed_def)

lemma well_formed_accept: "well_formed st \<Longrightarrow> well_formed (st\<lparr>acceptCalled := True\<rparr>)"
  by (auto simp: well_formed_def typed_def)

text \<open>Storing pointers that fit.\<close>

lemma well_formed_set:
  assumes "well_formed st" "fp < next_fcgi st"
    "\<And>p. x = Some p \<Longrightarrow> fp = index p \<and> h = None"
    "\<And>n. h = Some n \<Longrightarrow> files st n \<noteq> None \<and> (n < 3 \<longrightarrow> n = fp \<and> acceptCalled st)
       \<and> (\<forall>fp' f'. fcgi_sF st fp' = Some f' \<longrightarrow> stdio_stream f' = Some n \<longrightarrow> fp' = fp)"
  shows "well_formed (set_sF fp h x st)"
  using assms by (auto simp: well_formed_def typed_def set_sF_def)

text \<open>A \<open>FILE\<close> is closed and its pointer forgotten.\<close>

lemma well_formed_close:
  assumes "well_formed st" "fcgi_sF st fp = Some f" "stdio_stream f = Some h"
  shows "well_formed (set_sF fp None None (st\<lparr>files := (files st)(h := None)\<rparr>))"
  using assms by (auto simp: well_formed_def typed_def set_sF_def)

lemma well_formed_free: "well_formed st \<Longrightarrow> well_formed (free_fp fp st)"
  by (auto simp: well_formed_def typed_def free_fp_def)

text \<open>A new \<open>FILE\<close>.\<close>

definition new_file :: "c_file \<Rightarrow> fcgi_stdio \<Rightarrow> fcgi_stdio" where
  "new_file c st = st\<lparr>next_file := next_file st + 1, files := (files st)(next_file st \<mapsto> c)\<rparr>"

lemma well_formed_new_file: "well_formed st \<Longrightarrow> well_formed (new_file c st)"
  by (auto simp: well_formed_def typed_def new_file_def)

lemma no_pointer: "well_formed st \<Longrightarrow> fcgi_sF st fp = Some f \<Longrightarrow> stdio_stream f \<noteq> Some (next_file st)"
  by (fastforce simp: well_formed_def typed_def)

lemma well_formed_typed: "well_formed st \<Longrightarrow> fcgi_sF st fp = Some f \<Longrightarrow> typed st fp f"
  by (simp add: well_formed_def)

lemma set_sF_sel [simp]:
  "files (set_sF fp h x st) = files st" "acceptCalled (set_sF fp h x st) = acceptCalled st"
  "next_fcgi (set_sF fp h x st) = next_fcgi st" "next_file (set_sF fp h x st) = next_file st"
  "fcgi_sF (set_sF fp h x st) = (fcgi_sF st)(fp \<mapsto> \<lparr>stdio_stream = h, fcgx_stream = x\<rparr>)"
  by (simp_all add: set_sF_def)

lemma standard_pointer:
  "well_formed st \<Longrightarrow> fcgi_sF st fp = Some f \<Longrightarrow> stdio_stream f = Some h \<Longrightarrow> h < 3 \<Longrightarrow> fp = h"
  by (auto dest!: well_formed_typed simp: typed_def)

lemma set_sF_next: "(set_sF fp h x st)\<lparr>next_fcgi := n\<rparr> = set_sF fp h x (st\<lparr>next_fcgi := n\<rparr>)"
  by (cases st) (simp add: set_sF_def)

lemma well_formed_standard:
  assumes "well_formed st" "acceptCalled st" "n < 3" "files st n \<noteq> None"
  shows "well_formed (set_sF n (Some n) None st)"
  using assms(1)
proof (rule well_formed_set)
  show "n < next_fcgi st" using assms(1,3) by (auto simp: well_formed_def)
qed (use assms standard_pointer in auto)

lemma well_formed_request: "well_formed st \<Longrightarrow> well_formed (set_sF (index p) None (Some p) st)"
  by (rule well_formed_set) (cases p; auto simp: well_formed_def)+

lemma well_formed_fcgi:
  assumes "well_formed st"
  shows "well_formed (set_sF 2 None (Some Err_stream) (set_sF 1 None (Some Out_stream) (set_sF 0 None (Some In_stream) st)))"
proof -
  have "well_formed (set_sF 0 None (Some In_stream) st)" using well_formed_request [OF assms, of In_stream] by simp
  from well_formed_request [OF this, of Out_stream]
  have "well_formed (set_sF 1 None (Some Out_stream) (set_sF 0 None (Some In_stream) st))" by simp
  from well_formed_request [OF this, of Err_stream] show ?thesis by simp
qed

lemma well_formed_cgi:
  assumes "well_formed st" "acceptCalled st" "\<forall>h < 3. files st h \<noteq> None"
  shows "well_formed (set_sF 2 (Some 2) None (set_sF 1 (Some 1) None (set_sF 0 (Some 0) None st)))"
  using assms by (intro well_formed_standard) simp_all

lemma Accept_well_formed:
  assumes "well_formed st" "FCGI_Accept st k = Some (v, st', k')"
  shows "well_formed st'"
proof -
  have start: "well_formed (st\<lparr>lib := a, isCGI := b, acceptCalled := True, at_exit := c\<rparr>)" for a b c
    using well_formed_accept [OF assms(1)] by (simp add: well_formed_def typed_def)
  have fin: "well_formed st'"
    if "(if isCGI st1 then Some (0, set_sF FCGI_stderr (Some 2) None (set_sF FCGI_stdout (Some 1) None
            (set_sF FCGI_stdin (Some 0) None st1)), k1)
         else do { (acceptResult, ptrs, a, k) \<leftarrow> FCGX_Accept (lib st1) k1;
               let st = st1\<lparr>lib := a\<rparr>;
               if acceptResult < 0 then Some (acceptResult, st, k)
               else Some (0, (set_sF FCGI_stderr None (Some Err_stream) (set_sF FCGI_stdout None (Some Out_stream)
                                 (set_sF FCGI_stdin None (Some In_stream) st)))
                               \<lparr>environ_ptr := Request_env (case ptrs of None \<Rightarrow> None | Some (_, _, _, e) \<Rightarrow> e)\<rparr>, k) })
        = Some (v, st', k')"
      "well_formed st1" "isCGI st1 \<Longrightarrow> acceptCalled st1 \<and> (\<forall>h < 3. files st1 h \<noteq> None)" for st1 k1
  proof (cases "isCGI st1")
    case True
    with that well_formed_cgi [of st1] show ?thesis by simp
  next
    case False
    have "well_formed (st1\<lparr>lib := a\<rparr>)" for a using that(2) by simp
    note w = this well_formed_fcgi [OF this]
    from that(1) False show ?thesis
      by (auto simp: w [simplified] bind_eq_Some_conv Let_def split: if_splits)
  qed
  show ?thesis
  proof (cases "acceptCalled st")
    case True
    with assms(2) assms(1) fin [of st k] show ?thesis
      by (auto simp: FCGI_Accept_def split: if_splits)
  next
    case False
    with assms(2) obtain cgi a k1 where "FCGX_IsCGI (lib st) k = Some (cgi, a, k1)"
      by (auto simp: FCGI_Accept_def bind_eq_Some_conv)
    with False assms fin [of "st\<lparr>lib := a, isCGI := cgi, acceptCalled := True, at_exit := True\<rparr>" k1] start
    show ?thesis by (auto simp: FCGI_Accept_def well_formed_def)
  qed
qed

lemma well_formed_no_fcgx:
  assumes "well_formed st"
  shows "well_formed (no_fcgx fp st)"
proof (cases "fcgi_sF st fp")
  case None
  with assms show ?thesis by (simp add: no_fcgx_def fun_upd_idem)
next
  case (Some f)
  then have "no_fcgx fp st = set_sF fp (stdio_stream f) None st" by (cases f) (simp add: no_fcgx_def set_sF_def)
  with assms Some show ?thesis
    by (auto intro!: well_formed_set dest: well_formed_typed simp: typed_def) (auto simp: well_formed_def)
qed

lemma Finish_well_formed: "well_formed st \<Longrightarrow> FCGI_Finish st k = Some (st', k') \<Longrightarrow> well_formed st'"
  by (auto simp: FCGI_Finish_def bind_eq_Some_conv intro!: well_formed_no_fcgx split: if_splits)

lemma well_formed_next:
  "well_formed st \<Longrightarrow> well_formed (st\<lparr>next_fcgi := next_fcgi st + 1\<rparr>)"
  "well_formed st \<Longrightarrow> well_formed (st\<lparr>next_file := next_file st + 1\<rparr>)"
  unfolding well_formed_def typed_def by fastforce+

lemma open_well_formed:
  assumes "well_formed st" "open_and_wrap mode st k = Some (v, st', k')"
  shows "well_formed st'"
proof (cases "fst (c_open mode st)")
  case None
  with assms show ?thesis
    by (auto simp: open_and_wrap_def c_open_def FCGI_OpenFromFILE_def split: list.splits option.splits)
next
  case (Some h)
  then obtain c q where o: "h = next_file st" "c_open mode st = (Some h, new_file c (st\<lparr>openq := q\<rparr>))"
    by (auto simp: c_open_def new_file_def split: list.splits option.splits)
  let ?st = "st\<lparr>openq := q\<rparr>"
  show ?thesis
  proof (cases "malloc_at k 16 = 0")
    case True
    with assms(2) o have "st' = ?st\<lparr>next_file := h + 1, files := (files st)(h := None)\<rparr>"
      by (simp add: open_and_wrap_def FCGI_OpenFromFILE_def c_fclose_def new_file_def Let_def)
    moreover have "(files st)(h := None) = files st" using assms(1) o(1) by (simp add: well_formed_def fun_upd_idem)
    ultimately have "st' = ?st\<lparr>next_file := next_file ?st + 1\<rparr>" using o(1) by simp
    then show ?thesis using well_formed_next(2) [of ?st] assms(1) by simp
  next
    case False
    let ?new = "(new_file c ?st)\<lparr>next_fcgi := next_fcgi (new_file c ?st) + 1\<rparr>"
    from False assms(2) o have "st' = set_sF (next_fcgi st) (Some h) None ?new"
      by (simp add: open_and_wrap_def FCGI_OpenFromFILE_def new_file_def set_sF_next Let_def)
    moreover have w: "well_formed ?new" using well_formed_next(1) well_formed_new_file [of ?st c] assms(1) by simp
    have "well_formed (set_sF (next_fcgi st) (Some h) None ?new)"
      using w
    proof (rule well_formed_set)
      show "next_fcgi st < next_fcgi ?new" by (simp add: new_file_def)
    qed (use no_pointer [OF assms(1)] assms(1) o(1) in \<open>auto simp: new_file_def well_formed_def\<close>)
    ultimately show ?thesis by simp
  qed
qed

lemma well_formed_dispatch:
  assumes "dispatch fp c x n st k = Some (v, st', k')"
    "\<And>f h. fcgi_sF st fp = Some f \<Longrightarrow> stdio_stream f = Some h \<Longrightarrow> c h st k = Some (v, st', k') \<Longrightarrow> well_formed st'"
    "\<And>f p. fcgi_sF st fp = Some f \<Longrightarrow> stdio_stream f = None \<Longrightarrow> fcgx_stream f = Some p
       \<Longrightarrow> x p st k = Some (v, st', k') \<Longrightarrow> well_formed st'"
    "\<And>f. fcgi_sF st fp = Some f \<Longrightarrow> n st k = Some (v, st', k') \<Longrightarrow> well_formed st'"
  shows "well_formed st'"
proof -
  obtain y where "fcgi_sF st fp = Some y" using assms(1) by (auto simp: dispatch_def bind_eq_Some_conv)
  with assms show ?thesis
    by (cases "stdio_stream y"; cases "fcgx_stream y") (auto simp: dispatch_def)
qed

lemma fclose_fcgx_keeps: "fclose_fcgx p st k = Some (v, st', k') \<Longrightarrow> same_table st st'"
  using keeps_on_fcgx [of st p "FCGX_FClose EmptyBuffProc" k] by (simp add: fclose_fcgx_def keeps_def)

lemma well_formed_clear:
  assumes "well_formed st" "fcgi_sF st fp = Some f"
  shows "well_formed (set_sF fp None None st)"
  using assms(1) by (rule well_formed_set) (use well_formed_typed [OF assms] in \<open>auto simp: typed_def\<close>)

lemma fclose_well_formed:
  assumes "well_formed st" "FCGI_fclose fp st k = Some (v, st', k')"
  shows "well_formed st'"
proof -
  from assms(2) obtain f st1 k1 where f: "fcgi_sF st fp = Some f"
    and d: "dispatch fp
              (\<lambda>h st k. do { (n, st) \<leftarrow> c_fclose h st; Some (n, set_sF fp None (fcgx_stream f) st, k) })
              (\<lambda>p st k. do { (n, st, k) \<leftarrow> fclose_fcgx p st k; Some (n, set_sF fp (stdio_stream f) None st, k) })
              (gives EOF) st k = Some (v, st1, k1)" and st': "st' = free_fp fp st1"
    by (auto simp: FCGI_fclose_def bind_eq_Some_conv)
  note t = well_formed_typed [OF assms(1) f]
  have "well_formed st1"
    using d
  proof (rule well_formed_dispatch)
    fix g h assume "fcgi_sF st fp = Some g" "stdio_stream g = Some h"
      "do { (n, st) \<leftarrow> c_fclose h st; Some (n, set_sF fp None (fcgx_stream f) st, k) } = Some (v, st1, k1)"
    with f t well_formed_close [OF assms(1) f] show "well_formed st1"
      by (cases "fcgx_stream f") (auto simp: c_fclose_def bind_eq_Some_conv typed_def)
  next
    fix g p assume g: "fcgi_sF st fp = Some g" "stdio_stream g = None"
      "do { (n, st, k) \<leftarrow> fclose_fcgx p st k; Some (n, set_sF fp (stdio_stream f) None st, k) } = Some (v, st1, k1)"
    then obtain st2 where c: "fclose_fcgx p st k = Some (v, st2, k1)" "st1 = set_sF fp None None st2"
      using f by (auto simp: bind_eq_Some_conv)
    then have "same_table st st2" using fclose_fcgx_keeps by blast
    then have "well_formed st2" "fcgi_sF st2 fp = Some f" using same_table_well_formed assms(1) f by (auto simp: same_table_def)
    with c(2) show "well_formed st1" by (simp add: well_formed_clear)
  qed (use assms(1) in \<open>auto simp: gives_def\<close>)
  with st' show ?thesis by (simp add: well_formed_free)
qed

lemma pclose_well_formed:
  assumes "well_formed st" "FCGI_pclose fp st k = Some (v, st', k')"
  shows "well_formed st'"
proof -
  from assms(2) obtain f where f: "fcgi_sF st fp = Some f"
    and d: "dispatch fp
            (\<lambda>h st k. do { (n, st) \<leftarrow> c_fclose h st; Some (n, free_fp fp (set_sF fp None (fcgx_stream f) st), k) })
            (\<lambda>p. gives EOF) (\<lambda>st k. Some (EOF, free_fp fp st, k)) st k = Some (v, st', k')"
    by (auto simp: FCGI_pclose_def bind_eq_Some_conv)
  note t = well_formed_typed [OF assms(1) f]
  from d show ?thesis
  proof (rule well_formed_dispatch)
    fix g h assume "fcgi_sF st fp = Some g" "stdio_stream g = Some h"
      "do { (n, st) \<leftarrow> c_fclose h st; Some (n, free_fp fp (set_sF fp None (fcgx_stream f) st), k) } = Some (v, st', k')"
    with f t well_formed_close [OF assms(1) f] show "well_formed st'"
      by (cases "fcgx_stream f") (auto simp: c_fclose_def bind_eq_Some_conv typed_def well_formed_free)
  qed (use assms(1) in \<open>auto simp: gives_def well_formed_free\<close>)
qed

text \<open>\<open>FCGI_freopen\<close> that returns a file, or was called on a stream of the request.\<close>

lemma freopen_well_formed:
  assumes "well_formed st" "FCGI_freopen path mode fp st k = Some (v, st', k')" "v \<noteq> None"
  shows "well_formed st'"
proof -
  from assms(2) show ?thesis
    unfolding FCGI_freopen_def
  proof (rule well_formed_dispatch)
    fix f h assume f: "fcgi_sF st fp = Some f" "stdio_stream f = Some h"
      "do { (ok, st) \<leftarrow> c_freopen mode h st; Some (if ok then Some fp else None, st, k) } = Some (v, st', k')"
    with assms(3) have "\<exists>q c. st' = st\<lparr>openq := q, files := (files st)(h \<mapsto> c)\<rparr> \<and> files st h \<noteq> None"
      by (auto simp: c_freopen_def bind_eq_Some_conv split: list.splits option.splits if_splits)
    then have "\<exists>q. same_table (st\<lparr>openq := q\<rparr>) st'"
      by (auto simp: same_table_def split: if_splits)
    with assms(1) same_table_well_formed [of _ st'] show "well_formed st'" by fastforce
  next
    fix f p assume f: "fcgi_sF st fp = Some f"
      "do { (_, st, k) \<leftarrow> fclose_fcgx p st k;
               let (file, st) = c_open mode st;
               case file of
                 None \<Rightarrow> Some (None, set_sF fp None (Some p) st, k)
               | Some h \<Rightarrow> Some (Some fp, set_sF fp (Some h) None st, k) } = Some (v, st', k')"
    then obtain n st1 k1 where c: "fclose_fcgx p st k = Some (n, st1, k1)"
      "(let (file, st) = c_open mode st1 in
               case file of
                 None \<Rightarrow> Some (None, set_sF fp None (Some p) st, k1)
               | Some h \<Rightarrow> Some (Some fp, set_sF fp (Some h) None st, k1)) = Some (v, st', k')"
      by (auto simp: bind_eq_Some_conv)
    then have "same_table st st1" using fclose_fcgx_keeps by blast
    then have w: "well_formed st1" "fcgi_sF st1 fp = Some f"
      using same_table_well_formed assms(1) f(1) by (auto simp: same_table_def)
    from c(2) assms(3) obtain q x where
      "st' = set_sF fp (Some (next_file st1)) None (new_file x (st1\<lparr>openq := q\<rparr>))"
      by (auto simp: c_open_def new_file_def split: list.splits option.splits)
    moreover have "well_formed (new_file x (st1\<lparr>openq := q\<rparr>))" using w(1) by (simp add: well_formed_new_file)
    then have "well_formed (set_sF fp (Some (next_file st1)) None (new_file x (st1\<lparr>openq := q\<rparr>)))"
      by (rule well_formed_set)
        (use no_pointer [OF w(1)] w well_formed_typed [OF w] in \<open>auto simp: new_file_def typed_def well_formed_def\<close>)
    ultimately show "well_formed st'" by simp
  qed (use assms(3) in \<open>auto simp: gives_def\<close>)
qed

section \<open>Programs keep the type, and need no more\<close>

text \<open>A call of \<open>FCGI_freopen\<close> that has failed on a \<open>FILE\<close> is the one that leaves a pointer to a closed \<open>FILE\<close>.\<close>

fun freopen_failed :: "'d io_call \<Rightarrow> io_result \<Rightarrow> bool" where
  "freopen_failed (Freopen path mode fp) v = (v = File None)"
| "freopen_failed c v = False"

lemma perform_well_formed:
  assumes "well_formed st" "perform L se c st k = Some (v, st', k')" "\<not> freopen_failed c v"
  shows "well_formed st'"
proof (cases "table_call c")
  case False
  then have "same_table st st'" using perform_keeps [of c st L se k] assms(2) by (auto simp: keeps_def)
  then show ?thesis using assms(1) by (rule same_table_well_formed)
next
  case True
  with assms show ?thesis
    by (cases c) (auto simp: returns_def bind_eq_Some_conv FCGI_fopen_def FCGI_tmpfile_def FCGI_fdopen_def FCGI_popen_def
      intro: Accept_well_formed Finish_well_formed open_well_formed fclose_well_formed pclose_well_formed freopen_well_formed)
qed

lemma perform_all_well_formed:
  "perform_all L se cs st k = Some (vs, st', k') \<Longrightarrow> well_formed st \<Longrightarrow> \<not> list_ex (\<lambda>(c, v). freopen_failed c v) (zip cs vs)
     \<Longrightarrow> well_formed st'"
proof (induction cs arbitrary: st k vs)
  case (Cons c cs)
  then show ?case by (auto simp: bind_eq_Some_conv dest: perform_well_formed)
qed simp

text \<open>The \<open>FCGI_FILE\<close> a call is about.\<close>

fun file_of :: "'d io_call \<Rightarrow> nat option" where
  "file_of (Fclose fp) = Some fp" | "file_of (Pclose fp) = Some fp" | "file_of (Fflush fp) = fp"
| "file_of (Freopen path mode fp) = Some fp" | "file_of (Setvbuf fp b) = Some fp" | "file_of (Setbuf fp) = Some fp"
| "file_of (Fseek fp n w) = Some fp" | "file_of (Ftell fp) = Some fp" | "file_of (Rewind fp) = Some fp"
| "file_of (Fgetpos fp) = Some fp" | "file_of (Fsetpos fp n) = Some fp" | "file_of (Fgetc fp) = Some fp"
| "file_of (Ungetc c fp) = Some fp" | "file_of (Fgets n fp) = Some fp" | "file_of (Fputc c fp) = Some fp"
| "file_of (Fputs str fp) = Some fp" | "file_of (Fread sz n fp) = Some fp" | "file_of (Feof fp) = Some fp"
| "file_of (Ferror fp) = Some fp" | "file_of (Clearerr fp) = Some fp" | "file_of (Fileno fp) = Some fp"
| "file_of c = None"

text \<open>Such a call always returns on an \<open>FCGI_FILE\<close> that is not a stream of the request.\<close>

lemma perform_progress:
  assumes "well_formed st" "fcgi_sF st fp = Some f" "fcgx_stream f = None" "file_of c = Some fp"
  shows "perform L se c st k \<noteq> None"
proof -
  have d: "dispatch fp c x n st k = (case stdio_stream f of None \<Rightarrow> n st k | Some h \<Rightarrow> c h st k)" for c x and n :: "_ \<Rightarrow> _ \<Rightarrow> 'a run"
    using assms(2,3) by (simp add: dispatch_def split: option.split)
  have h: "stdio_stream f = Some h \<Longrightarrow> \<exists>g. files st h = Some g" for h
    using well_formed_typed [OF assms(1,2)] by (auto simp: typed_def)
  show ?thesis
  proof (cases "stdio_stream f")
    case None
    with assms show ?thesis
      by (cases c) (auto simp: stdio_wrappers dispatch_def returns_def gives_def no_seek_def FCGI_fclose_def FCGI_pclose_def FCGI_freopen_def)
  next
    case (Some n)
    then obtain g where "files st n = Some g" using h by blast
    with assms Some show ?thesis
      by (cases c) (auto simp: stdio_wrappers dispatch_def returns_def gives_def no_seek_def FCGI_fclose_def FCGI_pclose_def
        FCGI_freopen_def by_stdio_def on_file_def c_fclose_def c_freopen_def split_def Let_def split: list.split option.split)
  qed
qed

text \<open>
  C12: in every program that uses \<open>fcgi_stdio.c\<close>, as long as no \<open>FCGI_freopen\<close> fails, an \<open>FCGI_FILE\<close> has at
  most one of its pointers, the one to a request's stream only where \<open>FCGI_Accept\<close> puts it, the one to a
  \<open>FILE\<close> that is open and in no other \<open>FCGI_FILE\<close>; and a call on one that is not a stream of the request has a
  result: no closed \<open>FILE\<close> is ever used.
\<close>

theorem stdio_types:
  assumes "fresh_stdio st" "perform_all L se cs st k = Some (vs, st', k')"
    "\<not> list_ex (\<lambda>(c, v). freopen_failed c v) (zip cs vs)" "fcgi_sF st' fp = Some f"
  shows "(\<forall>p. fcgx_stream f = Some p \<longrightarrow> fp = index p \<and> stdio_stream f = None)
    \<and> (\<forall>h. stdio_stream f = Some h \<longrightarrow> files st' h \<noteq> None
         \<and> (\<forall>fp' f'. fcgi_sF st' fp' = Some f' \<longrightarrow> stdio_stream f' = Some h \<longrightarrow> fp' = fp))
    \<and> (fcgx_stream f = None \<longrightarrow> (\<forall>c. file_of c = Some fp \<longrightarrow> perform L se c st' k' \<noteq> None))"
proof -
  have w: "well_formed st'" using perform_all_well_formed [OF assms(2) fresh_well_formed [OF assms(1)] assms(3)] .
  have "fp' = fp" if "fcgi_sF st' fp' = Some f'" "stdio_stream f' = Some h" "stdio_stream f = Some h" for fp' f' h
    using w assms(4) that unfolding well_formed_def by blast
  with well_formed_typed [OF w assms(4)] perform_progress [OF w assms(4)] show ?thesis
    by (auto simp: typed_def)
qed

section \<open>Dangling pointers\<close>

text \<open>
  C34: \<open>FCGI_freopen\<close> that fails has closed the \<open>FILE\<close> and keeps the pointer to it: no later call on the
  \<open>FCGI_FILE\<close>, \<open>FCGI_fclose\<close> included, has a defined result.
\<close>

theorem freopen_dangles:
  assumes "fcgi_sF st fp = Some f" "stdio_stream f = Some h"
    "FCGI_freopen path mode fp st k = Some (None, st', k')" "file_of c = Some fp"
  shows "perform L se c st' k' = None"
proof -
  have s: "fcgi_sF st' fp = Some f" "files st' h = None"
    using assms(1-3)
    by (auto simp: FCGI_freopen_def dispatch_def c_freopen_def bind_eq_Some_conv split: list.splits option.splits if_splits)
  show ?thesis
    using assms(2,4) s
    by (cases c) (auto simp: stdio_wrappers dispatch_def returns_def FCGI_fclose_def FCGI_pclose_def
        FCGI_freopen_def by_stdio_def on_file_def c_fclose_def c_freopen_def)
qed

definition no_streams :: "Request \<Rightarrow> bool" where
  "no_streams q \<longleftrightarrow> (\<forall>p. request_stream p q = None)"

lemma no_streams_iff: "no_streams q \<longleftrightarrow> in_ptr q = None \<and> out_ptr q = None \<and> err_ptr q = None"
  unfolding no_streams_def by (metis (full_types) fcgx.exhaust request_stream.simps)

lemma Free_streams: "FCGX_Free q close k = Some (q', k') \<Longrightarrow> no_streams q'"
  by (auto simp: FCGX_Free_def bind_eq_Some_conv Let_def no_streams_iff split: if_splits)

lemma Accept_loop_streams:
  "Accept_loop addrs q k = Some (rc, q', k') \<Longrightarrow> no_streams q \<Longrightarrow> rc \<noteq> None \<Longrightarrow> no_streams q'"
proof -
  have "Accept_loop addrs q k = Some y \<Longrightarrow> no_streams q \<longrightarrow> fst y \<noteq> None \<longrightarrow> no_streams (fst (snd y))" for y
  proof (rule Accept_loop.raw_induct [where P = "\<lambda>addrs q k y. no_streams q \<longrightarrow> fst y \<noteq> None \<longrightarrow> no_streams (fst (snd y))"], goal_cases)
    case (1 loop addrs q k y)
    from 1(3) obtain rc q1 k1 where c: "Accept_connect addrs q k = Some (rc, q1, k1)"
      and r: "(if rc \<noteq> None then Some (rc, q1, k1)
          else do { (ready, q, k) \<leftarrow> Accept_try q1 k1;
                 if ready then Some (None, q, k)
                 else do { (q, k) \<leftarrow> FCGX_Free q True k; loop addrs q k } }) = Some y"
      by (auto simp: bind_eq_Some_conv)
    have q1: "no_streams q \<Longrightarrow> no_streams q1"
      using c by (auto simp: Accept_connect_def no_streams_iff bind_eq_Some_conv split: if_splits)
    show ?case
    proof (cases rc)
      case None
      with r obtain ready q2 k2 where "(if ready then Some (None, q2, k2)
                 else do { (q, k) \<leftarrow> FCGX_Free q2 True k2; loop addrs q k }) = Some y"
        by (auto simp: bind_eq_Some_conv)
      with 1(2) show ?thesis
        by (cases y) (auto simp: bind_eq_Some_conv dest: Free_streams split: if_splits)
    qed (use r q1 in auto)
  qed
  then show "Accept_loop addrs q k = Some (rc, q', k') \<Longrightarrow> no_streams q \<Longrightarrow> rc \<noteq> None \<Longrightarrow> no_streams q'" by fastforce
qed

lemma Accept_r_failed:
  assumes "FCGX_Accept_r a q k = Some (rc, q', k')" "libInitialized a" "rc < 0"
  shows "no_streams q'"
proof -
  from assms obtain q1 k1 r q2 k2 where f: "FCGX_Finish_r q k = Some (q1, k1)"
    and l: "Accept_loop (webServerAddressList a) q1 k1 = Some (r, q2, k2)"
    and r: "(case r of Some e \<Rightarrow> Some (e, q2, k2) | None \<Rightarrow> do { q \<leftarrow> Accept_build q2 k2; Some (0, q, k2) }) = Some (rc, q', k')"
    by (auto simp: FCGX_Accept_r_def bind_eq_Some_conv)
  have "no_streams q1" using f by (auto simp: FCGX_Finish_r_def bind_eq_Some_conv Let_def dest: Free_streams)
  with Accept_loop_streams [OF l] r assms(3) show ?thesis by (cases r) (auto simp: bind_eq_Some_conv)
qed

lemma Accept_failed:
  assumes "FCGX_Accept a k = Some (rc, ptrs, a', k')" "rc < 0"
  shows "no_streams (the_request a')"
proof (cases "libInitialized a")
  case True
  with assms Accept_r_failed [of a] show ?thesis by (fastforce simp: FCGX_Accept_def bind_eq_Some_conv)
next
  case False
  with assms Accept_r_failed show ?thesis
    by (auto simp: FCGX_Accept_def FCGX_Init_def FCGX_InitRequest_def no_streams_iff bind_eq_Some_conv Let_def
        split: prod.splits if_splits)
qed

text \<open>The calls that use the stream of a request, when the file has one.\<close>

fun uses_stream :: "nat \<Rightarrow> 'd io_call \<Rightarrow> bool" where
  "uses_stream fp (Fclose f) = (f = fp)" | "uses_stream fp (Fflush f) = (f = Some fp)"
| "uses_stream fp (Freopen path mode f) = (f = fp)"
| "uses_stream fp (Fgetc f) = (f = fp)" | "uses_stream fp Getchar = (fp = 0)" | "uses_stream fp (Ungetc c f) = (f = fp)"
| "uses_stream fp (Fgets n f) = (f = fp)" | "uses_stream fp Gets = (fp = 0)"
| "uses_stream fp (Fputc c f) = (f = fp)" | "uses_stream fp (Putchar c) = (fp = 1)"
| "uses_stream fp (Fputs str f) = (f = fp)" | "uses_stream fp (Puts str) = (fp = 1)"
| "uses_stream fp (Fprintf f fmt ap m) = (f = fp)" | "uses_stream fp (Printf fmt ap m) = (fp = 1)"
| "uses_stream fp (Vfprintf f fmt ap m) = (f = fp)" | "uses_stream fp (Vprintf fmt ap m) = (fp = 1)"
| "uses_stream fp (Perror str) = (fp = 2)"
| "uses_stream fp (Feof f) = (f = fp)" | "uses_stream fp (Ferror f) = (f = fp)" | "uses_stream fp (Clearerr f) = (f = fp)"
| "uses_stream fp (Fread sz n f) = (f = fp \<and> sz * n \<noteq> 0)" | "uses_stream fp (Fwrite str sz n f) = (f = fp \<and> sz * n \<noteq> 0)"
| "uses_stream fp c = False"

lemma gets_None: "FCGI_getchar st k = None \<Longrightarrow> Gets_loop acc st k = None"
  by (subst Gets_loop.simps) simp

lemma on_freed: "no_streams (the_request (lib st)) \<Longrightarrow> on_fcgx p f st k = None"
  by (simp add: on_fcgx_def no_streams_def)

text \<open>
  C13: when \<open>FCGI_Accept\<close> fails after a request, the request's streams have been freed and \<open>stdin\<close>, \<open>stdout\<close>
  and \<open>stderr\<close> still point to them: no call on them, such as printing a last message, has a defined result.
\<close>

theorem failed_accept_dangles:
  assumes "acceptCalled st" "\<not> isCGI st" "FCGI_Accept st k = Some (rc, st', k')" "rc < 0"
    "fcgi_sF st fp = Some \<lparr>stdio_stream = None, fcgx_stream = Some p\<rparr>" "uses_stream fp c"
  shows "fcgi_sF st' = fcgi_sF st \<and> perform L se c st' k' = None"
proof -
  from assms(1-4) have s: "fcgi_sF st' = fcgi_sF st" "no_streams (the_request (lib st'))"
    by (auto simp: FCGI_Accept_def bind_eq_Some_conv Let_def dest: Accept_failed split: if_splits)
  note f = on_freed [OF s(2)]
  show ?thesis
    using assms(5,6) s(1)
    by (cases c) (auto simp: f stdio_wrappers dispatch_def returns_def FCGI_fclose_def FCGI_freopen_def fclose_fcgx_def
        vfprintf_fcgx_def FCGI_getchar_def gets_None)
qed

section \<open>Witnesses\<close>

definition ex_file :: "byte list \<Rightarrow> c_file" where
  "ex_file bs = \<lparr>cdata = bs, cpos = 0, creadable = True, cwritable = True, cappend = False, ceof = False,
     cerror = False, cungot = None, cfileno = 0, cseekable = True, cstatus = 0\<rparr>"

definition ex_stdio :: "fcgiapp \<Rightarrow> c_file option list \<Rightarrow> fcgi_stdio" where
  "ex_stdio a q = \<lparr>files = (\<lambda>h. if h < 3 then Some (ex_file []) else None), next_file = 3, openq = q, lib = a,
     acceptCalled = False, isCGI = False, at_exit = False, environ_ptr = Process_env,
     fcgi_sF = (\<lambda>fp. if fp < 3 then Some \<lparr>stdio_stream = None, fcgx_stream = None\<rparr> else None), next_fcgi = 3\<rparr>"

lemma ex_fresh: "fresh_stdio (ex_stdio a q)"
  by (simp add: fresh_stdio_def ex_stdio_def)

definition ex_cgi :: fcgi_stdio where
  "ex_cgi = ex_stdio (ex_app\<lparr>isFastCGI := 0\<rparr>) [Some (ex_file [65])]"

lemma ex_cgi_run:
  "\<exists>st' k'. perform_all L se [Accept, Fopen [97, 0] [114, 43, 0], Fgetc 3, Fclose 1] ex_cgi (ex_os [] [])
      = Some ([Number 0, File (Some 3), Number 65, Number 0], st', k')
    \<and> fcgi_sF st' 3 = Some \<lparr>stdio_stream = Some 3, fcgx_stream = None\<rparr>"
  by (simp add: ex_cgi_def ex_stdio_def ex_app_def ex_file_def ex_os_def returns_def FCGI_Accept_def FCGX_IsCGI_def
      set_sF_def FCGI_fopen_def open_and_wrap_def c_open_def mode_file_def c_str_def FCGI_OpenFromFILE_def
      FCGI_fgetc_def dispatch_def by_stdio_def on_file_def c_fgetc_def FCGI_fclose_def c_fclose_def free_fp_def Let_def)

theorem stdio_types_witness:
  "\<exists>st' k'. perform_all ex_libc (\<lambda>_. []) [Accept, Fopen [97, 0] [114, 43, 0], Fgetc 3, Fclose 1] ex_cgi (ex_os [] [])
      = Some ([Number 0, File (Some 3), Number 65, Number 0], st', k')
    \<and> files st' 3 \<noteq> None \<and> perform ex_libc (\<lambda>_. []) (Fseek 3 0 0) st' k' \<noteq> None"
proof -
  from ex_cgi_run [of ex_libc "\<lambda>_. []"] obtain st' k' where
    r: "perform_all ex_libc (\<lambda>_. []) [Accept, Fopen [97, 0] [114, 43, 0], Fgetc 3, Fclose 1] ex_cgi (ex_os [] [])
      = Some ([Number 0, File (Some 3), Number 65, Number 0], st', k')"
    and f: "fcgi_sF st' 3 = Some \<lparr>stdio_stream = Some 3, fcgx_stream = None\<rparr>" by blast
  from stdio_types [OF ex_fresh r [unfolded ex_cgi_def] _ f] have t:
    "files st' 3 \<noteq> None" "\<forall>c. file_of c = Some 3 \<longrightarrow> perform ex_libc (\<lambda>_. []) c st' k' \<noteq> None" by simp_all
  from t(2) [rule_format, of "Fseek 3 0 0"] have "perform ex_libc (\<lambda>_. []) (Fseek 3 0 0) st' k' \<noteq> None"
    by (simp del: perform.simps)
  with r t(1) show ?thesis by blast
qed

definition ex_opened :: fcgi_stdio where
  "ex_opened = ex_cgi\<lparr>openq := [None], fcgi_sF := (fcgi_sF ex_cgi)(1 \<mapsto> \<lparr>stdio_stream = Some 1, fcgx_stream = None\<rparr>)\<rparr>"

theorem freopen_dangles_witness:
  "\<exists>st' k'. FCGI_freopen [97, 0] [114, 0] 1 ex_opened (ex_os [] []) = Some (None, st', k')
    \<and> perform ex_libc (\<lambda>_. []) (Fclose 1) st' k' = None"
proof -
  have s: "fcgi_sF ex_opened 1 = Some \<lparr>stdio_stream = Some 1, fcgx_stream = None\<rparr>" by (simp add: ex_opened_def)
  have "\<exists>st' k'. FCGI_freopen [97, 0] [114, 0] 1 ex_opened (ex_os [] []) = Some (None, st', k')"
    by (simp add: FCGI_freopen_def dispatch_def ex_opened_def ex_cgi_def ex_stdio_def c_freopen_def)
  then obtain st' k' where f: "FCGI_freopen [97, 0] [114, 0] 1 ex_opened (ex_os [] []) = Some (None, st', k')" by blast
  from freopen_dangles [OF s _ f, of 1 "Fclose 1"] f show ?thesis by auto
qed

text \<open>The program has been asked to shut down while it handled a request.\<close>

definition ex_request_stdio :: fcgi_stdio where
  "ex_request_stdio = (ex_stdio ex_app [])\<lparr>acceptCalled := True,
     fcgi_sF := [0 \<mapsto> \<lparr>stdio_stream = None, fcgx_stream = Some In_stream\<rparr>,
       1 \<mapsto> \<lparr>stdio_stream = None, fcgx_stream = Some Out_stream\<rparr>, 2 \<mapsto> \<lparr>stdio_stream = None, fcgx_stream = Some Err_stream\<rparr>]\<rparr>"

definition ex_shutdown :: os where
  "ex_shutdown = (ex_os [] [])\<lparr>shutdownPending := True\<rparr>"

lemma ex_shutdown_accept: "\<exists>st' k'. FCGI_Accept ex_request_stdio ex_shutdown = Some (-9999, st', k')"
proof -
  let ?k = "ex_shutdown\<lparr>locks := {0}\<rparr>"
  have "AcquireLock 0 False ex_shutdown = (0, ?k)"
    by (subst AcquireLock.simps) (simp add: ex_shutdown_def ex_os_def sys_lock_def)
  moreover have "Accept_retry 0 False (-1) None ?k = Some (-1, None, ?k)"
    by (subst Accept_retry.simps) (simp add: ex_shutdown_def)
  moreover have "ReleaseLock 0 ?k = (0, ex_shutdown)"
    by (subst ReleaseLock.simps) (simp add: ex_shutdown_def ex_os_def sys_lock_def)
  ultimately have "OS_Accept 0 False None ex_shutdown = Some (-1, ex_shutdown)"
    unfolding OS_Accept_def
    by (subst Accept_outer.simps, subst Accept_inner.simps) (simp add: ex_shutdown_def)
  moreover have "errno ex_shutdown = 0" by (simp add: ex_shutdown_def)
  ultimately show ?thesis
    by (simp add: FCGI_Accept_def ex_request_stdio_def ex_stdio_def ex_app_def FCGX_InitRequest_def FCGX_Accept_def
        FCGX_Accept_r_def FCGX_Finish_r_def FCGX_Free_def FreeParams_def OS_IpcClose_def OS_Close_def
        Accept_loop.simps [of None] Accept_connect_def Let_def FCGX_FreeStream_def)
qed

theorem failed_accept_dangles_witness:
  "\<exists>st' k'. FCGI_Accept ex_request_stdio ex_shutdown = Some (-9999, st', k')
    \<and> perform ex_libc (\<lambda>_. []) (Fputs [98, 121, 101, 0] 2) st' k' = None"
proof -
  from ex_shutdown_accept obtain st' k' where a: "FCGI_Accept ex_request_stdio ex_shutdown = Some (-9999, st', k')" by blast
  have "acceptCalled ex_request_stdio" "\<not> isCGI ex_request_stdio"
    "fcgi_sF ex_request_stdio 2 = Some \<lparr>stdio_stream = None, fcgx_stream = Some Err_stream\<rparr>"
    by (simp_all add: ex_request_stdio_def ex_stdio_def)
  from failed_accept_dangles [where L = ex_libc and se = "\<lambda>_. []" and c = "Fputs [98, 121, 101, 0] 2", OF this(1,2) a _ this(3)]
  have "perform ex_libc (\<lambda>_. []) (Fputs [98, 121, 101, 0] 2) st' k' = None" by (simp del: perform.simps)
  with a show ?thesis by blast
qed

end
