(* ===== verification/StdioSame.thy ===== *)
theory StdioSame
  imports StdioCalls
begin

text \<open>
  The promise of \<open>fcgi_stdio.c\<close>: a program that works on its standard streams does the same as a CGI program
  and as a FastCGI application. \<open>spec_call\<close> says what each call gives on an input that is still to be read
  and two outputs; the locale \<open>standard_streams\<close> states what the elementary calls must do to provide it, and
  derives the rest and whole programs. It is interpreted twice: by the C library's streams (\<open>cgi\<close>) and by a
  request's (\<open>fastcgi\<close>).
\<close>

section \<open>Specification\<close>

text \<open>The input that is left, and what has been written to the two outputs.\<close>

type_synonym io_world = "byte list \<times> byte list \<times> byte list"

definition put_to :: "nat \<Rightarrow> byte list \<Rightarrow> io_world \<Rightarrow> io_world" where
  "put_to fp bs = (\<lambda>(xs, o', e'). if fp = FCGI_stdout then (xs, o' @ bs, e') else (xs, o', e' @ bs))"

lemma put_to_sel [simp]:
  "fst (put_to fp bs w) = fst w"
  "fst (snd (put_to fp bs w)) = (if fp = FCGI_stdout then fst (snd w) @ bs else fst (snd w))"
  "snd (snd (put_to fp bs w)) = (if fp = FCGI_stdout then snd (snd w) else snd (snd w) @ bs)"
  by (simp_all add: put_to_def split_def)

lemma put_to_Nil [simp]: "put_to fp [] w = w"
  by (simp add: put_to_def split_def)

definition formatted :: "'d libc \<Rightarrow> byte list \<Rightarrow> 'd varg list \<Rightarrow> piece list option" where
  "formatted L fmt ap = do { n \<leftarrow> strlen fmt; c_printf L (take n fmt) ap }"

definition block_size :: "64 word \<Rightarrow> 64 word \<Rightarrow> nat" where
  "block_size sz n = unat sz * unat n"

fun spec_call :: "'d libc \<Rightarrow> 'd io_call \<Rightarrow> io_world \<Rightarrow> io_result \<times> io_world" where
  "spec_call L (Fgetc fp) (xs, oe) = (Number (if xs = [] then EOF else uint (hd xs)), (tl xs, oe))"
| "spec_call L Getchar (xs, oe) = (Number (if xs = [] then EOF else uint (hd xs)), (tl xs, oe))"
| "spec_call L (Fgets n fp) (xs, oe) =
     (let l = line_of (nat (n - 1)) xs in (Text_read (if xs = [] then None else Some l), (drop (length l) xs, oe)))"
| "spec_call L Gets (xs, oe) =
     (let l = takeWhile (\<lambda>b. b \<noteq> 10) xs in
      (Text_read (if xs = [] then None else Some l), (drop (length l + 1) xs, oe)))"
| "spec_call L (Fread sz n fp) (xs, oe) =
     (let bs = take (block_size sz n) xs in
      (Block (of_nat (length bs div unat sz)) bs, (drop (block_size sz n) xs, oe)))"
| "spec_call L (Fputc c fp) w = (Number (uint (uchar c)), put_to fp [uchar c] w)"
| "spec_call L (Putchar c) w = (Number (uint (uchar c)), put_to FCGI_stdout [uchar c] w)"
| "spec_call L (Fputs str fp) w = (Number 0, put_to fp (c_str str) w)"
| "spec_call L (Puts str) w = (Number 10, put_to FCGI_stdout (c_str str @ [10]) w)"
| "spec_call L (Fwrite str sz n fp) w =
     (Block (of_nat (block_size sz n div unat sz)) [], put_to fp (take (block_size sz n) str) w)"
| "spec_call L (Fprintf fp fmt ap m) w =
     (let ps = the (formatted L fmt ap) in
      (Printed (int (length (text_of ps))) (count_pieces 0 m ps), put_to fp (text_of ps) w))"
| "spec_call L (Vfprintf fp fmt ap m) w =
     (let ps = the (formatted L fmt ap) in
      (Printed (int (length (text_of ps))) (count_pieces 0 m ps), put_to fp (text_of ps) w))"
| "spec_call L (Printf fmt ap m) w =
     (let ps = the (formatted L fmt ap) in
      (Printed (int (length (text_of ps))) (count_pieces 0 m ps), put_to FCGI_stdout (text_of ps) w))"
| "spec_call L (Vprintf fmt ap m) w =
     (let ps = the (formatted L fmt ap) in
      (Printed (int (length (text_of ps))) (count_pieces 0 m ps), put_to FCGI_stdout (text_of ps) w))"
| "spec_call L (Fflush fp) w = (Number 0, w)"
| "spec_call L c w = (Done, w)"

text \<open>
  The calls it speaks of: on the standard streams, within the limits of \<open>fcgi_stdio.c\<close>. A program may rely
  on the sign of what \<open>fputs\<close> returns only (\<open>seen\<close>).
\<close>

definition printable :: "'d libc \<Rightarrow> byte list \<Rightarrow> 'd varg list \<Rightarrow> bool" where
  "printable L fmt ap \<longleftrightarrow> prints_within L \<and> (\<exists>ps. formatted L fmt ap = Some ps \<and> int (length (text_of ps)) < INT_MAX)"

definition writable :: "nat \<Rightarrow> bool" where
  "writable fp \<longleftrightarrow> fp = FCGI_stdout \<or> fp = FCGI_stderr"

fun admissible :: "'d libc \<Rightarrow> 'd io_call \<Rightarrow> bool" where
  "admissible L (Fgetc fp) = (fp = FCGI_stdin)"
| "admissible L Getchar = True"
| "admissible L (Fgets n fp) = (fp = FCGI_stdin \<and> 1 < n)"
| "admissible L Gets = True"
| "admissible L (Fread sz n fp) = (fp = FCGI_stdin \<and> int (block_size sz n) < INT_MAX)"
| "admissible L (Fputc c fp) = writable fp"
| "admissible L (Putchar c) = True"
| "admissible L (Fputs str fp) = (writable fp \<and> int (length (c_str str)) \<le> INT_MAX)"
| "admissible L (Puts str) = (int (length (c_str str)) \<le> INT_MAX)"
| "admissible L (Fwrite str sz n fp) =
     (writable fp \<and> int (block_size sz n) < INT_MAX \<and> block_size sz n \<le> length str)"
| "admissible L (Fprintf fp fmt ap m) = (writable fp \<and> printable L fmt ap)"
| "admissible L (Vfprintf fp fmt ap m) = (writable fp \<and> printable L fmt ap)"
| "admissible L (Printf fmt ap m) = printable L fmt ap"
| "admissible L (Vprintf fmt ap m) = printable L fmt ap"
| "admissible L (Fflush fp) = (\<exists>f. fp = Some f \<and> writable f)"
| "admissible L c = False"

fun seen :: "'d io_call \<Rightarrow> io_result \<Rightarrow> io_result" where
  "seen (Fputs str fp) (Number n) = Number (if n < 0 then EOF else 0)"
| "seen c v = v"

text \<open>A program: the results so far decide the next call.\<close>

type_synonym 'd program = "io_result list \<Rightarrow> 'd io_call option"

fun run_program ::
  "'d libc \<Rightarrow> (int \<Rightarrow> byte list) \<Rightarrow> 'd program \<Rightarrow> nat \<Rightarrow> io_result list \<Rightarrow> fcgi_stdio \<Rightarrow> os \<Rightarrow> (io_result list) run" where
  "run_program L se prog 0 log st k = Some (log, st, k)"
| "run_program L se prog (Suc n) log st k =
     (case prog log of
        None \<Rightarrow> Some (log, st, k)
      | Some c \<Rightarrow> do { (v, st, k) \<leftarrow> perform L se c st k; run_program L se prog n (log @ [seen c v]) st k })"

fun spec_program ::
  "'d libc \<Rightarrow> 'd program \<Rightarrow> nat \<Rightarrow> io_result list \<Rightarrow> io_world \<Rightarrow> io_result list \<times> io_world" where
  "spec_program L prog 0 log w = (log, w)"
| "spec_program L prog (Suc n) log w =
     (case prog log of
        None \<Rightarrow> (log, w)
      | Some c \<Rightarrow> let (v, w) = spec_call L c w in spec_program L prog n (log @ [v]) w)"

section \<open>What provides the standard streams\<close>

lemma vfprintf_fprintf:
  assumes "fcgi_sF st fp = Some f" "stdio_stream f \<noteq> None \<or> fcgx_stream f \<noteq> None"
  shows "FCGI_vfprintf L fp fmt ap m st k = FCGI_fprintf L fp fmt ap m st k"
  using assms by (auto simp: FCGI_vfprintf_def FCGI_fprintf_def dispatch_def split: option.split)

lemma keepsD: "keeps st x \<Longrightarrow> x = Some (v, st', k') \<Longrightarrow> fcgi_sF st' = fcgi_sF st"
  by (auto simp: keeps_def same_table_def)

lemma puts_fputs:
  assumes "fcgi_sF st FCGI_stdout = Some f" "stdio_stream f \<noteq> None \<or> fcgx_stream f \<noteq> None"
  shows "FCGI_puts str st k
    = do { (n, st, k) \<leftarrow> FCGI_fputs str FCGI_stdout st k;
           if n < 0 then Some (n, st, k) else FCGI_fputc 10 FCGI_stdout st k }"
proof (cases "stdio_stream f")
  case None
  then obtain p where p: "fcgx_stream f = Some p" using assms(2) by auto
  have "fcgi_sF st1 = fcgi_sF st" if "on_fcgx p (FCGX_PutS EmptyBuffProc str) st k = Some (n, st1, k1)" for n st1 k1
    using keeps_on_fcgx that by (rule keepsD)
  with None p assms(1) show ?thesis
    by (auto simp: FCGI_puts_def FCGI_fputs_def FCGI_fputc_def dispatch_def intro!: bind_option_cong)
next
  case (Some h)
  have "fcgi_sF st1 = fcgi_sF st" if "by_stdio (c_fputs str) h st k = Some (n, st1, k1)" for n st1 k1
    using keeps_by_stdio that by (rule keepsD)
  with Some assms(1) show ?thesis
    by (auto simp: FCGI_puts_def FCGI_fputs_def FCGI_fputc_def dispatch_def intro!: bind_option_cong)
qed

locale standard_streams =
  fixes serves :: "io_world \<Rightarrow> fcgi_stdio \<Rightarrow> os \<Rightarrow> bool" and L :: "'d libc"
  assumes bound: "serves w st k \<Longrightarrow> writable fp \<Longrightarrow>
      \<exists>f. fcgi_sF st fp = Some f \<and> (stdio_stream f \<noteq> None \<or> fcgx_stream f \<noteq> None)"
    and read_char: "serves (xs, oe) st k \<Longrightarrow>
      \<exists>st' k'. FCGI_fgetc FCGI_stdin st k = Some (if xs = [] then EOF else uint (hd xs), st', k')
        \<and> serves (tl xs, oe) st' k'"
    and read_line: "serves (xs, oe) st k \<Longrightarrow> 1 < n \<Longrightarrow>
      \<exists>st' k'. FCGI_fgets n FCGI_stdin st k
          = Some (if xs = [] then None else Some (line_of (nat (n - 1)) xs), st', k')
        \<and> serves (drop (length (line_of (nat (n - 1)) xs)) xs, oe) st' k'"
    and read_block: "serves (xs, oe) st k \<Longrightarrow> int (block_size sz m) < INT_MAX \<Longrightarrow>
      \<exists>st' k'. FCGI_fread sz m FCGI_stdin st k
          = Some ((of_nat (length (take (block_size sz m) xs) div unat sz), take (block_size sz m) xs), st', k')
        \<and> serves (drop (block_size sz m) xs, oe) st' k'"
    and write_char: "serves w st k \<Longrightarrow> writable fp \<Longrightarrow>
      \<exists>st' k'. FCGI_fputc c fp st k = Some (uint (uchar c), st', k') \<and> serves (put_to fp [uchar c] w) st' k'"
    and write_str: "serves w st k \<Longrightarrow> writable fp \<Longrightarrow> int (length (c_str str)) \<le> INT_MAX \<Longrightarrow>
      \<exists>v st' k'. FCGI_fputs str fp st k = Some (v, st', k') \<and> 0 \<le> v \<and> serves (put_to fp (c_str str) w) st' k'"
    and write_block: "serves w st k \<Longrightarrow> writable fp \<Longrightarrow> int (block_size sz m) < INT_MAX \<Longrightarrow>
      block_size sz m \<le> length str \<Longrightarrow>
      \<exists>st' k'. FCGI_fwrite str sz m fp st k = Some (of_nat (block_size sz m div unat sz), st', k')
        \<and> serves (put_to fp (take (block_size sz m) str) w) st' k'"
    and write_formatted: "serves w st k \<Longrightarrow> writable fp \<Longrightarrow> printable L fmt ap \<Longrightarrow> formatted L fmt ap = Some ps \<Longrightarrow>
      \<exists>st' k'. FCGI_fprintf L fp fmt ap cs st k = Some ((int (length (text_of ps)), count_pieces 0 cs ps), st', k')
        \<and> serves (put_to fp (text_of ps) w) st' k'"
    and flush: "serves w st k \<Longrightarrow> writable fp \<Longrightarrow>
      \<exists>st' k'. FCGI_fflush (Some fp) st k = Some (0, st', k') \<and> serves w st' k'"
begin

lemma gets_spec:
  assumes "serves (xs, oe) st k"
  shows "\<exists>st' k'. Gets_loop acc st k
      = Some (if acc = [] \<and> xs = [] then None else Some (acc @ takeWhile (\<lambda>b. b \<noteq> 10) xs), st', k')
    \<and> serves (drop (length (takeWhile (\<lambda>b. b \<noteq> 10) xs) + 1) xs, oe) st' k'"
  using assms
proof (induction xs arbitrary: acc st k)
  case Nil
  from read_char [OF Nil] show ?case
    by (subst Gets_loop.simps) (auto simp: FCGI_getchar_def EOF_def)
next
  case (Cons x xs)
  from read_char [OF Cons.prems] obtain st1 k1 where
    1: "FCGI_fgetc 0 st k = Some (uint x, st1, k1)" "serves (xs, oe) st1 k1" by auto
  show ?case
  proof (cases "x = 10")
    case True
    with 1 show ?thesis by (subst Gets_loop.simps) (auto simp: FCGI_getchar_def)
  next
    case False
    then have "uint x \<noteq> 10" by (simp add: word_uint_eq_iff)
    with 1(1) have "Gets_loop acc st k = Gets_loop (acc @ [x]) st1 k1"
      by (subst Gets_loop.simps) (simp add: FCGI_getchar_def)
    with Cons.IH [OF 1(2), of "acc @ [x]"] False show ?thesis by simp
  qed
qed

lemma puts_spec:
  assumes "serves w st k" "int (length (c_str str)) \<le> INT_MAX"
  shows "\<exists>st' k'. FCGI_puts str st k = Some (10, st', k') \<and> serves (put_to 1 (c_str str @ [10]) w) st' k'"
proof -
  have wr: "writable FCGI_stdout" by (simp add: writable_def)
  from bound [OF assms(1) wr] obtain f where f: "fcgi_sF st 1 = Some f" "stdio_stream f \<noteq> None \<or> fcgx_stream f \<noteq> None"
    by blast
  from write_str [OF assms(1) wr assms(2)] obtain v st1 k1 where
    1: "FCGI_fputs str 1 st k = Some (v, st1, k1)" "0 \<le> v" "serves (put_to 1 (c_str str) w) st1 k1" by blast
  from write_char [OF 1(3) wr, of 10] obtain st2 k2 where
    2: "FCGI_fputc 10 1 st1 k1 = Some (uint (uchar 10), st2, k2)" "serves (put_to 1 [uchar 10] (put_to 1 (c_str str) w)) st2 k2"
    by blast
  have "uint (uchar 10) = 10" "uchar 10 = 10" by (simp_all add: uchar_def)
  with puts_fputs [OF f] 1 2 show ?thesis by (simp add: put_to_def split_def)
qed

lemma vfprintf_spec:
  assumes "serves w st k" "writable fp" "printable L fmt ap" "formatted L fmt ap = Some ps"
  shows "\<exists>st' k'. FCGI_vfprintf L fp fmt ap cs st k = Some ((int (length (text_of ps)), count_pieces 0 cs ps), st', k')
    \<and> serves (put_to fp (text_of ps) w) st' k'"
proof -
  from bound [OF assms(1,2)] obtain f where f: "fcgi_sF st fp = Some f" "stdio_stream f \<noteq> None \<or> fcgx_stream f \<noteq> None"
    by blast
  show ?thesis unfolding vfprintf_fprintf [OF f] by (rule write_formatted [OF assms])
qed

text \<open>Every call does what the specification says, and so does every program.\<close>

lemma perform_spec:
  assumes "serves w st k" "admissible L c"
  shows "\<exists>v st' k'. perform L se c st k = Some (v, st', k') \<and> seen c v = fst (spec_call L c w)
    \<and> serves (snd (spec_call L c w)) st' k'"
proof -
  obtain xs oe where w: "w = (xs, oe)" by (cases w) auto
  note s = assms(1) and sx = assms(1) [unfolded w]
  have wr: "writable (Suc 0)" by (simp add: writable_def)
  show ?thesis
    using assms(2)
  proof (cases c)
    case (Fprintf fp fmt ap m)
    with assms(2) obtain ps where p: "formatted L fmt ap = Some ps" by (auto simp: printable_def)
    with assms(2) Fprintf write_formatted [OF s _ _ p, of fp m] show ?thesis by (auto simp: returns_def)
  next
    case (Vfprintf fp fmt ap m)
    with assms(2) obtain ps where p: "formatted L fmt ap = Some ps" by (auto simp: printable_def)
    with assms(2) Vfprintf vfprintf_spec [OF s _ _ p, of fp m] show ?thesis by (auto simp: returns_def)
  next
    case (Printf fmt ap m)
    with assms(2) obtain ps where p: "formatted L fmt ap = Some ps" by (auto simp: printable_def)
    with assms(2) Printf vfprintf_spec [OF s wr _ p, of m] show ?thesis by (auto simp: returns_def FCGI_printf_def)
  next
    case (Vprintf fmt ap m)
    with assms(2) obtain ps where p: "formatted L fmt ap = Some ps" by (auto simp: printable_def)
    moreover have "FCGI_vprintf L fmt ap m st k = FCGI_vfprintf L 1 fmt ap m st k"
      by (simp add: FCGI_vprintf_def FCGI_vfprintf_def)
    ultimately show ?thesis using assms(2) Vprintf vfprintf_spec [OF s wr _ p, of m] by (auto simp: returns_def)
  next
    case (Fgets n fp)
    with assms(2) read_line [OF sx, of n] show ?thesis by (auto simp: w returns_def Let_def)
  next
    case Gets
    from gets_spec [OF sx, of "[]"] show ?thesis by (auto simp: Gets w returns_def Let_def FCGI_gets_def)
  next
    case (Fread sz n fp)
    with assms(2) read_block [OF sx, of sz n] show ?thesis by (auto simp: w returns_def Let_def)
  next
    case (Fputs str fp)
    with assms(2) write_str [OF s, of fp str] show ?thesis by (auto simp: returns_def)
  next
    case (Fwrite str sz n fp)
    with assms(2) write_block [OF s, of fp sz n str] show ?thesis by (auto simp: returns_def)
  next
    case (Fflush fp)
    with assms(2) obtain f where f: "fp = Some f" "writable f" by auto
    with Fflush flush [OF s f(2)] show ?thesis by (auto simp: returns_def)
  next
    case (Fputc b fp)
    with assms(2) write_char [OF s, of fp b] show ?thesis by (auto simp: returns_def)
  next
    case (Putchar b)
    with write_char [OF s wr, of b] show ?thesis by (auto simp: returns_def FCGI_putchar_def)
  next
    case (Puts str)
    with assms(2) puts_spec [OF s, of str] show ?thesis by (auto simp: returns_def)
  qed (use read_char [OF sx] in \<open>auto simp: w returns_def FCGI_getchar_def\<close>)
qed

lemma program_spec:
  assumes "\<And>log c. prog log = Some c \<Longrightarrow> admissible L c" "serves w st k"
  shows "\<exists>st' k'. run_program L se prog n log st k = Some (fst (spec_program L prog n log w), st', k')
    \<and> serves (snd (spec_program L prog n log w)) st' k'"
  using assms(2)
proof (induction n arbitrary: log w st k)
  case (Suc n)
  show ?case
  proof (cases "prog log")
    case (Some c)
    from perform_spec [OF Suc.prems assms(1) [OF Some]] obtain v st1 k1 where
      "perform L se c st k = Some (v, st1, k1)" "seen c v = fst (spec_call L c w)" "serves (snd (spec_call L c w)) st1 k1"
      by blast
    with Suc.IH [OF this(3), of "log @ [fst (spec_call L c w)]"] Some show ?thesis
      by (simp add: split_def Let_def)
  qed (use Suc.prems in auto)
qed auto

end

section \<open>The streams of a CGI program\<close>

text \<open>A stream open for writing, at its end: what has been written.\<close>

definition c_sink :: "byte list \<Rightarrow> c_file \<Rightarrow> bool" where
  "c_sink o' f \<longleftrightarrow> cwritable f \<and> cdata f = o' \<and> (cappend f \<or> cpos f = length o')"

lemma c_write_sink: "c_sink o' f \<Longrightarrow> \<exists>f'. c_write bs f = (True, f') \<and> c_sink (o' @ bs) f'"
  by (auto simp: c_sink_def c_write_def Let_def)

definition cgi_serves :: "io_world \<Rightarrow> fcgi_stdio \<Rightarrow> os \<Rightarrow> bool" where
  "cgi_serves w st k \<longleftrightarrow>
     (\<forall>fp < 3. fcgi_sF st fp = Some \<lparr>stdio_stream = Some fp, fcgx_stream = None\<rparr>)
     \<and> (\<exists>f. files st 0 = Some f \<and> c_src (fst w) f) \<and> (\<exists>f. files st 1 = Some f \<and> c_sink (fst (snd w)) f)
     \<and> (\<exists>f. files st 2 = Some f \<and> c_sink (snd (snd w)) f)"

lemma cgi_dispatch:
  "cgi_serves w st k \<Longrightarrow> fp < 3 \<Longrightarrow> dispatch fp c x n st k = c fp st k"
  by (auto simp: cgi_serves_def dispatch_def)

lemma cgi_read:
  assumes "cgi_serves (xs, oe) st k" "\<And>f. c_src xs f \<Longrightarrow> \<exists>f'. F f = (v, f') \<and> c_src ys f'"
  shows "\<exists>st'. by_stdio F 0 st k = Some (v, st', k) \<and> cgi_serves (ys, oe) st' k"
proof -
  obtain f where f: "files st 0 = Some f" "c_src xs f" using assms(1) by (auto simp: cgi_serves_def)
  from assms(2) [OF f(2)] f assms(1) show ?thesis
    by (auto simp: by_stdio_def on_file_def cgi_serves_def split: prod.splits)
qed

lemma cgi_write:
  assumes "cgi_serves w st k" "writable fp" "\<And>f o'. c_sink o' f \<Longrightarrow> \<exists>f'. F f = (v, f') \<and> c_sink (o' @ bs) f'"
  shows "\<exists>st'. by_stdio F fp st k = Some (v, st', k) \<and> cgi_serves (put_to fp bs w) st' k"
proof -
  from assms(1,2) obtain f where f: "files st fp = Some f" "c_sink (if fp = 1 then fst (snd w) else snd (snd w)) f"
    by (auto simp: cgi_serves_def writable_def)
  from assms(3) [OF f(2)] f assms(1,2) show ?thesis
    by (auto simp: by_stdio_def on_file_def cgi_serves_def writable_def)
qed

interpretation cgi: standard_streams cgi_serves L for L
proof unfold_locales
  fix w :: io_world and st k fp assume "cgi_serves w st k" "writable fp"
  then show "\<exists>f. fcgi_sF st fp = Some f \<and> (stdio_stream f \<noteq> None \<or> fcgx_stream f \<noteq> None)"
    by (auto simp: cgi_serves_def writable_def)
next
  fix xs oe st k assume s: "cgi_serves (xs, oe) st k"
  have "c_src xs f \<Longrightarrow> \<exists>f'. c_fgetc f = (if xs = [] then EOF else uint (hd xs), f') \<and> c_src (tl xs) f'" for f
    by (rule c_fgetc_src)
  from cgi_read [where F = c_fgetc, OF s this] show "\<exists>st' k'. FCGI_fgetc 0 st k = Some (if xs = [] then EOF else uint (hd xs), st', k')
      \<and> cgi_serves (tl xs, oe) st' k'" by (auto simp: FCGI_fgetc_def cgi_dispatch [OF s])
next
  fix xs oe st k and n :: int assume s: "cgi_serves (xs, oe) st k" "1 < n"
  have "line_of (nat (n - 1)) xs = [] \<longleftrightarrow> xs = []" using s(2) by (cases "nat (n - 1)"; cases xs) auto
  then have "c_src xs f \<Longrightarrow> \<exists>f'. c_fgets n f = (if xs = [] then None else Some (line_of (nat (n - 1)) xs), f')
      \<and> c_src (drop (length (line_of (nat (n - 1)) xs)) xs) f'" for f
    using c_getline_src [of xs f "nat (n - 1)"] s(2) by (auto simp: c_fgets_def)
  from cgi_read [where F = "c_fgets n", OF s(1) this] show "\<exists>st' k'. FCGI_fgets n 0 st k
        = Some (if xs = [] then None else Some (line_of (nat (n - 1)) xs), st', k')
      \<and> cgi_serves (drop (length (line_of (nat (n - 1)) xs)) xs, oe) st' k'"
    by (auto simp: FCGI_fgets_def cgi_dispatch [OF s(1)])
next
  fix xs oe st k and sz m :: "64 word" assume s: "cgi_serves (xs, oe) st k"
  have "c_src xs f \<Longrightarrow> \<exists>f'. (let ((n, bs), f) = c_fread (unat sz) (unat m) f in ((of_nat n :: 64 word, bs), f))
        = ((of_nat (length (take (block_size sz m) xs) div unat sz), take (block_size sz m) xs), f')
      \<and> c_src (drop (block_size sz m) xs) f'" for f
    using c_getn_src [of xs f "block_size sz m"] by (auto simp: c_fread_def block_size_def)
  from cgi_read [where F = "\<lambda>f. let ((n, bs), f) = c_fread (unat sz) (unat m) f in ((of_nat n, bs), f)", OF s this]
  show "\<exists>st' k'. FCGI_fread sz m 0 st k
        = Some ((of_nat (length (take (block_size sz m) xs) div unat sz), take (block_size sz m) xs), st', k')
      \<and> cgi_serves (drop (block_size sz m) xs, oe) st' k'"
    by (auto simp: FCGI_fread_def cgi_dispatch [OF s])
next
  fix w :: io_world and st k fp c assume s: "cgi_serves w st k" "writable fp"
  then have fp: "fp < 3" by (auto simp: writable_def)
  have "c_sink o' f \<Longrightarrow> \<exists>f'. c_fputc c f = (uint (uchar c), f') \<and> c_sink (o' @ [uchar c]) f'" for f o'
    using c_write_sink [of o' f "[uchar c]"] by (auto simp: c_fputc_def)
  from cgi_write [where F = "c_fputc c", OF s this] show "\<exists>st' k'. FCGI_fputc c fp st k = Some (uint (uchar c), st', k')
      \<and> cgi_serves (put_to fp [uchar c] w) st' k'" by (auto simp: FCGI_fputc_def cgi_dispatch [OF s(1) fp])
next
  fix w :: io_world and st k fp str assume s: "cgi_serves w st k" "writable fp"
  then have fp: "fp < 3" by (auto simp: writable_def)
  have "c_sink o' f \<Longrightarrow> \<exists>f'. c_fputs str f = (1, f') \<and> c_sink (o' @ c_str str) f'" for f o'
    using c_write_sink [of o' f "c_str str"] by (auto simp: c_fputs_def)
  from cgi_write [where F = "c_fputs str", OF s this] show "\<exists>v st' k'. FCGI_fputs str fp st k = Some (v, st', k') \<and> 0 \<le> v
      \<and> cgi_serves (put_to fp (c_str str) w) st' k'" by (fastforce simp: FCGI_fputs_def cgi_dispatch [OF s(1) fp])
next
  fix w :: io_world and st k fp and str :: "byte list" and sz m :: "64 word"
  assume s: "cgi_serves w st k" "writable fp" and l: "block_size sz m \<le> length str"
  then have fp: "fp < 3" by (auto simp: writable_def)
  have "c_sink o' f \<Longrightarrow> \<exists>f'. (let (n, f) = c_fwrite str (unat sz) (unat m) f in (of_nat n :: 64 word, f))
        = (of_nat (block_size sz m div unat sz), f') \<and> c_sink (o' @ take (block_size sz m) str) f'" for f o'
    using c_write_sink [of o' f "take (block_size sz m) str"] by (auto simp: c_fwrite_def block_size_def)
  from cgi_write [where F = "\<lambda>f. let (n, f) = c_fwrite str (unat sz) (unat m) f in (of_nat n, f)", OF s this] l
  show "\<exists>st' k'. FCGI_fwrite str sz m fp st k = Some (of_nat (block_size sz m div unat sz), st', k')
      \<and> cgi_serves (put_to fp (take (block_size sz m) str) w) st' k'"
    by (auto simp: FCGI_fwrite_def cgi_dispatch [OF s(1) fp] ASSERT_def block_size_def)
next
  fix w :: io_world and st k fp fmt ap ps cs
  assume s: "cgi_serves w st k" "writable fp" and p: "printable L fmt ap" "formatted L fmt ap = Some ps"
  then have fp: "fp < 3" by (auto simp: writable_def)
  from p obtain n where "strlen fmt = Some n" "c_printf L (take n fmt) ap = Some ps" "int (length (text_of ps)) \<le> INT_MAX"
    by (auto simp: formatted_def printable_def bind_eq_Some_conv)
  then have pr: "c_sink o' f \<Longrightarrow> \<exists>f'. c_vfprintf L fmt ap cs f = Some ((int (length (text_of ps)), count_pieces 0 cs ps), f')
      \<and> c_sink (o' @ text_of ps) f'" for f o'
    using c_write_sink [of o' f "text_of ps"] by (auto simp: c_vfprintf_def ASSERT_def)
  from s obtain f where f: "files st fp = Some f" "c_sink (if fp = 1 then fst (snd w) else snd (snd w)) f"
    by (auto simp: cgi_serves_def writable_def)
  from pr [OF f(2)] f s show "\<exists>st' k'. FCGI_fprintf L fp fmt ap cs st k = Some ((int (length (text_of ps)), count_pieces 0 cs ps), st', k')
      \<and> cgi_serves (put_to fp (text_of ps) w) st' k'"
    by (auto simp: FCGI_fprintf_def cgi_dispatch [OF s(1) fp] vfprintf_stdio_def cgi_serves_def writable_def)
next
  fix w :: io_world and st k fp assume s: "cgi_serves w st k" "writable fp"
  then have fp: "fp < 3" by (auto simp: writable_def)
  have "\<exists>f. files st fp = Some f" using s by (auto simp: cgi_serves_def writable_def)
  then show "\<exists>st' k'. FCGI_fflush (Some fp) st k = Some (0, st', k') \<and> cgi_serves w st' k'"
    using s(1) by (auto simp: FCGI_fflush_def cgi_dispatch [OF s(1) fp] by_stdio_def on_file_def fun_upd_idem)
qed

section \<open>The streams of a request\<close>

text \<open>A reader seen from a later state of the connection: only its buffer and what is still to be read matter.\<close>

lemma rd_src_rebase:
  assumes "rd_src k0 r re [] (DEof rest) xs s r' k"
  shows "r' = r" "chan k0 (ipcFd r) [] k" "rd_src k r re [] (DEof rest) xs s r k"
proof -
  show r: "r' = r" and c: "chan k0 (ipcFd r) [] k" using assms by (auto simp: rd_src_def split: if_splits)
  have "chan k (ipcFd r) [] k" using chan_fd_ok [OF c] chan_clean [OF c] by (rule chan_start)
  moreover have "dpar k re s r = dpar k0 re s r" using chan_junk [OF c] by (simp add: dpar_def)
  ultimately show "rd_src k r re [] (DEof rest) xs s r k"
    using assms by (auto simp: rd_src_def r split: if_splits)
qed

lemma rd_src_wire:
  assumes "rd_src k r re [] (DEof rest) xs s r k" "wire True (ipcFd r) k bs k'"
  shows "rd_src k' r re [] (DEof rest) xs s r k'"
proof -
  from assms(2) obtain es e where k': "k' = sent_on (ipcFd r) bs es e k" "wx_clean es" "fd_ok (ipcFd r) k"
    by (auto simp: wire_def)
  have c: "chan k' (ipcFd r) [] k'" using k' by (intro chan_start) auto
  have "dpar k' re s r = dpar k re s r" "beyond s r k' = beyond s r k" "left s r k' = left s r k" "rx k' = rx k"
    by (simp_all add: k'(1) dpar_def beyond_def left_def)
  with assms(1) c show ?thesis by (auto simp: rd_src_def split: if_splits)
qed

text \<open>
  A request in progress: \<open>base\<close> was on the connection when it was accepted, records \<open>rs\<close> have followed.
\<close>

definition req_serves ::
  "FCGX_Request \<Rightarrow> int option \<Rightarrow> byte list \<Rightarrow> byte list \<Rightarrow> io_world \<Rightarrow> Request \<Rightarrow> os \<Rightarrow> bool" where
  "req_serves r re rest base w q k \<longleftrightarrow> closable (ipcFd r) k \<and> reqData q = r \<and> freeable q
     \<and> (\<exists>si so se po pe rs. in_ptr q = Some si \<and> out_ptr q = Some so \<and> err_ptr q = Some se
        \<and> rd_src k r re [] (DEof rest) (fst w) si r k
        \<and> writer_at FCGI_STDOUT po (sends FCGI_STDOUT rs) so
        \<and> writer_at FCGI_STDERR pe (sends FCGI_STDERR rs) se
        \<and> list_all (data_rec (requestId r)) rs
        \<and> fst (snd w) = content FCGI_STDOUT rs @ po \<and> snd (snd w) = content FCGI_STDERR rs @ pe
        \<and> tx k (ipcFd r) = base @ concat (map enc_rec rs))"

lemma req_servesI:
  "closable (ipcFd r) k \<Longrightarrow> reqData q = r \<Longrightarrow> freeable q \<Longrightarrow> in_ptr q = Some si \<Longrightarrow> out_ptr q = Some so \<Longrightarrow> err_ptr q = Some se
     \<Longrightarrow> rd_src k r re [] (DEof rest) (fst w) si r k
     \<Longrightarrow> writer_at FCGI_STDOUT po (sends FCGI_STDOUT rs) so \<Longrightarrow> writer_at FCGI_STDERR pe (sends FCGI_STDERR rs) se
     \<Longrightarrow> list_all (data_rec (requestId r)) rs
     \<Longrightarrow> fst (snd w) = content FCGI_STDOUT rs @ po \<Longrightarrow> snd (snd w) = content FCGI_STDERR rs @ pe
     \<Longrightarrow> tx k (ipcFd r) = base @ concat (map enc_rec rs) \<Longrightarrow> req_serves r re rest base w q k"
  unfolding req_serves_def by blast

definition fcgi_serves ::
  "FCGX_Request \<Rightarrow> int option \<Rightarrow> byte list \<Rightarrow> byte list \<Rightarrow> io_world \<Rightarrow> fcgi_stdio \<Rightarrow> os \<Rightarrow> bool" where
  "fcgi_serves r re rest base w st k \<longleftrightarrow>
     acceptCalled st \<and> \<not> isCGI st
     \<and> (\<forall>p. fcgi_sF st (index p) = Some \<lparr>stdio_stream = None, fcgx_stream = Some p\<rparr>)
     \<and> req_serves r re rest base w (the_request (lib st)) k"

lemma on_fcgx_serves:
  assumes "fcgi_serves r re rest base w st k" "request_stream p (the_request (lib st)) = Some s"
    "F s r k = Some (v, s', r, k')"
    "req_serves r re rest base w' (set_request_stream p s' (the_request (lib st))) k'"
  shows "\<exists>st'. on_fcgx p F st k = Some (v, st', k') \<and> fcgi_serves r re rest base w' st' k'"
proof -
  let ?q = "set_request_stream p s' (the_request (lib st))"
  have "reqData (the_request (lib st)) = r" using assms(1) by (simp add: fcgi_serves_def req_serves_def)
  moreover have "?q\<lparr>reqData := r\<rparr> = ?q" using assms(4) by (cases ?q) (simp add: req_serves_def)
  ultimately have "on_fcgx p F st k = Some (v, st\<lparr>lib := (lib st)\<lparr>the_request := ?q\<rparr>\<rparr>, k')"
    using assms(2,3) by (simp add: on_fcgx_def)
  with assms(1,4) show ?thesis by (simp add: fcgi_serves_def)
qed

definition out_stream :: "nat \<Rightarrow> fcgx" where
  "out_stream fp = (if fp = FCGI_stdout then Out_stream else Err_stream)"

lemma fcgi_dispatch:
  assumes "fcgi_serves r re rest base w st k"
  shows "dispatch 0 c x n st k = x In_stream st k"
    "writable fp \<Longrightarrow> dispatch fp c x n st k = x (out_stream fp) st k"
proof -
  have "fcgi_sF st (index p) = Some \<lparr>stdio_stream = None, fcgx_stream = Some p\<rparr>" for p
    using assms by (simp add: fcgi_serves_def)
  from this [of In_stream] this [of Out_stream] this [of Err_stream]
  show "dispatch 0 c x n st k = x In_stream st k"
    "writable fp \<Longrightarrow> dispatch fp c x n st k = x (out_stream fp) st k"
    by (auto simp: dispatch_def writable_def out_stream_def)
qed

lemma fcgi_read:
  assumes "fcgi_serves r re rest base (xs, oe) st k"
    "\<And>s k. rd_src k r re [] (DEof rest) xs s r k \<Longrightarrow>
      \<exists>s' r' k'. F s r k = Some (v, s', r', k') \<and> rd_src k r re [] (DEof rest) ys s' r' k'"
  shows "\<exists>st' k'. on_fcgx In_stream F st k = Some (v, st', k') \<and> fcgi_serves r re rest base (ys, oe) st' k'"
proof -
  let ?q = "the_request (lib st)"
  have rs: "req_serves r re rest base (xs, oe) ?q k" using assms(1) by (simp add: fcgi_serves_def)
  then obtain si where si: "in_ptr ?q = Some si" and rd: "rd_src k r re [] (DEof rest) xs si r k"
    by (auto simp: req_serves_def)
  from assms(2) [OF rd] obtain s' r' k' where f: "F si r k = Some (v, s', r', k')"
    and rd': "rd_src k r re [] (DEof rest) ys s' r' k'" by blast
  note rb = rd_src_rebase [OF rd']
  have "closable (ipcFd r) k'" using rs chan_sel [OF rb(2)] by (simp add: req_serves_def closable_def)
  then have "req_serves r re rest base (ys, oe) (?q\<lparr>in_ptr := Some s'\<rparr>) k'"
    using rs rb(3) chan_tx [OF rb(2)] by (fastforce simp: req_serves_def freeable_def)
  with on_fcgx_serves [OF assms(1), of In_stream si F v s' k' "(ys, oe)"] f si rb(1) show ?thesis by auto
qed

lemma fcgi_write:
  assumes "fcgi_serves r re rest base w st k" "writable fp"
    "\<And>sent t p s k. wr_acc sent True k r t p s r k \<Longrightarrow>
      \<exists>s' r' k'. F s r k = Some (v, s', r', k') \<and> wr_acc sent True k r t (p @ bs) s' r' k'"
  shows "\<exists>st' k'. on_fcgx (out_stream fp) F st k = Some (v, st', k') \<and> fcgi_serves r re rest base (put_to fp bs w) st' k'"
proof -
  let ?q = "the_request (lib st)"
  have rs: "req_serves r re rest base w ?q k" using assms(1) by (simp add: fcgi_serves_def)
  then obtain si so se po pe rs where q: "in_ptr ?q = Some si" "out_ptr ?q = Some so" "err_ptr ?q = Some se"
    and rd: "rd_src k r re [] (DEof rest) (fst w) si r k"
    and so: "writer_at FCGI_STDOUT po (sends FCGI_STDOUT rs) so" and se: "writer_at FCGI_STDERR pe (sends FCGI_STDERR rs) se"
    and da: "list_all (data_rec (requestId r)) rs"
    and oe: "fst (snd w) = content FCGI_STDOUT rs @ po" "snd (snd w) = content FCGI_STDERR rs @ pe"
    and tx: "tx k (ipcFd r) = base @ concat (map enc_rec rs)"
    and q': "closable (ipcFd r) k" "reqData ?q = r" "freeable ?q"
    by (auto simp: req_serves_def)
  define t where "t = (if fp = 1 then FCGI_STDOUT else FCGI_STDERR)"
  define p where "p = (if fp = 1 then po else pe)"
  define s where "s = (if fp = 1 then so else se)"
  note c = rd_src_rebase(2) [OF rd]
  have w0: "wire True (ipcFd r) k [] k" using chan_fd_ok [OF c] chan_clean [OF c] by (simp add: wire_start)
  have "writer_at t p (sends t rs) s" using so se by (simp add: t_def p_def s_def)
  from writer_at_acc [OF this w0] have "wr_acc (sends t rs) True k r t p s r k" .
  from assms(3) [OF this] obtain s' r' k' where f: "F s r k = Some (v, s', r', k')"
    and a: "wr_acc (sends t rs) True k r t (p @ bs) s' r' k'" by blast
  from wr_acc_writer_at [OF a] obtain chunks p' where r': "r' = r"
    and ch: "list_all (\<lambda>c. c \<noteq> [] \<and> length c \<le> 65535) chunks" "p @ bs = concat chunks @ p'"
    and s': "writer_at t p' (sends t rs \<or> chunks \<noteq> []) s'"
    and wi: "wire True (ipcFd r) k (concat (map enc_rec (recs t (requestId r) chunks))) k'" by blast
  let ?rs = "rs @ recs t (requestId r) chunks"
  have "closable (ipcFd r) k'" using q'(1) wire_fds [OF wi] by (simp add: closable_def)
  moreover have "rd_src k' r re [] (DEof rest) (fst w) si r k'" by (rule rd_src_wire [OF rd wi])
  moreover have "list_all (data_rec (requestId r)) ?rs"
    using da data_recs [OF _ ch(1), of t] by (simp add: t_def)
  moreover have "tx k' (ipcFd r) = base @ concat (map enc_rec ?rs)" using tx wire_tx [OF wi] by simp
  ultimately have "req_serves r re rest base (put_to fp bs w) (set_request_stream (out_stream fp) s' ?q) k'"
    using q q'(2,3) so se s' ch(2) oe assms(2)
    by (intro req_servesI [where rs = ?rs and si = si and so = "if fp = 1 then s' else so" and se = "if fp = 1 then se else s'"
          and po = "if fp = 1 then p' else po" and pe = "if fp = 1 then pe else p'"])
      (auto simp: t_def p_def out_stream_def freeable_def)
  moreover have "request_stream (out_stream fp) ?q = Some s" using assms(2) q by (auto simp: out_stream_def s_def writable_def)
  ultimately show ?thesis
    using on_fcgx_serves [OF assms(1), of "out_stream fp" s F v s' k' "put_to fp bs w"] f r' by auto
qed

section \<open>Formatted output and blocks\<close>

lemma run_pieces_cells:
  "run_pieces emp n m ps s r k = Some (v, m', s', r', k') \<Longrightarrow> 0 \<le> v \<Longrightarrow> m' = count_pieces n m ps"
proof (induction ps arbitrary: n m s r k)
  case (Cons pc ps)
  then show ?case by (cases pc) (auto simp: bind_eq_Some_conv split: if_splits)
qed simp

lemma block_word:
  assumes "int (block_size sz m) < INT_MAX"
  shows "unat (sz * m) = block_size sz m" "uint (sz * m) = int (block_size sz m)"
proof -
  have "block_size sz m < 2 ^ LENGTH(64)" using assms by (simp add: INT_MAX_def)
  then have "unat sz * unat m < 2 ^ LENGTH(64)" by (simp add: block_size_def)
  from unat_mult_lem [THEN iffD1, OF this] show "unat (sz * m) = block_size sz m" by (simp add: block_size_def)
  then show "uint (sz * m) = int (block_size sz m)" by (metis uint_nat)
qed

lemma block_div:
  fixes sz :: "64 word"
  assumes "int a < INT_MAX"
  shows "word_of_int (int a) div sz = of_nat (a div unat sz)"
proof (rule word_unat_eq_iff [THEN iffD2])
  have a: "a < 2 ^ 64" using assms by (simp add: INT_MAX_def)
  moreover have "a div unat sz < 2 ^ 64" using div_le_dividend a by (rule le_less_trans)
  ultimately show "unat (word_of_int (int a) div sz) = unat (of_nat (a div unat sz) :: 64 word)"
    by (simp add: unat_div_distrib take_bit_nat_eq_self unat_of_nat)
qed

interpretation fastcgi: standard_streams "fcgi_serves r re rest base" L for r re rest base L
proof unfold_locales
  fix w st k fp assume "fcgi_serves r re rest base w st k" "writable fp"
  then have "fcgi_sF st (index (out_stream fp)) = Some \<lparr>stdio_stream = None, fcgx_stream = Some (out_stream fp)\<rparr>"
    "index (out_stream fp) = fp" by (auto simp: fcgi_serves_def out_stream_def writable_def)
  then show "\<exists>f. fcgi_sF st fp = Some f \<and> (stdio_stream f \<noteq> None \<or> fcgx_stream f \<noteq> None)" by simp
next
  fix xs oe st k assume s: "fcgi_serves r re rest base (xs, oe) st k"
  have "\<exists>s' r' k'. FCGX_GetChar FillBuffProc s r k = Some (if xs = [] then EOF else uint (hd xs), s', r', k')
      \<and> rd_src k r re [] (DEof rest) (tl xs) s' r' k'" if "rd_src k r re [] (DEof rest) xs s r k" for s k
    using reader.GetChar_src [OF that] by blast
  from fcgi_read [where F = "FCGX_GetChar FillBuffProc", OF s this] show "\<exists>st' k'. FCGI_fgetc 0 st k = Some (if xs = [] then EOF else uint (hd xs), st', k')
      \<and> fcgi_serves r re rest base (tl xs, oe) st' k'" by (simp add: FCGI_fgetc_def fcgi_dispatch [OF s])
next
  fix xs oe st k and n :: int assume s: "fcgi_serves r re rest base (xs, oe) st k" "1 < n"
  have "\<exists>s' r' k'. FCGX_GetLine FillBuffProc n s r k = Some (if xs = [] then None else Some (line_of (nat (n - 1)) xs), s', r', k')
      \<and> rd_src k r re [] (DEof rest) (drop (length (line_of (nat (n - 1)) xs)) xs) s' r' k'"
    if "rd_src k r re [] (DEof rest) xs s r k" for s k
    using reader.GetLine_src [OF that s(2)] by blast
  from fcgi_read [where F = "FCGX_GetLine FillBuffProc n", OF s(1) this] show "\<exists>st' k'. FCGI_fgets n 0 st k
        = Some (if xs = [] then None else Some (line_of (nat (n - 1)) xs), st', k')
      \<and> fcgi_serves r re rest base (drop (length (line_of (nat (n - 1)) xs)) xs, oe) st' k'"
    by (simp add: FCGI_fgets_def fcgi_dispatch [OF s(1)])
next
  fix xs oe st k and sz m :: "64 word"
  assume s: "fcgi_serves r re rest base (xs, oe) st k" and l: "int (block_size sz m) < INT_MAX"
  let ?N = "block_size sz m"
  have b: "sz * m = 0 \<longleftrightarrow> ?N = 0" using block_word(1) [OF l] by (metis unat_eq_zero)
  have "\<exists>s' r' k'. (do { (n, bs, s, r, k) \<leftarrow> FCGX_GetStr FillBuffProc (int ?N) s r k; Some ((n, bs), s, r, k) })
      = Some ((int (min ?N (length xs)), take ?N xs), s', r', k')
      \<and> rd_src k r re [] (DEof rest) (drop ?N xs) s' r' k'" if "rd_src k r re [] (DEof rest) xs s r k" for s k
    using reader.GetStr_src [OF that, of "int ?N"] by auto
  from fcgi_read [where F = "\<lambda>s r k. do { (n, bs, s, r, k) \<leftarrow> FCGX_GetStr FillBuffProc (int ?N) s r k; Some ((n, bs), s, r, k) }", OF s this] obtain st' k' where
    g: "on_fcgx In_stream (\<lambda>s r k. do { (n, bs, s, r, k) \<leftarrow> FCGX_GetStr FillBuffProc (int ?N) s r k; Some ((n, bs), s, r, k) }) st k
      = Some ((int (min ?N (length xs)), take ?N xs), st', k')"
    and s': "fcgi_serves r re rest base (drop ?N xs, oe) st' k'" by blast
  have "int (min ?N (length xs)) < INT_MAX" using l by linarith
  from block_div [OF this, of sz] have d: "word_of_int (int (min ?N (length xs))) div sz = of_nat (min ?N (length xs) div unat sz)" .
  show "\<exists>st' k'. FCGI_fread sz m 0 st k
        = Some ((of_nat (length (take ?N xs) div unat sz), take ?N xs), st', k')
      \<and> fcgi_serves r re rest base (drop ?N xs, oe) st' k'"
  proof (cases "?N = 0")
    case True
    with b s show ?thesis by (auto simp: FCGI_fread_def fcgi_dispatch [OF s])
  next
    case False
    with b g s' d l show ?thesis
      by (simp add: FCGI_fread_def fcgi_dispatch [OF s] block_word(2) [OF l] ASSERT_def min.commute)
  qed
next
  fix w st k fp c assume s: "fcgi_serves r re rest base w st k" "writable fp"
  have "\<exists>s' r' k'. FCGX_PutChar EmptyBuffProc c s r k = Some (uint (uchar c), s', r', k')
      \<and> wr_acc sent True k r t (p @ [uchar c]) s' r' k'" if "wr_acc sent True k r t p s r k" for sent t p s k
    using cooked.PutChar_acc [OF that, of c] by (auto simp: wr_failed_def)
  from fcgi_write [where F = "FCGX_PutChar EmptyBuffProc c", OF s this] show "\<exists>st' k'. FCGI_fputc c fp st k = Some (uint (uchar c), st', k')
      \<and> fcgi_serves r re rest base (put_to fp [uchar c] w) st' k'" by (simp add: FCGI_fputc_def fcgi_dispatch(2) [OF s])
next
  fix w st k fp str assume s: "fcgi_serves r re rest base w st k" "writable fp" and l: "int (length (c_str str)) \<le> INT_MAX"
  have c: "take (length (c_str str)) str = c_str str" "length (c_str str) \<le> length str"
    by (simp_all add: c_str_def takeWhile_eq_take [symmetric] length_takeWhile_le)
  have "\<exists>s' r' k'. FCGX_PutS EmptyBuffProc str s r k = Some (int (length (c_str str)), s', r', k')
      \<and> wr_acc sent True k r t (p @ c_str str) s' r' k'" if "wr_acc sent True k r t p s r k" for sent t p s k
    using cooked.PutStr_prefix_acc [OF that c(2)] l c(1) by (auto simp: wr_failed_def FCGX_PutS_def ASSERT_def)
  from fcgi_write [where F = "FCGX_PutS EmptyBuffProc str", OF s this] show "\<exists>v st' k'. FCGI_fputs str fp st k = Some (v, st', k') \<and> 0 \<le> v
      \<and> fcgi_serves r re rest base (put_to fp (c_str str) w) st' k'"
    by (fastforce simp: FCGI_fputs_def fcgi_dispatch(2) [OF s])
next
  fix w st k fp and str :: "byte list" and sz m :: "64 word"
  assume s: "fcgi_serves r re rest base w st k" "writable fp" and l: "int (block_size sz m) < INT_MAX" "block_size sz m \<le> length str"
  let ?N = "block_size sz m"
  have b: "sz * m = 0 \<longleftrightarrow> ?N = 0" using block_word(1) [OF l(1)] by (metis unat_eq_zero)
  have "\<exists>s' r' k'. FCGX_PutStr EmptyBuffProc str (int ?N) s r k = Some (int ?N, s', r', k')
      \<and> wr_acc sent True k r t (p @ take ?N str) s' r' k'" if "wr_acc sent True k r t p s r k" for sent t p s k
    using cooked.PutStr_prefix_acc [OF that l(2)] by (auto simp: wr_failed_def)
  from fcgi_write [where F = "FCGX_PutStr EmptyBuffProc str (int ?N)", OF s this] obtain st' k' where
    g: "on_fcgx (out_stream fp) (FCGX_PutStr EmptyBuffProc str (int ?N)) st k = Some (int ?N, st', k')"
    and s': "fcgi_serves r re rest base (put_to fp (take ?N str) w) st' k'" by blast
  show "\<exists>st' k'. FCGI_fwrite str sz m fp st k = Some (of_nat (?N div unat sz), st', k')
      \<and> fcgi_serves r re rest base (put_to fp (take ?N str) w) st' k'"
  proof (cases "?N = 0")
    case True
    from True b s(1) show ?thesis by (auto simp: FCGI_fwrite_def fcgi_dispatch(2) [OF s])
  next
    case False
    with b g s' l block_div [OF l(1), of sz] show ?thesis
      by (simp add: FCGI_fwrite_def fcgi_dispatch(2) [OF s] block_word(2) [OF l(1)] ASSERT_def)
  qed
next
  fix w st k fp fmt ap ps cs
  assume s: "fcgi_serves r re rest base w st k" "writable fp" and p: "printable L fmt ap" "formatted L fmt ap = Some ps"
  then obtain n where n: "strlen fmt = Some n" "c_printf L (take n fmt) ap = Some ps"
    "int (length (text_of ps)) < INT_MAX" "prints_within L"
    by (auto simp: formatted_def printable_def bind_eq_Some_conv)
  have v: "FCGX_VFPrintF EmptyBuffProc L fmt ap cs s r k = run_pieces EmptyBuffProc 0 cs ps s r k" for s k
    using VFPrintF_loop_spec [OF n(4,2), of 0] n(1,3) by (simp add: FCGX_VFPrintF_def)
  have "\<exists>s' r' k'. (do { (n, m, s, r, k) \<leftarrow> FCGX_VFPrintF EmptyBuffProc L fmt ap cs s r k; Some ((n, m), s, r, k) })
        = Some ((int (length (text_of ps)), count_pieces 0 cs ps), s', r', k')
      \<and> wr_acc sent True k r t (p @ text_of ps) s' r' k'" if "wr_acc sent True k r t p s r k" for sent t p s k
  proof -
    from cooked.run_pieces_acc [OF that, of 0 cs ps] obtain m' s' r' k' where
      f: "run_pieces EmptyBuffProc 0 cs ps s r k = Some (int (length (text_of ps)), m', s', r', k')"
        "wr_acc sent True k r t (p @ text_of ps) s' r' k'" by (auto simp: wr_failed_def)
    from run_pieces_cells [OF f(1)] f show ?thesis by (simp add: v)
  qed
  from fcgi_write [where F = "\<lambda>s r k. do { (n, m, s, r, k) \<leftarrow> FCGX_VFPrintF EmptyBuffProc L fmt ap cs s r k; Some ((n, m), s, r, k) }", OF s this] show "\<exists>st' k'. FCGI_fprintf L fp fmt ap cs st k
        = Some ((int (length (text_of ps)), count_pieces 0 cs ps), st', k')
      \<and> fcgi_serves r re rest base (put_to fp (text_of ps) w) st' k'"
    by (simp add: FCGI_fprintf_def fcgi_dispatch(2) [OF s] vfprintf_fcgx_def)
next
  fix w st k fp assume s: "fcgi_serves r re rest base w st k" "writable fp"
  have "\<exists>s' r' k'. FCGX_FFlush EmptyBuffProc s r k = Some (0, s', r', k')
      \<and> wr_acc sent True k r t (p @ []) s' r' k'" if "wr_acc sent True k r t p s r k" for sent t p s k
    using cooked.FFlush_acc [OF that] by (auto simp: wr_failed_def)
  from fcgi_write [where F = "FCGX_FFlush EmptyBuffProc", OF s this] show "\<exists>st' k'. FCGI_fflush (Some fp) st k = Some (0, st', k') \<and> fcgi_serves r re rest base w st' k'"
    by (simp add: FCGI_fflush_def fcgi_dispatch(2) [OF s])
qed

section \<open>From the first accept to the last record\<close>

lemma cgi_start:
  assumes "fresh_stdio st" "FCGX_IsCGI (lib st) k = Some (True, a, k1)"
    "files st 0 = Some f" "c_src xs f" "files st 1 = Some g" "c_sink [] g" "files st 2 = Some h" "c_sink [] h"
  shows "\<exists>st1. FCGI_Accept st k = Some (0, st1, k1) \<and> cgi_serves (xs, [], []) st1 k1"
proof -
  have "(n :: nat) < 3 \<longleftrightarrow> n = 0 \<or> n = 1 \<or> n = 2" for n by auto
  with assms show ?thesis by (auto simp: FCGI_Accept_def fresh_stdio_def cgi_serves_def set_sF_def)
qed

lemma fcgi_start:
  assumes "fresh_stdio st" "FCGX_IsCGI (lib st) k = Some (False, a, k1)" "libInitialized a"
    "FCGX_Accept_r a (the_request a) k1 = Some (0, q, k2)"
    "accepted fd rid ap keep q k2" "in_ptr q = Some s" "rd_src k2 (reqData q) re [] (DEof rest) xs s (reqData q) k2"
  shows "\<exists>st1. FCGI_Accept st k = Some (0, st1, k2)
    \<and> fcgi_serves (reqData q) re rest (tx k2 fd) (xs, [], []) st1 k2"
proof -
  obtain so se where qq: "q = q\<lparr>out_ptr := Some so, err_ptr := Some se\<rparr>"
    and w: "writer_at FCGI_STDOUT [] False so" "writer_at FCGI_STDERR [] False se"
    using assms(5) by (auto simp: accepted_def responding_def)
  have p: "out_ptr q = Some so" "err_ptr q = Some se" by (subst qq, simp)+
  have "req_serves (reqData q) re rest (tx k2 fd) (xs, [], []) q k2"
    using assms(5-7) p w by (intro req_servesI [where rs = "[]" and po = "[]" and pe = "[]"]) (auto simp: accepted_def)
  moreover have "\<exists>st1. FCGI_Accept st k = Some (0, st1, k2) \<and> acceptCalled st1 \<and> \<not> isCGI st1 \<and> the_request (lib st1) = q
    \<and> (\<forall>p. fcgi_sF st1 (index p) = Some \<lparr>stdio_stream = None, fcgx_stream = Some p\<rparr>)"
  proof -
    let ?fs = "(fcgi_sF st)(0 \<mapsto> \<lparr>stdio_stream = None, fcgx_stream = Some In_stream\<rparr>,
       1 \<mapsto> \<lparr>stdio_stream = None, fcgx_stream = Some Out_stream\<rparr>, 2 \<mapsto> \<lparr>stdio_stream = None, fcgx_stream = Some Err_stream\<rparr>)"
    have "?fs (index p) = Some \<lparr>stdio_stream = None, fcgx_stream = Some p\<rparr>" for p by (cases p) auto
    moreover have "\<exists>st1. FCGI_Accept st k = Some (0, st1, k2) \<and> acceptCalled st1 \<and> \<not> isCGI st1
        \<and> the_request (lib st1) = q \<and> fcgi_sF st1 = ?fs"
      using assms(1-4) by (simp add: FCGI_Accept_def FCGX_Accept_def fresh_stdio_def set_sF_def)
    ultimately show ?thesis by auto
  qed
  ultimately show ?thesis by (auto simp: fcgi_serves_def)
qed

lemma fcgi_finish:
  assumes "fcgi_serves r re rest base (xs, o', e') st k" "nWriters r = 2" "0 \<le> requestId r" "requestId r < 65536"
  shows "\<exists>st' k' out rs. FCGI_Finish st k = Some (st', k') \<and> tx k' (ipcFd r) = base @ out
    \<and> parse_records out = Some rs
    \<and> peer (requestId r) Unused Unused rs = Some (o', e', end_body_bytes (MakeEndRequestBody (appStatus r) FCGI_REQUEST_COMPLETE))"
proof -
  let ?q = "the_request (lib st)" and ?fd = "ipcFd r"
  let ?k0 = "k\<lparr>tx := (tx k)(?fd := base)\<rparr>"
  have rs: "req_serves r re rest base (xs, o', e') ?q k" and a: "acceptCalled st" "\<not> isCGI st"
    using assms(1) by (auto simp: fcgi_serves_def)
  from rs obtain si so se po pe rs where q: "in_ptr ?q = Some si" "out_ptr ?q = Some so" "err_ptr ?q = Some se"
    and rd: "rd_src k r re [] (DEof rest) xs si r k"
    and so: "writer_at FCGI_STDOUT po (sends FCGI_STDOUT rs) so" and se: "writer_at FCGI_STDERR pe (sends FCGI_STDERR rs) se"
    and da: "list_all (data_rec (requestId r)) rs"
    and oe: "o' = content FCGI_STDOUT rs @ po" "e' = content FCGI_STDERR rs @ pe"
    and tx: "tx k ?fd = base @ concat (map enc_rec rs)" and q': "closable ?fd k" "reqData ?q = r" "freeable ?q"
    by (auto simp: req_serves_def)
  note c = rd_src_rebase(2) [OF rd]
  have "k = sent_on ?fd (concat (map enc_rec rs)) (wx k ?fd) (errno k) ?k0"
    using tx by (simp add: sent_on_def fun_upd_idem)
  then have wi: "wire True ?fd ?k0 (concat (map enc_rec rs)) k"
    using chan_fd_ok [OF c] chan_clean [OF c] unfolding wire_def
    by (intro conjI exI [of _ "wx k ?fd"] exI [of _ "errno k"]) simp_all
  have "?q = ?q\<lparr>out_ptr := Some so, err_ptr := Some se\<rparr>" using q by simp
  then have "responding ?k0 ?q rs o' e' ?q k"
    using so se da oe wi q'(2) unfolding responding_def by blast
  from Finish_response [OF this _ _ _ q(1) q'(3)] assms(2-4) q'(1,2) obtain q2 k2 out rs' where
    "FCGX_Finish_r ?q k = Some (q2, k2)" "tx k2 ?fd = tx ?k0 ?fd @ out" "parse_records out = Some rs'"
    "peer (requestId r) Unused Unused rs' = Some (o', e', end_body_bytes (MakeEndRequestBody (appStatus r) FCGI_REQUEST_COMPLETE))"
    by (auto simp: closable_def)
  then show ?thesis using a by (auto simp: FCGI_Finish_def FCGX_Finish_def)
qed

text \<open>
  C5: a program that uses the standard streams through \<open>fcgi_stdio.c\<close> does the same as a CGI program and as a
  FastCGI application: whatever it calls in whatever order, the next call depending on the results so
  far, it gets the same results on the same input, and what it writes to \<open>stdout\<close> and \<open>stderr\<close> is what the
  files hold in the one case and what the peer decodes in the other.
\<close>

theorem cgi_same:
  assumes adm: "\<And>log c. prog log = Some c \<Longrightarrow> admissible L c"
    and cgi: "fresh_stdio st" "FCGX_IsCGI (lib st) k = Some (True, a, k1)"
      "files st 0 = Some f" "c_src xs f" "files st 1 = Some g" "c_sink [] g" "files st 2 = Some h" "c_sink [] h"
    and fcgi: "fresh_stdio st'" "FCGX_IsCGI (lib st') k' = Some (False, a', k1')"
      "libInitialized a'" "idle (the_request a')" "os_ready k1'"
      "next_for a' (the_request a') k1' = Some (Conn fd rxs txs, aq, sq)" "fd < 1024"
      "wx_clean txs" "rx_error rxs \<noteq> Some 0" "length (rx_bytes rxs) < 2 ^ 28"
      "handshake (junk k1') (rerr (rx_error rxs)) (requestId (reqData (the_request a'))) (rx_bytes rxs)
        = HsReady rid body ps w (DEof rest)"
      "demux \<lparr>d_junk = junk k1', d_type = FCGI_STDIN, d_id = rid, d_begun = True, d_err = rerr (rx_error rxs)\<rparr>
        0 0 False rest = (xs, [], DEof rest2)"
  shows "\<exists>log o' e' st1 st2 k2 st1' k2' st2' k3' st3' k4' out rs.
      FCGI_Accept st k = Some (0, st1, k1) \<and> run_program L se prog n [] st1 k1 = Some (log, st2, k2)
    \<and> map_option cdata (files st2 1) = Some o' \<and> map_option cdata (files st2 2) = Some e'
    \<and> FCGI_Accept st' k' = Some (0, st1', k2') \<and> run_program L se prog n [] st1' k2' = Some (log, st2', k3')
    \<and> FCGI_Finish st2' k3' = Some (st3', k4') \<and> tx k4' fd = w @ out \<and> parse_records out = Some rs
    \<and> peer rid Unused Unused rs = Some (o', e',
        end_body_bytes (MakeEndRequestBody (appStatus (reqData (the_request a'))) FCGI_REQUEST_COMPLETE))"
proof -
  obtain log xs' o' e' where spec: "spec_program L prog n [] (xs, [], []) = (log, (xs', o', e'))" by (metis prod.exhaust)
  from cgi_start [OF cgi] obtain st1 where st1: "FCGI_Accept st k = Some (0, st1, k1)" "cgi_serves (xs, [], []) st1 k1" by blast
  have "\<exists>st2 k2. run_program L se prog n [] st1 k1 = Some (fst (spec_program L prog n [] (xs, [], [])), st2, k2)
      \<and> cgi_serves (snd (spec_program L prog n [] (xs, [], []))) st2 k2"
    by (rule cgi.program_spec [OF _ st1(2)]) (rule adm)
  with spec obtain st2 k2 where
    st2: "run_program L se prog n [] st1 k1 = Some (log, st2, k2)" "cgi_serves (xs', o', e') st2 k2" by auto
  from Accept_r_accepted [OF fcgi(3-12)] obtain q k2' s where
    q: "FCGX_Accept_r a' (the_request a') k1' = Some (0, q, k2')" "in_ptr q = Some s"
      "rd_src k2' (reqData q) (rx_error rxs) [] (DEof rest2) xs s (reqData q) k2'" "tx k2' fd = w"
    and acc: "accepted fd rid (appStatus (reqData (the_request a'))) (uint (bflags body) AND FCGI_KEEP_CONN) q k2'"
    by blast
  from fcgi_start [OF fcgi(1-3) q(1) acc q(2,3)] obtain st1' where
    st1': "FCGI_Accept st' k' = Some (0, st1', k2')"
      "fcgi_serves (reqData q) (rx_error rxs) rest2 w (xs, [], []) st1' k2'" using q(4) by auto
  have "\<exists>st2 k2. run_program L se prog n [] st1' k2' = Some (fst (spec_program L prog n [] (xs, [], [])), st2, k2)
      \<and> fcgi_serves (reqData q) (rx_error rxs) rest2 w (snd (spec_program L prog n [] (xs, [], []))) st2 k2"
    by (rule fastcgi.program_spec [OF _ st1'(2)]) (rule adm)
  with spec obtain st2' k3' where
    st2': "run_program L se prog n [] st1' k2' = Some (log, st2', k3')"
      "fcgi_serves (reqData q) (rx_error rxs) rest2 w (xs', o', e') st2' k3'" by auto
  have r: "ipcFd (reqData q) = fd" "requestId (reqData q) = rid" "nWriters (reqData q) = 2" "0 < rid" "rid < 65536"
    "appStatus (reqData q) = appStatus (reqData (the_request a'))" using acc by (simp_all add: accepted_def)
  from fcgi_finish [OF st2'(2)] r obtain st3' k4' out rs where
    "FCGI_Finish st2' k3' = Some (st3', k4')" "tx k4' fd = w @ out" "parse_records out = Some rs"
    "peer rid Unused Unused rs = Some (o', e',
        end_body_bytes (MakeEndRequestBody (appStatus (reqData (the_request a'))) FCGI_REQUEST_COMPLETE))" by auto
  moreover have "map_option cdata (files st2 1) = Some o'" "map_option cdata (files st2 2) = Some e'"
    using st2(2) by (auto simp: cgi_serves_def c_sink_def)
  ultimately show ?thesis using st1(1) st2(1) st1'(1) st2'(1) by blast
qed

text \<open>A program that echoes the first byte of its input and reports its end.\<close>

definition ex_prog :: "unit program" where
  "ex_prog log =
     (case log of
        [] \<Rightarrow> Some Getchar
      | [Number c] \<Rightarrow> Some (Putchar c)
      | [_, _] \<Rightarrow> Some (Fputs [100, 111, 110, 101, 0] 2)
      | _ \<Rightarrow> None)"

definition ex_cgi_in :: fcgi_stdio where
  "ex_cgi_in = (ex_stdio (ex_app\<lparr>isFastCGI := 0\<rparr>) [])\<lparr>files := (files (ex_stdio ex_app []))(0 \<mapsto> ex_file [104, 105])\<rparr>"

theorem cgi_same_witness:
  "\<exists>log o' e' st1 st2 k2 st1' k2' st2' k3' st3' k4' out rs.
      FCGI_Accept ex_cgi_in (ex_os [] []) = Some (0, st1, ex_os [] [])
    \<and> run_program ex_libc (\<lambda>_. []) ex_prog 5 [] st1 (ex_os [] []) = Some (log, st2, k2)
    \<and> map_option cdata (files st2 1) = Some o' \<and> map_option cdata (files st2 2) = Some e'
    \<and> FCGI_Accept (ex_stdio ex_app []) ex_listening = Some (0, st1', k2')
    \<and> run_program ex_libc (\<lambda>_. []) ex_prog 5 [] st1' k2' = Some (log, st2', k3')
    \<and> FCGI_Finish st2' k3' = Some (st3', k4') \<and> tx k4' 7 = out \<and> parse_records out = Some rs
    \<and> peer 1 Unused Unused rs = Some (o', e', [0, 0, 0, 0, 0, 0, 0, 0])"
proof -
  have adm: "ex_prog log = Some c \<Longrightarrow> admissible ex_libc c" for log c
    by (auto simp: ex_prog_def writable_def c_str_def INT_MAX_def split: list.splits io_result.splits)
  have cgi: "fresh_stdio ex_cgi_in" "FCGX_IsCGI (lib ex_cgi_in) (ex_os [] []) = Some (True, ex_app\<lparr>isFastCGI := 0\<rparr>, ex_os [] [])"
    "files ex_cgi_in 0 = Some (ex_file [104, 105])" "c_src [104, 105] (ex_file [104, 105])"
    "files ex_cgi_in 1 = Some (ex_file [])" "c_sink [] (ex_file [])" "files ex_cgi_in 2 = Some (ex_file [])"
    by (simp_all add: fresh_stdio_def ex_cgi_in_def ex_stdio_def FCGX_IsCGI_def c_src_def c_sink_def ex_file_def)
  have fcgi: "FCGX_IsCGI (lib (ex_stdio ex_app [])) ex_listening = Some (False, ex_app, ex_listening)"
    by (simp add: ex_stdio_def FCGX_IsCGI_def ex_app_def)
  have b: "appStatus (reqData (the_request ex_app)) = 0"
    "end_body_bytes (MakeEndRequestBody 0 FCGI_REQUEST_COMPLETE) = [0, 0, 0, 0, 0, 0, 0, 0]" by code_simp+
  show ?thesis
  proof (rule cgi_same [where prog = ex_prog and L = ex_libc and se = "\<lambda>_. []" and n = 5 and rid = 1 and body = ex_body
        and ps = "[([65], [66])]" and w = "[]" and rest = ex_rest and ?rest2.0 = "[]" and fd = 7 and a' = ex_app
        and xs = "[104, 105]" and rxs = "[Data (take 5 ex_bytes), Data (drop 5 ex_bytes)]" and txs = "[TxLimit 3]"
        and k1' = ex_listening, unfolded b append_Nil])
    show "ex_prog log = Some c \<Longrightarrow> admissible ex_libc c" for log c by (rule adm)
  qed (use cgi fcgi ex_fresh ex_next ex_handshake ex_input ex_rx ex_ready in
      \<open>simp_all add: rerr_def wx_clean_def\<close>)
qed

end
