(* ===== verification/Sockets.thy ===== *)
theory Sockets
  imports Request Numerals Examples
begin

text \<open>
  Where the sockets come from: \<open>OS_BuildSockAddrUn\<close>, \<open>OS_CreateLocalIpcFd\<close>, \<open>OS_FcgiConnect\<close>, \<open>OS_SpawnChild\<close>
  and \<open>OS_SetFlags\<close> of \<open>os_unix.c\<close>, and \<open>FCGX_OpenSocket\<close> of \<open>fcgiapp.c\<close>, which gives the first of them to
  programs. \<open>HAVE_SOCKADDR_UN_SUN_LEN\<close> is not defined (\<open>fcgi_config.h\<close>), \<open>MAXPATHLEN\<close> is 4096 and
  \<open>sizeof(sun_path)\<close> 108. What the functions print before they exit is left out.
\<close>

section \<open>Names of sockets and the kernel that knows them\<close>

text \<open>
  The union \<open>SockAddrUnion\<close>: address and port of a \<open>sockaddr_in\<close>, the port as a number, not in network order;
  or the array of a \<open>sockaddr_un\<close>.
\<close>

datatype sockaddr = Inet_addr "32 word" "16 word" | Unix_addr "byte list"

text \<open>A \<open>hostent\<close>; of each address the first four bytes, all there are when \<open>h_length\<close> is 4.\<close>

record hostent =
  h_addrtype :: sa_family
  h_length :: int
  h_addr_list :: "32 word list"

text \<open>
  The kernel's side, beside the record \<open>os\<close>. Scripts: \<open>sockq\<close>, the descriptors successive calls of \<open>socket\<close>
  return, or \<open>-errno\<close>, exhausted \<open>EMFILE\<close>; \<open>optq\<close>, \<open>bindq\<close>, \<open>listenq\<close>, \<open>connectq\<close>, 0 or the \<open>errno\<close> of
  \<open>setsockopt\<close>, \<open>bind\<close>, \<open>listen\<close> and \<open>connect\<close>, exhausted 0; \<open>hosts\<close>, what \<open>gethostbyname\<close> knows. State: each
  socket's family, its name, whether that may be used again, its backlog and its peer, and the
  files, by name, that \<open>unlink\<close> removes and that \<open>bind\<close> makes.
\<close>

record net =
  sockq :: "int list"
  optq :: "int list"
  bindq :: "int list"
  listenq :: "int list"
  connectq :: "int list"
  hosts :: "byte list \<Rightarrow> hostent option"
  family :: "int \<Rightarrow> sa_family option"
  bound :: "int \<Rightarrow> (sockaddr \<times> int) option"
  reuseaddr :: "int set"
  listening :: "int \<Rightarrow> int option"
  connected :: "int \<Rightarrow> (sockaddr \<times> int) option"
  sock_files :: "byte list set"

definition answer :: "int list \<Rightarrow> int \<times> int list" where
  "answer q = (case q of [] \<Rightarrow> (0, []) | e # es \<Rightarrow> (e, es))"

definition sys_socket :: "sa_family \<Rightarrow> net \<Rightarrow> os \<Rightarrow> int \<times> net \<times> os" where
  "sys_socket fam n k =
     (case sockq n of
        [] \<Rightarrow> (-1, n, k\<lparr>errno := 24\<rparr>)
      | fd # fds \<Rightarrow>
          if fd < 0 then (-1, n\<lparr>sockq := fds\<rparr>, k\<lparr>errno := - fd\<rparr>)
          else if fd \<in> open_fds k then (-1, n\<lparr>sockq := fds\<rparr>, k\<lparr>errno := 24\<rparr>)
          else (fd,
            n\<lparr>sockq := fds, family := (family n)(fd \<mapsto> fam), bound := (bound n)(fd := None),
              reuseaddr := reuseaddr n - {fd}, listening := (listening n)(fd := None),
              connected := (connected n)(fd := None)\<rparr>,
            k\<lparr>open_fds := insert fd (open_fds k)\<rparr>))"

text \<open>A call on a descriptor that is not open fails with \<open>EBADF\<close>; a name of the wrong family with \<open>EAFNOSUPPORT\<close>.\<close>

definition sys_setsockopt :: "int \<Rightarrow> net \<Rightarrow> os \<Rightarrow> int \<times> net \<times> os" where
  "sys_setsockopt fd n k =
     (let (e, q) = answer (optq n);
          e = (if fd \<in> open_fds k then e else EBADF);
          n = n\<lparr>optq := q\<rparr> in
      if e \<noteq> 0 then (-1, n, k\<lparr>errno := e\<rparr>) else (0, n\<lparr>reuseaddr := insert fd (reuseaddr n)\<rparr>, k))"

fun family_of :: "sockaddr \<Rightarrow> sa_family" where
  "family_of (Inet_addr a p) = AF_INET"
| "family_of (Unix_addr s) = AF_UNIX"

text \<open>
  The file a name stands for: the bytes of the array within the length that is passed, up to a zero byte.
  A name without a byte gets no file.
\<close>

fun sock_file :: "sockaddr \<Rightarrow> int \<Rightarrow> byte list" where
  "sock_file (Inet_addr a p) len = []"
| "sock_file (Unix_addr sun_path) len = c_str (take (nat (len - 2)) sun_path)"

definition sys_bind :: "int \<Rightarrow> sockaddr \<Rightarrow> int \<Rightarrow> net \<Rightarrow> os \<Rightarrow> int \<times> net \<times> os" where
  "sys_bind fd sa len n k =
     (let (e, q) = answer (bindq n);
          file = sock_file sa len;
          e = (if fd \<notin> open_fds k then EBADF
               else if family n fd \<noteq> Some (family_of sa) then 97
               else if file \<noteq> [] \<and> file \<in> sock_files n then 98
               else e);
          n = n\<lparr>bindq := q\<rparr> in
      if e \<noteq> 0 then (-1, n, k\<lparr>errno := e\<rparr>)
      else (0, n\<lparr>bound := (bound n)(fd \<mapsto> (sa, len)),
                 sock_files := (if file = [] then sock_files n else insert file (sock_files n))\<rparr>, k))"

definition sys_listen :: "int \<Rightarrow> int \<Rightarrow> net \<Rightarrow> os \<Rightarrow> int \<times> net \<times> os" where
  "sys_listen fd backlog n k =
     (let (e, q) = answer (listenq n);
          e = (if fd \<in> open_fds k then e else EBADF);
          n = n\<lparr>listenq := q\<rparr> in
      if e \<noteq> 0 then (-1, n, k\<lparr>errno := e\<rparr>) else (0, n\<lparr>listening := (listening n)(fd \<mapsto> backlog)\<rparr>, k))"

definition sys_connect :: "int \<Rightarrow> sockaddr \<Rightarrow> int \<Rightarrow> net \<Rightarrow> os \<Rightarrow> int \<times> net \<times> os" where
  "sys_connect fd sa len n k =
     (let (e, q) = answer (connectq n);
          e = (if fd \<notin> open_fds k then EBADF
               else if family n fd \<noteq> Some (family_of sa) then 97
               else e);
          n = n\<lparr>connectq := q\<rparr> in
      if e \<noteq> 0 then (-1, n, k\<lparr>errno := e\<rparr>) else (0, n\<lparr>connected := (connected n)(fd \<mapsto> (sa, len))\<rparr>, k))"

definition sys_unlink :: "byte list \<Rightarrow> net \<Rightarrow> os \<Rightarrow> int \<times> net \<times> os" where
  "sys_unlink path n k =
     (if c_str path \<in> sock_files n then (0, n\<lparr>sock_files := sock_files n - {c_str path}\<rparr>, k)
      else (-1, n, k\<lparr>errno := 2\<rparr>))"

section \<open>Listening and connecting\<close>

definition OS_BuildSockAddrUn :: "byte list \<Rightarrow> int \<times> (sockaddr \<times> int) option" where
  "OS_BuildSockAddrUn bindPath =
     (let bindPathLen = length (c_str bindPath) in
      if bindPathLen > 108 then (-1, None)
      else (0, Some (Unix_addr (c_str bindPath @ replicate (108 - bindPathLen) 0), 2 + int bindPathLen)))"

text \<open>
  Both functions take a path apart in the same way: the copy \<open>host\<close> is cut at its first colon, what follows
  is read by \<open>atoi\<close> into a \<open>short\<close>, and when that is 0 the colon is put back.
\<close>

definition atoi :: "byte list \<Rightarrow> int" where
  "atoi s = int_of_long (strtol10 s)"

definition short_of_int :: "int \<Rightarrow> int" where
  "short_of_int n = sint (word_of_int n :: 16 word)"

definition host_port :: "byte list \<Rightarrow> byte list \<times> int" where
  "host_port bindPath =
     (let host = c_str bindPath in
      if 58 \<in> set host then
        let port = short_of_int (atoi (tl (dropWhile (\<lambda>b. b \<noteq> 58) host))) in
        if port = 0 then (host, 0) else (takeWhile (\<lambda>b. b \<noteq> 58) host, port)
      else (host, 0))"

text \<open>
  The address to listen on. \<open>Inl\<close> is the status of an exit. \<open>INADDR_NONE\<close> is the address of all ones,
  \<open>INADDR_ANY\<close> is 0.
\<close>

definition listen_host :: "byte list \<Rightarrow> net \<Rightarrow> os \<Rightarrow> int + 32 word" where
  "listen_host host n k =
     (if host = [] \<or> host = [42] then Inr 0
      else
        let tcp_ia = inet_addr k host in
        if tcp_ia = -1 then
          case hosts n host of
            None \<Rightarrow> Inl 1
          | Some hep \<Rightarrow>
              if h_addrtype hep \<noteq> AF_INET \<or> h_addr_list hep = [] then Inl 1
              else if length (h_addr_list hep) > 1 then Inl 1
              else Inr (hd (h_addr_list hep))
        else Inr tcp_ia)"

text \<open>The results: \<open>Inl\<close> the status the process exits with, \<open>Inr\<close> the value returned.\<close>

type_synonym run = "(int \<times> net \<times> os) + (int \<times> net \<times> os)"

definition OS_CreateLocalIpcFd :: "byte list \<Rightarrow> int \<Rightarrow> net \<Rightarrow> os \<Rightarrow> run" where
  "OS_CreateLocalIpcFd bindPath backlog n k =
     (if length (c_str bindPath) \<ge> 4096 then Inl (1, n, k)
      else
        let (host, port) = host_port bindPath in
        case (if port \<noteq> 0 then listen_host host n k else Inr 0) of
          Inl status \<Rightarrow> Inl (status, n, k)
        | Inr tcp_ia \<Rightarrow>
            let (listenSock, n, k) = sys_socket (if port \<noteq> 0 then AF_INET else AF_UNIX) n k;
                (rc, n, k) = (if port \<noteq> 0 \<and> listenSock \<ge> 0 then sys_setsockopt listenSock n k else (0, n, k)) in
            if rc < 0 then Inl (1001, n, k)
            else if listenSock < 0 then Inr (-1, n, k)
            else
              let (name, n, k) =
                (if port \<noteq> 0 then (Some (Inet_addr tcp_ia (word_of_int port), 16), n, k)
                 else let (_, n, k) = sys_unlink bindPath n k in (snd (OS_BuildSockAddrUn bindPath), n, k)) in
              case name of
                None \<Rightarrow> Inl (1000, n, k)
              | Some (sa, len) \<Rightarrow>
                  let (rc, n, k) = sys_bind listenSock sa len n k in
                  if rc < 0 then Inl (errno k, n, k)
                  else
                    let (rc, n, k) = sys_listen listenSock backlog n k in
                    if rc < 0 then Inl (errno k, n, k) else Inr (listenSock, n, k))"

text \<open>
  \<open>OS_FcgiConnect\<close> passes what the resolver found to \<open>memcpy\<close> unchecked: an address list without an entry is a null
  pointer, and an address longer than the four bytes of \<open>sin_addr\<close> is written past them. \<open>None\<close> is such an
  access, or the failing \<open>ASSERT\<close>.
\<close>

abbreviation (input) localhost :: "byte list" where
  "localhost \<equiv> [108, 111, 99, 97, 108, 104, 111, 115, 116]"

definition connect_host :: "byte list \<Rightarrow> net \<Rightarrow> (int + 32 word) option" where
  "connect_host host n =
     (case hosts n (if host \<noteq> [] then host else localhost) of
        None \<Rightarrow> Some (Inl 1000)
      | Some hp \<Rightarrow>
          if h_addr_list hp \<noteq> [] \<and> h_length hp = 4 then Some (Inr (hd (h_addr_list hp))) else None)"

definition connect_name :: "byte list \<Rightarrow> net \<Rightarrow> (int + sockaddr \<times> int) option" where
  "connect_name bindPath n =
     (let (host, port) = host_port bindPath in
      if port \<noteq> 0 then
        do { found \<leftarrow> connect_host host n;
             Some (case found of
               Inl status \<Rightarrow> Inl status
             | Inr a \<Rightarrow> Inr (Inet_addr a (word_of_int port), 16)) }
      else
        case snd (OS_BuildSockAddrUn bindPath) of
          None \<Rightarrow> Some (Inl 1000)
        | Some name \<Rightarrow> Some (Inr name))"

definition OS_FcgiConnect :: "byte list \<Rightarrow> net \<Rightarrow> os \<Rightarrow> run option" where
  "OS_FcgiConnect bindPath n k =
     (if length (c_str bindPath) \<ge> 4096 then Some (Inl (1, n, k))
      else
        do { name \<leftarrow> connect_name bindPath n;
             case name of
               Inl status \<Rightarrow> Some (Inl (status, n, k))
             | Inr (sa, len) \<Rightarrow>
                 let (resultSock, n, k) = sys_socket (family_of sa) n k in
                 do { ASSERT (resultSock \<ge> 0);
                      let (connectStatus, n, k) = sys_connect resultSock sa len n k in
                      Some (if connectStatus \<ge> 0 then Inr (resultSock, n, k)
                            else Inr (-1, n, snd (sys_close resultSock k))) } })"

definition FCGX_OpenSocket ::
  "byte list \<Rightarrow> int \<Rightarrow> fcgiapp \<Rightarrow> net \<Rightarrow> os \<Rightarrow> (int \<times> net \<times> os) + (int \<times> fcgiapp \<times> net \<times> os)" where
  "FCGX_OpenSocket path backlog a n k =
     (case OS_CreateLocalIpcFd path backlog n k of
        Inl status \<Rightarrow> Inl status
      | Inr (rc, n, k) \<Rightarrow>
          Inr (rc, if rc = FCGI_LISTENSOCK_FILENO \<and> isFastCGI a = 0 then a\<lparr>isFastCGI := 1\<rparr> else a, n, k))"

section \<open>Starting an application\<close>

text \<open>
  A process's table of descriptors: the open file each one stands for. \<open>dup2\<close> of a descriptor that is not
  open fails and changes nothing.
\<close>

type_synonym fdtab = "int \<Rightarrow> nat option"

definition fd_close :: "int \<Rightarrow> fdtab \<Rightarrow> fdtab" where
  "fd_close fd t = t(fd := None)"

definition fd_dup2 :: "int \<Rightarrow> int \<Rightarrow> fdtab \<Rightarrow> fdtab" where
  "fd_dup2 old new t = (if t old = None then t else t(new := t old))"

text \<open>What becomes of the process that runs on: it returns, exits, or is an application with these descriptors.\<close>

datatype spawned = Returns int | Exits int | Becomes "byte list" fdtab

text \<open>
  \<open>forkResult\<close> is the answer of \<open>fork\<close>, \<open>-errno\<close> when it fails, 0 in the child; \<open>execl\<close> gives 0 for a path that can be
  executed, otherwise the \<open>errno\<close>. The close-on-exec flag, which nothing in the library sets, is not part of the table.
\<close>

definition OS_SpawnChild :: "int \<Rightarrow> (byte list \<Rightarrow> int) \<Rightarrow> byte list \<Rightarrow> int \<Rightarrow> fdtab \<Rightarrow> spawned" where
  "OS_SpawnChild forkResult execl appPath listenFd t =
     (if forkResult < 0 then Exits (- forkResult)
      else if forkResult = 0 then
        let t = fd_close 0 t;
            t = (if listenFd \<noteq> FCGI_LISTENSOCK_FILENO
                 then fd_close listenFd (fd_dup2 listenFd FCGI_LISTENSOCK_FILENO t) else t);
            t = fd_close 1 t;
            t = fd_close 2 t;
            e = execl (c_str appPath) in
        if e = 0 then Becomes (c_str appPath) t else Exits e
      else Returns 0)"

section \<open>Flags of a descriptor\<close>

text \<open>
  \<open>fcntl\<close>: the flags of the open descriptors, and 0 or the \<open>errno\<close> of \<open>F_SETFL\<close>, which changes only \<open>O_APPEND\<close>,
  \<open>O_ASYNC\<close>, \<open>O_DIRECT\<close>, \<open>O_NOATIME\<close> and \<open>O_NONBLOCK\<close>. \<open>Inl\<close> is the status of an exit.
\<close>

definition SETFL_MASK :: "32 word" where
  "SETFL_MASK = 0x400 OR 0x2000 OR 0x4000 OR 0x40000 OR 0x800"

definition OS_SetFlags ::
  "int \<Rightarrow> 32 word \<Rightarrow> int \<Rightarrow> (int \<Rightarrow> 32 word option) \<Rightarrow> int + (int \<Rightarrow> 32 word option)" where
  "OS_SetFlags fd bits setfl status =
     (case status fd of
        None \<Rightarrow> Inl EBADF
      | Some val \<Rightarrow>
          let val' = val OR bits in
          if setfl \<noteq> 0 then Inl setfl
          else Inr (status(fd \<mapsto> (val AND NOT SETFL_MASK) OR (val' AND SETFL_MASK))))"

lemma OS_SetFlags_bits:
  assumes "OS_SetFlags fd bits setfl status = Inr status'"
  shows "\<exists>val. status fd = Some val \<and> setfl = 0
    \<and> status' = status(fd \<mapsto> val OR (bits AND SETFL_MASK))"
proof -
  have "(val AND NOT m) OR ((val OR b) AND m) = val OR (b AND m)" for val b m :: "32 word"
    by (rule bit_word_eqI) (auto simp: bit_simps)
  with assms show ?thesis
    by (auto simp: OS_SetFlags_def Let_def split: option.splits if_splits)
qed

section \<open>What a path stands for\<close>

text \<open>The two kinds of sockets, and how a path says which.\<close>

datatype endpoint = Tcp "byte list" nat | Local "byte list"

fun path_of :: "endpoint \<Rightarrow> byte list" where
  "path_of (Tcp host port) = host @ 58 # decimal port"
| "path_of (Local path) = path"

lemma take_drop_colon:
  "58 \<notin> set h \<Longrightarrow> takeWhile (\<lambda>b. b \<noteq> 58) (h @ 58 # l) = (h :: byte list)"
  "58 \<notin> set h \<Longrightarrow> dropWhile (\<lambda>b. b \<noteq> 58) (h @ 58 # l) = 58 # (l :: byte list)"
  by (induction h) auto

text \<open>Through \<open>long\<close>, \<open>int\<close> and \<open>short\<close> a number keeps its low sixteen bits.\<close>

lemma short_of_int_word: "word_of_int (short_of_int i) = (word_of_int i :: 16 word)"
  by (simp add: short_of_int_def)

lemma short_of_int_0: "short_of_int i = 0 \<longleftrightarrow> (word_of_int i :: 16 word) = 0"
  by (simp add: short_of_int_def signed_eq_0_iff)

lemma word16_int_of_long: "(word_of_int (int_of_long i) :: 16 word) = word_of_int i"
  unfolding int_of_long_def by (simp add: word_of_int_eq_iff sint_sbintrunc' take_bit_signed_take_bit)

lemma word16_nat_0: "(of_nat n :: 16 word) = 0 \<longleftrightarrow> n mod 65536 = 0"
  by (simp add: word_of_nat_eq_0_iff dvd_eq_mod_eq_0)

lemma word16_atoi:
  assumes "n < 2 ^ 63" shows "(word_of_int (atoi (decimal n)) :: 16 word) = of_nat n"
proof -
  have "min (2 ^ 63 - 1) (int n) = int n" using assms by (simp add: min_def)
  then show ?thesis by (simp add: atoi_def word16_int_of_long strtol10_decimal)
qed

lemma host_port_number:
  assumes "58 \<notin> set h" "0 \<notin> set h" "n < 2 ^ 63"
  shows "host_port (h @ 58 # decimal n) =
    (if n mod 65536 = 0 then (h @ 58 # decimal n, 0) else (h, short_of_int (atoi (decimal n))))"
proof -
  have "short_of_int (atoi (decimal n)) = 0 \<longleftrightarrow> n mod 65536 = 0"
    using word16_atoi [OF assms(3)] by (simp add: short_of_int_0 word16_nat_0)
  then show ?thesis
    using assms decimal_no_zero [of n]
    by (auto simp: host_port_def Let_def take_drop_colon)
qed

lemma host_port_local: "58 \<notin> set p \<Longrightarrow> 0 \<notin> set p \<Longrightarrow> host_port p = (p, 0)"
  by (simp add: host_port_def)

section \<open>What the calls do when none of them fails\<close>

definition calm :: "net \<Rightarrow> bool" where
  "calm n \<longleftrightarrow> list_all (\<lambda>e. e = 0) (optq n @ bindq n @ listenq n @ connectq n)"

definition ready :: "int \<Rightarrow> net \<Rightarrow> os \<Rightarrow> bool" where
  "ready fd n k \<longleftrightarrow> sockq n \<noteq> [] \<and> hd (sockq n) = fd \<and> 0 \<le> fd \<and> fd \<notin> open_fds k \<and> calm n"

lemma answer_0:
  "list_all (\<lambda>e. e = 0) q \<Longrightarrow> fst (answer q) = 0 \<and> list_all (\<lambda>e. e = 0) (snd (answer q))"
  by (cases q) (auto simp: answer_def)

lemma socket_ready:
  assumes "ready fd n k"
  shows "\<exists>n1. sys_socket fam n k = (fd, n1, k\<lparr>open_fds := insert fd (open_fds k)\<rparr>)
    \<and> calm n1 \<and> family n1 fd = Some fam \<and> sock_files n1 = sock_files n"
  using assms by (cases "sockq n") (auto simp: ready_def sys_socket_def calm_def)

lemma setsockopt_calm:
  assumes "calm n" "fd \<in> open_fds k"
  shows "\<exists>n1. sys_setsockopt fd n k = (0, n1, k) \<and> calm n1 \<and> family n1 = family n \<and> sock_files n1 = sock_files n"
  using assms answer_0 [of "optq n"]
  by (cases "answer (optq n)") (auto simp: sys_setsockopt_def calm_def)

lemma bind_calm:
  assumes "calm n" "fd \<in> open_fds k" "family n fd = Some (family_of sa)"
    and "sock_file sa len = [] \<or> sock_file sa len \<notin> sock_files n"
  shows "\<exists>n1. sys_bind fd sa len n k = (0, n1, k) \<and> calm n1 \<and> bound n1 fd = Some (sa, len)
    \<and> sock_files n1 = (if sock_file sa len = [] then sock_files n else insert (sock_file sa len) (sock_files n))"
  using assms answer_0 [of "bindq n"]
  by (cases "answer (bindq n)") (auto simp: sys_bind_def calm_def)

lemma listen_calm:
  assumes "calm n" "fd \<in> open_fds k"
  shows "\<exists>n1. sys_listen fd backlog n k = (0, n1, k) \<and> listening n1 fd = Some backlog
    \<and> bound n1 = bound n \<and> sock_files n1 = sock_files n"
  using assms answer_0 [of "listenq n"]
  by (cases "answer (listenq n)") (auto simp: sys_listen_def calm_def)

lemma connect_calm:
  assumes "calm n" "fd \<in> open_fds k" "family n fd = Some (family_of sa)"
  shows "\<exists>n1. sys_connect fd sa len n k = (0, n1, k) \<and> connected n1 fd = Some (sa, len)"
  using assms answer_0 [of "connectq n"]
  by (cases "answer (connectq n)") (auto simp: sys_connect_def calm_def)

lemma unlink_calm:
  assumes "calm n"
  shows "\<exists>rc n1 k1. sys_unlink path n k = (rc, n1, k1) \<and> calm n1 \<and> family n1 = family n
    \<and> sock_files n1 = sock_files n - {c_str path} \<and> open_fds k1 = open_fds k"
  using assms by (auto simp: sys_unlink_def calm_def)

text \<open>The name of a local socket is its path.\<close>

lemma local_name:
  assumes "length (c_str path) \<le> 108"
  shows "\<exists>sa len. snd (OS_BuildSockAddrUn path) = Some (sa, len) \<and> family_of sa = AF_UNIX
    \<and> sock_file sa len = c_str path"
  using assms by (auto simp: OS_BuildSockAddrUn_def Let_def c_str_def takeWhile_idem)

lemma listen_inet:
  assumes "ready fd n k" "length (c_str path) < 4096" "host_port path = (host, port)" "port \<noteq> 0"
    and "listen_host host n k = Inr a"
  shows "\<exists>n' k'. OS_CreateLocalIpcFd path backlog n k = Inr (fd, n', k')
    \<and> bound n' fd = Some (Inet_addr a (word_of_int port), 16) \<and> listening n' fd = Some backlog
    \<and> sock_files n' = sock_files n"
proof -
  let ?k = "k\<lparr>open_fds := insert fd (open_fds k)\<rparr>" and ?a = "Inet_addr a (word_of_int port)"
  have "0 \<le> fd" using assms(1) by (simp add: ready_def)
  from socket_ready [OF assms(1)] obtain n1 where
    1: "sys_socket AF_INET n k = (fd, n1, ?k)" "calm n1" "family n1 fd = Some AF_INET" "sock_files n1 = sock_files n"
    by blast
  from setsockopt_calm [OF 1(2), of fd ?k] obtain n2 where
    2: "sys_setsockopt fd n1 ?k = (0, n2, ?k)" "calm n2" "family n2 = family n1" "sock_files n2 = sock_files n1"
    by auto
  from bind_calm [OF 2(2), of fd ?k ?a 16] 1(3) 2(3) obtain n3 where
    3: "sys_bind fd ?a 16 n2 ?k = (0, n3, ?k)" "calm n3" "bound n3 fd = Some (?a, 16)"
      "sock_files n3 = sock_files n2" by auto
  from listen_calm [OF 3(2), of fd ?k backlog] obtain n4 where
    4: "sys_listen fd backlog n3 ?k = (0, n4, ?k)" "listening n4 fd = Some backlog"
      "bound n4 = bound n3" "sock_files n4 = sock_files n3" by auto
  show ?thesis
    using assms(2-) \<open>0 \<le> fd\<close> 1 2 3 4 by (simp add: OS_CreateLocalIpcFd_def)
qed

lemma listen_local:
  assumes "ready fd n k" "host_port path = (host, 0)" "length (c_str path) \<le> 108" "c_str path \<noteq> []"
  shows "\<exists>n' k' name. OS_CreateLocalIpcFd path backlog n k = Inr (fd, n', k')
    \<and> snd (OS_BuildSockAddrUn path) = Some name \<and> bound n' fd = Some name \<and> listening n' fd = Some backlog
    \<and> sock_files n' = insert (c_str path) (sock_files n)"
proof -
  let ?k = "k\<lparr>open_fds := insert fd (open_fds k)\<rparr>"
  have "0 \<le> fd" using assms(1) by (simp add: ready_def)
  from local_name [OF assms(3)] obtain sa len where
    a: "snd (OS_BuildSockAddrUn path) = Some (sa, len)" "family_of sa = AF_UNIX" "sock_file sa len = c_str path"
    by blast
  from socket_ready [OF assms(1)] obtain n1 where
    1: "sys_socket AF_UNIX n k = (fd, n1, ?k)" "calm n1" "family n1 fd = Some AF_UNIX" "sock_files n1 = sock_files n"
    by blast
  from unlink_calm [OF 1(2), of path ?k] obtain rc n2 k2 where
    2: "sys_unlink path n1 ?k = (rc, n2, k2)" "calm n2" "family n2 = family n1"
      "sock_files n2 = sock_files n1 - {c_str path}" "open_fds k2 = open_fds ?k" by blast
  from bind_calm [OF 2(2), of fd k2 sa len] 1(3,4) 2(3-5) a assms(4) obtain n3 where
    3: "sys_bind fd sa len n2 k2 = (0, n3, k2)" "calm n3" "bound n3 fd = Some (sa, len)"
      "sock_files n3 = insert (c_str path) (sock_files n)" by auto
  from listen_calm [OF 3(2), of fd k2 backlog] 2(5) obtain n4 where
    4: "sys_listen fd backlog n3 k2 = (0, n4, k2)" "listening n4 fd = Some backlog"
      "bound n4 = bound n3" "sock_files n4 = sock_files n3" by auto
  show ?thesis
    using assms(2-) \<open>0 \<le> fd\<close> a(1) 1(1) 2(1) 3 4 by (simp add: OS_CreateLocalIpcFd_def)
qed

lemma connect_to:
  assumes "ready fd n k" "length (c_str path) < 4096" "connect_name path n = Some (Inr (sa, len))"
  shows "\<exists>n' k'. OS_FcgiConnect path n k = Some (Inr (fd, n', k')) \<and> connected n' fd = Some (sa, len)"
proof -
  let ?k = "k\<lparr>open_fds := insert fd (open_fds k)\<rparr>"
  have "0 \<le> fd" using assms(1) by (simp add: ready_def)
  from socket_ready [OF assms(1)] obtain n1 where
    1: "sys_socket (family_of sa) n k = (fd, n1, ?k)" "calm n1" "family n1 fd = Some (family_of sa)"
    by blast
  from connect_calm [OF 1(2) _ 1(3), of ?k len] obtain n2 where
    2: "sys_connect fd sa len n1 ?k = (0, n2, ?k)" "connected n2 fd = Some (sa, len)" by auto
  show ?thesis
    using assms(2-) \<open>0 \<le> fd\<close> 1(1) 2 by (simp add: OS_FcgiConnect_def)
qed

section \<open>A server and its clients\<close>

text \<open>A connection to the first name arrives at a socket bound to the second.\<close>

fun reaches :: "sockaddr \<times> int \<Rightarrow> sockaddr \<times> int \<Rightarrow> bool" where
  "reaches (Inet_addr a p, _) (Inet_addr b q, _) \<longleftrightarrow> p = q \<and> (a = b \<or> b = 0)"
| "reaches (Unix_addr s, l) (Unix_addr t, m) \<longleftrightarrow> sock_file (Unix_addr s) l = sock_file (Unix_addr t) m"
| "reaches _ _ \<longleftrightarrow> False"

lemma reaches_self: "reaches (sa, len) (sa, len)"
  by (cases sa) auto

text \<open>
  An endpoint that means something here: the host has one address, which \<open>inet_addr\<close> gives too when it reads the
  host as an address (as \<open>gethostbyname\<close> is documented), and the port is one; a local path fits \<open>sun_path\<close>.
\<close>

fun resolves :: "net \<Rightarrow> os \<Rightarrow> endpoint \<Rightarrow> bool" where
  "resolves n k (Tcp h p) \<longleftrightarrow> 58 \<notin> set h \<and> 0 \<notin> set h \<and> h \<noteq> [42] \<and> 1 \<le> p \<and> p < 65536 \<and>
     length (path_of (Tcp h p)) < 4096 \<and>
     (\<exists>a. hosts n (if h \<noteq> [] then h else localhost)
            = Some \<lparr>h_addrtype = AF_INET, h_length = 4, h_addr_list = [a]\<rparr>
          \<and> (inet_addr k h = a \<or> inet_addr k h = -1))"
| "resolves n k (Local p) \<longleftrightarrow> 58 \<notin> set p \<and> 0 \<notin> set p \<and> p \<noteq> [] \<and> length p \<le> 108"

lemma tcp_port:
  assumes "58 \<notin> set h" "0 \<notin> set h" "1 \<le> p" "p < 65536"
  shows "\<exists>port. host_port (path_of (Tcp h p)) = (h, port) \<and> port \<noteq> 0 \<and> word_of_int port = (of_nat p :: 16 word)"
proof -
  let ?i = "short_of_int (atoi (decimal p))"
  have "p < 2 ^ 63" using assms(4) by simp
  moreover from this have i: "(word_of_int ?i :: 16 word) = of_nat p"
    by (simp only: short_of_int_word word16_atoi)
  moreover from i have "?i \<noteq> 0" using assms(3,4) word16_nat_0 [of p] by auto
  ultimately show ?thesis using host_port_number [OF assms(1,2), of p] assms(3,4) by auto
qed

text \<open>What server and client make of the same endpoint.\<close>

lemma both_resolve:
  assumes "resolves n k e" "ready fd n k"
  shows "\<exists>n' k' peer name. OS_CreateLocalIpcFd (path_of e) backlog n k = Inr (fd, n', k')
    \<and> bound n' fd = Some name \<and> listening n' fd = Some backlog
    \<and> connect_name (path_of e) n = Some (Inr peer) \<and> reaches peer name
    \<and> length (c_str (path_of e)) < 4096"
proof (cases e)
  case (Tcp h p)
  with assms(1) obtain a where
    a: "hosts n (if h \<noteq> [] then h else localhost)
          = Some \<lparr>h_addrtype = AF_INET, h_length = 4, h_addr_list = [a]\<rparr>"
       "inet_addr k h = a \<or> inet_addr k h = -1"
    and h: "58 \<notin> set h" "0 \<notin> set h" "h \<noteq> [42]" "1 \<le> p" "p < 65536" "length (path_of e) < 4096" by auto
  from tcp_port [OF h(1,2,4,5)] Tcp obtain port where
    port: "host_port (path_of e) = (h, port)" "port \<noteq> 0" "word_of_int port = (of_nat p :: 16 word)" by auto
  have len: "length (c_str (path_of e)) < 4096"
    using h(6) length_takeWhile_le [of _ "path_of e"] unfolding c_str_def by (rule le_less_trans [rotated])
  let ?b = "if h = [] then 0 else a"
  have "listen_host h n k = Inr ?b" using a h(3) by (auto simp: listen_host_def Let_def)
  from listen_inet [OF assms(2) len port(1,2) this, of backlog] obtain n' k' where
    "OS_CreateLocalIpcFd (path_of e) backlog n k = Inr (fd, n', k')"
    "bound n' fd = Some (Inet_addr ?b (of_nat p), 16)" "listening n' fd = Some backlog"
    unfolding port(3) by blast
  moreover have "connect_name (path_of e) n = Some (Inr (Inet_addr a (of_nat p), 16))"
    using a(1) port by (auto simp: connect_name_def connect_host_def)
  ultimately show ?thesis using len by auto
next
  case (Local p)
  with assms(1) have p: "c_str p = p" "host_port p = (p, 0)" "length p \<le> 108" "p \<noteq> []"
    by (auto simp: host_port_local)
  with listen_local [OF assms(2), of p p backlog] show ?thesis
    using Local by (fastforce simp: connect_name_def intro: reaches_self)
qed

text \<open>
  C26: a path means the same to the two sides. When a program opens a socket with \<open>FCGX_OpenSocket\<close> on
  \<open>host:port\<close> or on a local path, it gets a socket that listens with the backlog it asked for, whatever file had the
  name of a local socket before, and \<open>OS_FcgiConnect\<close> on the same path, in any process that resolves hosts alike, connects to the address of that socket
  (to its port on the host, when it was opened for all addresses). As descriptor 0 it makes the program
  a FastCGI application.
\<close>

theorem same_address:
  assumes "resolves n k e" "ready fd n k"
    and "ready cs m j" "hosts m = hosts n"
  shows "\<exists>a' n' k' m' j' name peer.
    FCGX_OpenSocket (path_of e) backlog a n k = Inr (fd, a', n', k')
    \<and> bound n' fd = Some name \<and> listening n' fd = Some backlog
    \<and> isFastCGI a' = (if fd = 0 \<and> isFastCGI a = 0 then 1 else isFastCGI a)
    \<and> OS_FcgiConnect (path_of e) m j = Some (Inr (cs, m', j'))
    \<and> connected m' cs = Some peer \<and> reaches peer name"
proof -
  from both_resolve [OF assms(1,2), of backlog] obtain n' k' sa len name where
    s: "OS_CreateLocalIpcFd (path_of e) backlog n k = Inr (fd, n', k')"
      "bound n' fd = Some name" "listening n' fd = Some backlog" "reaches (sa, len) name"
    and c: "connect_name (path_of e) n = Some (Inr (sa, len))" "length (c_str (path_of e)) < 4096"
    by (metis prod.exhaust)
  have "connect_name (path_of e) m = connect_name (path_of e) n"
    using assms(4) by (simp add: connect_name_def connect_host_def split_beta)
  with connect_to [OF assms(3) c(2)] c(1) s show ?thesis
    by (fastforce simp: FCGX_OpenSocket_def)
qed

definition ex_net :: "int \<Rightarrow> byte list set \<Rightarrow> net" where
  "ex_net fd fs = \<lparr>sockq = [fd], optq = [0], bindq = [], listenq = [], connectq = [],
     hosts = (\<lambda>h. if h = [97] then Some \<lparr>h_addrtype = AF_INET, h_length = 4, h_addr_list = [0x0100007F]\<rparr> else None),
     family = (\<lambda>_. None), bound = (\<lambda>_. None), reuseaddr = {}, listening = (\<lambda>_. None), connected = (\<lambda>_. None),
     sock_files = fs\<rparr>"

lemma ex_net_ready: "fd = 0 \<or> fd = 7 \<Longrightarrow> ready fd (ex_net fd fs) (ex_os rxs txs)"
  by (auto simp: ready_def calm_def ex_net_def ex_os_def)

definition cgi_app :: fcgiapp where
  "cgi_app = \<lparr>libInitialized = True, isFastCGI = 0, webServerAddressList = None,
     the_request = snd (FCGX_InitRequest 0 0)\<rparr>"

lemma same_address_witness:
  "\<exists>a' n' k' m' j' name peer.
    FCGX_OpenSocket [47, 115] 5 cgi_app (ex_net 0 {[47, 115]}) (ex_os [] []) = Inr (0, a', n', k')
    \<and> bound n' 0 = Some name \<and> listening n' 0 = Some 5 \<and> isFastCGI a' = 1
    \<and> OS_FcgiConnect [47, 115] (ex_net 7 {}) (ex_os [] []) = Some (Inr (7, m', j'))
    \<and> connected m' 7 = Some peer \<and> reaches peer name"
  using same_address [OF _ ex_net_ready ex_net_ready, of 0 "{[47, 115]}" "[]" "[]" "Local [47, 115]" 7 "{}" 5 cgi_app]
  by (simp add: cgi_app_def ex_net_def)

section \<open>Numbers that are not ports\<close>

lemma decimal_shorter: "m \<le> n \<Longrightarrow> length (decimal m) \<le> length (decimal n)"
proof (induction n arbitrary: m rule: decimal.induct)
  case (1 n)
  show ?case
  proof (cases "m < 10")
    case True
    with decimal_ne [of n] show ?thesis
      by (simp add: decimal.simps [of m] Suc_le_eq)
  next
    case False
    with 1(1) [of "m div 10"] 1(2) show ?thesis
      by (simp add: decimal.simps [of m] decimal.simps [of n] div_le_mono)
  qed
qed

text \<open>
  With a port the two functions look at the path only through \<open>host_port\<close>.
\<close>

lemma same_host_port:
  assumes "host_port p = (h, port)" "host_port q = (h, port)" "port \<noteq> 0"
    and "length (c_str p) < 4096" "length (c_str q) < 4096"
  shows "OS_CreateLocalIpcFd p backlog n k = OS_CreateLocalIpcFd q backlog n k"
    and "OS_FcgiConnect p n k = OS_FcgiConnect q n k"
  using assms by (cases "listen_host h n k";
    simp add: OS_CreateLocalIpcFd_def OS_FcgiConnect_def connect_name_def split_beta)+

text \<open>
  C37: the number after the colon is kept in a \<open>short\<close>. Any number up to \<open>2 ^ 63\<close> does as the port it is modulo 65536, for
  listening and for connecting alike; a multiple of 65536, as 0, makes the whole path the name of a local socket.
\<close>

theorem port_wraps:
  assumes "58 \<notin> set h" "0 \<notin> set h" "p < 2 ^ 63" "length (path_of (Tcp h p)) < 4096"
  shows "if p mod 65536 \<noteq> 0 then
      OS_CreateLocalIpcFd (path_of (Tcp h p)) backlog n k
        = OS_CreateLocalIpcFd (path_of (Tcp h (p mod 65536))) backlog n k
      \<and> OS_FcgiConnect (path_of (Tcp h p)) n k = OS_FcgiConnect (path_of (Tcp h (p mod 65536))) n k
    else ready fd n k \<and> length (path_of (Tcp h p)) \<le> 108 \<longrightarrow>
      (\<exists>n' k' name. OS_CreateLocalIpcFd (path_of (Tcp h p)) backlog n k = Inr (fd, n', k')
        \<and> bound n' fd = Some name \<and> snd (OS_BuildSockAddrUn (path_of (Tcp h p))) = Some name
        \<and> path_of (Tcp h p) \<in> sock_files n')"
proof (cases "p mod 65536 = 0")
  case True
  then have hp: "host_port (path_of (Tcp h p)) = (path_of (Tcp h p), 0)"
    using host_port_number [OF assms(1-3)] by simp
  have "c_str (path_of (Tcp h p)) = path_of (Tcp h p)" using assms(2) decimal_no_zero by simp
  with listen_local [OF _ hp, of fd n k backlog] True show ?thesis by force
next
  case False
  let ?q = "p mod 65536"
  have q: "?q < 2 ^ 63" by (rule order.strict_trans [OF mod_less_divisor]) simp_all
  have "(of_nat ?q :: 16 word) = of_nat p"
    by (simp add: word_of_nat_eq_iff take_bit_eq_mod)
  then have "short_of_int (atoi (decimal ?q)) = short_of_int (atoi (decimal p))"
    unfolding short_of_int_def by (simp only: word16_atoi [OF q] word16_atoi [OF assms(3)])
  then have hp: "host_port (path_of (Tcp h ?q)) = (h, short_of_int (atoi (decimal p)))"
      "host_port (path_of (Tcp h p)) = (h, short_of_int (atoi (decimal p)))"
    using False host_port_number [OF assms(1,2) q] host_port_number [OF assms(1-3)] by simp_all
  have ne: "short_of_int (atoi (decimal p)) \<noteq> 0"
    using False word16_atoi [OF assms(3)] by (simp add: short_of_int_0 word16_nat_0)
  have len: "length (c_str (path_of (Tcp h p))) < 4096" "length (c_str (path_of (Tcp h ?q))) < 4096"
    using assms(2,4) decimal_no_zero decimal_shorter [of ?q p] by simp_all
  from False same_host_port [OF hp(2,1) ne len] show ?thesis by simp
qed

lemma port_wraps_witness:
  "OS_CreateLocalIpcFd [58, 55, 48, 48, 48, 48] 5 (ex_net 7 {}) (ex_os [] [])
      = OS_CreateLocalIpcFd [58, 52, 52, 54, 52] 5 (ex_net 7 {}) (ex_os [] [])
    \<and> (\<exists>n' k' name. OS_CreateLocalIpcFd [58, 54, 53, 53, 51, 54] 5 (ex_net 7 {}) (ex_os [] []) = Inr (7, n', k')
      \<and> bound n' 7 = Some name \<and> [58, 54, 53, 53, 51, 54] \<in> sock_files n')"
proof -
  have d: "decimal 70000 = [55, 48, 48, 48, 48]" "decimal 4464 = [52, 52, 54, 52]"
      "decimal 65536 = [54, 53, 53, 51, 54]" by (simp_all add: decimal.simps)
  show ?thesis
    using port_wraps [of "[]" 70000 5 "ex_net 7 {}" "ex_os [] []"]
      port_wraps [of "[]" 65536 5 "ex_net 7 {}" "ex_os [] []" 7] ex_net_ready [of 7 "{}" "[]" "[]"]
    by (auto simp: d)
qed

section \<open>A path too long\<close>

text \<open>
  A local path of more than 108 bytes is refused only after the file of that name has been removed.
\<close>

lemma long_path_removed:
  assumes "host_port path = (host, 0)" "108 < length (c_str path)" "length (c_str path) < 4096"
    and "ready fd n k"
  shows "\<exists>n' k'. OS_CreateLocalIpcFd path backlog n k = Inl (1000, n', k')
    \<and> sock_files n' = sock_files n - {c_str path}"
proof -
  let ?k = "k\<lparr>open_fds := insert fd (open_fds k)\<rparr>"
  have "0 \<le> fd" using assms(4) by (simp add: ready_def)
  from socket_ready [OF assms(4)] obtain n1 where
    1: "sys_socket AF_UNIX n k = (fd, n1, ?k)" "calm n1" "family n1 fd = Some AF_UNIX" "sock_files n1 = sock_files n"
    by blast
  from unlink_calm [OF 1(2), of path ?k] obtain rc n2 k2 where
    2: "sys_unlink path n1 ?k = (rc, n2, k2)" "sock_files n2 = sock_files n1 - {c_str path}" by blast
  show ?thesis
    using assms(1-3) \<open>0 \<le> fd\<close> 1 2
    by (simp add: OS_CreateLocalIpcFd_def OS_BuildSockAddrUn_def Let_def)
qed

section \<open>The application that is started\<close>

text \<open>
  C29: the application that \<open>OS_SpawnChild\<close> starts has the listening socket as its descriptor 0, no standard
  output and error, every other descriptor except the one it was passed, and takes itself for a FastCGI
  application (\<open>FCGX_IsCGI\<close> is false). When the socket is descriptor 0 in the parent already, the child
  closes it: the application has no descriptor 0 and takes itself for a CGI program.
\<close>

theorem spawn_child:
  assumes "execl (c_str path) = 0" "t listenFd = Some s"
  shows "\<exists>t'. OS_SpawnChild 0 execl path listenFd t = Becomes (c_str path) t'
    \<and> t' 0 = (if listenFd = 0 then None else Some s) \<and> t' 1 = None \<and> t' 2 = None
    \<and> (\<forall>fd. fd \<notin> {0, 1, 2} \<longrightarrow> t' fd = (if fd = listenFd then None else t fd))
    \<and> (\<forall>a k. isFastCGI a = -1 \<and> libInitialized a \<and> open_fds k = dom t' \<and> peername k 0 = 107 \<longrightarrow>
        (\<exists>a' k'. FCGX_IsCGI a k = Some (listenFd = 0, a', k')))"
proof -
  let ?t = "if listenFd = 0 then t(0 := None, 1 := None, 2 := None)
    else t(0 \<mapsto> s, listenFd := None, 1 := None, 2 := None)"
  have "OS_SpawnChild 0 execl path listenFd t = Becomes (c_str path) ?t"
    using assms by (auto simp: OS_SpawnChild_def fd_close_def fd_dup2_def Let_def fun_eq_iff)
  moreover have "\<exists>a' k'. FCGX_IsCGI a k = Some (listenFd = 0, a', k')"
    if "isFastCGI a = -1" "libInitialized a" "open_fds k = dom ?t" "peername k 0 = 107" for a k
    using that by (auto simp: FCGX_IsCGI_def OS_IsFcgi_def Let_def split: if_splits)
  ultimately show ?thesis by (intro exI [of _ ?t]) auto
qed

lemma spawn_child_witness:
  "(\<exists>t'. OS_SpawnChild 0 (\<lambda>_. 0) [97] 6 [6 \<mapsto> 1, 2 \<mapsto> 5] = Becomes [97] t' \<and> t' 0 = Some 1 \<and> t' 2 = None)
    \<and> (\<exists>t'. OS_SpawnChild 0 (\<lambda>_. 0) [97] 0 [0 \<mapsto> 1] = Becomes [97] t' \<and> t' 0 = None)"
  using spawn_child [of "\<lambda>_. 0" "[97]" "[6 \<mapsto> 1, 2 \<mapsto> 5]" 6 1] spawn_child [of "\<lambda>_. 0" "[97]" "[0 \<mapsto> 1]" 0 1]
  by auto

end
