(* ===== verification/Fcgio.thy ===== *)
theory Fcgio
  imports Serve
begin

text \<open>
  \<open>fcgio.cpp\<close>: \<open>fcgi_streambuf\<close>, through which a C++ program's iostreams read and write a FastCGI stream, with
  a buffer of the program's or without one. The functions of its base class \<open>std::streambuf\<close> that call
  the virtual functions it overrides are those of libstdc++, with these functions as arguments.
\<close>

section \<open>State\<close>

text \<open>
  \<open>buf\<close> is the memory the program has passed as a buffer, \<open>bufsize\<close> the size it gave, 0 without a buffer. The pointers are
  offsets in \<open>buf\<close>; \<open>eback\<close> and \<open>pbase\<close>, the starts of the two areas, are its start.
\<close>

record streambuf =
  fcgx :: "stream option"
  buf :: "byte list"
  bufsize :: nat
  gptr :: nat
  egptr :: nat
  pptr :: nat
  epptr :: nat

type_synonym 'a action = "streambuf \<Rightarrow> FCGX_Request \<Rightarrow> os \<Rightarrow> ('a \<times> streambuf \<times> FCGX_Request \<times> os) option"

definition on_stream ::
  "(stream \<Rightarrow> FCGX_Request \<Rightarrow> os \<Rightarrow> ('a \<times> stream \<times> FCGX_Request \<times> os) option) \<Rightarrow> 'a action" where
  "on_stream f b r k =
     do { s \<leftarrow> fcgx b; (v, s, r, k) \<leftarrow> f s r k; Some (v, b\<lparr>fcgx := Some s\<rparr>, r, k) }"

section \<open>std::streambuf\<close>

text \<open>
  \<open>in_avail\<close> is the distance from \<open>gptr\<close> to \<open>egptr\<close>, or what \<open>showmanyc\<close> says, 0, when they are equal. A block moved to or
  from an area whose pointers have crossed has a negative size.
\<close>

definition in_avail :: "streambuf \<Rightarrow> int" where
  "in_avail b = int (egptr b) - int (gptr b)"

definition sputc :: "(int \<Rightarrow> int action) \<Rightarrow> byte \<Rightarrow> int action" where
  "sputc ovf c b r k =
     (if pptr b < epptr b then
        do { m \<leftarrow> memwrite (pptr b) [c] (buf b);
             Some (uint c, b\<lparr>buf := m, pptr := pptr b + 1\<rparr>, r, k) }
      else ovf (uint c) b r k)"

function base_xsputn :: "(int \<Rightarrow> int action) \<Rightarrow> byte list \<Rightarrow> nat \<Rightarrow> nat action" where
  "base_xsputn ovf str ret b r k =
     (if str = [] then Some (ret, b, r, k)
      else
        do { ASSERT (pptr b \<le> epptr b);
             let len = min (epptr b - pptr b) (length str);
             m \<leftarrow> memwrite (pptr b) (take len str) (buf b);
             let b = b\<lparr>buf := m, pptr := pptr b + len\<rparr>;
             if drop len str = [] then Some (ret + len, b, r, k)
             else
               do { (c, b, r, k) \<leftarrow> ovf (uint (hd (drop len str))) b r k;
                    if c = EOF then Some (ret + len, b, r, k)
                    else base_xsputn ovf (tl (drop len str)) (ret + len + 1) b r k } })"
  by pat_completeness auto
termination
  by (relation "measure (\<lambda>(ovf, str, ret, b, r, k). length str)") auto

definition sgetc :: "int action \<Rightarrow> int action" where
  "sgetc unf b r k =
     (if gptr b < egptr b then do { c \<leftarrow> deref (buf b) (gptr b); Some (uint c, b, r, k) }
      else unf b r k)"

definition sbumpc :: "int action \<Rightarrow> int action" where
  "sbumpc ufl b r k =
     (if gptr b < egptr b then
        do { c \<leftarrow> deref (buf b) (gptr b); Some (uint c, b\<lparr>gptr := gptr b + 1\<rparr>, r, k) }
      else ufl b r k)"

function base_xsgetn :: "int action \<Rightarrow> nat \<Rightarrow> byte list \<Rightarrow> byte list action" where
  "base_xsgetn ufl n got b r k =
     (if n = 0 then Some (got, b, r, k)
      else
        do { ASSERT (gptr b \<le> egptr b);
             let len = min (egptr b - gptr b) n;
             bs \<leftarrow> memread (gptr b) len (buf b);
             let b = b\<lparr>gptr := gptr b + len\<rparr>;
             if n - len = 0 then Some (got @ bs, b, r, k)
             else
               do { (c, b, r, k) \<leftarrow> ufl b r k;
                    if c = EOF then Some (got @ bs, b, r, k)
                    else base_xsgetn ufl (n - len - 1) (got @ bs @ [uchar c]) b r k } })"
  by pat_completeness auto
termination
  by (relation "measure (\<lambda>(ufl, n, got, b, r, k). n)") auto

declare base_xsputn.simps [simp del] base_xsgetn.simps [simp del]

section \<open>fcgi_streambuf\<close>

definition overflow :: "int \<Rightarrow> int action" where
  "overflow c b r k =
     do { (ok, b, r, k) \<leftarrow>
            (if bufsize b \<noteq> 0 \<and> pptr b \<noteq> 0 then
               do { ASSERT (int (pptr b) \<le> INT_MAX);
                    (n, b', r, k) \<leftarrow> on_stream (FCGX_PutStr EmptyBuffProc (buf b) (int (pptr b))) b r k;
                    if n \<noteq> int (pptr b) then Some (False, b', r, k) else Some (True, b'\<lparr>pptr := 0\<rparr>, r, k) }
             else Some (True, b, r, k));
          if \<not> ok then Some (EOF, b, r, k)
          else if c \<noteq> EOF then
            do { (v, b, r, k) \<leftarrow> on_stream (FCGX_PutChar EmptyBuffProc c) b r k;
                 Some (if v \<noteq> c then EOF else 0, b, r, k) }
          else Some (0, b, r, k) }"

definition sync :: "int action" where
  "sync b r k =
     do { (v, b, r, k) \<leftarrow> overflow EOF b r k;
          if v \<noteq> 0 then Some (EOF, b, r, k)
          else do { (v, b, r, k) \<leftarrow> on_stream (FCGX_FFlush EmptyBuffProc) b r k;
                    Some (if v \<noteq> 0 then EOF else 0, b, r, k) } }"

definition peek_char :: "stream \<Rightarrow> FCGX_Request \<Rightarrow> os \<Rightarrow> (int \<times> stream \<times> FCGX_Request \<times> os) option" where
  "peek_char s r k =
     do { (c, s, r, k) \<leftarrow> FCGX_GetChar FillBuffProc s r k;
          (c, s) \<leftarrow> FCGX_UnGetChar c s;
          Some (c, s, r, k) }"

text \<open>The bytes that \<open>FCGX_GetStr\<close> delivers are in the buffer whatever it returns.\<close>

definition underflow :: "int action" where
  "underflow b r k =
     (if bufsize b \<noteq> 0 then
        do { (end, b, r, k) \<leftarrow>
               (if in_avail b = 0 then
                  do { ASSERT (int (bufsize b) \<le> INT_MAX);
                       ((glen, bs), b, r, k) \<leftarrow> on_stream (\<lambda>s r k.
                         do { (n, bs, s, r, k) \<leftarrow> FCGX_GetStr FillBuffProc (int (bufsize b)) s r k;
                              Some ((n, bs), s, r, k) }) b r k;
                       m \<leftarrow> memwrite 0 bs (buf b);
                       let b = b\<lparr>buf := m\<rparr>;
                       Some (if glen \<le> 0 then (True, b, r, k)
                             else (False, b\<lparr>gptr := 0, egptr := nat glen\<rparr>, r, k)) }
                else Some (False, b, r, k));
             if end then Some (EOF, b, r, k)
             else do { c \<leftarrow> deref (buf b) (gptr b); Some (uint c, b, r, k) } }
      else on_stream peek_char b r k)"

definition uflow :: "int action" where
  "uflow b r k =
     (if bufsize b \<noteq> 0 then
        do { (c, b, r, k) \<leftarrow> underflow b r k; Some (c, b\<lparr>gptr := gptr b + 1\<rparr>, r, k) }
      else on_stream (FCGX_GetChar FillBuffProc) b r k)"

definition reset :: "streambuf \<Rightarrow> streambuf" where
  "reset b = b\<lparr>gptr := 0, egptr := 0, pptr := 0, epptr := bufsize b\<rparr>"

text \<open>\<open>setbuf\<close>: \<open>False\<close> for the null pointer it returns when there is a buffer already. The base class's does nothing.\<close>

definition setbuf :: "byte list \<Rightarrow> nat \<Rightarrow> streambuf \<Rightarrow> bool \<times> streambuf" where
  "setbuf m bs b = (if bufsize b \<noteq> 0 then (False, b) else (True, reset (b\<lparr>buf := m, bufsize := bs\<rparr>)))"

definition fcgi_streambuf :: "stream option \<Rightarrow> byte list \<Rightarrow> nat \<Rightarrow> streambuf" where
  "fcgi_streambuf fs m bs =
     snd (setbuf m bs \<lparr>fcgx = fs, buf = [], bufsize = 0, gptr = 0, egptr = 0, pptr = 0, epptr = 0\<rparr>)"

definition attach :: "stream option \<Rightarrow> streambuf \<Rightarrow> int \<times> streambuf" where
  "attach fs b = (let b = b\<lparr>fcgx := fs\<rparr> in (0, if bufsize b \<noteq> 0 then reset b else b))"

definition xsgetn :: "nat \<Rightarrow> byte list action" where
  "xsgetn n b r k =
     (if int n > INT_MAX then Some ([], b, r, k)
      else if bufsize b \<noteq> 0 then base_xsgetn uflow n [] b r k
      else on_stream (\<lambda>s r k.
        do { (v, bs, s, r, k) \<leftarrow> FCGX_GetStr FillBuffProc (int n) s r k; Some (bs, s, r, k) }) b r k)"

definition xsputn :: "byte list \<Rightarrow> int action" where
  "xsputn str b r k =
     (if int (length str) > INT_MAX then Some (0, b, r, k)
      else if bufsize b \<noteq> 0 then
        do { (n, b, r, k) \<leftarrow> base_xsputn overflow str 0 b r k; Some (int n, b, r, k) }
      else on_stream (FCGX_PutStr EmptyBuffProc str (int (length str))) b r k)"

text \<open>The destructor, and the constructors of the two stream classes.\<close>

definition destroy :: "int action" where
  "destroy b r k = overflow EOF b r k"

definition fcgi_istream :: "stream option \<Rightarrow> streambuf" where
  "fcgi_istream fs = snd (attach fs (fcgi_streambuf None [] 0))"

definition fcgi_ostream :: "stream option \<Rightarrow> streambuf" where
  "fcgi_ostream fs = snd (attach fs (fcgi_streambuf None [] 0))"

section \<open>What putting back needs\<close>

text \<open>\<open>stopUnget\<close>, the place beyond which no byte can be put back, is not after the next byte.\<close>

definition mark_ok :: "stream \<Rightarrow> bool" where
  "mark_ok s \<longleftrightarrow> isClosed s \<or> (\<forall>u. stopUnget s = Some u \<longrightarrow> u \<le> rdNext s)"

lemma mark_ok_set [simp]: "mark_ok (s\<lparr>stopUnget := Some (rdNext s)\<rparr>)"
  by (simp add: mark_ok_def)

lemma mark_ok_closed [intro]: "isClosed s \<Longrightarrow> mark_ok s"
  by (simp add: mark_ok_def)

lemma GetChar_mark:
  "FCGX_GetChar fill s r k = Some (c, s', r', k') \<Longrightarrow> mark_ok s \<Longrightarrow> mark_ok s'"
  by (auto simp: FCGX_GetChar_def mark_ok_def bind_Some_iff Let_def split: if_splits)

lemma GetStr_copy_mark: "GetStr_copy n mv s = Some (mv', s') \<Longrightarrow> mark_ok s \<Longrightarrow> mark_ok s'"
  by (auto simp: GetStr_copy_def mark_ok_def bind_Some_iff Let_def split: if_splits)

lemma GetStr_loop_mark:
  "GetStr_loop fill n mv s r k = Some y \<Longrightarrow> mark_ok s \<longrightarrow> mark_ok (fst (snd (snd y)))"
proof (rule GetStr_loop.raw_induct [of "\<lambda>fill n mv s r k y. mark_ok s \<longrightarrow> mark_ok (fst (snd (snd y)))"])
  fix loop fill n mv s r k y
  assume IH: "\<And>fill n mv s r k y. loop fill n mv s r k = Some y \<Longrightarrow> mark_ok s \<longrightarrow> mark_ok (fst (snd (snd y)))"
    and run: "do { (mv, s) \<leftarrow> GetStr_copy n mv s;
          if int (length mv) = n then Some (n, mv, s, r, k)
          else if isClosed s \<or> \<not> isReader s then Some (int (length mv), mv, s, r, k)
          else do { (s, r, k) \<leftarrow> fill s r k;
                    if isClosed s then Some (int (length mv), mv, s, r, k)
                    else loop fill n mv (s\<lparr>stopUnget := Some (rdNext s)\<rparr>) r k } } = Some y"
  show "mark_ok s \<longrightarrow> mark_ok (fst (snd (snd y)))"
    using run by (auto simp: bind_Some_iff split: if_splits dest: GetStr_copy_mark IH)
qed

lemma GetStr_mark:
  "FCGX_GetStr fill n s r k = Some (v, bs, s', r', k') \<Longrightarrow> mark_ok s \<Longrightarrow> mark_ok s'"
  using GetStr_loop_mark [of fill n "[]" s r k "(v, bs, s', r', k')"]
  by (auto simp: FCGX_GetStr_def mark_ok_def bind_Some_iff split: if_splits)

context byte_source
begin

text \<open>Reading a byte and putting it back leaves what the stream delivers as it was.\<close>

lemma peek_src:
  assumes "src xs s r k" "mark_ok s"
  shows "\<exists>s' r' k'. (do { (c, s, r, k) \<leftarrow> FCGX_GetChar fill s r k; (c, s) \<leftarrow> FCGX_UnGetChar c s; Some (c, s, r, k) })
      = Some (if xs = [] then EOF else uint (hd xs), s', r', k')
    \<and> src xs s' r' k' \<and> mark_ok s'"
proof -
  have put_back: "\<exists>s'. (do { (c, s, r, k) \<leftarrow> do { c \<leftarrow> deref (buff t) (rdNext t);
          Some (uint c, t\<lparr>rdNext := rdNext t + 1\<rparr>, r, k) }; (c, s) \<leftarrow> FCGX_UnGetChar c s; Some (c, s, r, k) })
      = Some (if xs = [] then EOF else uint (hd xs), t, r, k)"
    if "src xs t r k" "\<not> isClosed t" "rdNext t \<noteq> stop t" "\<forall>u. stopUnget t = Some u \<longrightarrow> u \<le> rdNext t" for t r k
  proof -
    from src_next [OF that(1-3)] obtain x ys where x: "xs = x # ys" "deref (buff t) (rdNext t) = Some x" by blast
    then have "memwrite (rdNext t) [x] (buff t) = Some (buff t)"
      by (auto simp: memwrite_def deref_eq_Some id_take_nth_drop [symmetric])
    moreover have "Some (rdNext t + 1) \<noteq> stopUnget t" using that(4) by (metis Suc_eq_plus1 Suc_n_not_le_n)
    ultimately show ?thesis using x that src_shape [OF that(1)] by (auto simp: FCGX_UnGetChar_def)
  qed
  show ?thesis
  proof (cases "isClosed s")
    case True
    with assms src_closed [OF assms(1)] show ?thesis by (auto simp: FCGX_GetChar_def FCGX_UnGetChar_def)
  next
    case op: False
    note sh = src_shape [OF assms(1)]
    show ?thesis
    proof (cases "rdNext s = stop s")
      case False
      with put_back [OF assms(1) op False] op sh assms show ?thesis
        by (auto simp: FCGX_GetChar_def mark_ok_def)
    next
      case True
      from src_fill [OF assms(1) op True] obtain s1 r1 k1 where
        f: "fill s r k = Some (s1, r1, k1)" "src xs s1 r1 k1" "isClosed s1 \<or> rdNext s1 < stop s1" by blast
      let ?s = "s1\<lparr>stopUnget := Some (rdNext s1)\<rparr>"
      have s: "src xs ?s r1 k1" using f(2) by (rule src_mark)
      show ?thesis
      proof (cases "isClosed s1")
        case True
        with f op sh src_closed [OF f(2)] \<open>rdNext s = stop s\<close> show ?thesis
          by (auto simp: FCGX_GetChar_def FCGX_UnGetChar_def mark_ok_def)
      next
        case False
        with put_back [OF s] f s op sh True show ?thesis
          by (auto simp: FCGX_GetChar_def mark_ok_def Let_def)
      qed
    qed
  qed
qed

end

section \<open>The base class on a stream buffer that keeps its promises\<close>

text \<open>
  What \<open>std::streambuf\<close> needs of the virtual functions, for output: \<open>holds xs b\<close> says that what has been put is
  \<open>xs\<close>. The put area is inside the buffer, bytes stored in it count as put, and \<open>overflow\<close> puts one more byte.
\<close>

locale put_area =
  fixes ovf :: "int \<Rightarrow> int action"
    and holds :: "byte list \<Rightarrow> streambuf \<Rightarrow> FCGX_Request \<Rightarrow> os \<Rightarrow> bool"
  assumes area: "holds xs b r k \<Longrightarrow> pptr b \<le> epptr b \<and> epptr b \<le> length (buf b)"
    and store: "holds xs b r k \<Longrightarrow> length cs \<le> epptr b - pptr b \<Longrightarrow> memwrite (pptr b) cs (buf b) = Some m \<Longrightarrow>
      holds (xs @ cs) (b\<lparr>buf := m, pptr := pptr b + length cs\<rparr>) r k"
    and ovf: "holds xs b r k \<Longrightarrow>
      \<exists>v b' r' k'. ovf (uint c) b r k = Some (v, b', r', k') \<and> v \<noteq> EOF \<and> holds (xs @ [c]) b' r' k'"
begin

lemma store_some:
  assumes "holds xs b r k" "length cs \<le> epptr b - pptr b"
  shows "\<exists>m. memwrite (pptr b) cs (buf b) = Some m
    \<and> holds (xs @ cs) (b\<lparr>buf := m, pptr := pptr b + length cs\<rparr>) r k"
proof -
  have "pptr b + length cs \<le> length (buf b)" using area [OF assms(1)] assms(2) by linarith
  then obtain m where "memwrite (pptr b) cs (buf b) = Some m" by (simp add: memwrite_def)
  with store [OF assms] show ?thesis by blast
qed

lemma sputc_holds:
  assumes "holds xs b r k"
  shows "\<exists>v b' r' k'. sputc ovf c b r k = Some (v, b', r', k') \<and> v \<noteq> EOF \<and> holds (xs @ [c]) b' r' k'"
proof (cases "pptr b < epptr b")
  case True
  then have "length [c] \<le> epptr b - pptr b" by simp
  from store_some [OF assms this] True show ?thesis by (auto simp: sputc_def)
next
  case False
  with ovf [OF assms] show ?thesis by (simp add: sputc_def)
qed

lemma sputn_holds:
  assumes "holds xs b r k"
  shows "\<exists>b' r' k'. base_xsputn ovf str ret b r k = Some (ret + length str, b', r', k') \<and> holds (xs @ str) b' r' k'"
  using assms
proof (induction str arbitrary: xs ret b r k rule: length_induct)
  case (1 str)
  define n where "n = min (epptr b - pptr b) (length str)"
  from store_some [OF 1(2), of "take n str"] obtain m where
    m: "memwrite (pptr b) (take n str) (buf b) = Some m"
      "holds (xs @ take n str) (b\<lparr>buf := m, pptr := pptr b + n\<rparr>) r k" by (auto simp: n_def)
  note step = area [OF 1(2)] m(1) n_def [symmetric]
  show ?case
  proof (cases "drop n str")
    case Nil
    then have "n = length str" by (simp add: n_def)
    with m step 1(2) show ?thesis by (cases "str = []"; subst base_xsputn.simps) (auto simp: Let_def)
  next
    case (Cons c cs)
    have cs: "str = take n str @ c # cs" by (metis append_take_drop_id Cons)
    have "length str = n + length (c # cs)"
      unfolding Cons [symmetric] by (simp add: n_def)
    then have len: "n + length cs + 1 = length str" "length cs < length str" by simp_all
    from ovf [OF m(2), of c] obtain v b2 r2 k2 where
      o: "ovf (uint c) (b\<lparr>buf := m, pptr := pptr b + n\<rparr>) r k = Some (v, b2, r2, k2)" "v \<noteq> EOF"
        "holds (xs @ take n str @ [c]) b2 r2 k2" by auto
    have "ret + n + 1 + length cs = ret + length str" "(xs @ take n str @ [c]) @ cs = xs @ str"
      using len(1) cs by (simp, metis append.assoc append_Cons append_Nil)
    with 1(1) [rule_format, OF len(2) o(3), of "ret + n + 1"] obtain b3 r3 k3 where
      "base_xsputn ovf cs (ret + n + 1) b2 r2 k2 = Some (ret + length str, b3, r3, k3)"
      "holds (xs @ str) b3 r3 k3" by metis
    with o(1,2) Cons step show ?thesis by (subst base_xsputn.simps) (auto simp: Let_def)
  qed
qed

end

text \<open>
  For input: \<open>holds xs b\<close> says that \<open>xs\<close> is what is still to be got, and the get area its first bytes. \<open>underflow\<close> returns
  the next byte and \<open>uflow\<close> takes it; after \<open>uflow\<close> at the end the promise may be gone (\<open>lasting\<close> says when it is kept).
\<close>

locale get_area =
  fixes unf ufl :: "int action"
    and holds :: "byte list \<Rightarrow> streambuf \<Rightarrow> FCGX_Request \<Rightarrow> os \<Rightarrow> bool"
    and lasting :: "streambuf \<Rightarrow> bool"
  assumes area: "holds xs b r k \<Longrightarrow> gptr b \<le> egptr b \<and> egptr b \<le> length (buf b)"
    and take_some: "holds xs b r k \<Longrightarrow> n \<le> egptr b - gptr b \<Longrightarrow>
      seg (gptr b) (gptr b + n) (buf b) = take n xs \<and> n \<le> length xs \<and> holds (drop n xs) (b\<lparr>gptr := gptr b + n\<rparr>) r k"
    and unf: "holds xs b r k \<Longrightarrow> gptr b = egptr b \<Longrightarrow>
      \<exists>b' r' k'. unf b r k = Some (if xs = [] then EOF else uint (hd xs), b', r', k') \<and> holds xs b' r' k'
        \<and> lasting b' = lasting b"
    and ufl: "holds xs b r k \<Longrightarrow> gptr b = egptr b \<Longrightarrow>
      \<exists>b' r' k'. ufl b r k = Some (if xs = [] then EOF else uint (hd xs), b', r', k')
        \<and> (xs \<noteq> [] \<or> lasting b \<longrightarrow> holds (tl xs) b' r' k' \<and> lasting b' = lasting b)"
    and keeps: "lasting (b\<lparr>gptr := n\<rparr>) = lasting b"
begin

lemma next_char:
  assumes "holds xs b r k" "gptr b < egptr b"
  shows "\<exists>x ys. xs = x # ys \<and> deref (buf b) (gptr b) = Some x \<and> holds ys (b\<lparr>gptr := gptr b + 1\<rparr>) r k"
proof -
  from take_some [OF assms(1), of 1] assms(2) have
    "seg (gptr b) (gptr b + 1) (buf b) = take 1 xs" "1 \<le> length xs" "holds (drop 1 xs) (b\<lparr>gptr := gptr b + 1\<rparr>) r k" by auto
  then show ?thesis using area [OF assms(1)] assms(2) by (cases xs) (auto simp: seg_Cons)
qed

lemma sgetc_holds:
  assumes "holds xs b r k"
  shows "\<exists>b' r' k'. sgetc unf b r k = Some (if xs = [] then EOF else uint (hd xs), b', r', k')
    \<and> holds xs b' r' k' \<and> lasting b' = lasting b"
proof (cases "gptr b < egptr b")
  case True
  with next_char [OF assms] assms show ?thesis by (auto simp: sgetc_def)
next
  case False
  with area [OF assms] unf [OF assms] show ?thesis by (auto simp: sgetc_def)
qed

lemma sbumpc_holds:
  assumes "holds xs b r k"
  shows "\<exists>b' r' k'. sbumpc ufl b r k = Some (if xs = [] then EOF else uint (hd xs), b', r', k')
    \<and> (xs \<noteq> [] \<or> lasting b \<longrightarrow> holds (tl xs) b' r' k' \<and> lasting b' = lasting b)"
proof (cases "gptr b < egptr b")
  case True
  with next_char [OF assms] show ?thesis by (auto simp: sbumpc_def keeps)
next
  case False
  with area [OF assms] ufl [OF assms] show ?thesis by (auto simp: sbumpc_def)
qed

lemma sgetn_holds:
  assumes "holds xs b r k"
  shows "\<exists>b' r' k'. base_xsgetn ufl n got b r k = Some (got @ take n xs, b', r', k')
    \<and> (n \<le> length xs \<or> lasting b \<longrightarrow> holds (drop n xs) b' r' k' \<and> lasting b' = lasting b)"
  using assms
proof (induction n arbitrary: xs got b r k rule: less_induct)
  case (less n)
  define l where "l = min (egptr b - gptr b) n"
  have l: "l \<le> n" "l \<le> egptr b - gptr b" by (simp_all add: l_def)
  note nx = take_some [OF less(2) l(2)]
  have mr: "memread (gptr b) l (buf b) = Some (take l xs)"
    using nx area [OF less(2)] l(2) by (subst memread_Some) auto
  note step = area [OF less(2)] mr l_def [symmetric] nx
  show ?case
  proof (cases "n = l")
    case True
    then have "base_xsgetn ufl n got b r k = Some (got @ take n xs, b\<lparr>gptr := gptr b + n\<rparr>, r, k)" if "n \<noteq> 0"
      using step that by (subst base_xsgetn.simps) (simp add: Let_def)
    moreover have "base_xsgetn ufl 0 got b r k = Some (got, b, r, k)" by (simp add: base_xsgetn.simps)
    ultimately show ?thesis using nx True less(2) by (cases "n = 0") (auto simp: keeps)
  next
    case False
    then have "l = egptr b - gptr b" "l < n" using l by (auto simp: l_def)
    then have e: "gptr (b\<lparr>gptr := gptr b + l\<rparr>) = egptr (b\<lparr>gptr := gptr b + l\<rparr>)" using step by simp
    let ?xs = "drop l xs"
    from ufl [OF _ e, of ?xs r k] nx obtain b2 r2 k2 where
      u: "ufl (b\<lparr>gptr := gptr b + l\<rparr>) r k = Some (if ?xs = [] then EOF else uint (hd ?xs), b2, r2, k2)"
        "?xs \<noteq> [] \<or> lasting b \<longrightarrow> holds (tl ?xs) b2 r2 k2 \<and> lasting b2 = lasting b" by (auto simp: keeps)
    show ?thesis
    proof (cases ?xs)
      case Nil
      then have "base_xsgetn ufl n got b r k = Some (got @ take n xs, b2, r2, k2)"
        using u(1) step \<open>l < n\<close> nx by (subst base_xsgetn.simps) (simp add: Let_def)
      with Nil u(2) nx \<open>l < n\<close> show ?thesis by auto
    next
      case (Cons x ys)
      then have ys: "xs = take l xs @ x # ys" "length (take l xs) = l"
        using nx by (metis append_take_drop_id, simp)
      have m: "n - l - 1 < n" using \<open>l < n\<close> by simp
      have "holds ys b2 r2 k2" "lasting b2 = lasting b" using u(2) Cons by auto
      with less(1) [OF m this(1), of "got @ take l xs @ [x]"] obtain b3 r3 k3 where
        f: "base_xsgetn ufl (n - l - 1) (got @ take l xs @ [x]) b2 r2 k2
            = Some ((got @ take l xs @ [x]) @ take (n - l - 1) ys, b3, r3, k3)"
          "n - l - 1 \<le> length ys \<or> lasting b \<longrightarrow> holds (drop (n - l - 1) ys) b3 r3 k3 \<and> lasting b3 = lasting b"
        by auto
      have t: "take n xs = take l xs @ x # take (n - l - 1) ys" "drop n xs = drop (n - l - 1) ys"
          "n \<le> length xs \<longleftrightarrow> n - l - 1 \<le> length ys"
        using \<open>l < n\<close> ys(2) by (subst ys(1); simp add: take_Cons' drop_Cons'; linarith?)+
      have "base_xsgetn ufl n got b r k = Some (got @ take n xs, b3, r3, k3)"
        using u(1) f(1) step \<open>l < n\<close> Cons t(1) by (subst base_xsgetn.simps) (simp add: Let_def)
      with f(2) t(2,3) show ?thesis by auto
    qed
  qed
qed

end

section \<open>fcgi_streambuf keeps them\<close>

definition buffer_ok :: "streambuf \<Rightarrow> bool" where
  "buffer_ok b \<longleftrightarrow> bufsize b \<le> length (buf b) \<and> int (bufsize b) \<le> INT_MAX"

text \<open>
  On a stream to write to: what the stream has accepted, followed by what is in the put area. On one to read from: the get
  area, followed by what the stream still delivers.
\<close>

definition put_holds ::
  "os \<Rightarrow> FCGX_Request \<Rightarrow> int \<Rightarrow> byte list \<Rightarrow> streambuf \<Rightarrow> FCGX_Request \<Rightarrow> os \<Rightarrow> bool" where
  "put_holds k0 r0 t xs b r k \<longleftrightarrow> buffer_ok b \<and> pptr b \<le> epptr b \<and> epptr b = bufsize b \<and>
     (\<exists>s ys. fcgx b = Some s \<and> wr_acc False True k0 r0 t ys s r k \<and> xs = ys @ take (pptr b) (buf b))"

definition get_holds ::
  "os \<Rightarrow> FCGX_Request \<Rightarrow> int option \<Rightarrow> byte list \<Rightarrow> dend \<Rightarrow>
     byte list \<Rightarrow> streambuf \<Rightarrow> FCGX_Request \<Rightarrow> os \<Rightarrow> bool" where
  "get_holds k0 r0 re W E xs b r k \<longleftrightarrow> buffer_ok b \<and> gptr b \<le> egptr b \<and> egptr b \<le> bufsize b \<and>
     (\<exists>s ys. fcgx b = Some s \<and> rd_src k0 r0 re W E ys s r k \<and> mark_ok s
        \<and> xs = seg (gptr b) (egptr b) (buf b) @ ys)"

lemma overflow_holds:
  assumes "put_holds k0 r0 t xs b r k" "c = EOF \<or> 0 \<le> c \<and> c < 256"
  shows "\<exists>b' r' k'. overflow c b r k = Some (0, b', r', k')
    \<and> put_holds k0 r0 t (xs @ (if c = EOF then [] else [uchar c])) b' r' k' \<and> pptr b' = 0"
proof -
  from assms(1) obtain s ys where
    b: "buffer_ok b" "pptr b \<le> epptr b" "epptr b = bufsize b" "fcgx b = Some s"
      "wr_acc False True k0 r0 t ys s r k" "xs = ys @ take (pptr b) (buf b)" by (auto simp: put_holds_def)
  have "pptr b \<le> length (buf b)" "int (pptr b) \<le> INT_MAX" using b(1-3) by (auto simp: buffer_ok_def)
  note in_buf = this
  from cooked.PutStr_prefix_acc [OF b(5) in_buf(1)] obtain s1 r1 k1 where
    p: "FCGX_PutStr EmptyBuffProc (buf b) (int (pptr b)) s r k = Some (int (pptr b), s1, r1, k1)"
      "wr_acc False True k0 r0 t xs s1 r1 k1" unfolding b(6) by (auto simp: wr_failed_def)
  obtain s2 r2 k2 where flushed:
    "(if bufsize b \<noteq> 0 \<and> pptr b \<noteq> 0 then
        do { ASSERT (int (pptr b) \<le> INT_MAX);
             (n, b', r, k) \<leftarrow> on_stream (FCGX_PutStr EmptyBuffProc (buf b) (int (pptr b))) b r k;
             if n \<noteq> int (pptr b) then Some (False, b', r, k) else Some (True, b'\<lparr>pptr := 0\<rparr>, r, k) }
      else Some (True, b, r, k)) = Some (True, b\<lparr>fcgx := Some s2, pptr := 0\<rparr>, r2, k2)"
    "wr_acc False True k0 r0 t xs s2 r2 k2"
  proof (cases "pptr b = 0")
    case True
    with b that [of s r k] show ?thesis by simp
  next
    case False
    with b(2-4) p in_buf that [of s1 r1 k1] show ?thesis by (simp add: on_stream_def)
  qed
  show ?thesis
  proof (cases "c = EOF")
    case True
    with b flushed show ?thesis
      unfolding overflow_def flushed(1) by (simp add: put_holds_def buffer_ok_def)
  next
    case False
    with assms(2) have c: "0 \<le> c" "c < 256" by auto
    from cooked.PutChar_acc [OF flushed(2), of c] c obtain s3 r3 k3 where
      "FCGX_PutChar EmptyBuffProc c s2 r2 k2 = Some (c, s3, r3, k3)"
      "wr_acc False True k0 r0 t (xs @ [uchar c]) s3 r3 k3" by (auto simp: wr_failed_def uint_uchar)
    with False b show ?thesis
      unfolding overflow_def flushed(1) by (simp add: put_holds_def buffer_ok_def on_stream_def)
  qed
qed

interpretation writing: put_area overflow "put_holds k0 r0 t" for k0 r0 t
proof unfold_locales
  fix xs b r k assume "put_holds k0 r0 t xs b r k"
  then show "pptr b \<le> epptr b \<and> epptr b \<le> length (buf b)" by (auto simp: put_holds_def buffer_ok_def)
next
  fix xs b r k cs m
  assume h: "put_holds k0 r0 t xs b r k" and l: "length cs \<le> epptr b - pptr b"
    and m: "memwrite (pptr b) cs (buf b) = Some m"
  have "take (pptr b + length cs) m = take (pptr b) (buf b) @ cs"
    using m by (auto simp: memwrite_eq_Some)
  with h l memwrite_length [OF m]
  show "put_holds k0 r0 t (xs @ cs) (b\<lparr>buf := m, pptr := pptr b + length cs\<rparr>) r k"
    by (auto simp: put_holds_def buffer_ok_def)
next
  fix xs b r k and c :: byte assume h: "put_holds k0 r0 t xs b r k"
  have "uint c = EOF \<or> 0 \<le> uint c \<and> uint c < 256" "(0 :: int) \<noteq> EOF" using uint_byte_bound [of c] by (auto simp: EOF_def)
  with overflow_holds [OF h this(1)]
  show "\<exists>v b' r' k'. overflow (uint c) b r k = Some (v, b', r', k') \<and> v \<noteq> EOF \<and> put_holds k0 r0 t (xs @ [c]) b' r' k'"
    by auto
qed

text \<open>With a buffer, \<open>underflow\<close> on an empty get area fetches the next bytes of the stream.\<close>

lemma underflow_fetch:
  assumes "get_holds k0 r0 re W E xs b r k" "gptr b = egptr b" "bufsize b \<noteq> 0"
  shows "\<exists>b' r' k'. underflow b r k = Some (if xs = [] then EOF else uint (hd xs), b', r', k')
    \<and> get_holds k0 r0 re W E xs b' r' k' \<and> bufsize b' = bufsize b \<and> (xs \<noteq> [] \<longrightarrow> gptr b' < egptr b')
    \<and> (xs = [] \<longrightarrow> (\<exists>s. b' = b\<lparr>fcgx := Some s\<rparr>))"
proof -
  from assms obtain s where
    b: "buffer_ok b" "fcgx b = Some s" "rd_src k0 r0 re W E xs s r k" "mark_ok s"
    "egptr b \<le> bufsize b" by (auto simp: get_holds_def)
  from reader.GetStr_src [OF b(3), of "int (bufsize b)"] obtain s1 r1 k1 where
    g: "FCGX_GetStr FillBuffProc (int (bufsize b)) s r k
        = Some (int (min (bufsize b) (length xs)), take (bufsize b) xs, s1, r1, k1)"
      "rd_src k0 r0 re W E (drop (bufsize b) xs) s1 r1 k1" by auto
  have mk: "mark_ok s1" using g(1) b(4) by (rule GetStr_mark)
  have "length (take (bufsize b) xs) \<le> length (buf b)" using b(1) by (auto simp: buffer_ok_def)
  then obtain m where m: "memwrite 0 (take (bufsize b) xs) (buf b) = Some m" by (auto simp: memwrite_def)
  show ?thesis
  proof (cases "xs = []")
    case True
    with m have "m = buf b" by (simp add: memwrite_def)
    with True assms b g m mk show ?thesis
      by (auto simp: underflow_def in_avail_def buffer_ok_def on_stream_def get_holds_def)
  next
    case False
    let ?n = "min (bufsize b) (length xs)"
    have n: "0 < ?n" "?n = length (take (bufsize b) xs)" using False assms(3) by auto
    have sg: "seg 0 ?n m = take (bufsize b) xs" using seg_memwrite_at [OF m] unfolding n(2) by simp
    have lm: "length m = length (buf b)" using m by (rule memwrite_length)
    have "0 < length m" using b(1) lm assms(3) by (auto simp: buffer_ok_def)
    note nz = this
    from seg_Cons [OF n(1) nz] sg have "m ! 0 # seg (Suc 0) ?n m = take (bufsize b) xs" by simp
    then have "m ! 0 = hd xs" using False assms(3) by (cases xs; cases "bufsize b") auto
    moreover have "?n \<noteq> 0" using n(1) by simp
    ultimately have "underflow b r k = Some (uint (hd xs), b\<lparr>fcgx := Some s1, buf := m, gptr := 0, egptr := ?n\<rparr>, r1, k1)"
      using assms(2,3) b(1,2) g(1) m nz by (simp add: underflow_def in_avail_def buffer_ok_def on_stream_def Let_def)
    then show ?thesis using False assms b g m mk sg lm
      by (auto simp: buffer_ok_def get_holds_def)
  qed
qed

interpretation reading: get_area underflow uflow "get_holds k0 r0 re W E" "\<lambda>b. bufsize b = 0" for k0 r0 re W E
proof unfold_locales
  fix xs b r k assume "get_holds k0 r0 re W E xs b r k"
  then show "gptr b \<le> egptr b \<and> egptr b \<le> length (buf b)" by (auto simp: get_holds_def buffer_ok_def)
next
  fix xs b r k n assume h: "get_holds k0 r0 re W E xs b r k" and n: "n \<le> egptr b - gptr b"
  then have "seg (gptr b) (egptr b) (buf b) = seg (gptr b) (gptr b + n) (buf b) @ seg (gptr b + n) (egptr b) (buf b)"
    by (intro seg_append [symmetric]) (auto simp: get_holds_def)
  moreover have "length (seg (gptr b) (gptr b + n) (buf b)) = n"
    using h n by (subst length_seg) (auto simp: get_holds_def buffer_ok_def)
  ultimately show "seg (gptr b) (gptr b + n) (buf b) = take n xs \<and> n \<le> length xs
      \<and> get_holds k0 r0 re W E (drop n xs) (b\<lparr>gptr := gptr b + n\<rparr>) r k"
    using h n by (auto simp: get_holds_def buffer_ok_def)
next
  fix xs b r k assume h: "get_holds k0 r0 re W E xs b r k" "gptr b = egptr b"
  show "\<exists>b' r' k'. underflow b r k = Some (if xs = [] then EOF else uint (hd xs), b', r', k')
      \<and> get_holds k0 r0 re W E xs b' r' k' \<and> (bufsize b' = 0) = (bufsize b = 0)"
  proof (cases "bufsize b = 0")
    case True
    with h obtain s where s: "fcgx b = Some s" "rd_src k0 r0 re W E xs s r k" "mark_ok s" by (auto simp: get_holds_def)
    from reader.peek_src [OF s(2,3)] obtain s1 r1 k1 where
      "peek_char s r k = Some (if xs = [] then EOF else uint (hd xs), s1, r1, k1)"
      "rd_src k0 r0 re W E xs s1 r1 k1" "mark_ok s1" unfolding peek_char_def by blast
    with True h s(1) show ?thesis
      by (auto simp: underflow_def on_stream_def get_holds_def buffer_ok_def)
  next
    case False
    from underflow_fetch [OF h this] False show ?thesis by auto
  qed
next
  fix xs b r k assume h: "get_holds k0 r0 re W E xs b r k" "gptr b = egptr b"
  show "\<exists>b' r' k'. uflow b r k = Some (if xs = [] then EOF else uint (hd xs), b', r', k')
      \<and> (xs \<noteq> [] \<or> bufsize b = 0 \<longrightarrow> get_holds k0 r0 re W E (tl xs) b' r' k' \<and> (bufsize b' = 0) = (bufsize b = 0))"
  proof (cases "bufsize b = 0")
    case True
    with h obtain s where s: "fcgx b = Some s" "rd_src k0 r0 re W E xs s r k" "mark_ok s" by (auto simp: get_holds_def)
    from reader.GetChar_src [OF s(2)] obtain s1 r1 k1 where
      "FCGX_GetChar FillBuffProc s r k = Some (if xs = [] then EOF else uint (hd xs), s1, r1, k1)"
      "rd_src k0 r0 re W E (tl xs) s1 r1 k1" by blast
    with True h s GetChar_mark [OF this(1)] show ?thesis
      by (auto simp: uflow_def on_stream_def get_holds_def buffer_ok_def)
  next
    case False
    from underflow_fetch [OF h this] obtain b1 r1 k1 where
      u: "underflow b r k = Some (if xs = [] then EOF else uint (hd xs), b1, r1, k1)"
        "get_holds k0 r0 re W E xs b1 r1 k1" "bufsize b1 = bufsize b" "xs \<noteq> [] \<longrightarrow> gptr b1 < egptr b1" by blast
    have "get_holds k0 r0 re W E (tl xs) (b1\<lparr>gptr := gptr b1 + 1\<rparr>) r1 k1" if "xs \<noteq> []"
    proof -
      have g: "gptr b1 < egptr b1" "egptr b1 \<le> length (buf b1)"
        using u(2,4) that by (auto simp: get_holds_def buffer_ok_def)
      then have "seg (gptr b1) (egptr b1) (buf b1) = buf b1 ! gptr b1 # seg (gptr b1 + 1) (egptr b1) (buf b1)"
        by (simp add: seg_Cons)
      with u(2) g show ?thesis by (auto simp: get_holds_def buffer_ok_def)
    qed
    with u False show ?thesis by (auto simp: uflow_def)
  qed
qed simp

section \<open>Programs\<close>

text \<open>
  What a program does with its output and its input. \<open>run_puts\<close> stops at the first call that reports a failure, or that it
  took fewer bytes, as the result tells.
\<close>

datatype put_call = Sputc byte | Sputn "byte list" | Pubsync

fun do_put :: "put_call \<Rightarrow> bool action" where
  "do_put (Sputc c) b r k = do { (v, b, r, k) \<leftarrow> sputc overflow c b r k; Some (v \<noteq> EOF, b, r, k) }"
| "do_put (Sputn str) b r k = do { (n, b, r, k) \<leftarrow> xsputn str b r k; Some (n = int (length str), b, r, k) }"
| "do_put Pubsync b r k = do { (v, b, r, k) \<leftarrow> sync b r k; Some (v = 0, b, r, k) }"

fun run_puts :: "put_call list \<Rightarrow> bool action" where
  "run_puts [] b r k = Some (True, b, r, k)"
| "run_puts (c # cs) b r k =
     do { (ok, b, r, k) \<leftarrow> do_put c b r k; if ok then run_puts cs b r k else Some (False, b, r, k) }"

fun put_bytes :: "put_call \<Rightarrow> byte list" where
  "put_bytes (Sputc c) = [c]"
| "put_bytes (Sputn str) = str"
| "put_bytes Pubsync = []"

datatype get_call = Sgetc | Sbumpc | Sgetn nat
datatype got = Got_char int | Got_bytes "byte list"

fun do_get :: "get_call \<Rightarrow> got action" where
  "do_get Sgetc b r k = do { (c, b, r, k) \<leftarrow> sgetc underflow b r k; Some (Got_char c, b, r, k) }"
| "do_get Sbumpc b r k = do { (c, b, r, k) \<leftarrow> sbumpc uflow b r k; Some (Got_char c, b, r, k) }"
| "do_get (Sgetn n) b r k = do { (bs, b, r, k) \<leftarrow> xsgetn n b r k; Some (Got_bytes bs, b, r, k) }"

fun run_gets :: "get_call list \<Rightarrow> got list action" where
  "run_gets [] b r k = Some ([], b, r, k)"
| "run_gets (c # cs) b r k =
     do { (g, b, r, k) \<leftarrow> do_get c b r k; (gs, b, r, k) \<leftarrow> run_gets cs b r k; Some (g # gs, b, r, k) }"

text \<open>What the calls give on the bytes \<open>xs\<close>, how many each takes, and whether all but the last one get them.\<close>

fun takes :: "get_call \<Rightarrow> nat" where
  "takes Sgetc = 0"
| "takes Sbumpc = 1"
| "takes (Sgetn n) = n"

fun gets_of :: "get_call list \<Rightarrow> byte list \<Rightarrow> got list" where
  "gets_of [] xs = []"
| "gets_of (c # cs) xs =
     (case c of Sgetn n \<Rightarrow> Got_bytes (take n xs) | _ \<Rightarrow> Got_char (if xs = [] then EOF else uint (hd xs)))
       # gets_of cs (drop (takes c) xs)"

fun within :: "get_call list \<Rightarrow> byte list \<Rightarrow> bool" where
  "within [] xs \<longleftrightarrow> True"
| "within (c # cs) xs \<longleftrightarrow> cs = [] \<or> takes c \<le> length xs \<and> within cs (drop (takes c) xs)"

lemma do_put_holds:
  assumes "put_holds k0 r0 t xs b r k" "int (length (put_bytes c)) \<le> INT_MAX"
  shows "\<exists>b' r' k'. do_put c b r k = Some (True, b', r', k') \<and> put_holds k0 r0 t (xs @ put_bytes c) b' r' k'"
proof (cases c)
  case (Sputc x)
  with writing.sputc_holds [OF assms(1), of x] show ?thesis by fastforce
next
  case (Sputn str)
  show ?thesis
  proof (cases "bufsize b = 0")
    case True
    with assms(1) obtain s where s: "fcgx b = Some s" "wr_acc False True k0 r0 t xs s r k" "pptr b = 0"
      by (auto simp: put_holds_def)
    from cooked.PutStr_acc [OF s(2), of str] obtain s1 r1 k1 where
      "FCGX_PutStr EmptyBuffProc str (int (length str)) s r k = Some (int (length str), s1, r1, k1)"
      "wr_acc False True k0 r0 t (xs @ str) s1 r1 k1" by (auto simp: wr_failed_def)
    with True s assms Sputn show ?thesis
      by (auto simp: xsputn_def on_stream_def put_holds_def buffer_ok_def)
  next
    case False
    with writing.sputn_holds [OF assms(1), of str 0] assms(2) Sputn show ?thesis by (auto simp: xsputn_def)
  qed
next
  case Pubsync
  from overflow_holds [OF assms(1), of EOF] obtain b1 r1 k1 where
    o: "overflow EOF b r k = Some (0, b1, r1, k1)" "put_holds k0 r0 t xs b1 r1 k1" by auto
  then obtain s ys where s: "fcgx b1 = Some s" "wr_acc False True k0 r0 t ys s r1 k1" "xs = ys @ take (pptr b1) (buf b1)"
    by (auto simp: put_holds_def)
  from cooked.FFlush_acc [OF s(2)] obtain s2 r2 k2 where
    "FCGX_FFlush EmptyBuffProc s r1 k1 = Some (0, s2, r2, k2)" "wr_acc False True k0 r0 t ys s2 r2 k2"
    by (auto simp: wr_failed_def)
  with o s Pubsync show ?thesis by (auto simp: sync_def on_stream_def put_holds_def buffer_ok_def)
qed

lemma run_puts_holds:
  assumes "put_holds k0 r0 t xs b r k" "list_all (\<lambda>c. int (length (put_bytes c)) \<le> INT_MAX) cs"
  shows "\<exists>b' r' k'. run_puts cs b r k = Some (True, b', r', k')
    \<and> put_holds k0 r0 t (xs @ concat (map put_bytes cs)) b' r' k'"
  using assms
proof (induction cs arbitrary: xs b r k)
  case (Cons c cs)
  from do_put_holds [OF Cons.prems(1), of c] Cons.prems(2) obtain b1 r1 k1 where
    d: "do_put c b r k = Some (True, b1, r1, k1)" "put_holds k0 r0 t (xs @ put_bytes c) b1 r1 k1" by auto
  from Cons.IH [OF d(2)] Cons.prems(2) d(1) show ?case by auto
qed simp

lemma do_get_holds:
  assumes "get_holds k0 r0 re W E xs b r k" "int (takes c) \<le> INT_MAX"
  shows "\<exists>b' r' k'. do_get c b r k = Some (hd (gets_of [c] xs), b', r', k')
    \<and> (takes c \<le> length xs \<or> bufsize b = 0 \<longrightarrow>
        get_holds k0 r0 re W E (drop (takes c) xs) b' r' k' \<and> (bufsize b' = 0) = (bufsize b = 0))"
proof (cases c)
  case Sgetc
  with reading.sgetc_holds [OF assms(1)] show ?thesis by auto
next
  case Sbumpc
  from reading.sbumpc_holds [OF assms(1)] show ?thesis
    using Sbumpc by (cases xs) (auto simp: drop_Suc)
next
  case (Sgetn n)
  show ?thesis
  proof (cases "bufsize b = 0")
    case True
    with assms(1) obtain s where s: "fcgx b = Some s" "rd_src k0 r0 re W E xs s r k" "mark_ok s" "gptr b = 0" "egptr b = 0"
      by (auto simp: get_holds_def)
    from reader.GetStr_src [OF s(2), of "int n"] obtain s1 r1 k1 where
      g: "FCGX_GetStr FillBuffProc (int n) s r k = Some (int (min n (length xs)), take n xs, s1, r1, k1)"
        "rd_src k0 r0 re W E (drop n xs) s1 r1 k1" by auto
    have "mark_ok s1" using g(1) s(3) by (rule GetStr_mark)
    with True s g assms Sgetn show ?thesis
      by (auto simp: xsgetn_def on_stream_def get_holds_def buffer_ok_def)
  next
    case False
    with reading.sgetn_holds [OF assms(1), of n "[]"] assms(2) Sgetn show ?thesis by (auto simp: xsgetn_def)
  qed
qed

lemma run_gets_holds:
  assumes "get_holds k0 r0 re W E xs b r k" "list_all (\<lambda>c. int (takes c) \<le> INT_MAX) cs"
    and "bufsize b = 0 \<or> within cs xs"
  shows "\<exists>b' r' k'. run_gets cs b r k = Some (gets_of cs xs, b', r', k')"
  using assms
proof (induction cs arbitrary: xs b r k)
  case (Cons c cs)
  from do_get_holds [OF Cons.prems(1), of c] Cons.prems(2) obtain b1 r1 k1 where
    d: "do_get c b r k = Some (hd (gets_of [c] xs), b1, r1, k1)"
      "takes c \<le> length xs \<or> bufsize b = 0 \<longrightarrow>
        get_holds k0 r0 re W E (drop (takes c) xs) b1 r1 k1 \<and> (bufsize b1 = 0) = (bufsize b = 0)" by auto
  show ?case
  proof (cases "cs = []")
    case False
    with Cons.prems(3) have "takes c \<le> length xs \<or> bufsize b = 0" "bufsize b = 0 \<or> within cs (drop (takes c) xs)" by auto
    with Cons.IH [of "drop (takes c) xs" b1 r1 k1] Cons.prems(2) d show ?thesis by auto
  qed (use d in auto)
qed simp

section \<open>Properties\<close>

text \<open>The stream classes have a streambuf without a buffer.\<close>

lemma stream_classes:
  "fcgi_istream fs = fcgi_streambuf fs [] 0" "fcgi_ostream fs = fcgi_streambuf fs [] 0"
  by (simp_all add: fcgi_istream_def fcgi_ostream_def attach_def fcgi_streambuf_def setbuf_def reset_def)

lemma start_puts:
  assumes "wr_acc False True k0 r0 t [] s r k" "bs \<le> length m" "int bs \<le> INT_MAX"
  shows "put_holds k0 r0 t [] (fcgi_streambuf (Some s) m bs) r k"
  using assms by (simp add: put_holds_def buffer_ok_def fcgi_streambuf_def setbuf_def reset_def)

lemma start_gets:
  assumes "rd_src k0 r0 re W E xs s r k" "mark_ok s" "bs \<le> length m" "int bs \<le> INT_MAX"
  shows "get_holds k0 r0 re W E xs (fcgi_streambuf (Some s) m bs) r k"
  using assms by (simp add: get_holds_def buffer_ok_def fcgi_streambuf_def setbuf_def reset_def)

text \<open>
  C27: what a C++ program puts into an \<open>fcgi_streambuf\<close> on a new output stream, byte by byte and in blocks, with a buffer of any size or
  none, synchronising when it likes, has been written to the stream when the streambuf is destroyed: closing the stream
  then leaves on the connection records that decode to it.
\<close>

theorem streambuf_output:
  assumes "malloc_fits k" "fd_ok (ipcFd r) k" "wx_clean (wx k (ipcFd r))"
    and "0 \<le> t" "t < 256" "0 \<le> requestId r" "requestId r < 65536"
    and "bs \<le> length m" "int bs \<le> INT_MAX" "list_all (\<lambda>c. int (length (put_bytes c)) \<le> INT_MAX) cs"
  shows "\<exists>s b1 r1 k1 b2 k2 s2 s3 k3 out chunks.
    NewWriter len t k = Some s
    \<and> run_puts cs (fcgi_streambuf (Some s) m bs) r k = Some (True, b1, r1, k1)
    \<and> destroy b1 r1 k1 = Some (0, b2, r, k2) \<and> fcgx b2 = Some s2
    \<and> FCGX_FClose EmptyBuffProc s2 r k2 = Some (0, s3, r\<lparr>nWriters := nWriters r - 1\<rparr>, k3)
    \<and> tx k3 (ipcFd r) = tx k (ipcFd r) @ out
    \<and> parse_records out = Some (map (\<lambda>c. (t, requestId r, c)) chunks @ closing t r (concat (map put_bytes cs) = []))
    \<and> concat chunks = concat (map put_bytes cs)"
proof -
  from wr_acc_start [of k r True] assms(1-3) obtain s where
    s: "NewWriter len t k = Some s" "wr_acc False True k r t [] s r k" by blast
  from run_puts_holds [OF start_puts [OF s(2) assms(8,9)] assms(10)] obtain b1 r1 k1 where
    p: "run_puts cs (fcgi_streambuf (Some s) m bs) r k = Some (True, b1, r1, k1)"
      "put_holds k r t (concat (map put_bytes cs)) b1 r1 k1" by auto
  from overflow_holds [OF p(2), of EOF] obtain b2 r2 k2 where
    d: "destroy b1 r1 k1 = Some (0, b2, r2, k2)" "put_holds k r t (concat (map put_bytes cs)) b2 r2 k2" "pptr b2 = 0"
    by (auto simp: destroy_def)
  then obtain s2 where s2: "fcgx b2 = Some s2" "wr_acc False True k r t (concat (map put_bytes cs)) s2 r2 k2"
    by (auto simp: put_holds_def)
  have "r2 = r" using s2(2) by (simp add: wr_acc_def)
  with FClose_decodes [OF s2(2) assms(4-7)] s p d s2 show ?thesis by fastforce
qed

lemma streambuf_output_witness:
  "\<exists>s b1 r1 k1 b2 k2 s2 s3 k3 out.
    NewWriter 8192 FCGI_STDOUT (ex_os [] [TxLimit 3]) = Some s
    \<and> run_puts [Sputn [72, 105, 32, 33], Pubsync, Sputc 10] (fcgi_streambuf (Some s) [0, 0] 2) ex_req (ex_os [] [TxLimit 3])
        = Some (True, b1, r1, k1)
    \<and> destroy b1 r1 k1 = Some (0, b2, ex_req, k2) \<and> fcgx b2 = Some s2
    \<and> FCGX_FClose EmptyBuffProc s2 ex_req k2 = Some (0, s3, ex_req\<lparr>nWriters := 0\<rparr>, k3)
    \<and> tx k3 5 = out"
proof -
  have "wx_clean (wx (ex_os [] [TxLimit 3]) (ipcFd ex_req))" by (simp add: wx_clean_def)
  from streambuf_output [OF _ _ this, of FCGI_STDOUT 2 "[0, 0]" "[Sputn [72, 105, 32, 33], Pubsync, Sputc 10]" 8192]
  show ?thesis by (simp add: INT_MAX_def) blast
qed

text \<open>
  C25: a C++ program gets from an \<open>fcgi_streambuf\<close> on an input stream the bytes of the stream, whether it looks at the next one,
  takes it or takes blocks, and \<open>EOF\<close> or a shorter block at the end. Without a buffer it may go on after that; with one it must stop
  there.
\<close>

theorem streambuf_input:
  assumes "rd_src k0 r0 re W E xs s r k" "mark_ok s" "bs \<le> length m" "int bs \<le> INT_MAX"
    and "list_all (\<lambda>c. int (takes c) \<le> INT_MAX) cs" "bs = 0 \<or> within cs xs"
  shows "\<exists>b' r' k'. run_gets cs (fcgi_streambuf (Some s) m bs) r k = Some (gets_of cs xs, b', r', k')"
proof -
  have "bufsize (fcgi_streambuf (Some s) m bs) = bs" by (simp add: fcgi_streambuf_def setbuf_def reset_def)
  with run_gets_holds [OF start_gets [OF assms(1-4)] assms(5)] assms(6) show ?thesis by simp
qed

text \<open>
  C23: with a buffer, \<open>uflow\<close> steps over the end of the get area even when it returns \<open>EOF\<close>. Then the next \<open>sbumpc\<close> returns
  whatever the buffer holds one place further, or reads beyond it, and a block read asks for a block of negative size.
\<close>

theorem streambuf_after_end:
  assumes "get_holds k0 r0 re W E [] b r k" "bufsize b \<noteq> 0" "0 < n" "int n \<le> INT_MAX"
  shows "\<exists>b' r' k'. sbumpc uflow b r k = Some (EOF, b', r', k')
    \<and> xsgetn n b' r' k' = None
    \<and> sbumpc uflow b' r' k' = (if egptr b + 1 < length (buf b)
        then Some (uint (buf b ! (egptr b + 1)), b'\<lparr>gptr := egptr b + 2\<rparr>, r', k') else None)"
proof -
  have g: "gptr b = egptr b" using assms(1) by (auto simp: get_holds_def buffer_ok_def seg_eq_Nil)
  from underflow_fetch [OF assms(1) g assms(2)] obtain s r1 k1 where
    u: "underflow b r k = Some (EOF, b\<lparr>fcgx := Some s\<rparr>, r1, k1)" by auto
  let ?b = "b\<lparr>fcgx := Some s, gptr := egptr b + 1\<rparr>"
  have "sbumpc uflow b r k = Some (EOF, ?b, r1, k1)"
    using g u assms(2) by (simp add: sbumpc_def uflow_def)
  moreover have "xsgetn n ?b r1 k1 = None"
    using assms(2-4) by (simp add: xsgetn_def base_xsgetn.simps)
  moreover have "sbumpc uflow ?b r1 k1 = (if egptr b + 1 < length (buf b)
      then Some (uint (buf b ! (egptr b + 1)), ?b\<lparr>gptr := egptr b + 2\<rparr>, r1, k1) else None)"
    using assms(2) by (simp add: sbumpc_def uflow_def underflow_def in_avail_def deref_def)
  ultimately show ?thesis by auto
qed

lemma ex_source_mark:
  "\<exists>s k0 k. rd_src k0 ex_req None [] (DFail (-3)) [104, 10, 105] s ex_req k \<and> mark_ok s"
proof -
  from ex_source_hi obtain s where s: "NewReader 8192 FCGI_STDIN (ex_os [Data (1 # [5, 0, 1, 0, 3, 0, 0, 104, 10, 105])] []) = Some s"
    "rd_src (ex_os [Data (1 # [5, 0, 1, 0, 3, 0, 0, 104, 10, 105])] []) ex_req None []
     (DFail (-3)) [104, 10, 105] s ex_req (ex_os [Data (1 # [5, 0, 1, 0, 3, 0, 0, 104, 10, 105])] [])" by blast
  have "mark_ok s" using s(1) by (auto simp: NewReader_def NewStream_def Let_def bind_Some_iff mark_ok_def)
  with s(2) show ?thesis by blast
qed

lemma streambuf_input_witness:
  "\<exists>s k b' r' k'. run_gets [Sgetc, Sbumpc, Sgetn 4] (fcgi_streambuf (Some s) [0, 0] 2) ex_req k
    = Some ([Got_char 104, Got_char 104, Got_bytes [10, 105]], b', r', k')"
proof -
  from ex_source_mark obtain s k0 k where s: "rd_src k0 ex_req None [] (DFail (-3)) [104, 10, 105] s ex_req k" "mark_ok s"
    by blast
  from streambuf_input [OF s, of 2 "[0, 0]" "[Sgetc, Sbumpc, Sgetn 4]"] show ?thesis by (simp add: INT_MAX_def) blast
qed

lemma streambuf_after_end_witness:
  "\<exists>b r k b' r' k'. sbumpc uflow b r k = Some (EOF, b', r', k') \<and> xsgetn 1 b' r' k' = None"
proof -
  from ex_source_mark obtain s k0 k where s: "rd_src k0 ex_req None [] (DFail (-3)) [104, 10, 105] s ex_req k" "mark_ok s"
    by blast
  from reading.sgetn_holds [OF start_gets [OF s, of 2 "[0, 0]"], of 3 "[]"] obtain b r1 k1 where
    "get_holds k0 ex_req None [] (DFail (-3)) [] b r1 k1" "bufsize b \<noteq> 0"
    by (auto simp: INT_MAX_def fcgi_streambuf_def setbuf_def reset_def)
  from streambuf_after_end [OF this, of 1] show ?thesis by (simp add: INT_MAX_def) blast
qed

end
