(* ===== verification/Spec2Isabelle.thy ===== *)
theory Spec2Isabelle
  imports StrTran StrReplace Management Connections EventLoop PrintEnv StdioSame Sockets Fcgio
begin

text \<open>
  A verification of the FastCGI library and of its Harbour binding in this repository:
  \<open>fcgi-2.4.1/libfcgi/{fcgiapp.c, fcgi_stdio.c, fcgio.cpp, os_unix.c}\<close> with the headers in \<open>fcgi-2.4.1/include\<close>, and
  \<open>hb_fcgi/{hb_fcgi_c.c, el_strtran.c, el_strreplace.c}\<close>.

  The program. A web server connects to the program's listening socket and sends requests as records of the
  FastCGI protocol. \<open>os_unix.c\<close> accepts connections and reads and writes descriptors. \<open>fcgiapp.c\<close> makes a
  request of what a connection carries: it decodes the begin record and the parameters, gives the program an
  input stream and two output streams, answers management records on the way, and wraps what the program
  writes into records that end with its exit status. On top of it are three interfaces: \<open>fcgi_stdio.c\<close>, which
  stands in for the C library's \<open>stdio\<close> in CGI programs, \<open>fcgio.cpp\<close>, a C++ stream buffer, and \<open>hb_fcgi_c.c\<close>, the functions a Harbour program
  calls. \<open>el_strtran.c\<close> and \<open>el_strreplace.c\<close> are string functions of that binding.

  How code is modelled. A C function is a function into \<open>option\<close>, with the state it reads and writes passed
  and returned; \<open>None\<close> is a run without a defined result: a failed \<open>ASSERT\<close>, an access outside an object, the
  use of a freed object or a null pointer, a signed overflow, \<open>exit\<close> (in \<open>Sockets\<close> the left side of a sum, with
  the status), or a loop or call that never ends.
  Errors that the code returns are values. A struct is a record, a pointer into a buffer an offset, a pointer
  to a stream or request an option. No loop has fuel: a loop that ends by its form is a \<open>function\<close> with a
  measure, any other a \<open>partial_function (option)\<close>, and that it ends is a theorem wherever it does. The kernel and the peer
  are the record \<open>kernel\<close> of scripts (\<open>Kernel\<close>): what each \<open>read\<close>, \<open>write\<close>, \<open>accept\<close>, \<open>fcntl\<close> and \<open>select\<close> will
  answer; theorems hold for all scripts, so for every way the bytes arrive and every partial write.

  The theories, in the order of the code:
  \<^item> \<open>Prelude\<close>: bytes, C memory, strings, assertions; the simplification collections. \<open>Kernel\<close>: descriptors and the
    blocking \<open>OS_Read\<close>, \<open>OS_Write\<close>, \<open>write_it_all\<close>. \<open>Protocol\<close>: the records of \<open>fastcgi.h\<close> and the \<open>Make...\<close> functions;
    \<open>parse_records\<close> is the specification of a wire.
  \<^item> \<open>Streams\<close>: \<open>FCGX_Stream\<close> and the operations that go through its function pointers; the locales \<open>byte_source\<close>
    and \<open>byte_sink\<close> say what they need of \<open>fillBuffProc\<close> and \<open>emptyBuffProc\<close> and prove what they then do.
    \<open>Alloc\<close>: creating and freeing streams.
  \<^item> \<open>Writer\<close>, \<open>Closing\<close>: \<open>EmptyBuffProc\<close> and \<open>WriteCloseRecords\<close>; interpretations \<open>cooked\<close> and \<open>raw\<close> of \<open>byte_sink\<close>.
  \<^item> \<open>Params\<close>: the parameter vector and \<open>ReadParams\<close>, against \<open>decode_pairs\<close>. \<open>Reader\<close>: \<open>FillBuffProc\<close> and the
    processing of headers, begin and management records. \<open>Refill\<close>, \<open>Demux\<close>, \<open>Fill\<close>, \<open>Source\<close>: it computes the function
    \<open>demux\<close> on the bytes of the connection; interpretations \<open>inner\<close> and \<open>reader\<close> of \<open>byte_source\<close>. \<open>Management\<close>: the
    answer to \<open>FCGI_GET_VALUES\<close>.
  \<^item> \<open>OsUnix\<close>, \<open>Accepting\<close>, \<open>Connections\<close>: accepting, locks, closing, signals of \<open>os_unix.c\<close>, against \<open>next_conn\<close>.
    \<open>Sockets\<close>: opening a listening socket (\<open>OS_CreateLocalIpcFd\<close>, \<open>FCGX_OpenSocket\<close>), connecting to it
    (\<open>OS_FcgiConnect\<close>) and starting an application on it (\<open>OS_SpawnChild\<close>); \<open>net\<close> is the kernel's side of it.
  \<^item> \<open>Request\<close>: \<open>FCGX_Init\<close>, \<open>FCGX_Accept_r\<close>, \<open>FCGX_Finish_r\<close>, \<open>FCGX_Free\<close> and the functions around them. \<open>Respond\<close>: the two
    output streams on one connection, against \<open>peer\<close>. \<open>Handshake\<close>, \<open>Serve\<close>: from the bytes of a connection to a
    request and back to the peer. \<open>Examples\<close>: states for the witnesses.
  \<^item> \<open>Async\<close>, \<open>EventLoop\<close>: the table of asynchronous operations and \<open>OS_DoIo\<close>; the locale \<open>aio_client\<close> is the contract
    of the callbacks, interpreted for scripted callbacks; the relation \<open>aio_step\<close> is a program that posts, closes and
    waits in any order.
  \<^item> \<open>Numerals\<close>, \<open>Printf\<close>, \<open>Formatted\<close>: \<open>FCGX_VFPrintF\<close>, against \<open>c_printf\<close>, the standard's \<open>fprintf\<close>.
  \<^item> \<open>HbFcgi\<close>, \<open>PrintEnv\<close>: the Harbour interface. \<open>StrTran\<close>, \<open>StrReplace\<close>: the string functions, against \<open>str_tran\<close> and
    \<open>str_replace\<close>.
  \<^item> \<open>CStdio\<close>, \<open>FcgiStdio\<close>: the C library's streams, and \<open>fcgi_stdio.c\<close>, which passes calls to them or to a request.
    \<open>StdioCalls\<close>: its functions as calls of a program, and the type of the table of \<open>FCGI_FILE\<close>s. \<open>StdioSame\<close>: the
    locale \<open>standard_streams\<close>, interpreted for the C library's streams (\<open>cgi\<close>) and for a request's (\<open>fastcgi\<close>).
  \<^item> \<open>Fcgio\<close>: \<open>fcgi_streambuf\<close>; the locales \<open>put_area\<close> and \<open>get_area\<close> are what \<open>std::streambuf\<close> needs of its virtual
    functions, with the interpretations \<open>writing\<close> and \<open>reading\<close>.

  What is shown. Output: whatever is written, in whatever portions the descriptor accepts it, decodes to it
  (\<open>writer_round_trip\<close>, \<open>writer_prefix\<close>, \<open>printf_spec\<close>). Input: the streams deliver what \<open>demux\<close> says
  (\<open>input_in_pieces\<close>, \<open>get_line\<close>, \<open>unget\<close>, \<open>params_round_trip\<close>). Whole requests: \<open>serve_request\<close>, \<open>hb_request\<close>,
  \<open>bad_connection_skipped\<close>. Programs: \<open>cgi_same\<close> (the same as CGI and as FastCGI), \<open>stdio_types\<close>, \<open>streambuf_output\<close>, \<open>streambuf_input\<close>. The operating system: \<open>accept_refines\<close>, \<open>os_close\<close>, \<open>client_list\<close>, \<open>same_address\<close>, \<open>spawn_child\<close>,
  \<open>doio_dispatches\<close>, \<open>aio_table\<close>. String functions: \<open>EL_STRTRAN_spec\<close>, \<open>EL_STRREPLACE_spec\<close>. Defects, each on the exact inputs
  that show it: \<open>params_overflow\<close>, \<open>get_values\<close>, \<open>truncated_parameters\<close>, \<open>accept_spins\<close>, \<open>closing_due_stalls\<close>, \<open>printf_wide\<close>,
  \<open>printf_divergences\<close>, \<open>port_wraps\<close>, \<open>long_path_removed\<close>, \<open>failed_accept_dangles\<close>, \<open>freopen_dangles\<close>, \<open>streambuf_after_end\<close>, \<open>variables_after_finish\<close>, \<open>finish_before_wait\<close>, \<open>content_length\<close>, \<open>EL_STRTRAN_changes_case\<close>,
  \<open>EL_STRREPLACE_table_case\<close>.

  Bounds. Sizes that the code keeps in an \<open>int\<close> are checked where they can leave it. A connection's bytes are
  assumed fewer than \<open>2 ^ 28\<close> where \<open>ReadParams\<close> adds lengths; \<open>params_overflow\<close> is what happens beyond. The table of
  \<open>os_unix.c\<close> doubles as an \<open>int\<close>, and descriptors are below 1024, the limit of \<open>select\<close>'s sets.

  Not modelled. \<open>os_win32.c\<close>, the Windows counterpart of \<open>os_unix.c\<close>, and the Windows branches elsewhere.
  \<open>cgi-fcgi\<close> and the examples are not part of these sources. The class of \<open>hb_fcgi.prg\<close> is written in Harbour;
  \<open>incbin.h\<close> is third-party assembler. Buffering inside the C library's \<open>FILE\<close>, what \<open>printf\<close> prints of
  floating-point numbers and pointers, and threads: \<open>fcgiapp.c\<close> keeps requests apart and shares only its static
  variables, which are set once. A signal handler that runs inside \<open>select\<close>: handlers run in \<open>accept\<close> and \<open>fcntl\<close> only. A
  client that never stops sending: what arrives on a descriptor is a finite script, so \<open>OS_Close\<close> ends. The wrap-around of
  \<open>HB_SIZE\<close>: in \<open>EL_STRTRAN\<close> and \<open>EL_STRREPLACE\<close> sizes are unbounded numbers. The flag close-on-exec of a descriptor.
\<close>

section \<open>Output\<close>

text \<open>
  C2: whatever a client writes to a new stream, in whatever sequence of \<open>FCGX_PutChar\<close>,
  \<open>FCGX_PutStr\<close> and \<open>FCGX_FFlush\<close> calls, and closes, is on the connection afterwards as a
  sequence of well-formed FastCGI records: stream records whose contents concatenate to what
  was written, the end-of-stream record (except for a silent \<open>FCGI_STDERR\<close>), and for the last
  writer of the request the end-of-request record with its status. Records are padded to eight
  bytes. The descriptor accepts the bytes in arbitrary portions but does not fail.
\<close>

theorem writer_round_trip:
  assumes "malloc_fits k" "fd_ok (ipcFd r) k" "wx_clean (wx k (ipcFd r))"
    and "0 \<le> t" "t < 256" "0 \<le> requestId r" "requestId r < 65536"
  shows "\<exists>s s1 k1 s2 k2 out chunks.
    NewWriter len t k = Some s
    \<and> run_writes EmptyBuffProc cs s r k = Some (True, s1, r, k1)
    \<and> FCGX_FClose EmptyBuffProc s1 r k1 = Some (0, s2, r\<lparr>nWriters := nWriters r - 1\<rparr>, k2)
    \<and> tx k2 (ipcFd r) = tx k (ipcFd r) @ out
    \<and> parse_records out = Some (map (\<lambda>c. (t, requestId r, c)) chunks @ closing t r (written cs = []))
    \<and> concat chunks = written cs \<and> list_all (\<lambda>c. c \<noteq> [] \<and> length c \<le> 65535) chunks
    \<and> 8 dvd length out"
proof -
  from wr_acc_start [of k r True] assms(1-3) obtain s where
    s: "NewWriter len t k = Some s" "wr_acc False True k r t [] s r k" by blast
  from cooked.run_writes_acc [OF s(2), of cs] obtain s1 r1 k1 where
    w: "run_writes EmptyBuffProc cs s r k = Some (True, s1, r1, k1)"
    and a: "wr_acc False True k r t (written cs) s1 r1 k1" by (auto simp: wr_failed_def)
  have "r1 = r" using a by (simp add: wr_acc_def)
  with FClose_decodes [OF a assms(4-7)] s(1) w show ?thesis by fastforce
qed

theorem writer_round_trip_witness:
  "\<exists>s s1 k1 s2 k2 out chunks.
    NewWriter 8192 FCGI_STDOUT (ex_os [] [TxLimit 3, TxLimit 0]) = Some s
    \<and> run_writes EmptyBuffProc [WStr [72, 105], WFlush, WChar 33] s ex_req (ex_os [] [TxLimit 3, TxLimit 0])
        = Some (True, s1, ex_req, k1)
    \<and> FCGX_FClose EmptyBuffProc s1 ex_req k1 = Some (0, s2, ex_req\<lparr>nWriters := 0\<rparr>, k2)
    \<and> tx k2 5 = out
    \<and> parse_records out = Some (map (\<lambda>c. (FCGI_STDOUT, 1, c)) chunks @
        [(FCGI_STDOUT, 1, []), (FCGI_END_REQUEST, 1, [0, 0, 0, 0, 0, 0, 0, 0])])
    \<and> concat chunks = [72, 105, 33]"
proof -
  have e: "end_body_bytes (MakeEndRequestBody 0 0) = [0, 0, 0, 0, 0, 0, 0, 0]"
    by (simp add: end_body_bytes_def MakeEndRequestBody_def uchar_def numeral_3_eq_3)
  have "wx_clean (wx (ex_os [] [TxLimit 3, TxLimit 0]) (ipcFd ex_req))" by (simp add: wx_clean_def)
  from writer_round_trip [OF _ _ this, of FCGI_STDOUT 8192 "[WStr [72, 105], WFlush, WChar 33]"]
  show ?thesis by (simp add: written_def closing_def e uchar_def) blast
qed

text \<open>
  C9: on a descriptor that may fail at any point, every sequence of writes returns, and what is on the
  connection is a sequence of complete stream records with a prefix of one more; as long as no write
  has failed there is none, and the records carry what has been written up to what is still buffered.
\<close>

theorem writer_prefix:
  assumes "malloc_fits k" "fd_ok (ipcFd r) k"
  shows "\<exists>s ok s1 k1 chunks c n. NewWriter len t k = Some s
    \<and> run_writes EmptyBuffProc cs s r k = Some (ok, s1, r, k1)
    \<and> tx k1 (ipcFd r) = tx k (ipcFd r) @ concat (map (enc_record t (requestId r)) chunks)
        @ take n (enc_record t (requestId r) c)
    \<and> (ok \<longrightarrow> n = 0 \<and> (\<exists>buffered. written cs = concat chunks @ buffered \<and> length buffered \<le> length (buff s1)))
    \<and> (\<not> ok \<longrightarrow> isClosed s1)"
proof -
  from wr_acc_start [of k r False] assms obtain s where
    s: "NewWriter len t k = Some s" "wr_acc False False k r t [] s r k" by blast
  from cooked.run_writes_acc [OF s(2), of cs] obtain ok s1 r1 k1 where
    w: "run_writes EmptyBuffProc cs s r k = Some (ok, s1, r1, k1)"
    and a: "ok \<and> wr_acc False False k r t (written cs) s1 r1 k1 \<or> \<not> ok \<and> wr_failed False k r t s1 r1 k1 \<and> isClosed s1"
    by auto
  from a show ?thesis
  proof (elim disjE conjE)
    assume ok: ok and acc: "wr_acc False False k r t (written cs) s1 r1 k1"
    then obtain chunks where "r1 = r" "wr_shape s1" "written cs = concat chunks @ pending_out s1"
      "wire False (ipcFd r) k (concat (map (enc_record t (requestId r)) chunks)) k1"
      by (auto simp: wr_acc_def)
    then have "tx k1 (ipcFd r) = tx k (ipcFd r) @ concat (map (enc_record t (requestId r)) chunks)
        @ take 0 (enc_record t (requestId r) [])" "length (pending_out s1) \<le> length (buff s1)"
      using wire_tx [of False "ipcFd r" k _ k1] wr_shape_bounds [of s1] by (auto simp: length_pending_out)
    with s(1) w ok \<open>r1 = r\<close> \<open>written cs = _\<close> show ?thesis by blast
  next
    assume ok: "\<not> ok" and "wr_failed False k r t s1 r1 k1" "isClosed s1"
    then obtain chunks c n where "r1 = r" "isClosed s1"
      "wire False (ipcFd r) k (concat (map (enc_record t (requestId r)) chunks) @ take n (enc_record t (requestId r) c)) k1"
      by (auto simp: wr_failed_def)
    then have "tx k1 (ipcFd r) = tx k (ipcFd r) @ concat (map (enc_record t (requestId r)) chunks)
        @ take n (enc_record t (requestId r) c)"
      using wire_tx [of False "ipcFd r" k _ k1] by simp
    with s(1) w ok \<open>r1 = r\<close> \<open>isClosed s1\<close> show ?thesis by blast
  qed
qed

lemma writer_prefix_witness:
  "\<exists>s ok s1 k1 chunks c n. NewWriter 512 FCGI_STDERR (ex_os [] [TxErr 32]) = Some s
    \<and> run_writes EmptyBuffProc [WStr [72], WFlush] s ex_req (ex_os [] [TxErr 32]) = Some (ok, s1, ex_req, k1)
    \<and> tx k1 5 = concat (map (enc_record FCGI_STDERR 1) chunks) @ take n (enc_record FCGI_STDERR 1 c)"
  using writer_prefix [OF ex_os_malloc, of ex_req "[]" "[TxErr 32]" 512 FCGI_STDERR "[WStr [72], WFlush]"]
  by (simp del: run_writes.simps) blast

text \<open>
  A header that \<open>MakeHeader\<close> builds from fields in range is made of eight bytes from which the
  reader gets the fields back; with a content length or padding out of range the assertion fails.
\<close>

theorem header_round_trip:
  assumes "0 \<le> t" "t < 256" "0 \<le> i" "i < 65536"
  shows "case MakeHeader t i n p of
      None \<Rightarrow> n < 0 \<or> 65535 < n \<or> p < 0 \<or> 255 < p
    | Some h \<Rightarrow> length (header_bytes h) = 8 \<and> header_of (header_bytes h) = Some h \<and> uint (version h) = FCGI_VERSION_1
        \<and> uint (rectype h) = t \<and> hdr_requestId h = i \<and> hdr_contentLen h = n \<and> uint (paddingLength h) = p"
proof (cases "MakeHeader t i n p")
  case None
  then show ?thesis using MakeHeader_Some [of n p t i] by force
next
  case (Some h)
  with MakeHeader_fields [OF Some] assms show ?thesis by simp
qed

lemma header_round_trip_witness:
  "\<exists>h. MakeHeader FCGI_STDOUT 513 300 4 = Some h \<and> hdr_requestId h = 513 \<and> hdr_contentLen h = 300
     \<and> uint (paddingLength h) = 4"
proof -
  obtain h where h: "MakeHeader FCGI_STDOUT 513 300 4 = Some h" using MakeHeader_Some [of 300 4] by auto
  with header_round_trip [of FCGI_STDOUT 513 300 4] show ?thesis by simp
qed

section \<open>Input\<close>

text \<open>
  C17: a name-value pair whose lengths add up to more than an \<open>int\<close> holds makes \<open>ReadParams\<close> add them
  all the same: the run has no defined result, whatever the rest of the stream is.
\<close>

theorem params_overflow:
  assumes "rd_src k0 r0 re W E (enc_len n @ enc_len v @ ys) s r k" "params_ok es p"
    "length es + length (enc_len n @ enc_len v @ ys) < 2 ^ 29"
    "n < 2 ^ 31" "v < 2 ^ 31" "INT_MAX < int n + int v + 2"
  shows "ReadParams FillBuffProc p s r k = None"
proof -
  have "enc_len n @ enc_len v @ ys \<noteq> []" by (simp add: enc_len_def)
  then have "decode_pairs (enc_len n @ enc_len v @ ys) = ([], PTooLong)"
    using assms(4-6) by (subst decode_pairs.simps) (simp add: take_len_enc)
  with reader.ReadParams_src [OF assms(1-3)] show ?thesis by simp
qed

text \<open>
  C6: \<open>ReadParams\<close> is inverse to the encoding of name-value pairs: when the stream delivers the encoding
  of a list of pairs, whatever the chunks, it returns 0 and \<open>FCGX_GetParam\<close> then finds for every name
  the value of the first pair of that name.
\<close>

theorem params_round_trip:
  assumes "rd_src k0 r0 re W E (concat (map enc_pair ps)) s r k"
    "list_all (\<lambda>(n, v). length n + length v + 2 < 2 ^ 31) ps" "length (concat (map enc_pair ps)) < 2 ^ 29"
    "\<forall>nv \<in> set ps. 61 \<notin> set (fst nv)"
  shows "\<exists>p p' s' r' k'. NewParams 30 = Some p \<and> ReadParams FillBuffProc p s r k = Some (0, p', s', r', k')
    \<and> (\<forall>name. 0 \<notin> set name \<and> 61 \<notin> set name \<longrightarrow>
         FCGX_GetParam (Some (name @ [0])) (Some (vec p')) = Some (map_option (\<lambda>v. v @ [0]) (map_of ps name)))"
proof -
  obtain p where p: "NewParams 30 = Some p" "params_ok [] p" using NewParams_ok [of 30] by auto
  from reader.ReadParams_src [OF assms(1) p(2) _ decode_pairs_enc_list [OF assms(2)]] assms(3)
  obtain p' s' r' k' where "ReadParams FillBuffProc p s r k = Some (0, p', s', r', k')"
    and p': "params_ok (map entry ps) p'" by auto
  moreover have "FCGX_GetParam (Some (name @ [0])) (Some (vec p')) = Some (map_option (\<lambda>v. v @ [0]) (map_of ps name))"
    if "0 \<notin> set name" "61 \<notin> set name" for name
    using FCGX_GetParam_entries [OF p' _ that(1), of "[]"] lookup_entry_pairs [OF that(2) assms(4)] by simp
  ultimately show ?thesis using p(1) by blast
qed

lemma params_overflow_witness:
  "\<exists>s r k p. ReadParams FillBuffProc p s r k = None \<and> NewParams 30 = Some p"
proof -
  let ?bs = "[4, 0, 1, 0, 8, 0, 0, 255, 255, 255, 255, 255, 255, 255, 255]"
  have e: "enc_len (2 ^ 31 - 1) = [255, 255, 255, 255]" by (simp add: enc_len_def uchar_def)
  have "demux \<lparr>d_junk = (\<lambda>i. 0xAA), d_type = FCGI_PARAMS, d_id = 1, d_begun = True, d_err = -3\<rparr> 0 0 False
      (1 # ?bs) = ([255, 255, 255, 255] @ [255, 255, 255, 255] @ [], [], DFail (-3))"
    by code_simp
  from ex_source [OF this] obtain s where "rd_src (ex_os [Data (1 # ?bs)] []) ex_req None []
      (DFail (-3)) ([255, 255, 255, 255] @ [255, 255, 255, 255] @ []) s ex_req (ex_os [Data (1 # ?bs)] [])" by auto
  then have s: "rd_src (ex_os [Data (1 # ?bs)] []) ex_req None []
      (DFail (-3)) (enc_len (2 ^ 31 - 1) @ enc_len (2 ^ 31 - 1) @ []) s ex_req (ex_os [Data (1 # ?bs)] [])"
    unfolding e .
  obtain p where p: "NewParams 30 = Some p" "params_ok [] p" using NewParams_ok [of 30] by auto
  from params_overflow [OF s p(2)] have "ReadParams FillBuffProc p s ex_req (ex_os [Data (1 # ?bs)] []) = None"
    unfolding e by (simp add: INT_MAX_def)
  with p(1) show ?thesis by blast
qed

lemma params_round_trip_witness:
  "\<exists>s r k p p' s' r' k'. NewParams 30 = Some p \<and> ReadParams FillBuffProc p s r k = Some (0, p', s', r', k')
     \<and> FCGX_GetParam (Some [65, 0]) (Some (vec p')) = Some (Some [66, 67, 0])
     \<and> FCGX_GetParam (Some [66, 0]) (Some (vec p')) = Some None"
proof -
  let ?bs = "[4, 0, 1, 0, 5, 3, 0, 1, 2, 65, 66, 67, 9, 9, 9, 1, 4, 0, 1, 0, 0, 0, 0]"
  have d: "demux \<lparr>d_junk = (\<lambda>i. 0xAA), d_type = FCGI_PARAMS, d_id = 1, d_begun = True, d_err = -3\<rparr> 0 0 False
      (1 # ?bs) = (concat (map enc_pair [([65], [66, 67])]), [], DEof [])"
    by code_simp
  from ex_source [OF d] obtain s where "rd_src (ex_os [Data (1 # ?bs)] []) ex_req None []
      (DEof []) (concat (map enc_pair [([65], [66, 67])])) s ex_req (ex_os [Data (1 # ?bs)] [])" by auto
  from params_round_trip [OF this] obtain p p' s' r' k' where r: "NewParams 30 = Some p"
    "ReadParams FillBuffProc p s ex_req (ex_os [Data (1 # ?bs)] []) = Some (0, p', s', r', k')"
    "\<forall>name. 0 \<notin> set name \<and> 61 \<notin> set name \<longrightarrow>
       FCGX_GetParam (Some (name @ [0])) (Some (vec p')) = Some (map_option (\<lambda>v. v @ [0]) (map_of [([65], [66, 67])] name))"
    by (auto simp: enc_pair_def enc_len_def)
  have "FCGX_GetParam (Some [65, 0]) (Some (vec p')) = Some (Some [66, 67, 0])"
    "FCGX_GetParam (Some [66, 0]) (Some (vec p')) = Some None"
    using r(3) [rule_format, of "[65]"] r(3) [rule_format, of "[66]"] by auto
  with r(1,2) show ?thesis by blast
qed


text \<open>Reading an accepted request's input in pieces.\<close>

fun get_inputs :: "int list \<Rightarrow> Request \<Rightarrow> os \<Rightarrow> (byte list list \<times> Request \<times> os) option" where
  "get_inputs [] q k = Some ([], q, k)"
| "get_inputs (n # ns) q k =
     do { (bs, q, k) \<leftarrow> get_input n q k;
          (bss, q, k) \<leftarrow> get_inputs ns q k;
          Some (bs # bss, q, k) }"

fun pieces :: "int list \<Rightarrow> byte list \<Rightarrow> byte list list" where
  "pieces [] xs = []"
| "pieces (n # ns) xs = take (nat n) xs # pieces ns (drop (nat n) xs)"

lemma get_inputs_src:
  assumes "in_ptr q = Some s" "rd_src k0 r0 re W E xs s (reqData q) k"
  shows "\<exists>q' k'. get_inputs ns q k = Some (pieces ns xs, q', k')"
  using assms
proof (induction ns arbitrary: xs q s k)
  case (Cons n ns)
  from reader.GetStr_src [OF Cons.prems(2), of n] obtain s' r' k' where
    "FCGX_GetStr FillBuffProc n s (reqData q) k = Some (int (min (nat n) (length xs)), take (nat n) xs, s', r', k')"
    "rd_src k0 r0 re W E (drop (nat n) xs) s' r' k'" by blast
  with Cons.IH [of "q\<lparr>in_ptr := Some s', reqData := r'\<rparr>" s' "drop (nat n) xs" k'] Cons.prems(1) show ?case
    by (auto simp: get_input_def)
qed simp

text \<open>
  C4: the input of a request does not depend on how it travels: two connections that deliver the same
  bytes, in whatever portions, and end alike, give every sequence of reads the same bytes, the
  consecutive pieces of the content that \<open>demux\<close> finds.
\<close>

theorem input_in_pieces:
  assumes "libInitialized a" "idle q" "os_ready k" "os_ready k'" "junk k' = junk k"
    "next_for a q k = Some (Conn fd rxs txs, aq, sq)" "next_for a q k' = Some (Conn fd' rxs' txs', aq', sq')"
    "fd < 1024" "fd' < 1024" "wx_clean txs" "wx_clean txs'"
    "rx_bytes rxs' = rx_bytes rxs" "rx_error rxs' = rx_error rxs" "rx_error rxs \<noteq> Some 0" "length (rx_bytes rxs) < 2 ^ 28"
    "handshake (junk k) (rerr (rx_error rxs)) (requestId (reqData q)) (rx_bytes rxs)
      = HsReady rid body ps w (DEof rest)"
    "demux \<lparr>d_junk = junk k, d_type = FCGI_STDIN, d_id = rid, d_begun = True, d_err = rerr (rx_error rxs)\<rparr>
      0 0 False rest = (xs, w2, DEof rest2)"
  shows "\<exists>q1 k1 q2 k2 q1' k1' q2' k2'.
    FCGX_Accept_r a q k = Some (0, q1, k1) \<and> get_inputs ns q1 k1 = Some (pieces ns xs, q2, k2)
    \<and> FCGX_Accept_r a q k' = Some (0, q1', k1') \<and> get_inputs ns q1' k1' = Some (pieces ns xs, q2', k2')"
proof -
  from Accept_r_accepted [OF assms(1,2,3,6,8,10,14,15,16,17)]
  obtain q1 k1 s where a: "FCGX_Accept_r a q k = Some (0, q1, k1)" "in_ptr q1 = Some s"
    "rd_src k1 (reqData q1) (rx_error rxs) w2 (DEof rest2) xs s (reqData q1) k1" by blast
  from Accept_r_accepted [OF assms(1,2,4,7,9,11), unfolded assms(5,12,13), OF assms(14-17)]
  obtain q1' k1' s' where a': "FCGX_Accept_r a q k' = Some (0, q1', k1')" "in_ptr q1' = Some s'"
    "rd_src k1' (reqData q1') (rx_error rxs) w2 (DEof rest2) xs s' (reqData q1') k1'" by blast
  from a a' get_inputs_src [OF a(2,3)] get_inputs_src [OF a'(2,3)] show ?thesis by blast
qed

definition ex_listening2 :: os where
  "ex_listening2 = (ex_os [] [])\<lparr>accq := [AccOk 9 AF_INET 0 (map (\<lambda>b. Data [b]) ex_bytes) []]\<rparr>"

lemma input_in_pieces_witness:
  "\<exists>q1 k1 q2 k2 q1' k1' q2' k2'.
    FCGX_Accept_r ex_app (the_request ex_app) ex_listening = Some (0, q1, k1)
    \<and> get_inputs [1, 5, 2] q1 k1 = Some ([[104], [105], []], q2, k2)
    \<and> FCGX_Accept_r ex_app (the_request ex_app) ex_listening2 = Some (0, q1', k1')
    \<and> get_inputs [1, 5, 2] q1' k1' = Some ([[104], [105], []], q2', k2')"
proof -
  have rx: "rx_bytes (map (\<lambda>b. Data [b]) bs) = bs" "rx_error (map (\<lambda>b. Data [b]) bs) = None" for bs
    by (induction bs) auto
  have r2: "os_ready ex_listening2" "junk ex_listening2 = junk ex_listening"
    by (simp_all add: os_ready_def ex_listening2_def ex_listening_def ex_os_def malloc_fits_def)
  have n2: "next_for ex_app (the_request ex_app) ex_listening2 = Some (Conn 9 (map (\<lambda>b. Data [b]) ex_bytes) [], [], [])"
    by (simp add: next_for_def ex_app_def ex_listening2_def ex_os_def FCGX_InitRequest_def ClientAddrOK_def)
  from input_in_pieces [OF ex_ready(1-3) r2 ex_next n2, of 1 ex_body "[([65], [66])]" "[]" ex_rest "[104, 105]" "[]" "[]" "[1, 5, 2]"]
  show ?thesis
    using ex_handshake ex_input ex_rx ex_ready by (simp add: rx rerr_def wx_clean_def)
qed

text \<open>
  A byte that \<open>FCGX_GetChar\<close> has returned can be put back: \<open>FCGX_UnGetChar\<close> succeeds, and the next
  \<open>FCGX_GetChar\<close> returns the byte again and leaves the stream as it was before; unless the position is
  the one the stream forbids to go back from.
\<close>

theorem unget:
  assumes "FCGX_GetChar fill s r k = Some (c, s', r', k')" "c \<noteq> EOF" "isReader s'" "rdNext s' \<le> stop s'"
    "stopUnget s' \<noteq> Some (rdNext s')"
  shows "\<exists>s2. FCGX_UnGetChar c s' = Some (c, s2) \<and> FCGX_GetChar fill s2 r' k' = Some (c, s', r', k')"
proof -
  from assms(1,2) obtain x where x: "rdNext s' \<noteq> 0" "deref (buff s') (rdNext s' - 1) = Some x" "c = uint x" "\<not> isClosed s'"
    by (auto simp: FCGX_GetChar_def bind_Some_iff Let_def split: if_splits)
  obtain i where i: "rdNext s' = Suc i" using x(1) by (cases "rdNext s'") auto
  with x(2) have "i < length (buff s')" "x = buff s' ! i" by (auto simp: deref_eq_Some)
  then have "memwrite i [uchar c] (buff s') = Some (buff s')" "deref (buff s') i = Some x" "i \<noteq> stop s'"
    using x(3) i assms(4) id_take_nth_drop [of i "buff s'", symmetric] by (auto simp: memwrite_def)
  moreover have "s'\<lparr>rdNext := Suc i\<rparr> = s'" using i by simp
  ultimately have "FCGX_UnGetChar c s' = Some (c, s'\<lparr>rdNext := i\<rparr>)"
    "FCGX_GetChar fill (s'\<lparr>rdNext := i\<rparr>) r' k' = Some (c, s', r', k')"
    using assms(2,3,5) x(3,4) i by (auto simp: FCGX_UnGetChar_def FCGX_GetChar_def)
  then show ?thesis by blast
qed

text \<open>
  C28: \<open>FCGX_GetLine\<close> returns the bytes of the stream up to and including the next newline, at most
  \<open>n - 1\<close> of them, or \<open>NULL\<close> at the end of the stream, and takes just these from the stream.
\<close>

theorem get_line:
  assumes "rd_src k0 r0 re W E xs s r k" "1 < n"
  shows "\<exists>s' r' k'. FCGX_GetLine FillBuffProc n s r k =
      Some (if xs = [] then None else Some (line_of (nat (n - 1)) xs), s', r', k')
    \<and> rd_src k0 r0 re W E (drop (length (line_of (nat (n - 1)) xs)) xs) s' r' k'"
  using assms by (rule reader.GetLine_src)

text \<open>
  Closing a stream a second time sends nothing and changes nothing; it reports the error the
  stream has, if any.
\<close>

theorem close_twice:
  assumes "FCGX_FClose emp s r k = Some (v, s', r', k')"
  shows "\<exists>v'. FCGX_FClose emp s' r' k' = Some (v', s', r', k') \<and> (v' = 0 \<longleftrightarrow> FCGI_errno s' = 0)"
proof -
  from assms have "wasFCloseCalled s'"
    by (auto simp: FCGX_FClose_def bind_Some_iff Let_def split: if_splits)
  then show ?thesis by (simp add: FClose_again EOF_def)
qed

lemma get_line_witness:
  "\<exists>s k s' r' k'. FCGX_GetLine FillBuffProc 80 s ex_req k = Some (Some [104, 10], s', r', k')"
proof -
  from ex_source_hi obtain s where "rd_src (ex_os [Data (1 # [5, 0, 1, 0, 3, 0, 0, 104, 10, 105])] []) ex_req None []
     (DFail (-3)) [104, 10, 105] s ex_req (ex_os [Data (1 # [5, 0, 1, 0, 3, 0, 0, 104, 10, 105])] [])" by blast
  moreover have "line_of (nat (80 - 1)) [104, 10, 105] = [104, 10]" by code_simp
  ultimately show ?thesis using get_line [of _ _ _ _ _ "[104, 10, 105]" s ex_req _ 80] by simp blast
qed

text \<open>A stream with two bytes in its buffer.\<close>

definition ex_stream :: stream where
  "ex_stream = (the (NewReader 32 FCGI_STDIN (ex_os [] [])))\<lparr>buff := [104, 105], stop := 2, buffStop := 2\<rparr>"

lemma unget_witness:
  "\<exists>s' s2. FCGX_GetChar FillBuffProc ex_stream ex_req (ex_os [] []) = Some (104, s', ex_req, ex_os [] [])
     \<and> FCGX_UnGetChar 104 s' = Some (104, s2)
     \<and> FCGX_GetChar FillBuffProc s2 ex_req (ex_os [] []) = Some (104, s', ex_req, ex_os [] [])"
proof -
  have e: "rdNext ex_stream = 0" "stop ex_stream = 2" "isReader ex_stream" "\<not> isClosed ex_stream"
    "buff ex_stream = [104, 105]" "stopUnget ex_stream = Some 0"
    by (simp_all add: ex_stream_def NewReader_def NewStream_def ex_os_def AlignInt8_def INT_MAX_def Let_def)
  have "FCGX_GetChar FillBuffProc ex_stream ex_req (ex_os [] []) = Some (104, ex_stream\<lparr>rdNext := 1\<rparr>, ex_req, ex_os [] [])"
    using e by (simp add: FCGX_GetChar_def)
  with unget [OF this] e show ?thesis by (simp add: EOF_def)
qed

lemma close_twice_witness:
  "\<exists>s s' k'. FCGX_FClose EmptyBuffProc s ex_req (ex_os [] []) = Some (0, s', ex_req\<lparr>nWriters := 0\<rparr>, k')
    \<and> FCGX_FClose EmptyBuffProc s' (ex_req\<lparr>nWriters := 0\<rparr>) k' = Some (0, s', ex_req\<lparr>nWriters := 0\<rparr>, k')"
proof -
  have "malloc_fits (ex_os [] [])" "fd_ok (ipcFd ex_req) (ex_os [] [])" "wx_clean (wx (ex_os [] []) (ipcFd ex_req))"
    by (simp_all add: wx_clean_def)
  from wr_acc_start [OF this(1,2), of True] this(3) obtain s where
    "wr_acc False True (ex_os [] []) ex_req FCGI_STDOUT [] s ex_req (ex_os [] [])" by blast
  from FClose_acc [OF this] obtain s' k' where
    c: "FCGX_FClose EmptyBuffProc s ex_req (ex_os [] []) = Some (0, s', ex_req\<lparr>nWriters := 0\<rparr>, k')" by auto
  moreover from c have "FCGI_errno s' = 0"
    by (auto simp: FCGX_FClose_def bind_Some_iff Let_def EOF_def split: if_splits)
  ultimately show ?thesis using close_twice [OF c] by auto
qed

section \<open>Bad connections\<close>

text \<open>
  C8: a connection that gives no request, because it does not begin one, asks for an unknown role, or
  sends parameters that end inside a pair, is closed, and \<open>FCGX_Accept_r\<close>'s loop goes on with the next
  connection: no descriptor is left open.
\<close>

theorem bad_connection_skipped:
  assumes "idle q" "os_ready k" "next_for a q k = Some (Conn fd rxs txs, aq, sq)" "wx_clean txs" "fd < 1024"
    "rx_error rxs \<noteq> Some 0" "length (rx_bytes rxs) < 2 ^ 28"
    "handshake (junk k) (rerr (rx_error rxs)) (requestId (reqData q)) (rx_bytes rxs) = HsRetry"
  shows "\<exists>q1 k1. Accept_loop (webServerAddressList a) q k = Accept_loop (webServerAddressList a) q1 k1
    \<and> idle q1 \<and> os_ready k1 \<and> open_fds k1 = open_fds k \<and> accq k1 = aq"
  using Accept_loop_retry [OF assms] by blast

text \<open>
  C18: a connection that breaks off in the middle of the parameters, at the end of a pair, is accepted all
  the same: \<open>FCGX_Accept_r\<close> returns 0 with the pairs that have arrived as the environment, as if they
  were all.
\<close>

theorem truncated_parameters:
  assumes "libInitialized a" "idle q" "os_ready k" "next_for a q k = Some (Conn fd rxs txs, aq, sq)"
    "wx_clean txs" "rx_error rxs \<noteq> Some 0" "length (rx_bytes rxs) < 2 ^ 28"
    "handshake (junk k) (rerr (rx_error rxs)) (requestId (reqData q)) (rx_bytes rxs) = HsReady rid body ps w (DFail e)"
  shows "\<exists>q1 k1. FCGX_Accept_r a q k = Some (0, q1, k1) \<and> env_is (role_pair (body_role body) # ps) q1"
  using Accept_r_ready [OF assms] by blast

definition ex_conn :: "byte list \<Rightarrow> os" where
  "ex_conn bs = (ex_os [] [])\<lparr>accq := [AccOk 7 AF_INET 0 [Data bs] []]\<rparr>"

lemma ex_conn_ready: "os_ready (ex_conn bs)" "junk (ex_conn bs) = (\<lambda>i. 0xAA)" "open_fds (ex_conn bs) = {5}"
  by (simp_all add: os_ready_def ex_conn_def ex_os_def malloc_fits_def)

lemma ex_conn_next: "next_for ex_app (the_request ex_app) (ex_conn bs) = Some (Conn 7 [Data bs] [], [], [])"
  by (simp add: next_for_def ex_app_def ex_conn_def ex_os_def FCGX_InitRequest_def ClientAddrOK_def)

lemma truncated_parameters_witness:
  "\<exists>q1 k1. FCGX_Accept_r ex_app (the_request ex_app) (ex_conn (1 # tl (take 28 ex_bytes))) = Some (0, q1, k1)
    \<and> env_is [role_pair FCGI_RESPONDER, ([65], [66])] q1"
proof -
  have h: "handshake (\<lambda>i. 0xAA) (-3) 0 (1 # tl (take 28 ex_bytes)) = HsReady 1 ex_body [([65], [66])] [] (DFail (-3))"
    and b: "body_role ex_body = FCGI_RESPONDER"
    by code_simp+
  have "length (1 # tl (take 28 ex_bytes)) < 2 ^ 28" by (simp add: ex_bytes_def)
  with truncated_parameters [OF ex_ready(1,2) ex_conn_ready(1) ex_conn_next, of "1 # tl (take 28 ex_bytes)" 1 ex_body
      "[([65], [66])]" "[]" "-3"] h ex_ready(5)
  show ?thesis by (simp add: ex_conn_ready(2) wx_clean_def rerr_def b)
qed

lemma bad_connection_skipped_witness:
  "\<exists>q1 k1. Accept_loop None (the_request ex_app) (ex_conn [1, 9, 0]) = Accept_loop None q1 k1 \<and> idle q1 \<and> open_fds k1 = {5}"
proof -
  have h: "handshake (\<lambda>i. 0xAA) (-3) 0 [1, 9, 0] = HsRetry" by code_simp
  have n: "webServerAddressList ex_app = None" by (simp add: ex_app_def)
  from bad_connection_skipped [OF ex_ready(2) ex_conn_ready(1) ex_conn_next, of "[1, 9, 0]"] h ex_ready(5) show ?thesis
    by (simp add: ex_conn_ready(2,3) wx_clean_def rerr_def n) blast
qed

end
